(* ===== verification/Prelude.thy ===== *)
theory Prelude
  imports Main "HOL-Library.Word" "HOL-Library.Signed_Division"
begin

text \<open>
  Shared ground of the development: the lemma collections the component theories add to, Go's
  64-bit integers and the arithmetic the source does on them, the list functions of Go's
  \<open>slices\<close> package, and a generic locale for machines driven by a sequence of inputs.

  A Go \<open>int\<close> or \<open>int64\<close> is a \<open>64 word\<close> read with \<open>sint\<close>, so its addition wraps as Go's does.
  Indices and lengths of strings and lists are \<open>nat\<close>, since a Go length never exceeds memory.
\<close>

named_theorems go_defs \<open>definitions of Go's own library functions\<close>
named_theorems denies \<open>facts saying that an undecided or absent value denies\<close>

subsection \<open>64-bit integers\<close>

type_synonym int64 = "64 word"

definition max_int64 :: int where "max_int64 = 9223372036854775807"
definition min_int64 :: int where "min_int64 = - 9223372036854775808"

lemma sint_range64: "min_int64 \<le> sint (x :: int64)" "sint (x :: int64) \<le> max_int64"
  using sint_greater_eq [of x] sint_lt [of x]
  by (simp_all add: min_int64_def max_int64_def)

lemma sint_of_int64:
  "min_int64 \<le> i \<Longrightarrow> i \<le> max_int64 \<Longrightarrow> sint (word_of_int i :: int64) = i"
  by (simp add: signed_of_int signed_take_bit_int_eq_self min_int64_def max_int64_def)

definition int_of_bool :: "bool \<Rightarrow> int64" where
  "int_of_bool b = (if b then 1 else 0)"

text \<open>Go's \<open>min\<close> and \<open>max\<close> on signed integers.\<close>

definition min64 :: "int64 \<Rightarrow> int64 \<Rightarrow> int64" where
  "min64 a b = (if sint b < sint a then b else a)"

definition max64 :: "int64 \<Rightarrow> int64 \<Rightarrow> int64" where
  "max64 a b = (if sint a < sint b then b else a)"

lemma sint_min64 [simp]: "sint (min64 a b) = min (sint a) (sint b)"
  by (simp add: min64_def)

lemma sint_max64 [simp]: "sint (max64 a b) = max (sint a) (sint b)"
  by (simp add: max64_def)

subsection \<open>Lists, as Go's slices package treats them\<close>

text \<open>
  \<open>slices.Sort\<close> on a type with a total order gives the list \<open>sort\<close> gives, and \<open>slices.Compact\<close>
  drops repeated neighbours, which is \<open>remdups_adj\<close>.
\<close>

definition sort_compact :: "'a::linorder list \<Rightarrow> 'a list" where
  "sort_compact xs = remdups_adj (sort xs)"

lemma set_sort_compact [simp]: "set (sort_compact xs) = set xs"
  by (simp add: sort_compact_def)

lemma sort_compact_strict: "sorted (sort_compact xs) \<and> distinct (sort_compact xs)"
proof -
  have "sorted (remdups_adj (sort xs))" by (simp add: sorted_remdups_adj)
  moreover have "distinct (remdups_adj ys)" if "sorted ys" for ys :: "'a list"
    using that by (induction ys rule: remdups_adj.induct) auto
  ultimately show ?thesis by (simp add: sort_compact_def)
qed

lemma sorted_sort_compact [simp]: "sorted (sort_compact xs)"
  and distinct_sort_compact [simp]: "distinct (sort_compact xs)"
  using sort_compact_strict by blast+

lemma sort_compact_Nil [simp]: "sort_compact [] = []"
  by (simp add: sort_compact_def)

lemma sort_compact_eq_Nil [simp]: "sort_compact xs = [] \<longleftrightarrow> xs = []"
  by (metis set_empty set_sort_compact)

text \<open>Dropping repeats of what a map has seen, in the order given.\<close>

fun first_seen :: "'a set \<Rightarrow> 'a list \<Rightarrow> 'a list" where
  "first_seen seen [] = []"
| "first_seen seen (x # xs) =
     (if x \<in> seen then first_seen seen xs else x # first_seen (insert x seen) xs)"

lemma set_first_seen [simp]: "set (first_seen seen xs) = set xs - seen"
  by (induction seen xs rule: first_seen.induct) auto

lemma distinct_first_seen [simp]: "distinct (first_seen seen xs)"
  by (induction seen xs rule: first_seen.induct) auto

text \<open>The first index whose element satisfies a predicate, and a binary search's answer.\<close>

definition index_func :: "('a \<Rightarrow> bool) \<Rightarrow> 'a list \<Rightarrow> nat option" where
  "index_func p xs = (let n = length (takeWhile (\<lambda>x. \<not> p x) xs) in if n < length xs then Some n else None)"

definition search_first :: "('a \<Rightarrow> bool) \<Rightarrow> 'a list \<Rightarrow> nat" where
  "search_first p xs = length (takeWhile (\<lambda>x. \<not> p x) xs)"

lemma index_func_Some:
  "index_func p xs = Some i \<longleftrightarrow> i < length xs \<and> p (xs ! i) \<and> (\<forall>j < i. \<not> p (xs ! j))"
proof (induction xs arbitrary: i)
  case Nil
  then show ?case by (simp add: index_func_def)
next
  case (Cons x xs)
  show ?case
  proof (cases "p x")
    case True
    then show ?thesis by (cases i) (auto simp: index_func_def)
  next
    case False
    then have "index_func p (x # xs) = map_option Suc (index_func p xs)"
      by (simp add: index_func_def Let_def)
    then show ?thesis
      using False Cons by (cases i) (auto simp: less_Suc_eq_0_disj)
  qed
qed

lemma index_func_None: "index_func p xs = None \<longleftrightarrow> (\<forall>x \<in> set xs. \<not> p x)"
proof -
  have "length (takeWhile (\<lambda>x. \<not> p x) xs) = length xs \<longleftrightarrow> (\<forall>x \<in> set xs. \<not> p x)"
    by (induction xs) auto
  then show ?thesis
    using length_takeWhile_le [of "\<lambda>x. \<not> p x" xs]
    by (auto simp: index_func_def Let_def le_less)
qed

lemma search_first_le [simp]: "search_first p xs \<le> length xs"
  by (simp add: search_first_def length_takeWhile_le)

subsection \<open>Machines driven by inputs\<close>

text \<open>
  A component whose operations each take a state and an input and return the next state. An
  invariant every operation keeps holds after any sequence of inputs.
\<close>

locale machine =
  fixes step :: "'s \<Rightarrow> 'i \<Rightarrow> 's"
    and good :: "'s \<Rightarrow> bool"
  assumes step_good: "good s \<Longrightarrow> good (step s i)"
begin

lemma run_good: "good s \<Longrightarrow> good (foldl step s is)"
  by (induction "is" arbitrary: s) (auto intro: step_good)

lemma every_prefix_good: "good s \<Longrightarrow> good (foldl step s (take n is))"
  by (rule run_good)

end

end
