(* ===== verification/Sensitivity.thy ===== *)
theory Sensitivity
  imports Prelude
begin

text \<open>
  \<open>core/sensitivity\<close>: sender class, content flags and scan state, the Sensitivity that combines them
  and the Body a released message body travels in. The fields are negative, as in the source, so the
  zero value of each type is its most restrictive one. The lemmas show that a value nobody built
  denies, what \<open>New\<close> refuses, and that a Body with text exists only for a releasing Sensitivity.
\<close>

record sender_class =
  normal :: bool

definition zero_sender_class :: sender_class where
  "zero_sender_class = \<lparr>normal = False\<rparr>"

definition normal_sender :: sender_class where
  "normal_sender = \<lparr>normal = True\<rparr>"

definition restricted_sender :: sender_class where
  "restricted_sender = zero_sender_class"

definition restricted :: "sender_class \<Rightarrow> bool" where
  "restricted c \<longleftrightarrow> \<not> normal c"

record content_flags =
  no_mfa_code :: bool
  no_login_link :: bool

definition zero_flags :: content_flags where
  "zero_flags = \<lparr>no_mfa_code = False, no_login_link = False\<rparr>"

definition flags_of :: "bool \<Rightarrow> bool \<Rightarrow> content_flags" where
  "flags_of mfa link = \<lparr>no_mfa_code = \<not> mfa, no_login_link = \<not> link\<rparr>"

definition no_flags :: content_flags where
  "no_flags = flags_of False False"

definition mfa_code :: "content_flags \<Rightarrow> bool" where
  "mfa_code f \<longleftrightarrow> \<not> no_mfa_code f"

definition login_link :: "content_flags \<Rightarrow> bool" where
  "login_link f \<longleftrightarrow> \<not> no_login_link f"

definition any_flag :: "content_flags \<Rightarrow> bool" where
  "any_flag f \<longleftrightarrow> mfa_code f \<or> login_link f"

datatype scan_state = Pending | Scanned | SkippedGate | SkippedRestricted | Refused

fun scan_state_string :: "scan_state \<Rightarrow> string" where
  "scan_state_string Scanned = ''scanned''"
| "scan_state_string SkippedGate = ''skipped_gate''"
| "scan_state_string SkippedRestricted = ''skipped_restricted''"
| "scan_state_string Refused = ''refused''"
| "scan_state_string Pending = ''pending''"

record sensitivity =
  s_class :: sender_class
  s_flags :: content_flags
  s_scan :: scan_state

definition zero_sensitivity :: sensitivity where
  "zero_sensitivity = \<lparr>s_class = zero_sender_class, s_flags = zero_flags, s_scan = Pending\<rparr>"

datatype sensitivity_error = ErrFlagsWithoutScan | ErrNormalSkippedRestricted | ErrBodyWithheld

definition new_sensitivity ::
  "sender_class \<Rightarrow> content_flags \<Rightarrow> scan_state \<Rightarrow> sensitivity_error + sensitivity" where
  "new_sensitivity class flags scan =
     (if any_flag flags \<and> scan \<noteq> Scanned then Inl ErrFlagsWithoutScan
      else if \<not> restricted class \<and> scan = SkippedRestricted then Inl ErrNormalSkippedRestricted
      else Inr \<lparr>s_class = class, s_flags = flags, s_scan = scan\<rparr>)"

definition releases_body :: "sensitivity \<Rightarrow> bool" where
  "releases_body s =
     (if restricted (s_class s) \<or> any_flag (s_flags s) then False
      else case s_scan s of
          Scanned \<Rightarrow> True
        | SkippedGate \<Rightarrow> True
        | Pending \<Rightarrow> False
        | SkippedRestricted \<Rightarrow> False
        | Refused \<Rightarrow> False)"

record body =
  body_text :: string

definition zero_body :: body where
  "zero_body = \<lparr>body_text = []\<rparr>"

definition new_body :: "string \<Rightarrow> sensitivity \<Rightarrow> sensitivity_error + body" where
  "new_body text s =
     (if \<not> releases_body s then Inl ErrBodyWithheld else Inr \<lparr>body_text = text\<rparr>)"

subsection \<open>Facts\<close>

lemmas class_defs =
  zero_sender_class_def normal_sender_def restricted_sender_def restricted_def
lemmas flag_defs =
  zero_flags_def flags_of_def no_flags_def mfa_code_def login_link_def any_flag_def

lemma restricted_simps [simp]:
  "restricted restricted_sender" "restricted zero_sender_class" "\<not> restricted normal_sender"
  by (simp_all add: class_defs)

lemma flags_of_simps [simp]:
  "mfa_code (flags_of m l) = m" "login_link (flags_of m l) = l" "any_flag (flags_of m l) \<longleftrightarrow> m \<or> l"
  by (simp_all add: flag_defs)

lemma flags_of_self [simp]: "flags_of (mfa_code f) (login_link f) = f"
  by (simp add: flag_defs)

lemma flags_eq_iff: "f = g \<longleftrightarrow> mfa_code f = mfa_code g \<and> login_link f = login_link g"
  by (auto simp: flag_defs)

lemma zero_denies [denies]: "any_flag zero_flags" "\<not> releases_body zero_sensitivity"
  by (simp_all add: flag_defs releases_body_def zero_sensitivity_def)

lemma releases_body_iff:
  "releases_body s \<longleftrightarrow> \<not> restricted (s_class s) \<and> \<not> any_flag (s_flags s)
     \<and> s_scan s \<in> {Scanned, SkippedGate}"
  by (auto simp: releases_body_def split: scan_state.splits)

lemma class_cases: "c = normal_sender \<or> c = restricted_sender"
  by (cases c) (auto simp: class_defs)

lemma scan_state_string_inject [simp]: "scan_state_string a = scan_state_string b \<longleftrightarrow> a = b"
  by (cases a; cases b) simp_all

text \<open>The states a Sensitivity that \<open>New\<close> returned can be in.\<close>

definition sensitivity_ok :: "sensitivity \<Rightarrow> bool" where
  "sensitivity_ok s \<longleftrightarrow> (any_flag (s_flags s) \<longrightarrow> s_scan s = Scanned)
     \<and> (s_scan s = SkippedRestricted \<longrightarrow> restricted (s_class s))"

lemma new_sensitivity_iff:
  "new_sensitivity c f sc = Inr s \<longleftrightarrow>
     s = \<lparr>s_class = c, s_flags = f, s_scan = sc\<rparr> \<and> sensitivity_ok s"
  by (auto simp: new_sensitivity_def sensitivity_ok_def)

lemma new_body_iff:
  "new_body t s = Inr b \<longleftrightarrow> releases_body s \<and> b = \<lparr>body_text = t\<rparr>"
  by (auto simp: new_body_def)

end
