(* ===== verification/Authorize.thy ===== *)
theory Authorize
  imports Sensitivity
begin

text \<open>
  \<open>core/authorize\<close>: the Mutation Authorizer's matrix. A verb is a byte in the source, so \<open>OtherVerb\<close>
  stands for every value no constant names, beside the zero \<open>NoVerb\<close>. The lemmas give the matrix as
  one equivalence.
\<close>

datatype verb = NoVerb | LabelVerb | Unlabel | Move | MarkRead | Star | Archive | TrashVerb | SpamVerb
  | OtherVerb

fun verb_string :: "verb \<Rightarrow> string" where
  "verb_string LabelVerb = ''label''"
| "verb_string Unlabel = ''unlabel''"
| "verb_string Move = ''move''"
| "verb_string MarkRead = ''mark_read''"
| "verb_string Star = ''star''"
| "verb_string Archive = ''archive''"
| "verb_string TrashVerb = ''trash''"
| "verb_string SpamVerb = ''spam''"
| "verb_string NoVerb = ''no verb''"
| "verb_string OtherVerb = ''no verb''"

datatype authorize_reason = UnknownVerb | AuthorizeRestricted | Authorized

fun authorize_reason_string :: "authorize_reason \<Rightarrow> string" where
  "authorize_reason_string AuthorizeRestricted = ''restricted sender''"
| "authorize_reason_string Authorized = ''authorized''"
| "authorize_reason_string UnknownVerb = ''unknown verb''"

record authorize_verdict =
  av_reason :: authorize_reason

definition zero_authorize_verdict :: authorize_verdict where
  "zero_authorize_verdict = \<lparr>av_reason = UnknownVerb\<rparr>"

definition is_authorized :: "authorize_verdict \<Rightarrow> bool" where
  "is_authorized v = (case av_reason v of
      Authorized \<Rightarrow> True
    | UnknownVerb \<Rightarrow> False
    | AuthorizeRestricted \<Rightarrow> False)"

fun authorize_decide :: "verb \<Rightarrow> sender_class \<Rightarrow> authorize_verdict" where
  "authorize_decide NoVerb class = \<lparr>av_reason = UnknownVerb\<rparr>"
| "authorize_decide OtherVerb class = \<lparr>av_reason = UnknownVerb\<rparr>"
| "authorize_decide verb class =
     (if verb \<in> {LabelVerb, Unlabel, Move, MarkRead, Star} then \<lparr>av_reason = Authorized\<rparr>
      else if restricted class then \<lparr>av_reason = AuthorizeRestricted\<rparr>
      else \<lparr>av_reason = Authorized\<rparr>)"

text \<open>The verbs that only organize, which is the right a restricted sender's mail keeps.\<close>

definition organizing :: "verb set" where
  "organizing = {LabelVerb, Unlabel, Move, MarkRead, Star}"

definition removing :: "verb set" where
  "removing = {Archive, TrashVerb, SpamVerb}"

lemma zero_verdict_denies [denies]: "\<not> is_authorized zero_authorize_verdict"
  by (simp add: is_authorized_def zero_authorize_verdict_def)

lemma is_authorized_iff [simp]: "is_authorized v \<longleftrightarrow> av_reason v = Authorized"
  by (simp add: is_authorized_def split: authorize_reason.splits)

text \<open>
  A mutation is authorized exactly when its verb organizes, or removes a message from view and
  the sender is not restricted. No value outside the named verbs is ever authorized.
\<close>

lemma authorize_matrix:
  "is_authorized (authorize_decide v c) \<longleftrightarrow>
     v \<in> organizing \<or> (v \<in> removing \<and> \<not> restricted c)"
  by (cases v) (simp_all add: organizing_def removing_def)

end
