(* ===== verification/GoText.thy ===== *)
theory GoText
  imports Prelude "HOL-Library.Char_ord" "HOL-Library.List_Lexorder"
begin

text \<open>
  Go's strings and what the source uses of the packages \<open>strings\<close>, \<open>unicode/utf8\<close>, \<open>unicode\<close> and
  \<open>strconv\<close>. A Go string is its bytes, so it is a \<open>string\<close>, a list of 8-bit characters, and its
  length counts bytes. Ranging over a string decodes UTF-8, an invalid byte giving U+FFFD of width 1.

  The classification of code points from 128 up is Unicode's tables. They are the fields of a record
  \<open>unicode\<close> the definitions that read them take, and the ASCII range is written out here, so every
  statement about ASCII text holds whatever the tables say. U+FFFD, which an invalid byte decodes to,
  is a symbol in every version of the tables, so it is never a letter.
\<close>

subsection \<open>Bytes\<close>

abbreviation byte :: "char \<Rightarrow> nat" where "byte c \<equiv> of_char c"
abbreviation chr :: "nat \<Rightarrow> char" where "chr n \<equiv> char_of n"

definition ascii_digit :: "nat \<Rightarrow> bool" where
  "ascii_digit n \<longleftrightarrow> 48 \<le> n \<and> n \<le> 57"
definition ascii_lower :: "nat \<Rightarrow> bool" where
  "ascii_lower n \<longleftrightarrow> 97 \<le> n \<and> n \<le> 122"
definition ascii_upper :: "nat \<Rightarrow> bool" where
  "ascii_upper n \<longleftrightarrow> 65 \<le> n \<and> n \<le> 90"

definition lower_ascii :: "nat \<Rightarrow> nat" where
  "lower_ascii n = (if ascii_upper n then n + 32 else n)"

definition ascii_only :: "string \<Rightarrow> bool" where
  "ascii_only s \<longleftrightarrow> (\<forall>c \<in> set s. byte c < 128)"

lemmas [go_defs] = ascii_digit_def ascii_lower_def ascii_upper_def lower_ascii_def

subsection \<open>UTF-8\<close>

definition rune_error :: nat where "rune_error = 65533"

definition cont_byte :: "nat \<Rightarrow> bool" where
  "cont_byte b \<longleftrightarrow> 128 \<le> b \<and> b \<le> 191"

text \<open>\<open>utf8.DecodeRuneInString\<close>, the rune and how many bytes it takes, by its first byte.\<close>

fun decode2 :: "nat \<Rightarrow> string \<Rightarrow> nat \<times> nat" where
  "decode2 b0 (c1 # _) =
     (if cont_byte (byte c1) then ((b0 - 192) * 64 + (byte c1 - 128), 2) else (rune_error, 1))"
| "decode2 b0 _ = (rune_error, 1)"

fun decode3 :: "nat \<Rightarrow> string \<Rightarrow> nat \<times> nat" where
  "decode3 b0 (c1 # c2 # _) =
     (if (if b0 = 224 then 160 else 128) \<le> byte c1 \<and> byte c1 \<le> (if b0 = 237 then 159 else 191)
        \<and> cont_byte (byte c2)
      then ((b0 - 224) * 4096 + (byte c1 - 128) * 64 + (byte c2 - 128), 3) else (rune_error, 1))"
| "decode3 b0 _ = (rune_error, 1)"

fun decode4 :: "nat \<Rightarrow> string \<Rightarrow> nat \<times> nat" where
  "decode4 b0 (c1 # c2 # c3 # _) =
     (if (if b0 = 240 then 144 else 128) \<le> byte c1 \<and> byte c1 \<le> (if b0 = 244 then 143 else 191)
        \<and> cont_byte (byte c2) \<and> cont_byte (byte c3)
      then ((b0 - 240) * 262144 + (byte c1 - 128) * 4096 + (byte c2 - 128) * 64 + (byte c3 - 128), 4)
      else (rune_error, 1))"
| "decode4 b0 _ = (rune_error, 1)"

definition decode_rune :: "string \<Rightarrow> nat \<times> nat" where
  "decode_rune s = (case s of
      [] \<Rightarrow> (rune_error, 0)
    | c # t \<Rightarrow>
      (let b0 = byte c in
       if b0 < 128 then (b0, 1)
       else if 194 \<le> b0 \<and> b0 \<le> 223 then decode2 b0 t
       else if 224 \<le> b0 \<and> b0 \<le> 239 then decode3 b0 t
       else if 240 \<le> b0 \<and> b0 \<le> 244 then decode4 b0 t
       else (rune_error, 1)))"

lemma decode_rune_Nil [simp]: "decode_rune [] = (rune_error, 0)"
  by (simp add: decode_rune_def)

lemma decode_tail_width:
  "0 < snd (decode2 b t) \<and> snd (decode2 b t) \<le> Suc (length t)"
  "0 < snd (decode3 b t) \<and> snd (decode3 b t) \<le> Suc (length t)"
  "0 < snd (decode4 b t) \<and> snd (decode4 b t) \<le> Suc (length t)"
    apply (cases "(b, t)" rule: decode2.cases; simp)
   apply (cases "(b, t)" rule: decode3.cases; simp)
  apply (cases "(b, t)" rule: decode4.cases; simp)
  done

lemma decode_rune_width:
  "s \<noteq> [] \<Longrightarrow> 0 < snd (decode_rune s) \<and> snd (decode_rune s) \<le> length s"
  using decode_tail_width by (cases s) (simp_all add: decode_rune_def Let_def)

lemma decode_rune_ascii [simp]: "byte c < 128 \<Longrightarrow> decode_rune (c # s) = (byte c, 1)"
  by (simp add: decode_rune_def)

text \<open>\<open>for i, r := range s\<close>: each rune with the byte offset it starts at and its width.\<close>

function range_from :: "nat \<Rightarrow> string \<Rightarrow> (nat \<times> nat \<times> nat) list" where
  "range_from i s =
     (if s = [] then []
      else let (r, w) = decode_rune s in (i, r, w) # range_from (i + w) (drop w s))"
  by pat_completeness auto
termination
  by (relation "measure (\<lambda>(i, s). length s)")
     (auto simp: prod_eq_iff dest!: decode_rune_width)

declare range_from.simps [simp del]

definition range_string :: "string \<Rightarrow> (nat \<times> nat \<times> nat) list" where
  "range_string s = range_from 0 s"

definition runes :: "string \<Rightarrow> nat list" where
  "runes s = map (\<lambda>(i, r, w). r) (range_string s)"

lemma runes_ascii: "ascii_only s \<Longrightarrow> runes s = map byte s"
proof -
  have "map (\<lambda>(i, r, w). r) (range_from i s) = map byte s" if "ascii_only s" for i
    using that
  proof (induction s arbitrary: i)
    case (Cons c s)
    then show ?case by (subst range_from.simps) (simp add: ascii_only_def)
  qed (simp add: range_from.simps)
  then show "ascii_only s \<Longrightarrow> ?thesis" by (simp add: runes_def range_string_def)
qed

text \<open>\<open>utf8.EncodeRune\<close>, a surrogate or an out-of-range value encoding as U+FFFD.\<close>

definition encode_rune :: "nat \<Rightarrow> string" where
  "encode_rune n =
     (if n < 128 then [chr n]
      else if n < 2048 then [chr (192 + n div 64), chr (128 + n mod 64)]
      else if (55296 \<le> n \<and> n \<le> 57343) \<or> 1114111 < n then [CHR 0xEF, CHR 0xBF, CHR 0xBD]
      else if n < 65536 then
        [chr (224 + n div 4096), chr (128 + n div 64 mod 64), chr (128 + n mod 64)]
      else [chr (240 + n div 262144), chr (128 + n div 4096 mod 64),
            chr (128 + n div 64 mod 64), chr (128 + n mod 64)])"

text \<open>
  \<open>utf8.DecodeLastRuneInString\<close>: back to the nearest byte that can start a rune, at most four bytes,
  and a rune that does not end the string is an invalid last byte.
\<close>

definition last_rune_start :: "string \<Rightarrow> nat" where
  "last_rune_start s =
     (let n = length s;
          cand = filter (\<lambda>k. k \<le> n \<and> \<not> cont_byte (byte (s ! (n - k)))) [1, 2, 3, 4]
      in case cand of [] \<Rightarrow> n - 1 | k # _ \<Rightarrow> n - k)"

definition decode_last_rune :: "string \<Rightarrow> nat \<times> nat" where
  "decode_last_rune s =
     (if s = [] then (rune_error, 0)
      else let i = last_rune_start s; (r, w) = decode_rune (drop i s)
           in if i + w = length s then (r, w) else (rune_error, 1))"

subsection \<open>Unicode's tables\<close>

record unicode =
  u_letter :: "nat \<Rightarrow> bool"   \<comment> \<open>\<open>unicode.IsLetter\<close> from 128 up\<close>
  u_digit :: "nat \<Rightarrow> bool"    \<comment> \<open>\<open>unicode.IsDigit\<close> from 128 up\<close>
  u_mark :: "nat \<Rightarrow> bool"     \<comment> \<open>\<open>unicode.IsMark\<close> from 128 up\<close>
  u_lower :: "nat \<Rightarrow> nat"     \<comment> \<open>\<open>unicode.ToLower\<close> from 128 up\<close>
  u_same :: "nat \<Rightarrow> nat \<Rightarrow> bool" \<comment> \<open>one orbit of \<open>unicode.SimpleFold\<close>, one of the two from 128 up\<close>
  u_quote :: "string \<Rightarrow> string" \<comment> \<open>\<open>strconv.Quote\<close>, whose escapes read the printable table\<close>

definition is_letter :: "unicode \<Rightarrow> nat \<Rightarrow> bool" where
  "is_letter u r = (if r < 128 then ascii_lower r \<or> ascii_upper r else r \<noteq> rune_error \<and> u_letter u r)"
definition is_digit_rune :: "unicode \<Rightarrow> nat \<Rightarrow> bool" where
  "is_digit_rune u r = (if r < 128 then ascii_digit r else u_digit u r)"
definition is_mark :: "unicode \<Rightarrow> nat \<Rightarrow> bool" where
  "is_mark u r = (128 \<le> r \<and> u_mark u r)"
definition lower_rune :: "unicode \<Rightarrow> nat \<Rightarrow> nat" where
  "lower_rune u r = (if r < 128 then lower_ascii r else u_lower u r)"
definition same_fold :: "unicode \<Rightarrow> nat \<Rightarrow> nat \<Rightarrow> bool" where
  "same_fold u a b \<longleftrightarrow> a = b \<or>
     (if a < 128 \<and> b < 128 then lower_ascii a = lower_ascii b else u_same u a b)"

text \<open>The tables of a build that knows no code point past ASCII, for concrete evaluations.\<close>

definition ascii_tables :: unicode where
  "ascii_tables = \<lparr>u_letter = (\<lambda>_. False), u_digit = (\<lambda>_. False), u_mark = (\<lambda>_. False),
     u_lower = (\<lambda>r. r), u_same = (\<lambda>_ _. False),
     u_quote = (\<lambda>s. [CHR 0x22] @ s @ [CHR 0x22])\<rparr>"

subsection \<open>Package strings\<close>

definition has_prefix :: "string \<Rightarrow> string \<Rightarrow> bool" where
  "has_prefix s p \<longleftrightarrow> take (length p) s = p"

definition has_suffix :: "string \<Rightarrow> string \<Rightarrow> bool" where
  "has_suffix s p \<longleftrightarrow> length p \<le> length s \<and> drop (length s - length p) s = p"

definition cut_prefix :: "string \<Rightarrow> string \<Rightarrow> string option" where
  "cut_prefix s p = (if has_prefix s p then Some (drop (length p) s) else None)"

definition trim_suffix :: "string \<Rightarrow> string \<Rightarrow> string" where
  "trim_suffix s p = (if has_suffix s p then take (length s - length p) s else s)"

definition last_index_byte :: "string \<Rightarrow> char \<Rightarrow> nat option" where
  "last_index_byte s c =
     (let t = dropWhile (\<lambda>x. x \<noteq> c) (rev s) in if t = [] then None else Some (length t - 1))"

definition index_byte :: "string \<Rightarrow> char \<Rightarrow> nat option" where
  "index_byte s c = index_func (\<lambda>x. x = c) s"

text \<open>\<open>strings.Index\<close> and \<open>strings.Cut\<close>.\<close>

fun index_string :: "string \<Rightarrow> string \<Rightarrow> nat option" where
  "index_string [] p = (if p = [] then Some 0 else None)"
| "index_string (c # s) p =
     (if has_prefix (c # s) p then Some 0 else map_option Suc (index_string s p))"

definition cut_string :: "string \<Rightarrow> string \<Rightarrow> string \<times> string \<times> bool" where
  "cut_string s p = (case index_string s p of
      None \<Rightarrow> (s, [], False)
    | Some i \<Rightarrow> (take i s, drop (i + length p) s, True))"

text \<open>\<open>strings.ReplaceAll\<close> of a text that is not empty.\<close>

function replace_all :: "string \<Rightarrow> string \<Rightarrow> string \<Rightarrow> string" where
  "replace_all s old new =
     (if s = [] then []
      else if old \<noteq> [] \<and> has_prefix s old then new @ replace_all (drop (length old) s) old new
      else hd s # replace_all (tl s) old new)"
  by pat_completeness auto
termination
  by (relation "measure (\<lambda>(s, old, new). length s)") auto

declare replace_all.simps [simp del]

text \<open>\<open>strings.Split\<close> by a single byte, which gives one empty piece for the empty string.\<close>

fun split_byte :: "char \<Rightarrow> string \<Rightarrow> string list" where
  "split_byte c [] = [[]]"
| "split_byte c (x # s) =
     (if x = c then [] # split_byte c s
      else case split_byte c s of [] \<Rightarrow> [[x]] | p # ps \<Rightarrow> (x # p) # ps)"

text \<open>\<open>strings.TrimRight\<close>, \<open>TrimLeft\<close> and \<open>Trim\<close> with a cutset of ASCII bytes.\<close>

definition trim_left :: "string \<Rightarrow> string \<Rightarrow> string" where
  "trim_left s cs = dropWhile (\<lambda>c. c \<in> set cs) s"
definition trim_right :: "string \<Rightarrow> string \<Rightarrow> string" where
  "trim_right s cs = rev (dropWhile (\<lambda>c. c \<in> set cs) (rev s))"
definition trim_set :: "string \<Rightarrow> string \<Rightarrow> string" where
  "trim_set s cs = trim_left (trim_right s cs) cs"

text \<open>\<open>strings.TrimSpace\<close>, which trims Unicode's white space, a fixed set, at both ends.\<close>

definition space_rune :: "nat \<Rightarrow> bool" where
  "space_rune r \<longleftrightarrow> r \<in> {9, 10, 11, 12, 13, 32, 133, 160, 5760, 8232, 8233, 8239, 8287, 12288} \<or>
     (8192 \<le> r \<and> r \<le> 8202)"

function trim_space_left :: "string \<Rightarrow> string" where
  "trim_space_left s =
     (if s \<noteq> [] \<and> space_rune (fst (decode_rune s))
      then trim_space_left (drop (snd (decode_rune s)) s) else s)"
  by pat_completeness auto
termination
  by (relation "measure length") (auto dest: decode_rune_width)

function trim_space_right :: "string \<Rightarrow> string" where
  "trim_space_right s =
     (if s \<noteq> [] \<and> space_rune (fst (decode_last_rune s))
      then trim_space_right (take (length s - max 1 (snd (decode_last_rune s))) s) else s)"
  by pat_completeness auto
termination
  by (relation "measure length") auto

declare trim_space_left.simps [simp del] trim_space_right.simps [simp del]

definition trim_space :: "string \<Rightarrow> string" where
  "trim_space s = trim_space_right (trim_space_left s)"

lemma trim_space_Nil [simp]: "trim_space [] = []"
  by (simp add: trim_space_def trim_space_left.simps trim_space_right.simps)

text \<open>
  \<open>strings.ToLower\<close>. An ASCII string is mapped byte by byte, and any other rune by rune, an invalid
  byte becoming U+FFFD.
\<close>

definition to_lower :: "unicode \<Rightarrow> string \<Rightarrow> string" where
  "to_lower u s =
     (if ascii_only s then map (\<lambda>c. chr (lower_ascii (byte c))) s
      else concat (map (\<lambda>r. encode_rune (lower_rune u r)) (runes s)))"

text \<open>\<open>strings.EqualFold\<close>, rune by rune.\<close>

definition equal_fold :: "unicode \<Rightarrow> string \<Rightarrow> string \<Rightarrow> bool" where
  "equal_fold u s t = list_all2 (same_fold u) (runes s) (runes t)"

subsection \<open>Package strconv\<close>

fun digits_of :: "nat \<Rightarrow> string" where
  "digits_of n = (if n < 10 then [chr (48 + n)] else digits_of (n div 10) @ [chr (48 + n mod 10)])"

declare digits_of.simps [simp del]

definition format_int :: "int \<Rightarrow> string" where
  "format_int i = (if i < 0 then CHR ''-'' # digits_of (nat (- i)) else digits_of (nat i))"

definition digits_value :: "string \<Rightarrow> nat" where
  "digits_value s = foldl (\<lambda>a c. a * 10 + (byte c - 48)) 0 s"

text \<open>\<open>strconv.ParseInt\<close> in base 10 for an integer of \<open>bits\<close> bits, and \<open>Atoi\<close> for 64.\<close>

definition parse_int :: "nat \<Rightarrow> string \<Rightarrow> int option" where
  "parse_int bits s =
     (let (neg, d) = (case s of [] \<Rightarrow> (False, [])
                      | c # t \<Rightarrow> if c = CHR ''-'' then (True, t)
                                else if c = CHR ''+'' then (False, t) else (False, s));
          v = int (digits_value d)
      in if d = [] \<or> \<not> (\<forall>c \<in> set d. ascii_digit (byte c)) then None
         else if neg then (if v \<le> 2 ^ (bits - 1) then Some (- v) else None)
         else (if v < 2 ^ (bits - 1) then Some v else None))"

definition atoi :: "string \<Rightarrow> int option" where
  "atoi s = parse_int 64 s"

end
