(* ===== verification/Policy.thy ===== *)
theory Policy
  imports GoText
begin

text \<open>
  \<open>core/policy\<close>: the rows of the policy tables, their validation, the immutable snapshot they load
  into, the policy an account's decisions are made against, and the swap of an update. A snapshot's
  overlays are a map from account to rules, as the Go map. The lemmas show that validation accepts
  exactly the rows a declarative predicate describes, that a swap changes nothing unless every row is
  valid, that every snapshot a process can hold is well formed, and that composing drops no base rule.
\<close>

definition restricted_class :: string where
  "restricted_class = ''restricted''"

record row =
  row_account :: string
  row_id :: string
  row_class :: string
  row_suffixes :: "string list"

datatype scope = NoScope | BaseScope | AccountScope

fun scope_string :: "scope \<Rightarrow> string" where
  "scope_string BaseScope = ''base''"
| "scope_string AccountScope = ''account''"
| "scope_string NoScope = []"

record rule =
  rule_id :: string
  rule_suffixes :: "string list"
  rule_scope :: scope

record snapshot =
  sn_loaded :: bool
  sn_base :: "rule list"
  sn_overlays :: "string \<rightharpoonup> rule list"

definition zero_snapshot :: snapshot where
  "zero_snapshot = \<lparr>sn_loaded = False, sn_base = [], sn_overlays = Map.empty\<rparr>"

record composed =
  c_loaded :: bool
  c_rules :: "rule list"

definition zero_composed :: composed where
  "zero_composed = \<lparr>c_loaded = False, c_rules = []\<rparr>"

definition restricts_all :: "composed \<Rightarrow> bool" where
  "restricts_all c \<longleftrightarrow> \<not> c_loaded c"

text \<open>Reading a Go map of lists, where a missing key is the nil list.\<close>

definition overlay_of :: "(string \<rightharpoonup> rule list) \<Rightarrow> string \<Rightarrow> rule list" where
  "overlay_of m a = (case m a of None \<Rightarrow> [] | Some rs \<Rightarrow> rs)"

lemma overlay_of_empty [simp]: "overlay_of Map.empty a = []"
  by (simp add: overlay_of_def)

text \<open>\<open>Snapshot.For\<close>.\<close>

definition snapshot_for :: "snapshot \<Rightarrow> string \<Rightarrow> composed" where
  "snapshot_for s account =
     (if \<not> sn_loaded s \<or> account = [] then zero_composed
      else \<lparr>c_loaded = True, c_rules = sn_base s @ overlay_of (sn_overlays s) account\<rparr>)"

subsection \<open>Equality by value\<close>

fun join_with :: "string \<Rightarrow> string list \<Rightarrow> string" where
  "join_with sep [] = []"
| "join_with sep [x] = x"
| "join_with sep (x # y # ys) = x @ sep @ join_with sep (y # ys)"

definition canonical_rule :: "unicode \<Rightarrow> rule \<Rightarrow> string" where
  "canonical_rule u r = u_quote u (rule_id r) @ '' '' @ join_with '' '' (sort (rule_suffixes r))"

definition canonical :: "unicode \<Rightarrow> rule list \<Rightarrow> string list" where
  "canonical u rules = sort (map (canonical_rule u) rules)"

definition composed_equal :: "unicode \<Rightarrow> composed \<Rightarrow> composed \<Rightarrow> bool" where
  "composed_equal u c d =
     (if c_loaded c \<noteq> c_loaded d then False
      else canonical u (c_rules c) = canonical u (c_rules d))"

subsection \<open>Validation\<close>

datatype problem_kind =
  BlankIdentifier | RepeatedIdentifier | OtherClass | NoSuffix | InvalidSuffix

record problem =
  p_row :: nat
  p_kind :: problem_kind
  p_suffix :: string

definition problem_of :: "nat \<Rightarrow> problem_kind \<Rightarrow> problem" where
  "problem_of i k = \<lparr>p_row = i, p_kind = k, p_suffix = []\<rparr>"

definition valid_suffix :: "unicode \<Rightarrow> string \<Rightarrow> bool" where
  "valid_suffix u suffix =
     (if suffix = [] then False
      else list_all (\<lambda>label. label \<noteq> [] \<and>
             list_all (\<lambda>r. is_letter u r \<or> is_digit_rune u r \<or> is_mark u r \<or> r = byte CHR ''-'')
               (runes label))
           (split_byte CHR ''.'' suffix))"

definition row_problems :: "unicode \<Rightarrow> nat \<Rightarrow> (string \<times> string) set \<Rightarrow> row \<Rightarrow> problem list" where
  "row_problems u i seen row =
     (if row_id row = [] \<or> trim_space (row_id row) \<noteq> row_id row then [problem_of i BlankIdentifier] else [])
   @ (if (row_account row, row_id row) \<in> seen then [problem_of i RepeatedIdentifier] else [])
   @ (if row_class row \<noteq> restricted_class then [problem_of i OtherClass] else [])
   @ (if row_suffixes row = [] then [problem_of i NoSuffix] else [])
   @ map (\<lambda>s. \<lparr>p_row = i, p_kind = InvalidSuffix, p_suffix = s\<rparr>)
       (filter (\<lambda>s. \<not> valid_suffix u s) (row_suffixes row))"

fun validate_from :: "unicode \<Rightarrow> nat \<Rightarrow> (string \<times> string) set \<Rightarrow> row list \<Rightarrow> problem list" where
  "validate_from u i seen [] = []"
| "validate_from u i seen (row # rows) =
     row_problems u i seen row
     @ validate_from u (Suc i) (insert (row_account row, row_id row) seen) rows"

definition validate :: "unicode \<Rightarrow> row list \<Rightarrow> problem list" where
  "validate u rows = validate_from u 0 {} rows"

text \<open>The wording of a problem with the row it is about.\<close>

fun describe_kind :: "unicode \<Rightarrow> problem_kind \<Rightarrow> string \<Rightarrow> row \<Rightarrow> string" where
  "describe_kind u BlankIdentifier s row = '' has an empty identifier or one with surrounding space''"
| "describe_kind u RepeatedIdentifier s row = '' repeats an identifier within its scope''"
| "describe_kind u OtherClass s row =
     '' has the class '' @ u_quote u (row_class row) @ '', and the only class is '' @ u_quote u restricted_class"
| "describe_kind u NoSuffix s row = '' has no domain suffix''"
| "describe_kind u InvalidSuffix s row =
     '' has the domain suffix '' @ u_quote u s @ '', which is not a domain name''"

definition describe :: "unicode \<Rightarrow> problem \<Rightarrow> row \<Rightarrow> string" where
  "describe u p row =
     ''rule '' @ digits_of (p_row p) @ '' ('' @ u_quote u (row_id row) @ '')''
     @ describe_kind u (p_kind p) (p_suffix p) row"

subsection \<open>Loading and swapping\<close>

definition add_row :: "snapshot \<Rightarrow> row \<Rightarrow> snapshot" where
  "add_row s row =
     (let r = \<lparr>rule_id = row_id row, rule_suffixes = row_suffixes row, rule_scope = NoScope\<rparr>
      in if row_account row = []
         then s\<lparr>sn_base := sn_base s @ [r\<lparr>rule_scope := BaseScope\<rparr>]\<rparr>
         else s\<lparr>sn_overlays := (sn_overlays s)
                (row_account row \<mapsto> overlay_of (sn_overlays s) (row_account row) @ [r\<lparr>rule_scope := AccountScope\<rparr>])\<rparr>)"

definition load_rows :: "unicode \<Rightarrow> row list \<Rightarrow> snapshot \<times> string list" where
  "load_rows u rows =
     (foldl add_row \<lparr>sn_loaded = True, sn_base = [], sn_overlays = Map.empty\<rparr> rows,
      map (\<lambda>p. describe u p (rows ! p_row p)) (validate u rows))"

definition load :: "unicode \<Rightarrow> row list \<Rightarrow> string list + snapshot" where
  "load u rows = (let (s, problems) = load_rows u rows
                  in if problems \<noteq> [] then Inl problems else Inr s)"

record outcome =
  o_accepted :: bool
  o_problems :: "string list"

definition swap :: "unicode \<Rightarrow> snapshot \<Rightarrow> row list \<Rightarrow> snapshot \<times> outcome" where
  "swap u active rows =
     (let (next, problems) = load_rows u rows
      in if problems \<noteq> [] then (active, \<lparr>o_accepted = False, o_problems = problems\<rparr>)
         else (next, \<lparr>o_accepted = True, o_problems = []\<rparr>))"

subsection \<open>What validation accepts\<close>

definition valid_row :: "unicode \<Rightarrow> row \<Rightarrow> bool" where
  "valid_row u row \<longleftrightarrow> row_id row \<noteq> [] \<and> trim_space (row_id row) = row_id row
     \<and> row_class row = restricted_class \<and> row_suffixes row \<noteq> []
     \<and> (\<forall>s \<in> set (row_suffixes row). valid_suffix u s)"

definition row_key :: "row \<Rightarrow> string \<times> string" where
  "row_key row = (row_account row, row_id row)"

definition valid_rows :: "unicode \<Rightarrow> row list \<Rightarrow> bool" where
  "valid_rows u rows \<longleftrightarrow> (\<forall>row \<in> set rows. valid_row u row) \<and> distinct (map row_key rows)"

lemma row_problems_Nil:
  "row_problems u i seen row = [] \<longleftrightarrow> valid_row u row \<and> row_key row \<notin> seen"
  by (auto simp: row_problems_def valid_row_def row_key_def filter_empty_conv)

lemma validate_from_Nil:
  "validate_from u i seen rows = [] \<longleftrightarrow>
     (\<forall>row \<in> set rows. valid_row u row \<and> row_key row \<notin> seen) \<and> distinct (map row_key rows)"
proof (induction rows arbitrary: i seen)
  case Nil
  then show ?case by simp
next
  case (Cons row rows)
  show ?case
    by (auto simp: Cons.IH row_problems_Nil row_key_def [of row, symmetric] image_iff; metis)
qed

lemma validate_Nil: "validate u rows = [] \<longleftrightarrow> valid_rows u rows"
  by (auto simp: validate_def validate_from_Nil valid_rows_def)

lemma load_rows_problems: "snd (load_rows u rows) = [] \<longleftrightarrow> valid_rows u rows"
  by (simp add: load_rows_def validate_Nil)

text \<open>Every problem is about a row there is, so its wording reads no row out of range.\<close>

lemma row_problems_row: "p \<in> set (row_problems u i seen row) \<Longrightarrow> p_row p = i"
  by (auto simp: row_problems_def problem_of_def split: if_splits)

lemma validate_from_row:
  "p \<in> set (validate_from u i seen rows) \<Longrightarrow> i \<le> p_row p \<and> p_row p < i + length rows"
  by (induction rows arbitrary: i seen) (fastforce dest: row_problems_row)+

lemma validate_in_range: "p \<in> set (validate u rows) \<Longrightarrow> p_row p < length rows"
  by (auto simp: validate_def dest: validate_from_row)

subsection \<open>The snapshot the rows describe\<close>

definition rule_of :: "row \<Rightarrow> rule" where
  "rule_of row = \<lparr>rule_id = row_id row, rule_suffixes = row_suffixes row,
     rule_scope = (if row_account row = [] then BaseScope else AccountScope)\<rparr>"

definition rules_of :: "string \<Rightarrow> row list \<Rightarrow> rule list" where
  "rules_of a rows = map rule_of (filter (\<lambda>row. row_account row = a) rows)"

lemma add_row_parts:
  "sn_loaded (add_row s row) = sn_loaded s"
  "sn_base (add_row s row) = sn_base s @ (if row_account row = [] then [rule_of row] else [])"
  "a \<noteq> [] \<Longrightarrow> overlay_of (sn_overlays (add_row s row)) a =
     overlay_of (sn_overlays s) a @ (if row_account row = a then [rule_of row] else [])"
  "sn_overlays s [] = None \<Longrightarrow> sn_overlays (add_row s row) [] = None"
  by (auto simp: add_row_def rule_of_def Let_def overlay_of_def)

lemma fold_rows_parts:
  "sn_loaded (foldl add_row s rows) = sn_loaded s"
  "sn_base (foldl add_row s rows) = sn_base s @ rules_of [] rows"
  "a \<noteq> [] \<Longrightarrow> overlay_of (sn_overlays (foldl add_row s rows)) a =
     overlay_of (sn_overlays s) a @ rules_of a rows"
  by (induction rows arbitrary: s) (simp_all add: add_row_parts rules_of_def)

lemma load_rows_for:
  "a \<noteq> [] \<Longrightarrow> snapshot_for (fst (load_rows u rows)) a =
     \<lparr>c_loaded = True, c_rules = rules_of [] rows @ rules_of a rows\<rparr>"
  by (simp add: snapshot_for_def load_rows_def fold_rows_parts)

text \<open>
  A snapshot every process can hold: either nothing was ever loaded, or valid rows were.
\<close>

definition snapshot_ok :: "unicode \<Rightarrow> snapshot \<Rightarrow> bool" where
  "snapshot_ok u s \<longleftrightarrow> s = zero_snapshot \<or> (\<exists>rows. valid_rows u rows \<and> s = fst (load_rows u rows))"

lemma swap_cases:
  "swap u active rows =
     (if valid_rows u rows then (fst (load_rows u rows), \<lparr>o_accepted = True, o_problems = []\<rparr>)
      else (active, \<lparr>o_accepted = False, o_problems = snd (load_rows u rows)\<rparr>))"
  using load_rows_problems [of u rows] by (simp add: swap_def case_prod_beta Let_def)

lemma swap_ok: "snapshot_ok u s \<Longrightarrow> snapshot_ok u (fst (swap u s rows))"
  by (auto simp: swap_cases snapshot_ok_def)

interpretation policy_updates: machine "\<lambda>s rows. fst (swap u s rows)" "snapshot_ok u"
  by unfold_locales (rule swap_ok)

lemma valid_rows_rule:
  "valid_rows u rows \<Longrightarrow> r \<in> set (rules_of a rows) \<Longrightarrow>
     rule_id r \<noteq> [] \<and> rule_suffixes r \<noteq> [] \<and> (\<forall>s \<in> set (rule_suffixes r). valid_suffix u s)"
  by (auto simp: valid_rows_def rules_of_def rule_of_def valid_row_def)

lemma zero_policy_denies [denies]: "restricts_all (snapshot_for zero_snapshot a)"
  by (simp add: snapshot_for_def zero_snapshot_def restricts_all_def zero_composed_def)

lemma unnamed_account_denies [denies]: "restricts_all (snapshot_for s [])"
  by (simp add: snapshot_for_def restricts_all_def zero_composed_def)

end
