(* ===== verification/Classify.thy ===== *)
theory Classify
  imports Sensitivity Policy
begin

text \<open>
  \<open>core/classify\<close>: the sender classifier. The packages that decode punycode and hold the
  public-suffix list arrive as the record \<open>lookups\<close>, whose functions return None for an error, as the
  source takes them. The lemmas show which senders are restricted, that a name matches a suffix at
  label boundaries only, and that restrictions accumulate as rules are added.
\<close>

record lookups =
  l_to_unicode :: "string \<Rightarrow> string option"
  l_to_ascii :: "string \<Rightarrow> string option"
  l_registrable :: "string \<Rightarrow> string option"

datatype classify_reason = Unclassifiable | NoPolicy | Listed | Unlisted

fun classify_reason_string :: "classify_reason \<Rightarrow> string" where
  "classify_reason_string NoPolicy = ''no policy''"
| "classify_reason_string Listed = ''listed''"
| "classify_reason_string Unlisted = ''unlisted''"
| "classify_reason_string Unclassifiable = ''unclassifiable''"

record classify_verdict =
  cv_class :: sender_class
  cv_reason :: classify_reason
  cv_rule :: string
  cv_scope :: scope

definition zero_classify_verdict :: classify_verdict where
  "zero_classify_verdict = \<lparr>cv_class = zero_sender_class, cv_reason = Unclassifiable,
     cv_rule = [], cv_scope = NoScope\<rparr>"

datatype name = Name (form: string)

definition under :: "name \<Rightarrow> name \<Rightarrow> bool" where
  "under n suffix \<longleftrightarrow> form n \<noteq> [] \<and>
     (form n = form suffix \<or> has_suffix (form n) (CHR ''.'' # form suffix))"

definition normalize :: "unicode \<Rightarrow> string \<Rightarrow> lookups \<Rightarrow> string option" where
  "normalize u domain l =
     (let d = trim_suffix domain ''.''
      in if d = [] then None
         else case l_to_unicode l d of None \<Rightarrow> None | Some x \<Rightarrow> Some (to_lower u x))"

definition sender_name :: "unicode \<Rightarrow> string \<Rightarrow> lookups \<Rightarrow> name option" where
  "sender_name u domain l =
     (case normalize u domain l of
        None \<Rightarrow> None
      | Some n \<Rightarrow> (case l_to_ascii l n of
          None \<Rightarrow> None
        | Some ascii \<Rightarrow> (case l_registrable l ascii of
            None \<Rightarrow> None
          | Some _ \<Rightarrow> Some (Name n))))"

definition suffix_name :: "unicode \<Rightarrow> string \<Rightarrow> lookups \<Rightarrow> name" where
  "suffix_name u suffix l =
     (case normalize u suffix l of None \<Rightarrow> Name (to_lower u suffix) | Some n \<Rightarrow> Name n)"

record prepared =
  pr_id :: string
  pr_scope :: scope
  pr_suffixes :: "name list"

record policy =
  pol_composed :: composed
  pol_rules :: "prepared list"
  pol_lookups :: lookups

definition prepare :: "unicode \<Rightarrow> composed \<Rightarrow> lookups \<Rightarrow> policy" where
  "prepare u p l =
     (if restricts_all p then \<lparr>pol_composed = p, pol_rules = [], pol_lookups = l\<rparr>
      else \<lparr>pol_composed = p,
            pol_rules = map (\<lambda>r. \<lparr>pr_id = rule_id r, pr_scope = rule_scope r,
                                  pr_suffixes = map (\<lambda>s. suffix_name u s l) (rule_suffixes r)\<rparr>) (c_rules p),
            pol_lookups = l\<rparr>)"

text \<open>The double loop over rules and their suffixes, which returns at the first match.\<close>

fun first_match :: "name \<Rightarrow> prepared list \<Rightarrow> prepared option" where
  "first_match sender [] = None"
| "first_match sender (r # rs) =
     (if list_ex (under sender) (pr_suffixes r) then Some r else first_match sender rs)"

definition classify :: "unicode \<Rightarrow> policy \<Rightarrow> string \<Rightarrow> classify_verdict" where
  "classify u p address =
     (if restricts_all (pol_composed p)
      then zero_classify_verdict\<lparr>cv_class := restricted_sender, cv_reason := NoPolicy\<rparr>
      else case last_index_byte address CHR ''@'' of
        None \<Rightarrow> zero_classify_verdict
      | Some at \<Rightarrow> (case sender_name u (drop (at + 1) address) (pol_lookups p) of
          None \<Rightarrow> zero_classify_verdict
        | Some sender \<Rightarrow> (case first_match sender (pol_rules p) of
            Some r \<Rightarrow> \<lparr>cv_class = restricted_sender, cv_reason = Listed, cv_rule = pr_id r, cv_scope = pr_scope r\<rparr>
          | None \<Rightarrow> \<lparr>cv_class = normal_sender, cv_reason = Unlisted, cv_rule = [], cv_scope = NoScope\<rparr>)))"

subsection \<open>Which senders are restricted\<close>

text \<open>The name the classifier reads in an address, None where it cannot.\<close>

definition address_name :: "unicode \<Rightarrow> lookups \<Rightarrow> string \<Rightarrow> name option" where
  "address_name u l address =
     (case last_index_byte address CHR ''@'' of
        None \<Rightarrow> None | Some at \<Rightarrow> sender_name u (drop (at + 1) address) l)"

lemma first_match_None:
  "first_match n rs = None \<longleftrightarrow> (\<forall>r \<in> set rs. \<forall>s \<in> set (pr_suffixes r). \<not> under n s)"
  by (induction rs) (auto simp: list_ex_iff)

lemma first_match_Some:
  "first_match n rs = Some r \<Longrightarrow> r \<in> set rs \<and> (\<exists>s \<in> set (pr_suffixes r). under n s)"
  by (induction rs) (auto simp: list_ex_iff split: if_splits)

lemma classify_by_name:
  "classify u p address =
     (if restricts_all (pol_composed p)
      then zero_classify_verdict\<lparr>cv_class := restricted_sender, cv_reason := NoPolicy\<rparr>
      else case address_name u (pol_lookups p) address of
        None \<Rightarrow> zero_classify_verdict
      | Some n \<Rightarrow> (case first_match n (pol_rules p) of
          Some r \<Rightarrow> \<lparr>cv_class = restricted_sender, cv_reason = Listed, cv_rule = pr_id r, cv_scope = pr_scope r\<rparr>
        | None \<Rightarrow> \<lparr>cv_class = normal_sender, cv_reason = Unlisted, cv_rule = [], cv_scope = NoScope\<rparr>))"
  by (simp add: classify_def address_name_def split: option.split)

lemma prepare_parts [simp]:
  "pol_composed (prepare u p l) = p" "pol_lookups (prepare u p l) = l"
  by (simp_all add: prepare_def)

lemma prepare_match:
  "\<not> restricts_all p \<Longrightarrow>
     first_match n (pol_rules (prepare u p l)) = None \<longleftrightarrow>
     (\<forall>r \<in> set (c_rules p). \<forall>s \<in> set (rule_suffixes r). \<not> under n (suffix_name u s l))"
  by (auto simp: prepare_def first_match_None)

text \<open>The specification: what a policy restricts, stated with no loop and no verdict.\<close>

definition restricts :: "unicode \<Rightarrow> lookups \<Rightarrow> composed \<Rightarrow> string \<Rightarrow> bool" where
  "restricts u l p address \<longleftrightarrow> restricts_all p \<or>
     (case address_name u l address of
        None \<Rightarrow> True
      | Some n \<Rightarrow> \<exists>r \<in> set (c_rules p). \<exists>s \<in> set (rule_suffixes r). under n (suffix_name u s l))"

lemma classify_restricts:
  "restricted (cv_class (classify u (prepare u p l) address)) \<longleftrightarrow> restricts u l p address"
proof -
  have "restricted (cv_class zero_classify_verdict)"
    by (simp add: zero_classify_verdict_def)
  moreover have "first_match n (pol_rules (prepare u p l)) = Some r \<Longrightarrow> \<not> restricts_all p \<Longrightarrow>
      \<exists>r \<in> set (c_rules p). \<exists>s \<in> set (rule_suffixes r). under n (suffix_name u s l)" for n r
    using prepare_match [of p n u l] by fastforce
  ultimately show ?thesis
    using prepare_match [of p _ u l]
    by (fastforce simp: classify_by_name restricts_def split: option.splits)
qed

lemma classify_unlisted_iff:
  "cv_reason (classify u p a) = Unlisted \<longleftrightarrow> \<not> restricted (cv_class (classify u p a))"
  by (auto simp: classify_by_name zero_classify_verdict_def split: option.split)

lemma classify_no_policy: "cv_reason (classify u (prepare u c l) a) = NoPolicy \<longleftrightarrow> \<not> c_loaded c"
  by (auto simp: classify_by_name zero_classify_verdict_def restricts_all_def split: option.split)

lemma classify_names:
  "cv_reason (classify u p a) \<noteq> Listed \<Longrightarrow> cv_rule (classify u p a) = [] \<and> cv_scope (classify u p a) = NoScope"
  by (auto simp: classify_by_name zero_classify_verdict_def split: option.splits)

lemma classify_listed:
  assumes "cv_reason (classify u (prepare u c l) a) = Listed"
  shows "list_ex (\<lambda>r. rule_id r = cv_rule (classify u (prepare u c l) a) \<and>
      rule_scope r = cv_scope (classify u (prepare u c l) a) \<and>
      list_ex (\<lambda>s. under (the (address_name u l a)) (suffix_name u s l)) (rule_suffixes r)) (c_rules c)"
proof -
  obtain n r where n: "address_name u l a = Some n" and r: "first_match n (pol_rules (prepare u c l)) = Some r"
    and v: "cv_rule (classify u (prepare u c l) a) = pr_id r" "cv_scope (classify u (prepare u c l) a) = pr_scope r"
    using assms by (auto simp: classify_by_name zero_classify_verdict_def split: option.splits if_splits)
  from first_match_Some [OF r] obtain r' where "r' \<in> set (c_rules c)" "pr_id r = rule_id r'"
      "pr_scope r = rule_scope r'" "\<exists>s \<in> set (rule_suffixes r'). under n (suffix_name u s l)"
    by (auto simp: prepare_def split: if_splits) blast
  then show ?thesis unfolding v n list_ex_iff by auto
qed

lemma restricts_mono:
  assumes "restricts u l p a" "\<not> restricts_all p \<longrightarrow> set (c_rules p) \<subseteq> set (c_rules q)"
    and "restricts_all p \<longrightarrow> restricts_all q"
  shows "restricts u l q a"
  using assms by (fastforce simp: restricts_def split: option.splits)

lemma zero_policy_restricts [denies]:
  "restricted (cv_class (classify u (prepare u zero_composed l) a))"
  by (simp add: classify_restricts restricts_def restricts_all_def zero_composed_def)

subsection \<open>Label boundaries\<close>

lemma split_byte_nonempty [simp]: "split_byte c s \<noteq> []"
  by (cases s) (auto split: list.split)

lemma split_byte_append:
  "split_byte c (s @ c # t) = split_byte c s @ split_byte c t"
  by (induction s) (auto split: list.split)

lemma split_byte_join: "split_byte c s = ps \<Longrightarrow> join_with [c] ps = s"
proof (induction s arbitrary: ps)
  case Nil
  then show ?case by auto
next
  case (Cons x s)
  obtain q qs where q: "split_byte c s = q # qs" by (cases "split_byte c s") auto
  then have j: "join_with [c] (q # qs) = s" using Cons.IH by simp
  show ?case
  proof (cases "x = c")
    case True
    then show ?thesis using Cons.prems j q by auto
  next
    case False
    then show ?thesis using Cons.prems j q by (cases qs) auto
  qed
qed

lemma split_byte_inject: "split_byte c s = split_byte c t \<Longrightarrow> s = t"
  using split_byte_join by metis

lemma join_with_append:
  "ps \<noteq> [] \<Longrightarrow> qs \<noteq> [] \<Longrightarrow> join_with sep (ps @ qs) = join_with sep ps @ sep @ join_with sep qs"
proof (induction sep ps rule: join_with.induct)
  case (2 sep x)
  then show ?case by (cases qs) auto
qed auto

lemma under_labels:
  "under n s \<longleftrightarrow> form n \<noteq> [] \<and>
     (\<exists>ls. split_byte CHR ''.'' (form n) = ls @ split_byte CHR ''.'' (form s))"
proof -
  let ?sp = "split_byte CHR ''.''"
  have "(\<exists>ls. ?sp a = ls @ ?sp b) \<longleftrightarrow> a = b \<or> has_suffix a (CHR ''.'' # b)" for a b
  proof
    assume "\<exists>ls. ?sp a = ls @ ?sp b"
    then obtain ls where ls: "?sp a = ls @ ?sp b" ..
    show "a = b \<or> has_suffix a (CHR ''.'' # b)"
    proof (cases "ls = []")
      case True
      then show ?thesis using ls split_byte_inject by auto
    next
      case False
      then have "a = join_with ''.'' ls @ CHR ''.'' # b"
        using split_byte_join [OF ls] split_byte_join [of _ b] join_with_append [of ls "?sp b" "''.''"]
        by auto
      then show ?thesis by (simp add: has_suffix_def)
    qed
  next
    assume "a = b \<or> has_suffix a (CHR ''.'' # b)"
    then show "\<exists>ls. ?sp a = ls @ ?sp b"
    proof
      assume "has_suffix a (CHR ''.'' # b)"
      then have "a = take (length a - Suc (length b)) a @ CHR ''.'' # b"
        by (metis append_take_drop_id has_suffix_def length_Cons)
      then show ?thesis by (metis split_byte_append)
    qed auto
  qed
  then show ?thesis by (auto simp: under_def)
qed

end
