(* ===== verification/Float64.thy ===== *)
theory Float64
  imports Complex_Main Prelude
begin

text \<open>
  Go's \<open>float64\<close> and \<open>float32\<close>. A value is not a number, an infinity or a rational, and every
  arithmetic result is rounded to the format, to nearest with ties to even, with gradual underflow
  and overflow to an infinity, as IEEE 754 and the Go specification have it. The one thing left out
  is the sign of zero, which nothing modelled here can observe, since no modelled division has a zero
  divisor. An operation is rounded on its own, as the compiler does on an architecture where it
  fuses no multiply with an add.

  Proofs do not look inside the rounding. The locale \<open>rounding\<close> states that it is monotone and
  leaves a representable value alone, and both formats are shown to satisfy it.
\<close>

datatype float64 = NaN | NInf | Fin rat | PInf

subsection \<open>Powers of two and the binary exponent\<close>

definition pow2 :: "int \<Rightarrow> rat" where
  "pow2 k = (if 0 \<le> k then 2 ^ nat k else 1 / 2 ^ nat (- k))"

lemma pow2_pos [simp]: "0 < pow2 k"
  by (simp add: pow2_def)

lemma pow2_nonzero [simp]: "pow2 k \<noteq> 0"
  using pow2_pos [of k] by linarith

lemma pow2_nonneg [simp]: "0 \<le> pow2 k"
  using pow2_pos [of k] by linarith

lemma pow2_of_powi: "pow2 k = 2 powi k"
  by (simp add: pow2_def power_int_def inverse_eq_divide power_one_over)

lemma pow2_add: "pow2 (a + b) = pow2 a * pow2 b"
  by (simp add: pow2_of_powi power_int_add)

lemma pow2_mono: "a \<le> b \<Longrightarrow> pow2 a \<le> pow2 b"
  by (simp add: pow2_of_powi power_int_increasing)

lemma pow2_less_iff [simp]: "pow2 a < pow2 b \<longleftrightarrow> a < b"
proof
  show "a < b \<Longrightarrow> pow2 a < pow2 b"
    by (simp add: pow2_of_powi power_int_strict_increasing)
  show "pow2 a < pow2 b \<Longrightarrow> a < b"
    using pow2_mono [of b a] by (meson leD leI)
qed

lemma pow2_div_int: "e \<le> f \<Longrightarrow> pow2 f / pow2 e = of_int (2 ^ nat (f - e))"
proof -
  assume "e \<le> f"
  then have "pow2 f = pow2 (f - e) * pow2 e" by (simp flip: pow2_add)
  moreover have "pow2 (f - e) = of_int (2 ^ nat (f - e))"
    using \<open>e \<le> f\<close> by (simp add: pow2_def)
  ultimately show ?thesis by simp
qed

fun ilog2 :: "nat \<Rightarrow> nat" where
  "ilog2 n = (if n < 2 then 0 else Suc (ilog2 (n div 2)))"

declare ilog2.simps [simp del]

lemma ilog2_bounds: "0 < n \<Longrightarrow> 2 ^ ilog2 n \<le> n \<and> n < 2 ^ Suc (ilog2 n)"
proof (induction n rule: ilog2.induct)
  case (1 n)
  show ?case
  proof (cases "n < 2")
    case True
    then show ?thesis using "1.prems" by (simp add: ilog2.simps [of n])
  next
    case False
    with "1.IH" have "2 ^ ilog2 (n div 2) \<le> n div 2 \<and> n div 2 < 2 ^ Suc (ilog2 (n div 2))" by simp
    with False show ?thesis by (simp add: ilog2.simps [of n]) linarith
  qed
qed

text \<open>The \<open>k\<close> with \<open>2\<^sup>k \<le> q < 2\<^sup>k\<^sup>+\<^sup>1\<close>, for a positive \<open>q\<close>.\<close>

definition flog2 :: "rat \<Rightarrow> int" where
  "flog2 q = (let (n, d) = quotient_of q; k = int (ilog2 (nat n)) - int (ilog2 (nat d))
              in if pow2 k \<le> q then k else k - 1)"

lemma flog2_bounds:
  assumes "0 < q"
  shows "pow2 (flog2 q) \<le> q" "q < pow2 (flog2 q + 1)"
proof -
  obtain n d where nd: "quotient_of q = (n, d)" by (cases "quotient_of q")
  have d: "0 < d" using quotient_of_denom_pos [OF nd] .
  have q: "q = of_int n / of_int d" using quotient_of_div [OF nd] .
  have n: "0 < n" using assms d unfolding q by (simp add: zero_less_divide_iff)
  define a b where "a = ilog2 (nat n)" and "b = ilog2 (nat d)"
  have la: "int (2 ^ a) \<le> n" "n < int (2 ^ Suc a)"
    using ilog2_bounds [of "nat n"] n unfolding a_def by (auto simp: nat_less_iff le_nat_iff)
  have lb: "int (2 ^ b) \<le> d" "d < int (2 ^ Suc b)"
    using ilog2_bounds [of "nat d"] d unfolding b_def by (auto simp: nat_less_iff le_nat_iff)
  have ra: "(2::rat) ^ a \<le> of_int n" "of_int n < (2::rat) ^ Suc a"
    using la by (metis of_int_le_iff of_int_of_nat_eq of_nat_numeral of_nat_power,
                 metis of_int_less_iff of_int_of_nat_eq of_nat_numeral of_nat_power)
  have rb: "(2::rat) ^ b \<le> of_int d" "of_int d < (2::rat) ^ Suc b"
    using lb by (metis of_int_le_iff of_int_of_nat_eq of_nat_numeral of_nat_power,
                 metis of_int_less_iff of_int_of_nat_eq of_nat_numeral of_nat_power)
  have P: "pow2 (int m - int k) = 2 ^ m / 2 ^ k" for m k :: nat
    using pow2_add [of "int m - int k" "int k"] by (simp add: pow2_def field_simps)
  have lo: "pow2 (int a - int (Suc b)) \<le> q"
    unfolding P q using ra(1) rb(2) by (intro frac_le) (use d n in auto)
  have hi: "q < pow2 (int (Suc a) - int b)"
    unfolding P q using ra(2) rb(1) d n by (intro frac_less) auto
  have f: "flog2 q = (if pow2 (int a - int b) \<le> q then int a - int b else int a - int b - 1)"
    by (simp add: flog2_def nd a_def b_def Let_def)
  have e1: "int a - int (Suc b) = int a - int b - 1" and e2: "int (Suc a) - int b = int a - int b + 1"
    by simp_all
  show "pow2 (flog2 q) \<le> q" using lo unfolding f e1 by simp
  show "q < pow2 (flog2 q + 1)" using hi unfolding f e2 by simp
qed

lemma flog2_less: "0 < q \<Longrightarrow> q < pow2 k \<Longrightarrow> flog2 q < k"
  using flog2_bounds(1) [of q] by (meson le_less_trans pow2_less_iff)

lemma flog2_mono: "0 < a \<Longrightarrow> a \<le> b \<Longrightarrow> flog2 a \<le> flog2 b"
  using flog2_less [of a "flog2 b + 1"] flog2_bounds(2) [of b] by linarith

subsection \<open>Rounding to nearest, ties to even\<close>

definition rhe :: "rat \<Rightarrow> int" where
  "rhe q = (let f = \<lfloor>q\<rfloor>; r = q - of_int f
            in if r < 1/2 then f else if 1/2 < r then f + 1 else if even f then f else f + 1)"

lemma rhe_of_int [simp]: "rhe (of_int m) = m"
  by (simp add: rhe_def)

lemma rhe_bounds: "\<lfloor>q\<rfloor> \<le> rhe q" "rhe q \<le> \<lfloor>q\<rfloor> + 1"
  by (simp_all add: rhe_def Let_def)

lemma rhe_mono:
  assumes "a \<le> b"
  shows "rhe a \<le> rhe b"
proof (cases "\<lfloor>a\<rfloor> = \<lfloor>b\<rfloor>")
  case True
  then show ?thesis using assms by (auto simp: rhe_def Let_def)
next
  case False
  then have "\<lfloor>a\<rfloor> + 1 \<le> \<lfloor>b\<rfloor>" using floor_mono [OF assms] by linarith
  then show ?thesis using rhe_bounds(2) [of a] rhe_bounds(1) [of b] by linarith
qed

lemma rhe_minus: "rhe (- q) = - rhe q"
proof (cases "q \<in> \<int>")
  case True
  then obtain m where "q = of_int m" by (auto elim: Ints_cases)
  then have "- q = of_int (- m)" by simp
  then show ?thesis using \<open>q = of_int m\<close> rhe_of_int by metis
next
  case False
  then have c: "\<lfloor>- q\<rfloor> = - \<lfloor>q\<rfloor> - 1"
    by (metis ceiling_def ceiling_altdef Ints_of_int add.commute diff_minus_eq_add minus_add_distrib minus_minus uminus_add_conv_diff)
  show ?thesis unfolding rhe_def c Let_def by auto
qed

definition round_at :: "int \<Rightarrow> rat \<Rightarrow> rat" where
  "round_at e q = of_int (rhe (q / pow2 e)) * pow2 e"

text \<open>
  The exponent of the unit in the last place, for \<open>p\<close> bits of precision and a least unit \<open>2\<close> to the
  \<open>emin\<close>.
\<close>

definition unit_exp :: "int \<Rightarrow> int \<Rightarrow> rat \<Rightarrow> int" where
  "unit_exp p emin q = max (flog2 \<bar>q\<bar> - (p - 1)) emin"

definition round_rat :: "int \<Rightarrow> int \<Rightarrow> rat \<Rightarrow> rat" where
  "round_rat p emin q = (if q = 0 then 0 else round_at (unit_exp p emin q) q)"

lemma round_at_mono: "a \<le> b \<Longrightarrow> round_at e a \<le> round_at e b"
  by (simp add: round_at_def rhe_mono divide_right_mono)

lemma round_at_exact: "e \<le> f \<Longrightarrow> round_at e (of_int m * pow2 f) = of_int m * pow2 f"
proof -
  assume "e \<le> f"
  then have "of_int m * pow2 f / pow2 e = of_int (m * 2 ^ nat (f - e))"
    using pow2_div_int [of e f] by (simp add: times_divide_eq_right [symmetric] del: times_divide_eq_right)
  then show ?thesis
    unfolding round_at_def by (metis rhe_of_int nonzero_eq_divide_eq pow2_nonzero)
qed

lemma round_at_pow2: "e \<le> f \<Longrightarrow> round_at e (pow2 f) = pow2 f"
  using round_at_exact [of e f 1] by simp

lemma round_at_minus: "round_at e (- q) = - round_at e q"
  by (simp add: round_at_def rhe_minus flip: minus_divide_left)

lemma round_at_nonneg: "0 \<le> q \<Longrightarrow> 0 \<le> round_at e q"
  using round_at_mono [of 0 q e] rhe_of_int [of 0] by (simp add: round_at_def)

lemma round_rat_minus: "round_rat p emin (- q) = - round_rat p emin q"
  by (simp add: round_rat_def unit_exp_def round_at_minus)

lemma round_rat_nonneg: "0 \<le> q \<Longrightarrow> 0 \<le> round_rat p emin q"
  by (simp add: round_rat_def round_at_nonneg)

lemma unit_exp_less:
  assumes "0 < q"
  shows "q < pow2 (unit_exp p emin q + p)"
proof -
  have "q < pow2 (flog2 q + 1)" by (rule flog2_bounds(2) [OF assms])
  also have "\<dots> \<le> pow2 (unit_exp p emin q + p)"
    using assms by (intro pow2_mono) (simp add: unit_exp_def)
  finally show ?thesis .
qed

lemma round_rat_mono_pos:
  assumes p: "1 \<le> p" and a: "0 < a" and ab: "a \<le> b"
  shows "round_rat p emin a \<le> round_rat p emin b"
proof -
  let ?ea = "unit_exp p emin a" and ?eb = "unit_exp p emin b"
  have b: "0 < b" using a ab by linarith
  have le: "?ea \<le> ?eb" using flog2_mono [OF a ab] a b by (simp add: unit_exp_def)
  have rr: "round_rat p emin a = round_at ?ea a" "round_rat p emin b = round_at ?eb b"
    using a b by (simp_all add: round_rat_def)
  show ?thesis
  proof (cases "?ea = ?eb")
    case True
    then show ?thesis using round_at_mono [OF ab] rr by simp
  next
    case False
    with le have lt: "?ea + 1 \<le> ?eb" by simp
    then have eb: "?eb = flog2 b - (p - 1)" using b by (auto simp: unit_exp_def max_def split: if_splits)
    have "round_at ?ea a \<le> round_at ?ea (pow2 (?ea + p))"
      using unit_exp_less [OF a, of p emin] by (intro round_at_mono) simp
    also have "\<dots> = pow2 (?ea + p)" using p by (intro round_at_pow2) simp
    also have "\<dots> \<le> pow2 (?eb + (p - 1))" using lt by (intro pow2_mono) simp
    also have "\<dots> = round_at ?eb (pow2 (?eb + (p - 1)))" using p by (intro round_at_pow2 [symmetric]) simp
    also have "\<dots> \<le> round_at ?eb b"
      using flog2_bounds(1) [OF b] by (intro round_at_mono) (simp add: eb)
    finally show ?thesis by (simp add: rr)
  qed
qed

lemma round_rat_mono:
  assumes p: "1 \<le> p" and ab: "a \<le> b"
  shows "round_rat p emin a \<le> round_rat p emin b"
proof -
  consider "0 < a" | "a \<le> 0" "0 \<le> b" | "b < 0" using ab by linarith
  then show ?thesis
  proof cases
    case 1
    then show ?thesis using round_rat_mono_pos [OF p _ ab] by simp
  next
    case 2
    then show ?thesis
      using round_rat_nonneg [of b p emin] round_rat_nonneg [of "- a" p emin]
      by (simp add: round_rat_minus)
  next
    case 3
    then show ?thesis
      using round_rat_mono_pos [OF p, of "- b" "- a" emin] ab by (simp add: round_rat_minus)
  qed
qed

lemma round_rat_exact:
  assumes "unit_exp p emin (of_int m * pow2 f) \<le> f"
  shows "round_rat p emin (of_int m * pow2 f) = of_int m * pow2 f"
  using round_at_exact [OF assms] by (simp add: round_rat_def)

lemma round_rat_idem_pos:
  assumes p: "1 \<le> p" and q: "0 < q"
  shows "round_rat p emin (round_rat p emin q) = round_rat p emin q"
proof -
  let ?e = "unit_exp p emin q" and ?v = "round_rat p emin q"
  define m where "m = rhe (q / pow2 ?e)"
  have v: "?v = of_int m * pow2 ?e" using q by (simp add: round_rat_def round_at_def m_def)
  have v0: "0 \<le> ?v" using q by (simp add: round_rat_nonneg)
  have "round_at ?e q \<le> round_at ?e (pow2 (?e + p))"
    using unit_exp_less [OF q, of p emin] by (intro round_at_mono) simp
  then have up: "?v \<le> pow2 (?e + p)"
    using round_at_pow2 [of ?e "?e + p"] p q by (simp add: round_rat_def)
  show ?thesis
  proof (cases "?v = 0 \<or> ?v = pow2 (?e + p)")
    case True
    have "round_rat p emin (pow2 (?e + p)) = pow2 (?e + p)"
    proof -
      have "flog2 (pow2 (?e + p)) \<le> ?e + p"
        using flog2_less [of "pow2 (?e + p)" "?e + p + 1"] by simp
      then have "unit_exp p emin (pow2 (?e + p)) \<le> ?e + p"
        using p by (auto simp: unit_exp_def)
      then show ?thesis using round_rat_exact [of p emin 1 "?e + p"] by simp
    qed
    with True show ?thesis by (auto simp: round_rat_def)
  next
    case False
    with v0 up have "0 < ?v" "?v < pow2 (?e + p)" by auto
    then have "flog2 ?v < ?e + p" by (rule flog2_less)
    then have "unit_exp p emin ?v \<le> ?e" using \<open>0 < ?v\<close> by (auto simp: unit_exp_def)
    then show ?thesis using round_rat_exact [of p emin m ?e] by (simp add: v)
  qed
qed

lemma round_rat_idem:
  assumes p: "1 \<le> p"
  shows "round_rat p emin (round_rat p emin q) = round_rat p emin q"
proof -
  consider "q = 0" | "0 < q" | "0 < - q" by linarith
  then show ?thesis
  proof cases
    case 1
    then show ?thesis by (simp add: round_rat_def)
  next
    case 2
    then show ?thesis by (rule round_rat_idem_pos [OF p])
  next
    case 3
    then show ?thesis using round_rat_idem_pos [OF p 3, of emin] by (simp add: round_rat_minus)
  qed
qed

subsection \<open>Go's comparisons, and the order the rounding keeps\<close>

fun fle :: "float64 \<Rightarrow> float64 \<Rightarrow> bool" where
  "fle NaN _ = False"
| "fle _ NaN = False"
| "fle NInf _ = True"
| "fle _ PInf = True"
| "fle (Fin a) (Fin b) = (a \<le> b)"
| "fle _ _ = False"

definition flt :: "float64 \<Rightarrow> float64 \<Rightarrow> bool" where
  "flt a b \<longleftrightarrow> fle a b \<and> \<not> fle b a"

lemma fle_refl [simp]: "fle a a \<longleftrightarrow> a \<noteq> NaN"
  by (cases a) auto

lemma fle_NaN [simp]: "\<not> fle a NaN"
  by (cases a) auto

lemma fle_trans [trans]: "fle a b \<Longrightarrow> fle b c \<Longrightarrow> fle a c"
  by (cases a; cases b; cases c) auto

lemma fle_antisym: "fle a b \<Longrightarrow> fle b a \<Longrightarrow> a = b"
  by (cases a; cases b) auto

lemma fle_linear: "a \<noteq> NaN \<Longrightarrow> b \<noteq> NaN \<Longrightarrow> fle a b \<or> fle b a"
  by (cases a; cases b) auto

lemma fle_not_NaN: "fle a b \<Longrightarrow> a \<noteq> NaN \<and> b \<noteq> NaN"
  by (cases a; cases b) auto

lemma fle_between: "fle (Fin a) x \<Longrightarrow> fle x (Fin b) \<Longrightarrow> \<exists>q. x = Fin q \<and> a \<le> q \<and> q \<le> b"
  by (cases x) auto

lemma flt_NaN [simp]: "\<not> flt NaN a" "\<not> flt a NaN"
  by (simp_all add: flt_def)

lemma flt_Fin [simp]: "flt (Fin a) (Fin b) \<longleftrightarrow> a < b"
  by (auto simp: flt_def)

lemma flt_fle: "flt a b \<Longrightarrow> fle a b"
  by (simp add: flt_def)

lemma not_flt_fle: "a \<noteq> NaN \<Longrightarrow> b \<noteq> NaN \<Longrightarrow> \<not> flt a b \<longleftrightarrow> fle b a"
  using fle_linear [of a b] by (auto simp: flt_def)

lemma flt_irrefl [simp]: "\<not> flt a a"
  by (simp add: flt_def)

lemma flt_fle_trans [trans]: "flt a b \<Longrightarrow> fle b c \<Longrightarrow> flt a c"
  by (cases a; cases b; cases c) (auto simp: flt_def)

lemma fle_flt_trans [trans]: "fle a b \<Longrightarrow> flt b c \<Longrightarrow> flt a c"
  by (cases a; cases b; cases c) (auto simp: flt_def)

subsection \<open>Formats\<close>

definition round_fmt :: "int \<Rightarrow> int \<Rightarrow> int \<Rightarrow> rat \<Rightarrow> float64" where
  "round_fmt p emin emax q =
     (let v = round_rat p emin q
      in if pow2 emax \<le> v then PInf else if v \<le> - pow2 emax then NInf else Fin v)"

definition round64 :: "rat \<Rightarrow> float64" where
  "round64 = round_fmt 53 (- 1074) 1024"

definition round32 :: "rat \<Rightarrow> float64" where
  "round32 = round_fmt 24 (- 149) 128"

locale rounding =
  fixes rnd :: "rat \<Rightarrow> float64"
  assumes rnd_mono: "a \<le> b \<Longrightarrow> fle (rnd a) (rnd b)"
    and rnd_idem: "rnd a = Fin v \<Longrightarrow> rnd v = Fin v"
    and rnd_zero: "rnd 0 = Fin 0"
begin

lemma rnd_not_NaN [simp]: "rnd a \<noteq> NaN"
  using rnd_mono [of a a] by auto

lemma rnd_ge: "rnd v = Fin v \<Longrightarrow> v \<le> q \<Longrightarrow> fle (Fin v) (rnd q)"
  using rnd_mono [of v q] by simp

lemma rnd_le: "rnd v = Fin v \<Longrightarrow> q \<le> v \<Longrightarrow> fle (rnd q) (Fin v)"
  using rnd_mono [of q v] by simp

lemma rnd_nonneg: "0 \<le> q \<Longrightarrow> fle (Fin 0) (rnd q)"
  by (rule rnd_ge [OF rnd_zero])

lemma rnd_nonpos: "q \<le> 0 \<Longrightarrow> fle (rnd q) (Fin 0)"
  by (rule rnd_le [OF rnd_zero])

lemma rnd_positive: "flt (Fin 0) (rnd q) \<Longrightarrow> 0 < q"
  using rnd_nonpos [of q] by (auto simp: flt_def intro: ccontr)

end

lemma round_fmt_rounding:
  assumes p: "1 \<le> p"
  shows "rounding (round_fmt p emin emax)"
proof unfold_locales
  fix a b :: rat
  assume "a \<le> b"
  then have "round_rat p emin a \<le> round_rat p emin b" by (rule round_rat_mono [OF p])
  then show "fle (round_fmt p emin emax a) (round_fmt p emin emax b)"
    using pow2_pos [of emax] by (auto simp: round_fmt_def Let_def)
next
  fix a v
  assume "round_fmt p emin emax a = Fin v"
  then show "round_fmt p emin emax v = Fin v"
    using round_rat_idem [OF p, of emin a] by (auto simp: round_fmt_def Let_def split: if_splits)
next
  show "round_fmt p emin emax 0 = Fin 0"
    using pow2_pos [of emax] by (simp add: round_fmt_def round_rat_def not_le)
qed

interpretation b64: rounding round64
  unfolding round64_def by (rule round_fmt_rounding) simp

interpretation b32: rounding round32
  unfolding round32_def by (rule round_fmt_rounding) simp

text \<open>Values that need no rounding: an integer below \<open>2\<^sup>5\<^sup>3\<close> times a power of two.\<close>

lemma round64_dyadic:
  assumes "\<bar>m\<bar> < 2 ^ 53" "- 1074 \<le> f" "f \<le> 900"
  shows "round64 (of_int m * pow2 f) = Fin (of_int m * pow2 f)"
proof -
  let ?q = "of_int m * pow2 f"
  have "of_int \<bar>m\<bar> < (2 ^ 53 :: rat)" using assms(1) by (metis of_int_less_iff of_int_numeral of_int_power)
  then have "\<bar>?q\<bar> < 2 ^ 53 * pow2 f" by (simp add: abs_mult)
  also have "\<dots> = pow2 (53 + f)" by (simp add: pow2_add) (simp add: pow2_def)
  finally have b: "\<bar>?q\<bar> < pow2 (53 + f)" .
  have "round_rat 53 (- 1074) ?q = ?q"
  proof (cases "?q = 0")
    case False
    then have "flog2 \<bar>?q\<bar> < 53 + f" using b by (intro flog2_less) auto
    then have "unit_exp 53 (- 1074) ?q \<le> f" using assms(2) by (simp add: unit_exp_def)
    then show ?thesis by (rule round_rat_exact)
  qed (simp add: round_rat_def)
  moreover have "\<bar>?q\<bar> < pow2 1024" using b assms(3) pow2_mono [of "53 + f" 1024] by linarith
  ultimately show ?thesis by (auto simp: round64_def round_fmt_def Let_def)
qed

lemma round64_int: "\<bar>m\<bar> < 2 ^ 53 \<Longrightarrow> round64 (of_int m) = Fin (of_int m)"
  using round64_dyadic [of m 0] by (simp add: pow2_def)

lemma round64_simple [simp]:
  "round64 1 = Fin 1" "round64 (1 / 2) = Fin (1 / 2)" "round64 (1 / 4) = Fin (1 / 4)"
  "round64 (1 / 32) = Fin (1 / 32)"
  using round64_dyadic [of 1 0] round64_dyadic [of 1 "-1"] round64_dyadic [of 1 "-2"]
    round64_dyadic [of 1 "-5"] by (simp_all add: pow2_def)

subsection \<open>Arithmetic\<close>

fun fadd :: "float64 \<Rightarrow> float64 \<Rightarrow> float64" where
  "fadd (Fin a) (Fin b) = round64 (a + b)"
| "fadd NaN _ = NaN"
| "fadd _ NaN = NaN"
| "fadd PInf NInf = NaN"
| "fadd NInf PInf = NaN"
| "fadd PInf _ = PInf"
| "fadd _ PInf = PInf"
| "fadd NInf _ = NInf"
| "fadd _ NInf = NInf"

fun fneg :: "float64 \<Rightarrow> float64" where
  "fneg (Fin a) = Fin (- a)"
| "fneg PInf = NInf"
| "fneg NInf = PInf"
| "fneg NaN = NaN"

definition fsub :: "float64 \<Rightarrow> float64 \<Rightarrow> float64" where
  "fsub a b = fadd a (fneg b)"

definition signed_inf :: "rat \<Rightarrow> float64" where
  "signed_inf s = (if s = 0 then NaN else if 0 < s then PInf else NInf)"

fun fmul :: "float64 \<Rightarrow> float64 \<Rightarrow> float64" where
  "fmul (Fin a) (Fin b) = round64 (a * b)"
| "fmul NaN _ = NaN"
| "fmul _ NaN = NaN"
| "fmul PInf (Fin b) = signed_inf b"
| "fmul NInf (Fin b) = signed_inf (- b)"
| "fmul (Fin a) PInf = signed_inf a"
| "fmul (Fin a) NInf = signed_inf (- a)"
| "fmul PInf PInf = PInf"
| "fmul NInf NInf = PInf"
| "fmul _ _ = NInf"

text \<open>A zero divisor is taken as positive zero.\<close>

fun fdiv :: "float64 \<Rightarrow> float64 \<Rightarrow> float64" where
  "fdiv (Fin a) (Fin b) = (if b = 0 then signed_inf a else round64 (a / b))"
| "fdiv NaN _ = NaN"
| "fdiv _ NaN = NaN"
| "fdiv (Fin a) _ = Fin 0"
| "fdiv PInf (Fin b) = (if 0 \<le> b then PInf else NInf)"
| "fdiv NInf (Fin b) = (if 0 \<le> b then NInf else PInf)"
| "fdiv _ _ = NaN"

text \<open>Go's \<open>min\<close> and \<open>max\<close>, which are NaN when either argument is.\<close>

definition fmin :: "float64 \<Rightarrow> float64 \<Rightarrow> float64" where
  "fmin a b = (if a = NaN \<or> b = NaN then NaN else if fle a b then a else b)"

definition fmax :: "float64 \<Rightarrow> float64 \<Rightarrow> float64" where
  "fmax a b = (if a = NaN \<or> b = NaN then NaN else if fle a b then b else a)"

text \<open>
  Conversions: an integer to a float, a float to \<open>float32\<close>, and a float to an integer, which
  truncates towards zero and for a value out of range is what amd64 gives.
\<close>

definition float_of_int64 :: "int64 \<Rightarrow> float64" where
  "float_of_int64 x = round64 (of_int (sint x))"

fun to_float32 :: "float64 \<Rightarrow> float64" where
  "to_float32 (Fin q) = round32 q"
| "to_float32 x = x"

definition truncate :: "rat \<Rightarrow> int" where
  "truncate q = (if 0 \<le> q then \<lfloor>q\<rfloor> else \<lceil>q\<rceil>)"

fun int64_of_float :: "float64 \<Rightarrow> int64" where
  "int64_of_float (Fin q) =
     (if min_int64 \<le> truncate q \<and> truncate q \<le> max_int64 then word_of_int (truncate q)
      else word_of_int min_int64)"
| "int64_of_float _ = word_of_int min_int64"

subsection \<open>Representable values\<close>

definition is64 :: "float64 \<Rightarrow> bool" where
  "is64 x \<longleftrightarrow> (case x of Fin q \<Rightarrow> round64 q = Fin q | _ \<Rightarrow> True)"

lemma is64_simps [simp]: "is64 NaN" "is64 PInf" "is64 NInf" "is64 (Fin 0)"
  by (simp_all add: is64_def b64.rnd_zero)

lemma is64_Fin: "is64 (Fin q) \<longleftrightarrow> round64 q = Fin q"
  by (simp add: is64_def)

lemma is64_round [simp]: "is64 (round64 q)"
  by (cases "round64 q") (auto simp: is64_def intro: b64.rnd_idem)

lemma is64_fadd [simp]: "is64 (fadd a b)"
  by (cases "(a, b)" rule: fadd.cases) auto

lemma is64_fmul [simp]: "is64 (fmul a b)"
  by (cases "(a, b)" rule: fmul.cases) (auto simp: signed_inf_def)

lemma is64_fdiv [simp]: "is64 (fdiv a b)"
  by (cases "(a, b)" rule: fdiv.cases) (auto simp: signed_inf_def)

lemma is64_fmin: "is64 a \<Longrightarrow> is64 b \<Longrightarrow> is64 (fmin a b)"
  by (simp add: fmin_def)

lemma is64_fmax: "is64 a \<Longrightarrow> is64 b \<Longrightarrow> is64 (fmax a b)"
  by (simp add: fmax_def)

subsection \<open>Facts the components share\<close>

lemma fmin_le: "a \<noteq> NaN \<Longrightarrow> b \<noteq> NaN \<Longrightarrow> fle (fmin a b) a \<and> fle (fmin a b) b"
  using fle_linear [of a b] by (auto simp: fmin_def)

lemma fmax_ge: "a \<noteq> NaN \<Longrightarrow> b \<noteq> NaN \<Longrightarrow> fle a (fmax a b) \<and> fle b (fmax a b)"
  using fle_linear [of a b] by (auto simp: fmax_def)

lemma fmin_not_NaN [simp]: "fmin a b = NaN \<longleftrightarrow> a = NaN \<or> b = NaN"
  by (auto simp: fmin_def)

lemma fmax_not_NaN [simp]: "fmax a b = NaN \<longleftrightarrow> a = NaN \<or> b = NaN"
  by (auto simp: fmax_def)

lemma fmax_bounded: "fle a u \<Longrightarrow> fle b u \<Longrightarrow> fle (fmax a b) u"
  by (auto simp: fmax_def dest: fle_not_NaN)

lemma fmin_bounded: "fle l a \<Longrightarrow> fle l b \<Longrightarrow> fle l (fmin a b)"
  by (auto simp: fmin_def dest: fle_not_NaN)

text \<open>Adding a nonnegative amount never lowers a representable value, and addition is monotone.\<close>

lemma fadd_ge:
  assumes a: "is64 a" and b: "fle (Fin 0) b" and na: "a \<noteq> NaN" and s: "fadd a b \<noteq> NaN"
  shows "fle a (fadd a b)"
proof (cases "\<exists>x y. a = Fin x \<and> b = Fin y")
  case True
  then obtain x y where "a = Fin x" "b = Fin y" by blast
  then show ?thesis using a b by (auto simp: is64_Fin intro: b64.rnd_ge)
next
  case False
  then show ?thesis using b na s by (cases "(a, b)" rule: fadd.cases) auto
qed

lemma fadd_mono:
  assumes "fle a b" "fadd a c \<noteq> NaN" "fadd b c \<noteq> NaN"
  shows "fle (fadd a c) (fadd b c)"
proof (cases "(\<exists>x. a = Fin x) \<and> (\<exists>x. b = Fin x) \<and> (\<exists>x. c = Fin x)")
  case True
  then show ?thesis using assms by (auto intro!: b64.rnd_mono)
next
  case False
  have r: "round64 q \<noteq> NaN" for q by simp
  have "fle NInf (round64 q)" "fle (round64 q) PInf" for q
    using r [of q] by (cases "round64 q"; simp)+
  then show ?thesis using assms False by (cases a; cases b; cases c) auto
qed

end
