(* ===== verification/MailModel.thy ===== *)
theory MailModel
  imports Authorize GoText Float64
begin

text \<open>
  \<open>core/mail\<close>: the canonical model, the port's errors as Go's \<open>errors\<close> package sees them, the mutation
  operations and the query built only through constructors, what a rate profile declares, and the
  decision after a body fetch. Attachments are in \<open>MailAttachment\<close>.
\<close>

type_synonym unix_milli = int64

definition inbox :: string where "inbox = ''INBOX''"
definition trash_label :: string where "trash_label = ''TRASH''"
definition spam_label :: string where "spam_label = ''SPAM''"

record address =
  a_email :: string
  a_name :: string

record mail_flags =
  mf_read :: bool
  mf_starred :: bool

record auth_results =
  ar_spf :: string
  ar_dkim :: string
  ar_dmarc :: string

record total =
  t_items :: int64
  t_page_limit :: int64

record change_set =
  cs_account :: string
  cs_added :: "string list"
  cs_modified :: "string list"
  cs_removed :: "string list"
  cs_next :: string

record message_body =
  mb_account :: string
  mb_message :: string
  mb_text :: string
  mb_html :: string

definition max_body_bytes :: nat where
  "max_body_bytes = 512 * 1024"

subsection \<open>Throttles and the port's errors\<close>

datatype throttle_scope = ScopeUnknown | ScopePerUser | ScopePerProject

record throttle_signal =
  ts_retry_after :: int64
  ts_has_retry_after :: bool
  ts_scope :: throttle_scope

definition zero_throttle_signal :: throttle_signal where
  "zero_throttle_signal = \<lparr>ts_retry_after = 0, ts_has_retry_after = False, ts_scope = ScopeUnknown\<rparr>"

text \<open>
  A Go error is a sentinel, one of the two error structs of the package, a text, an error that wraps
  another, or several joined.
\<close>

datatype goerror =
    ErrNotFound | ErrInvalid | ErrCursorGap | ErrThrottled | ErrProvider | ErrAuthentication
  | ErrRefused | ErrHeldApart
  | ThrottleError throttle_signal
  | HeldApartError string
  | ErrText string
  | ErrWrap string goerror
  | ErrJoin "goerror list"

text \<open>\<open>errors.Is\<close> for a sentinel, through \<open>Unwrap\<close>.\<close>

fun err_is :: "goerror \<Rightarrow> goerror \<Rightarrow> bool" where
  "err_is (ErrWrap s e) t \<longleftrightarrow> ErrWrap s e = t \<or> err_is e t"
| "err_is (ErrJoin es) t \<longleftrightarrow> ErrJoin es = t \<or> list_ex (\<lambda>e. err_is e t) es"
| "err_is (ThrottleError g) t \<longleftrightarrow> ThrottleError g = t \<or> t = ErrThrottled"
| "err_is (HeldApartError p) t \<longleftrightarrow> HeldApartError p = t \<or> t = ErrHeldApart"
| "err_is e t \<longleftrightarrow> e = t"

text \<open>\<open>errors.As\<close> for each of the two structs, the first one found depth first.\<close>

fun as_throttle :: "goerror \<Rightarrow> throttle_signal option"
  and as_throttle_any :: "goerror list \<Rightarrow> throttle_signal option" where
  "as_throttle (ThrottleError g) = Some g"
| "as_throttle (ErrWrap s e) = as_throttle e"
| "as_throttle (ErrJoin es) = as_throttle_any es"
| "as_throttle _ = None"
| "as_throttle_any [] = None"
| "as_throttle_any (e # es) = (case as_throttle e of Some g \<Rightarrow> Some g | None \<Rightarrow> as_throttle_any es)"

fun as_held_apart :: "goerror \<Rightarrow> string option"
  and as_held_apart_any :: "goerror list \<Rightarrow> string option" where
  "as_held_apart (HeldApartError p) = Some p"
| "as_held_apart (ErrWrap s e) = as_held_apart e"
| "as_held_apart (ErrJoin es) = as_held_apart_any es"
| "as_held_apart _ = None"
| "as_held_apart_any [] = None"
| "as_held_apart_any (e # es) =
     (case as_held_apart e of Some p \<Rightarrow> Some p | None \<Rightarrow> as_held_apart_any es)"

definition throttled_err :: "goerror option \<Rightarrow> throttle_signal \<times> bool" where
  "throttled_err err = (case Option.bind err as_throttle of
      Some g \<Rightarrow> (g, True) | None \<Rightarrow> (zero_throttle_signal, False))"

definition next_body_part :: "string \<Rightarrow> goerror option \<Rightarrow> string \<times> bool" where
  "next_body_part asked err =
     (case Option.bind err as_held_apart of
        None \<Rightarrow> ([], False)
      | Some part \<Rightarrow> if asked \<noteq> [] \<or> part = [] then ([], False) else (part, True))"

text \<open>
  The body fetch as every caller of the port runs it: a first call naming no part, and a second naming
  the part the first was told of. \<open>fetch\<close> is the port's \<open>GetMessageBody\<close> for one message, and the list
  is the parts asked for, in order.
\<close>

function body_calls ::
  "(string \<Rightarrow> goerror + message_body) \<Rightarrow> string \<Rightarrow> string list \<times> (goerror + message_body)" where
  "body_calls fetch asked =
     (case fetch asked of
        Inr b \<Rightarrow> ([asked], Inr b)
      | Inl e \<Rightarrow> (let (part, again) = next_body_part asked (Some e)
                 in if again then (let (ps, r) = body_calls fetch part in (asked # ps, r))
                    else ([asked], Inl e)))"
  by pat_completeness auto
termination
  by (relation "measure (\<lambda>(fetch, asked). if asked = [] then 1 else 0)")
     (auto simp: next_body_part_def split: option.splits if_splits)

declare body_calls.simps [simp del]

lemma next_body_part_once:
  "next_body_part asked err = (part, True) \<Longrightarrow> asked = [] \<and> part \<noteq> []"
  by (auto simp: next_body_part_def split: option.splits if_splits)

lemma body_calls_named: "asked \<noteq> [] \<Longrightarrow> fst (body_calls fetch asked) = [asked]"
  by (subst body_calls.simps)
     (auto simp: case_prod_beta next_body_part_def split: sum.split option.split)

lemma body_calls_bound: "length (fst (body_calls fetch asked)) \<le> 2"
proof (cases "asked = []")
  case False
  then show ?thesis by (simp add: body_calls_named)
next
  case True
  then show ?thesis
    by (subst body_calls.simps)
       (auto simp: case_prod_beta Let_def body_calls_named next_body_part_def
             split: sum.split option.split if_splits)
qed

lemma body_calls_shape:
  "let (parts, result) = body_calls fetch asked in
     parts \<noteq> [] \<and> hd parts = asked \<and> length parts \<le> 2 \<and> result = fetch (last parts) \<and>
     (length parts = 2 \<longleftrightarrow> asked = [] \<and>
        (case fetch asked of Inr _ \<Rightarrow> False
         | Inl e \<Rightarrow> (case as_held_apart e of None \<Rightarrow> False | Some part \<Rightarrow> part \<noteq> [] \<and> parts = [asked, part])))"
proof -
  have one: "body_calls fetch p = ([p], fetch p)" if "p \<noteq> []" for p
    using that by (subst body_calls.simps)
      (auto simp: next_body_part_def split: sum.split option.split)
  show ?thesis
    by (subst (1) body_calls.simps) (auto simp: next_body_part_def one Let_def split: sum.split option.split)
qed

subsection \<open>Mutation operations\<close>

record mutation_op =
  op_verb :: verb
  op_message :: string
  op_add :: string
  op_remove :: string

definition zero_op :: mutation_op where
  "zero_op = \<lparr>op_verb = NoVerb, op_message = [], op_add = [], op_remove = []\<rparr>"

definition named_op :: "string \<Rightarrow> string \<Rightarrow> goerror option" where
  "named_op message path =
     (if message = [] \<or> path = []
      then Some (ErrJoin [ErrInvalid, ErrText ''mail: a label op needs a message and a label''])
      else None)"

definition bare_op :: "verb \<Rightarrow> string \<Rightarrow> goerror + mutation_op" where
  "bare_op v message =
     (if message = [] then Inl (ErrJoin [ErrInvalid, ErrText ''mail: an op needs a message''])
      else Inr (zero_op\<lparr>op_verb := v, op_message := message\<rparr>))"

definition label_op :: "string \<Rightarrow> string \<Rightarrow> goerror + mutation_op" where
  "label_op message path = (case named_op message path of
      Some e \<Rightarrow> Inl e
    | None \<Rightarrow> Inr (zero_op\<lparr>op_verb := LabelVerb, op_message := message, op_add := path\<rparr>))"

definition unlabel_op :: "string \<Rightarrow> string \<Rightarrow> goerror + mutation_op" where
  "unlabel_op message path = (case named_op message path of
      Some e \<Rightarrow> Inl e
    | None \<Rightarrow> Inr (zero_op\<lparr>op_verb := Unlabel, op_message := message, op_remove := path\<rparr>))"

definition move_op :: "string \<Rightarrow> string \<Rightarrow> string \<Rightarrow> goerror + mutation_op" where
  "move_op message from_label to_label = (case named_op message from_label of
      Some e \<Rightarrow> Inl e
    | None \<Rightarrow> (case named_op message to_label of
        Some e \<Rightarrow> Inl e
      | None \<Rightarrow> if from_label = to_label
          then Inl (ErrJoin [ErrInvalid, ErrText ''mail: a move needs two different labels''])
          else Inr \<lparr>op_verb = Move, op_message = message, op_add = to_label, op_remove = from_label\<rparr>))"

definition archive_op :: "string \<Rightarrow> goerror + mutation_op" where "archive_op = bare_op Archive"
definition mark_read_op :: "string \<Rightarrow> goerror + mutation_op" where "mark_read_op = bare_op MarkRead"
definition star_op :: "string \<Rightarrow> goerror + mutation_op" where "star_op = bare_op Star"
definition trash_op :: "string \<Rightarrow> goerror + mutation_op" where "trash_op = bare_op TrashVerb"
definition spam_op :: "string \<Rightarrow> goerror + mutation_op" where "spam_op = bare_op SpamVerb"

definition op_built :: "mutation_op \<Rightarrow> bool" where
  "op_built p \<longleftrightarrow> op_verb p \<noteq> NoVerb \<and> op_message p \<noteq> []"

text \<open>Every operation a caller can hold: the zero one, or what a constructor returned.\<close>

inductive constructible :: "mutation_op \<Rightarrow> bool" where
  c_zero: "constructible zero_op"
| c_label: "label_op m p = Inr x \<Longrightarrow> constructible x"
| c_unlabel: "unlabel_op m p = Inr x \<Longrightarrow> constructible x"
| c_move: "move_op m p q = Inr x \<Longrightarrow> constructible x"
| c_archive: "archive_op m = Inr x \<Longrightarrow> constructible x"
| c_mark_read: "mark_read_op m = Inr x \<Longrightarrow> constructible x"
| c_star: "star_op m = Inr x \<Longrightarrow> constructible x"
| c_trash: "trash_op m = Inr x \<Longrightarrow> constructible x"
| c_spam: "spam_op m = Inr x \<Longrightarrow> constructible x"

lemmas op_defs = label_op_def unlabel_op_def move_op_def archive_op_def mark_read_op_def star_op_def
  trash_op_def spam_op_def bare_op_def named_op_def zero_op_def

text \<open>The labels an operation of each verb carries.\<close>

definition op_shape :: "mutation_op \<Rightarrow> bool" where
  "op_shape x \<longleftrightarrow> (case op_verb x of
      LabelVerb \<Rightarrow> op_add x \<noteq> [] \<and> op_remove x = []
    | Unlabel \<Rightarrow> op_add x = [] \<and> op_remove x \<noteq> []
    | Move \<Rightarrow> op_add x \<noteq> [] \<and> op_remove x \<noteq> [] \<and> op_add x \<noteq> op_remove x
    | OtherVerb \<Rightarrow> False
    | _ \<Rightarrow> op_add x = [] \<and> op_remove x = [])"

lemma constructible_shape:
  "constructible x \<Longrightarrow> op_shape x \<and> (op_built x \<longleftrightarrow> x \<noteq> zero_op)"
  by (induction rule: constructible.induct)
     (auto simp: op_shape_def op_built_def op_defs split: if_splits option.splits)

lemma constructible_message: "constructible x \<Longrightarrow> op_message x = [] \<longleftrightarrow> x = zero_op"
  by (induction rule: constructible.induct) (auto simp: op_defs split: if_splits option.splits)

lemma zero_op_denies [denies]: "\<not> op_built zero_op" "\<not> is_authorized (authorize_decide (op_verb zero_op) c)"
  by (simp_all add: op_built_def zero_op_def)

subsection \<open>The canonical query\<close>

datatype query_kind = NoQuery | QueryAll | QueryAfter | QueryBefore | QueryInLabel | QueryFrom | QueryAnd

datatype query = Query (q_kind: query_kind) (q_instant: int64) (q_text: string) (q_operands: "query list")

definition zero_query :: query where "zero_query = Query NoQuery 0 [] []"
definition all_query :: query where "all_query = Query QueryAll 0 [] []"
definition after_query :: "unix_milli \<Rightarrow> query" where "after_query t = Query QueryAfter t [] []"
definition before_query :: "unix_milli \<Rightarrow> query" where "before_query t = Query QueryBefore t [] []"
definition in_label_query :: "string \<Rightarrow> query" where "in_label_query p = Query QueryInLabel 0 p []"
definition from_query :: "string \<Rightarrow> query" where "from_query a = Query QueryFrom 0 a []"
definition and_query :: "query \<Rightarrow> query \<Rightarrow> query list \<Rightarrow> query" where
  "and_query first second rest = Query QueryAnd 0 [] ([first, second] @ rest)"

definition query_label :: "query \<Rightarrow> string" where
  "query_label q = (if q_kind q \<noteq> QueryInLabel then [] else q_text q)"

definition query_address :: "query \<Rightarrow> string" where
  "query_address q = (if q_kind q \<noteq> QueryFrom then [] else q_text q)"

fun query_valid :: "query \<Rightarrow> bool" where
  "query_valid (Query k t s qs) = (case k of
      QueryAll \<Rightarrow> True
    | QueryAfter \<Rightarrow> True
    | QueryBefore \<Rightarrow> True
    | QueryInLabel \<Rightarrow> s \<noteq> []
    | QueryFrom \<Rightarrow> s \<noteq> []
    | QueryAnd \<Rightarrow> (if length qs < 2 then False else list_all query_valid qs)
    | NoQuery \<Rightarrow> False)"

text \<open>
  The values the constructors can build from the zero query, and the queries a port accepts: those
  with no zero query, no empty label and no empty address anywhere in them.
\<close>

inductive query_built :: "query \<Rightarrow> bool" where
  q_zero: "query_built zero_query"
| q_all: "query_built all_query"
| q_after: "query_built (after_query t)"
| q_before: "query_built (before_query t)"
| q_label: "query_built (in_label_query p)"
| q_from: "query_built (from_query a)"
| q_and: "query_built a \<Longrightarrow> query_built b \<Longrightarrow> list_all query_built qs \<Longrightarrow> query_built (and_query a b qs)"
  monos list.pred_mono

fun leaves :: "query \<Rightarrow> query list" where
  "leaves (Query k t s qs) = (if k = QueryAnd then concat (map leaves qs) else [Query k t s qs])"

lemmas query_defs = zero_query_def all_query_def after_query_def before_query_def in_label_query_def
  from_query_def and_query_def

lemma built_valid_iff_leaves:
  "query_built q \<Longrightarrow> query_valid q \<longleftrightarrow>
     list_all (\<lambda>n. q_kind n \<noteq> NoQuery \<and> (q_kind n \<in> {QueryInLabel, QueryFrom} \<longrightarrow> q_text n \<noteq> [])) (leaves q)"
proof (induction rule: query_built.induct)
  case (q_and a b qs)
  then show ?case by (simp add: and_query_def list_all_iff) blast
qed (simp_all add: query_defs)

subsection \<open>What a rate profile declares\<close>

record op_cost =
  oc_weight :: float64
  oc_ops_count :: int64

definition hard_cap_fraction :: float64 where
  "hard_cap_fraction = round64 (4 / 5)"

text \<open>\<open>CallSize\<close>: the loop grows \<open>n\<close> while there is more to ask for and the next call still fits.\<close>

function call_size_from :: "(nat \<Rightarrow> float64) \<Rightarrow> float64 \<Rightarrow> int64 \<Rightarrow> nat \<Rightarrow> nat" where
  "call_size_from cost limit most n =
     (if int n < sint most \<and> fle (cost (n + 1)) limit
      then call_size_from cost limit most (n + 1) else n)"
  by pat_completeness auto
termination
  by (relation "measure (\<lambda>(cost, limit, most, n). nat (sint most - int n))") auto

declare call_size_from.simps [simp del]

definition call_size :: "(nat \<Rightarrow> float64) \<Rightarrow> float64 \<Rightarrow> int64 \<Rightarrow> nat" where
  "call_size cost per_minute most = call_size_from cost (fmul hard_cap_fraction per_minute) most 1"

lemma call_size_from_spec:
  fixes cost limit most n
  defines "m \<equiv> call_size_from cost limit most n"
  shows "n \<le> m" and "n < m \<Longrightarrow> int m \<le> sint most \<and> fle (cost m) limit"
    and "\<forall>k. n < k \<and> k \<le> m \<longrightarrow> fle (cost k) limit"
    and "int m < sint most \<Longrightarrow> \<not> fle (cost (m + 1)) limit"
proof -
  have "n \<le> m \<and> (n < m \<longrightarrow> int m \<le> sint most \<and> fle (cost m) limit)
      \<and> (\<forall>k. n < k \<and> k \<le> m \<longrightarrow> fle (cost k) limit)
      \<and> (int m < sint most \<longrightarrow> \<not> fle (cost (m + 1)) limit)"
    unfolding m_def
  proof (induction cost limit most n rule: call_size_from.induct)
    case (1 cost limit most n)
    show ?case
    proof (cases "int n < sint most \<and> fle (cost (n + 1)) limit")
      case True
      let ?m = "call_size_from cost limit most (n + 1)"
      from True have e: "call_size_from cost limit most n = ?m"
        by (subst call_size_from.simps) simp
      note ih = "1.IH" [OF True]
      have "?m = n + 1 \<or> n + 1 < ?m" using ih by linarith
      moreover have "fle (cost k) limit" if "n < k" "k \<le> ?m" for k
        using ih True that by (cases "k = n + 1") auto
      ultimately show ?thesis using ih True unfolding e by auto
    next
      case False
      then have e: "call_size_from cost limit most n = n"
        by (subst call_size_from.simps) (rule if_not_P [OF False])
      show ?thesis using False unfolding e by auto
    qed
  qed
  then show "n \<le> m" "n < m \<Longrightarrow> int m \<le> sint most \<and> fle (cost m) limit"
    "\<forall>k. n < k \<and> k \<le> m \<longrightarrow> fle (cost k) limit"
    "int m < sint most \<Longrightarrow> \<not> fle (cost (m + 1)) limit" by blast+
qed

end
