(* ===== verification/MailAttachment.thy ===== *)
theory MailAttachment
  imports MailModel
begin

text \<open>
  \<open>core/mail/attachment.go\<close> and the message metadata it writes: the normalized media of an
  attachment, the closed vocabulary of types, and the one function that sets a message's attachments.
\<close>

subsection \<open>The types, ordered as the strings they are\<close>

datatype attachment_type =
    AttachmentPDF | AttachmentImage | AttachmentAudio | AttachmentVideo | AttachmentText
  | AttachmentCalendar | AttachmentContact | AttachmentDocument | AttachmentSpreadsheet
  | AttachmentPresentation | AttachmentArchive | AttachmentMessage | AttachmentSignature
  | AttachmentOther

fun attachment_word :: "attachment_type \<Rightarrow> string" where
  "attachment_word AttachmentPDF = ''pdf''"
| "attachment_word AttachmentImage = ''image''"
| "attachment_word AttachmentAudio = ''audio''"
| "attachment_word AttachmentVideo = ''video''"
| "attachment_word AttachmentText = ''text''"
| "attachment_word AttachmentCalendar = ''calendar''"
| "attachment_word AttachmentContact = ''contact''"
| "attachment_word AttachmentDocument = ''document''"
| "attachment_word AttachmentSpreadsheet = ''spreadsheet''"
| "attachment_word AttachmentPresentation = ''presentation''"
| "attachment_word AttachmentArchive = ''archive''"
| "attachment_word AttachmentMessage = ''message''"
| "attachment_word AttachmentSignature = ''signature''"
| "attachment_word AttachmentOther = ''other''"

lemma attachment_word_inject [simp]: "attachment_word a = attachment_word b \<longleftrightarrow> a = b"
  by (cases a; cases b) simp_all

instantiation attachment_type :: linorder
begin

definition less_eq_attachment_type :: "attachment_type \<Rightarrow> attachment_type \<Rightarrow> bool" where
  "less_eq_attachment_type a b \<longleftrightarrow> attachment_word a \<le> attachment_word b"

definition less_attachment_type :: "attachment_type \<Rightarrow> attachment_type \<Rightarrow> bool" where
  "less_attachment_type a b \<longleftrightarrow> attachment_word a < attachment_word b"

instance
  by standard
     (auto simp: less_eq_attachment_type_def less_attachment_type_def
           dest: antisym simp flip: attachment_word_inject)

end

subsection \<open>The media, ordered by \<open>compareMedia\<close>\<close>

datatype attachment_media = AttachmentMedia (am_type: string) (am_ext: string)

instantiation attachment_media :: linorder
begin

definition less_eq_attachment_media :: "attachment_media \<Rightarrow> attachment_media \<Rightarrow> bool" where
  "less_eq_attachment_media a b \<longleftrightarrow>
     am_type a < am_type b \<or> am_type a = am_type b \<and> am_ext a \<le> am_ext b"

definition less_attachment_media :: "attachment_media \<Rightarrow> attachment_media \<Rightarrow> bool" where
  "less_attachment_media a b \<longleftrightarrow>
     am_type a < am_type b \<or> am_type a = am_type b \<and> am_ext a < am_ext b"

instance
  by standard
     (auto simp: less_eq_attachment_media_def less_attachment_media_def
           intro: attachment_media.expand)

end

subsection \<open>Normalizing the media\<close>

definition media_name_max :: nat where "media_name_max = 127"
definition extension_max :: nat where "extension_max = 16"

definition is_lower_alnum :: "char \<Rightarrow> bool" where
  "is_lower_alnum c \<longleftrightarrow> ascii_lower (byte c) \<or> ascii_digit (byte c)"

definition ascii_lower_string :: "string \<Rightarrow> string" where
  "ascii_lower_string s = map (\<lambda>c. chr (lower_ascii (byte c))) s"

definition restricted_name :: "string \<Rightarrow> bool" where
  "restricted_name s \<longleftrightarrow>
     \<not> (s = [] \<or> media_name_max < length s \<or> \<not> is_lower_alnum (hd s)) \<and>
     (\<forall>c \<in> set (tl s). is_lower_alnum c \<or> c \<in> set ''!#$&-^_.+'')"

definition lower_alnum_set :: string where
  "lower_alnum_set = ''abcdefghijklmnopqrstuvwxyz0123456789''"

definition attachment_media_of :: "string \<Rightarrow> string \<Rightarrow> attachment_media" where
  "attachment_media_of media_type filename =
     (let essence = ascii_lower_string (trim_space (fst (cut_string media_type '';'')));
          (typ, sub, ok) = cut_string essence ''/'';
          kept = (if ok \<and> restricted_name typ \<and> restricted_name sub then essence else []);
          ext = (case last_index_byte filename (CHR ''.'') of
                   None \<Rightarrow> []
                 | Some dot \<Rightarrow>
                     (let e = ascii_lower_string (drop (dot + 1) filename)
                      in if length e \<le> extension_max \<and> trim_set e lower_alnum_set = [] then e else []))
      in AttachmentMedia kept ext)"

lemma trim_set_Nil_iff: "trim_set s cs = [] \<longleftrightarrow> set s \<subseteq> set cs"
proof -
  have "trim_right s cs = [] \<longleftrightarrow> set s \<subseteq> set cs"
    by (auto simp: trim_right_def dropWhile_eq_Nil_conv)
  moreover have "trim_right s cs \<noteq> [] \<Longrightarrow> last (trim_right s cs) \<notin> set cs"
    using hd_dropWhile [of "\<lambda>c. c \<in> set cs" "rev s"] by (auto simp: trim_right_def last_rev)
  ultimately show ?thesis
    by (cases "trim_right s cs = []")
       (simp_all add: trim_set_def trim_left_def dropWhile_eq_Nil_conv, metis last_in_set)
qed

lemma cut_string_parts: "cut_string s p = (a, b, True) \<Longrightarrow> s = a @ p @ b"
proof -
  have "index_string s p = Some i \<Longrightarrow> s = take i s @ p @ drop (i + length p) s" for i
  proof (induction s arbitrary: i)
    case Nil
    then show ?case by (auto split: if_splits)
  next
    case (Cons c s)
    show ?case
    proof (cases "has_prefix (c # s) p")
      case True
      then show ?thesis
        using Cons.prems append_take_drop_id [of "length p" "c # s"] by (simp add: has_prefix_def)
    next
      case False
      then obtain j where "index_string s p = Some j" "i = Suc j" using Cons.prems by auto
      then show ?thesis using Cons.IH by auto
    qed
  qed
  then show "cut_string s p = (a, b, True) \<Longrightarrow> s = a @ p @ b"
    by (auto simp: cut_string_def split: option.splits)
qed

text \<open>What is kept of an attachment is short and inert, whatever its sender wrote.\<close>

definition inert_media :: "attachment_media \<Rightarrow> bool" where
  "inert_media m \<longleftrightarrow>
     (am_type m = [] \<or> (\<exists>t s. am_type m = t @ ''/'' @ s \<and> restricted_name t \<and> restricted_name s)) \<and>
     length (am_ext m) \<le> extension_max \<and> set (am_ext m) \<subseteq> set lower_alnum_set"

lemma attachment_media_inert: "inert_media (attachment_media_of t f)"
  by (auto simp: inert_media_def attachment_media_of_def Let_def trim_set_Nil_iff
           split: prod.splits option.splits if_splits dest!: cut_string_parts)

lemma inert_media_length: "inert_media m \<Longrightarrow> length (am_type m) \<le> 255 \<and> length (am_ext m) \<le> 16"
  by (auto simp: inert_media_def restricted_name_def media_name_max_def extension_max_def)

subsection \<open>The type of an attachment\<close>

definition has_any_prefix :: "string \<Rightarrow> string list \<Rightarrow> bool" where
  "has_any_prefix s ps \<longleftrightarrow> list_ex (has_prefix s) ps"

definition by_media_type :: "string \<Rightarrow> attachment_type" where
  "by_media_type t =
    (if t = ''application/pdf'' then AttachmentPDF
     else if t \<in> {''text/calendar'', ''application/ics''} then AttachmentCalendar
     else if t \<in> {''text/vcard'', ''text/x-vcard'', ''text/directory''} then AttachmentContact
     else if t \<in> {''application/pkcs7-signature'', ''application/x-pkcs7-signature'',
                  ''application/pgp-signature''} then AttachmentSignature
     else if t \<in> {''text/csv'', ''text/tab-separated-values''} then AttachmentSpreadsheet
     else if t \<in> {''application/msword'', ''application/rtf'', ''text/rtf'',
                  ''application/vnd.oasis.opendocument.text'', ''application/vnd.apple.pages''}
     then AttachmentDocument
     else if t \<in> {''application/vnd.ms-excel'', ''application/vnd.oasis.opendocument.spreadsheet'',
                  ''application/vnd.apple.numbers''} then AttachmentSpreadsheet
     else if t \<in> {''application/vnd.ms-powerpoint'',
                  ''application/vnd.oasis.opendocument.presentation'', ''application/vnd.apple.keynote''}
     then AttachmentPresentation
     else if t \<in> {''application/zip'', ''application/x-zip-compressed'', ''application/gzip'',
                  ''application/x-gzip'', ''application/x-tar'', ''application/x-bzip2'',
                  ''application/x-7z-compressed'', ''application/vnd.rar'',
                  ''application/x-rar-compressed''} then AttachmentArchive
     else if has_any_prefix t [''application/vnd.openxmlformats-officedocument.wordprocessingml.'',
                               ''application/vnd.ms-word.''] then AttachmentDocument
     else if has_any_prefix t [''application/vnd.openxmlformats-officedocument.spreadsheetml.'',
                               ''application/vnd.ms-excel.''] then AttachmentSpreadsheet
     else if has_any_prefix t [''application/vnd.openxmlformats-officedocument.presentationml.'',
                               ''application/vnd.ms-powerpoint.''] then AttachmentPresentation
     else if has_prefix t ''image/'' then AttachmentImage
     else if has_prefix t ''audio/'' then AttachmentAudio
     else if has_prefix t ''video/'' then AttachmentVideo
     else if has_prefix t ''message/'' then AttachmentMessage
     else if has_prefix t ''text/'' then AttachmentText
     else AttachmentOther)"

definition by_extension :: "string \<Rightarrow> attachment_type" where
  "by_extension e =
    (if e = ''pdf'' then AttachmentPDF
     else if e \<in> {''jpg'', ''jpeg'', ''png'', ''gif'', ''bmp'', ''tif'', ''tiff'', ''webp'', ''heic'',
                  ''heif'', ''svg''} then AttachmentImage
     else if e \<in> {''mp3'', ''m4a'', ''wav'', ''ogg'', ''oga'', ''flac'', ''aac'', ''amr''}
     then AttachmentAudio
     else if e \<in> {''mp4'', ''m4v'', ''mov'', ''avi'', ''mkv'', ''webm'', ''3gp''} then AttachmentVideo
     else if e \<in> {''txt'', ''log'', ''md''} then AttachmentText
     else if e \<in> {''ics'', ''vcs''} then AttachmentCalendar
     else if e = ''vcf'' then AttachmentContact
     else if e \<in> {''p7s'', ''sig''} then AttachmentSignature
     else if e \<in> {''doc'', ''docx'', ''docm'', ''dot'', ''dotx'', ''odt'', ''rtf'', ''pages''}
     then AttachmentDocument
     else if e \<in> {''xls'', ''xlsx'', ''xlsm'', ''xlt'', ''xltx'', ''ods'', ''csv'', ''tsv'', ''numbers''}
     then AttachmentSpreadsheet
     else if e \<in> {''ppt'', ''pptx'', ''pptm'', ''pps'', ''ppsx'', ''odp'', ''key''}
     then AttachmentPresentation
     else if e \<in> {''zip'', ''gz'', ''tgz'', ''tar'', ''bz2'', ''xz'', ''7z'', ''rar''}
     then AttachmentArchive
     else if e \<in> {''eml'', ''msg''} then AttachmentMessage
     else AttachmentOther)"

definition attachment_type_of :: "attachment_media \<Rightarrow> attachment_type" where
  "attachment_type_of m =
     (if am_type m = [] \<or> am_type m = ''application/octet-stream'' then by_extension (am_ext m)
      else by_media_type (am_type m))"

definition attachment_types :: "attachment_media list \<Rightarrow> attachment_type list" where
  "attachment_types media = sort_compact (map attachment_type_of media)"

subsection \<open>The message metadata\<close>

record message_metadata =
  mm_account :: string
  mm_id :: string
  mm_thread :: string
  mm_from :: address
  mm_to :: "address list"
  mm_cc :: "address list"
  mm_subject :: string
  mm_date :: unix_milli
  mm_labels :: "string list"
  mm_flags :: mail_flags
  mm_size :: int64
  mm_has_attachments :: bool
  mm_names :: "string list"
  mm_media :: "attachment_media list"
  mm_snippet :: string
  mm_list :: string
  mm_auth :: auth_results

record attachment_part =
  ap_media_type :: string
  ap_filename :: string

definition set_attachments :: "message_metadata \<Rightarrow> attachment_part list \<Rightarrow> message_metadata" where
  "set_attachments m parts = m\<lparr>
     mm_has_attachments := 0 < length parts,
     mm_names := map ap_filename parts,
     mm_media := sort_compact (map (\<lambda>p. attachment_media_of (ap_media_type p) (ap_filename p)) parts)\<rparr>"

lemma set_attachments_fields [simp]:
  "mm_has_attachments (set_attachments m parts) \<longleftrightarrow> parts \<noteq> []"
  "mm_names (set_attachments m parts) = map ap_filename parts"
  "set (mm_media (set_attachments m parts)) =
     (\<lambda>p. attachment_media_of (ap_media_type p) (ap_filename p)) ` set parts"
  "sorted (mm_media (set_attachments m parts))" "distinct (mm_media (set_attachments m parts))"
  using sort_compact_strict by (auto simp: set_attachments_def)

text \<open>
  One list of parts sets the three attachment fields, so they describe the same parts: the
  message has attachments exactly when there is a part, the names are the parts' in order, the media
  are each part's normalized media, sorted and each once, and every one of them is inert: a type and
  subtype of RFC 6838's restricted names or nothing, and an extension of at most 16 lowercase ASCII
  letters and digits. The types derived are sorted and each once, and there is one exactly when there
  is a part.
\<close>

lemma attachments_describe_the_same_parts:
  "let m' = set_attachments m parts in
     (mm_has_attachments m' \<longleftrightarrow> parts \<noteq> []) \<and>
     mm_names m' = map ap_filename parts \<and>
     set (mm_media m') = (\<lambda>p. attachment_media_of (ap_media_type p) (ap_filename p)) ` set parts \<and>
     sorted (mm_media m') \<and> distinct (mm_media m') \<and>
     list_all inert_media (mm_media m') \<and>
     sorted (attachment_types (mm_media m')) \<and> distinct (attachment_types (mm_media m')) \<and>
     (attachment_types (mm_media m') = [] \<longleftrightarrow> parts = [])"
  using sort_compact_strict
  by (auto simp: Let_def list_all_iff attachment_media_inert attachment_types_def)
     (simp_all add: set_attachments_def)

end
