(* ===== verification/Automaton.thy ===== *)
theory Automaton
  imports GoText "HOL-Library.While_Combinator"
begin

text \<open>
  \<open>core/scan/automaton.go\<close>: the Aho-Corasick automaton of the keyword layer. A node is its index, a
  node's transitions are an association list from a folded byte to a child (the zero of an absent key
  is \<open>edge\<close>'s 0, as the Go map gives it), and the root is node 0.
\<close>

record automaton =
  au_next :: "(nat \<times> nat) list list"
  au_fail :: "nat list"
  au_words :: "nat list list"
  au_sizes :: "nat list"

record occurrence =
  oc_start :: nat
  oc_end :: nat
  oc_word :: nat

definition fold_byte :: "nat \<Rightarrow> nat" where
  "fold_byte b = (if ascii_upper b then b + 32 else b)"

definition edge :: "automaton \<Rightarrow> nat \<Rightarrow> nat \<Rightarrow> nat" where
  "edge a node b = (case map_of (au_next a ! node) b of None \<Rightarrow> 0 | Some c \<Rightarrow> c)"

subsection \<open>Building the trie\<close>

definition empty_automaton :: automaton where
  "empty_automaton = \<lparr>au_next = [[]], au_fail = [0], au_words = [[]], au_sizes = []\<rparr>"

text \<open>One byte of a word: follow the transition, or append a node and a transition to it.\<close>

definition trie_step :: "automaton \<times> nat \<Rightarrow> nat \<Rightarrow> automaton \<times> nat" where
  "trie_step s b = (case s of (a, node) \<Rightarrow>
     (case map_of (au_next a ! node) b of
        Some child \<Rightarrow> (a, child)
      | None \<Rightarrow>
         (let child = length (au_next a)
          in (a\<lparr>au_next := (au_next a)[node := au_next a ! node @ [(b, child)]] @ [[]],
                au_fail := au_fail a @ [0], au_words := au_words a @ [[]]\<rparr>, child))))"

definition add_word :: "automaton \<Rightarrow> nat \<Rightarrow> string \<Rightarrow> automaton" where
  "add_word a i w =
     (let (a, node) = foldl trie_step (a, 0) (map (\<lambda>c. fold_byte (byte c)) w)
      in a\<lparr>au_words := (au_words a)[node := au_words a ! node @ [i]],
           au_sizes := au_sizes a @ [length w]\<rparr>)"

definition build_trie :: "string list \<Rightarrow> automaton" where
  "build_trie ws = foldl (\<lambda>a (i, w). add_word a i w) empty_automaton (enumerate 0 ws)"

subsection \<open>The failure links, breadth first\<close>

text \<open>\<open>for f != 0 && a.next[f][b] == 0 { f = a.fail[f] }\<close>\<close>

definition fall_back :: "automaton \<Rightarrow> nat \<Rightarrow> nat \<Rightarrow> nat" where
  "fall_back a b f = while (\<lambda>f. f \<noteq> 0 \<and> edge a f b = 0) (\<lambda>f. au_fail a ! f) f"

definition link_child :: "nat \<Rightarrow> automaton \<Rightarrow> nat \<times> nat \<Rightarrow> automaton" where
  "link_child node a bc = (case bc of (b, child) \<Rightarrow>
     (let f = fall_back a b (au_fail a ! node);
          a = (case map_of (au_next a ! f) b of
                 Some target \<Rightarrow> (if target \<noteq> child
                                 then a\<lparr>au_fail := (au_fail a)[child := target]\<rparr> else a)
               | None \<Rightarrow> a)
      in a\<lparr>au_words := (au_words a)[child := au_words a ! child @ au_words a ! (au_fail a ! child)]\<rparr>))"

definition link_node :: "automaton \<times> nat list \<Rightarrow> automaton \<times> nat list" where
  "link_node s = (case s of (a, queue) \<Rightarrow>
     (case queue of
        [] \<Rightarrow> (a, [])
      | node # rest \<Rightarrow>
         (foldl (link_child node) a (au_next a ! node), rest @ map snd (au_next a ! node))))"

definition new_automaton :: "string list \<Rightarrow> automaton" where
  "new_automaton ws =
     (let a = build_trie ws
      in fst (while (\<lambda>(a, queue). queue \<noteq> []) link_node (a, map snd (au_next a ! 0))))"

subsection \<open>Word boundaries\<close>

definition word_rune :: "unicode \<Rightarrow> nat \<Rightarrow> bool" where
  "word_rune u r \<longleftrightarrow> is_letter u r \<or> is_digit_rune u r"

definition boundary_before :: "unicode \<Rightarrow> string \<Rightarrow> nat \<Rightarrow> bool" where
  "boundary_before u text i = (if i = 0 then True
     else \<not> word_rune u (fst (decode_last_rune (take i text))))"

definition boundary_after :: "unicode \<Rightarrow> string \<Rightarrow> nat \<Rightarrow> bool" where
  "boundary_after u text i = (if length text \<le> i then True
     else \<not> word_rune u (fst (decode_rune (drop i text))))"

subsection \<open>Searching\<close>

definition find_step :: "unicode \<Rightarrow> automaton \<Rightarrow> string \<Rightarrow> bool \<Rightarrow> nat \<times> occurrence list \<Rightarrow> nat \<Rightarrow>
    nat \<times> occurrence list" where
  "find_step u a text bounded s i = (case s of (node, found) \<Rightarrow>
     (let b = fold_byte (byte (text ! i));
          node = edge a (fall_back a b node) b;
          hits = map (\<lambda>w. \<lparr>oc_start = i + 1 - au_sizes a ! w, oc_end = i + 1, oc_word = w\<rparr>)
                     (au_words a ! node)
      in (node, found @ filter (\<lambda>m. \<not> bounded \<or>
            boundary_before u text (oc_start m) \<and> boundary_after u text (i + 1)) hits)))"

definition find_words :: "unicode \<Rightarrow> automaton \<Rightarrow> string \<Rightarrow> bool \<Rightarrow> occurrence list" where
  "find_words u a text bounded =
     snd (foldl (find_step u a text bounded) (0, []) [0..<length text])"

end
