(* ===== verification/Scan.thy ===== *)
theory Scan
  imports Automaton Sensitivity Float64
begin

text \<open>
  \<open>core/scan\<close>: the Content Scanner. Offsets are byte offsets, so they are \<open>nat\<close>, and the configured
  window and dense length keep their 64 bits. \<open>math.Log2\<close> is the argument \<open>lg\<close>. The compiled pattern
  \<open>(?i)https?://[^\s<>()\[\]"']+\<close> is written out by hand in \<open>url_at\<close>.
\<close>

subsection \<open>Configuration\<close>

definition scan_version :: int64 where "scan_version = 1"

definition rule_trigger_window :: string where "rule_trigger_window = ''mfa.trigger_window''"
definition rule_own_line :: string where "rule_own_line = ''mfa.own_line''"
definition rule_heading_or_cell :: string where "rule_heading_or_cell = ''mfa.heading_or_cell''"
definition rule_score :: string where "rule_score = ''mfa.score''"
definition rule_link_path :: string where "rule_link_path = ''link.path_token''"
definition rule_link_query :: string where "rule_link_query = ''link.query_token''"

lemmas rule_names = rule_trigger_window_def rule_own_line_def rule_heading_or_cell_def rule_score_def
  rule_link_path_def rule_link_query_def

record scan_weights =
  w_entropy :: float64
  w_mix :: float64
  w_length :: float64
  w_proximity :: float64
  w_position :: float64

text \<open>The trigger words by language are an association list, each language once.\<close>

record scan_config =
  sc_triggers :: "(string \<times> string list) list"
  sc_link_words :: "string list"
  sc_link_params :: "string list"
  sc_window :: int64
  sc_dense_length :: int64
  sc_dense_entropy :: float64
  sc_weights :: scan_weights
  sc_threshold :: float64
  sc_subject_threshold :: float64

definition default_scan_config :: scan_config where
  "default_scan_config = \<lparr>
     sc_triggers = [(''en'',
       [''code'', ''otp'', ''verification'', ''verify'', ''pin'', ''passcode'', ''password'', ''2fa'',
        ''two-factor'', ''two factor'', ''2-factor'', ''one-time'', ''one time'', ''single-use'',
        ''security code'', ''login'', ''log in'', ''log-in'', ''sign-in'', ''sign in'', ''auth'',
        ''authenticate'', ''authentication'', ''secret'', ''access'', ''validate'', ''validation'',
        ''tan'', ''confirmation''])],
     sc_link_words = [''token'', ''confirm'', ''verify'', ''reset'', ''magic'', ''auth'', ''password'',
        ''login'', ''unlock''],
     sc_link_params = [''token'', ''code'', ''key'', ''auth'', ''t'', ''otp'', ''reset_password_token'',
        ''confirmation_token'', ''unlock_token'', ''oobcode'', ''verification_code'',
        ''confirmation_code'', ''ticket'', ''signature''],
     sc_window = 8, sc_dense_length = 16, sc_dense_entropy = Fin 3,
     sc_weights = \<lparr>w_entropy = Fin 1, w_mix = Fin 1, w_length = Fin 1, w_proximity = Fin 1,
        w_position = Fin 1\<rparr>,
     sc_threshold = round64 (3 / 5), sc_subject_threshold = round64 (3 / 5)\<rparr>"

record scanner =
  s_built :: bool
  s_patterns :: bool
  s_cfg :: scan_config
  s_revision :: string
  s_triggers :: automaton
  s_link_words :: automaton
  s_link_params :: "string list"

definition zero_scan_config :: scan_config where
  "zero_scan_config = \<lparr>sc_triggers = [], sc_link_words = [], sc_link_params = [], sc_window = 0,
     sc_dense_length = 0, sc_dense_entropy = Fin 0,
     sc_weights = \<lparr>w_entropy = Fin 0, w_mix = Fin 0, w_length = Fin 0, w_proximity = Fin 0,
        w_position = Fin 0\<rparr>, sc_threshold = Fin 0, sc_subject_threshold = Fin 0\<rparr>"

definition zero_scanner :: scanner where
  "zero_scanner = \<lparr>s_built = False, s_patterns = False, s_cfg = zero_scan_config, s_revision = [],
     s_triggers = \<lparr>au_next = [], au_fail = [], au_words = [], au_sizes = []\<rparr>,
     s_link_words = \<lparr>au_next = [], au_fail = [], au_words = [], au_sizes = []\<rparr>, s_link_params = []\<rparr>"

subsection \<open>Building a scanner\<close>

definition is_word :: "string \<Rightarrow> bool" where
  "is_word w \<longleftrightarrow> w \<noteq> [] \<and> trim_space w = w"

definition fsum :: "float64 list \<Rightarrow> float64" where
  "fsum xs = foldl fadd (Fin 0) xs"

definition is_inf :: "float64 \<Rightarrow> bool" where
  "is_inf x \<longleftrightarrow> x = PInf \<or> x = NInf"

definition weight_list :: "scan_weights \<Rightarrow> float64 list" where
  "weight_list w = [w_entropy w, w_mix w, w_length w, w_proximity w, w_position w]"

definition sorted_languages :: "scan_config \<Rightarrow> (string \<times> string list) list" where
  "sorted_languages cfg = sort_key fst (sc_triggers cfg)"

definition trigger_words :: "scan_config \<Rightarrow> string list" where
  "trigger_words cfg = concat (map snd (sorted_languages cfg))"

definition trigger_problems :: "unicode \<Rightarrow> scan_config \<Rightarrow> string list" where
  "trigger_problems u cfg =
     concat (map (\<lambda>(lang, ws). map (\<lambda>w. ''scan: the '' @ lang @ '' trigger '' @ u_quote u w @
                                      '' is empty or has surrounding space'')
                                   (filter (\<lambda>w. \<not> is_word w) ws))
            (sorted_languages cfg))"

definition threshold_ok :: "float64 \<Rightarrow> bool" where
  "threshold_ok x \<longleftrightarrow> flt (Fin 0) x \<and> fle x (Fin 1)"

definition new_scanner :: "unicode \<Rightarrow> scan_config \<Rightarrow> string \<Rightarrow> string list + scanner" where
  "new_scanner u cfg revision =
     (let triggers = trigger_words cfg;
          weights = weight_list (sc_weights cfg);
          problems =
            (if revision = [] then [''scan: the revision is empty''] else []) @
            trigger_problems u cfg @
            (if triggers = [] then [''scan: no trigger word is configured''] else []) @
            map (\<lambda>w. ''scan: the link word or parameter '' @ u_quote u w @
                     '' is empty or has surrounding space'')
                (filter (\<lambda>w. \<not> is_word w) (sc_link_words cfg @ sc_link_params cfg)) @
            (if sc_link_words cfg = [] \<or> sc_link_params cfg = []
             then [''scan: no link word or no link parameter is configured''] else []) @
            (if sint (sc_window cfg) < 1 \<or> sint (sc_dense_length cfg) < 1
                \<or> \<not> flt (Fin 0) (sc_dense_entropy cfg)
             then [''scan: the window, the dense length and the dense entropy must be positive'']
             else if flt (Fin 8) (sc_dense_entropy cfg)
             then [''scan: the dense entropy is above 8 bits, more than any value of bytes can reach, so no link would be flagged'']
             else []) @
            (if list_ex (\<lambda>x. \<not> fle (Fin 0) x \<or> is_inf x) weights \<or> fsum weights = Fin 0
                \<or> is_inf (fsum weights)
             then [''scan: the weights must be finite, not negative, not all zero, and sum to a finite number''] else []) @
            (if \<not> threshold_ok (sc_threshold cfg) \<or> \<not> threshold_ok (sc_subject_threshold cfg)
             then [''scan: each threshold must be above 0 and at most 1'']
             else if flt (sc_threshold cfg) (sc_subject_threshold cfg)
             then [''scan: the subject threshold is above the body threshold, but masking a subject is tuned for recall'']
             else [])
      in if problems \<noteq> [] then Inl problems
         else Inr \<lparr>s_built = True, s_patterns = False, s_cfg = cfg, s_revision = revision,
                   s_triggers = new_automaton triggers,
                   s_link_words = new_automaton (sc_link_words cfg),
                   s_link_params = map (to_lower u) (sc_link_params cfg)\<rparr>)"

subsection \<open>Tokens and digit runs\<close>

type_synonym segment = "nat \<times> nat"

definition substring :: "string \<Rightarrow> nat \<Rightarrow> nat \<Rightarrow> string" where
  "substring s i j = take (j - i) (drop i s)"

text \<open>\<open>tokenize\<close>: the open token's start is an option, None for the source's -1.\<close>

definition token_step :: "unicode \<Rightarrow> segment list \<times> nat option \<Rightarrow> nat \<times> nat \<times> nat \<Rightarrow>
    segment list \<times> nat option" where
  "token_step u st irw = (case (st, irw) of ((tokens, start), (i, r, w)) \<Rightarrow>
     (if word_rune u r then (tokens, case start of None \<Rightarrow> Some i | Some s \<Rightarrow> Some s)
      else case start of Some s \<Rightarrow> (tokens @ [(s, i)], None) | None \<Rightarrow> (tokens, None)))"

definition tokenize :: "unicode \<Rightarrow> string \<Rightarrow> segment list" where
  "tokenize u text =
     (case foldl (token_step u) ([], None) (range_string text) of
        (tokens, Some s) \<Rightarrow> tokens @ [(s, length text)]
      | (tokens, None) \<Rightarrow> tokens)"

definition token_at :: "segment list \<Rightarrow> nat \<Rightarrow> nat" where
  "token_at tokens offset = search_first (\<lambda>t. offset < snd t) tokens"

text \<open>
  \<open>near\<close>: the triggers are sorted, and the loop runs from the first at or past \<open>token - window\<close> while
  they are at most \<open>token + window\<close>, in 64-bit arithmetic.
\<close>

definition near :: "nat list \<Rightarrow> nat \<Rightarrow> int64 \<Rightarrow> bool" where
  "near triggers token window =
     (let lo = sint (of_nat token - window :: int64);
          hi = sint (of_nat token + window :: int64);
          from_lo = drop (search_first (\<lambda>t. lo \<le> int t) triggers) triggers
      in list_ex (\<lambda>t. t \<noteq> token) (takeWhile (\<lambda>t. int t \<le> hi) from_lo))"

definition is_digit :: "char \<Rightarrow> bool" where
  "is_digit c \<longleftrightarrow> ascii_digit (byte c)"

definition separators :: "string list" where
  "separators = ['' '', ''-'', [CHR 0xC2, CHR 0xA0], [CHR 0xE2, CHR 0x80, CHR 0xAF], [CHR 0xE2, CHR 0x80, CHR 0x89]]"

definition separator_at :: "string \<Rightarrow> nat \<Rightarrow> nat" where
  "separator_at text i =
     (case find (\<lambda>sep. has_prefix (drop i text) sep) separators of Some sep \<Rightarrow> length sep | None \<Rightarrow> 0)"

text \<open>The inner loop of \<open>digitRuns\<close>: how far the run goes from \<open>i\<close>, and how many digits it holds.\<close>

function run_from :: "string \<Rightarrow> nat \<Rightarrow> nat \<Rightarrow> nat \<Rightarrow> nat \<times> nat" where
  "run_from text end digits grp =
     (if length text \<le> end then (end, digits)
      else if is_digit (text ! end) then run_from text (end + 1) (digits + 1) (grp + 1)
      else let n = separator_at text end in
        if 0 < n \<and> 3 \<le> grp \<and> end + n + 3 \<le> length text \<and> is_digit (text ! (end + n))
           \<and> is_digit (text ! (end + n + 1)) \<and> is_digit (text ! (end + n + 2))
        then run_from text (end + n) digits 0
        else (end, digits))"
  by pat_completeness auto
termination
  by (relation "measure (\<lambda>(text, end, digits, grp). length text - end)") auto

declare run_from.simps [simp del]

lemma run_from_bounds:
  "k \<le> length text \<Longrightarrow> k \<le> fst (run_from text k d g) \<and> fst (run_from text k d g) \<le> length text"
proof (induction "text" k d g rule: run_from.induct)
  case (1 s k d g)
  show ?case
    using 1 by (subst (1 2) run_from.simps) (force simp: Let_def)
qed

function digit_runs_from :: "unicode \<Rightarrow> string \<Rightarrow> nat \<Rightarrow> segment list" where
  "digit_runs_from u text i =
     (if length text \<le> i then []
      else if \<not> is_digit (text ! i) \<or> \<not> boundary_before u text i then digit_runs_from u text (i + 1)
      else let (end, digits) = run_from text i 0 0;
               rest = digit_runs_from u text (end + 1)
           in if 4 \<le> digits \<and> digits \<le> 8 \<and> boundary_after u text end then (i, end) # rest else rest)"
  by pat_completeness auto
termination
proof (relation "measure (\<lambda>(u, text, i). length text - i)")
  fix u :: unicode and t :: string and i :: nat and x e d
  assume "\<not> length t \<le> i" "x = run_from t i 0 0" "(e, d) = x"
  then show "((u, t, e + 1), u, t, i) \<in> measure (\<lambda>(u, text, i). length text - i)"
    using run_from_bounds [of i t 0 0] by (auto simp: prod_eq_iff)
qed auto

declare digit_runs_from.simps [simp del]

definition digit_runs :: "unicode \<Rightarrow> string \<Rightarrow> segment list" where
  "digit_runs u text = digit_runs_from u text 0"

subsection \<open>The layout of a text\<close>

record text_layout =
  tl_lines :: "segment list"
  tl_trimmed :: "string list"
  tl_heading :: "bool list"
  tl_pipes :: "nat list list"

definition is_heading :: "string \<Rightarrow> bool" where
  "is_heading line \<longleftrightarrow>
     (let trimmed = trim_left line '' '' in has_prefix trimmed ''# '' \<or> has_prefix trimmed ''## '')"

definition newline :: char where "newline = CHR 0x0A"

text \<open>Each line as the segment the loop of \<open>layout\<close> closes, a carriage return before the break dropped.\<close>

definition line_step :: "string \<Rightarrow> segment list \<times> nat \<Rightarrow> nat \<Rightarrow> segment list \<times> nat" where
  "line_step text st i = (case st of (ls, start) \<Rightarrow>
     (if i < length text \<and> text ! i \<noteq> newline then (ls, start)
      else let end = (if start < i \<and> text ! (i - 1) = CHR 0x0D then i - 1 else i)
           in (ls @ [(start, end)], i + 1)))"

definition line_segments :: "string \<Rightarrow> segment list" where
  "line_segments text = fst (foldl (line_step text) ([], 0) [0..<Suc (length text)])"

definition decoration :: string where "decoration = '' '' @ [CHR 0x09] @ ''*_`>''"
definition cell_decoration :: string where "cell_decoration = '' '' @ [CHR 0x09] @ ''*_`''"

definition pipes_of :: "string \<Rightarrow> nat list" where
  "pipes_of line =
     (if has_prefix (trim_space line) ''|'' then filter (\<lambda>j. line ! j = CHR ''|'') [0..<length line] else [])"

definition layout :: "string \<Rightarrow> text_layout" where
  "layout text =
     (let ls = line_segments text; texts = map (\<lambda>(s, e). substring text s e) ls
      in \<lparr>tl_lines = ls, tl_trimmed = map (\<lambda>l. trim_set l decoration) texts,
          tl_heading = map is_heading texts, tl_pipes = map pipes_of texts\<rparr>)"

definition line_of :: "text_layout \<Rightarrow> nat \<Rightarrow> nat" where
  "line_of ls offset = search_first (\<lambda>l. offset \<le> snd l) (tl_lines ls)"

definition whole_cell :: "text_layout \<Rightarrow> nat \<Rightarrow> string \<Rightarrow> segment \<Rightarrow> bool" where
  "whole_cell ls li line r =
     (let pipes = tl_pipes ls ! li;
          right = search_first (\<lambda>p. snd r \<le> p) pipes
      in if right = 0 \<or> right = length pipes \<or> fst r \<le> pipes ! (right - 1) then False
         else trim_set (substring line (pipes ! (right - 1) + 1) (pipes ! right)) cell_decoration
                = substring line (fst r) (snd r))"

subsection \<open>Links\<close>

text \<open>
  The pattern at the start of a string: \<open>http\<close> in any letter case, an optional \<open>s\<close>, whose case
  orbit holds U+017F, then \<open>://\<close>, and as many runes outside the class as there are, at least one.
\<close>

definition url_stop :: "nat \<Rightarrow> bool" where
  "url_stop r \<longleftrightarrow> r \<in> {9, 10, 12, 13, 32, 60, 62, 40, 41, 91, 93, 34, 39}"

function url_span :: "string \<Rightarrow> nat" where
  "url_span s =
     (if s = [] \<or> url_stop (fst (decode_rune s)) then 0
      else snd (decode_rune s) + url_span (drop (snd (decode_rune s)) s))"
  by pat_completeness auto
termination
  by (relation "measure length") (auto dest: decode_rune_width)

declare url_span.simps [simp del]

definition url_scheme :: "string \<Rightarrow> nat option" where
  "url_scheme s =
     (if map (\<lambda>c. fold_byte (byte c)) (take 4 s) \<noteq> map byte ''http'' then None
      else let rest = drop 4 s;
               n = (if rest \<noteq> [] \<and> fold_byte (byte (hd rest)) = 115 then 5
                    else if has_prefix rest [CHR 0xC5, CHR 0xBF] then 6 else 4)
           in if has_prefix (drop n s) ''://'' then Some (n + 3) else None)"

definition url_at :: "string \<Rightarrow> nat option" where
  "url_at s = (case url_scheme s of
      None \<Rightarrow> None
    | Some n \<Rightarrow> (let k = url_span (drop n s) in if k = 0 then None else Some (n + k)))"

text \<open>\<open>FindAllStringIndex\<close>: leftmost matches that do not overlap.\<close>

function url_matches :: "string \<Rightarrow> nat \<Rightarrow> segment list" where
  "url_matches s i =
     (if length s \<le> i then []
      else case url_at (drop i s) of
          None \<Rightarrow> url_matches s (i + 1)
        | Some n \<Rightarrow> (i, i + n) # url_matches s (i + n))"
  by pat_completeness auto
termination
  by (relation "measure (\<lambda>(s, i). length s - i)")
     (auto simp: url_at_def Let_def split: option.splits if_splits)

declare url_matches.simps [simp del]

definition float_of_nat :: "nat \<Rightarrow> float64" where
  "float_of_nat n = float_of_int64 (of_nat n)"

definition entropy :: "(float64 \<Rightarrow> float64) \<Rightarrow> string \<Rightarrow> float64" where
  "entropy lg v =
     (if v = [] then Fin 0
      else foldl (\<lambda>h b. let c = length (filter (\<lambda>x. byte x = b) v) in
                    if 0 < c then (let p = fdiv (float_of_nat c) (float_of_nat (length v))
                                   in fsub h (fmul p (lg p)))
                    else h)
                 (Fin 0) [0..<256])"

definition is_dense :: "(float64 \<Rightarrow> float64) \<Rightarrow> scanner \<Rightarrow> string \<Rightarrow> bool" where
  "is_dense lg s v \<longleftrightarrow> sint (sc_dense_length (s_cfg s)) \<le> int (length v) \<and>
     fle (sc_dense_entropy (s_cfg s)) (entropy lg v)"

definition link_rules :: "unicode \<Rightarrow> (float64 \<Rightarrow> float64) \<Rightarrow> scanner \<Rightarrow> string \<Rightarrow> string list" where
  "link_rules u lg s url =
     (let rest = drop (case index_string url ''://'' of Some i \<Rightarrow> i + 3 | None \<Rightarrow> 2) url;
          rest = (case index_byte rest (CHR ''#'') of Some i \<Rightarrow> take i rest | None \<Rightarrow> rest);
          host_end = (case index_func (\<lambda>c. c \<in> set ''/?'') rest of Some i \<Rightarrow> i | None \<Rightarrow> length rest);
          after_host = drop host_end rest;
          (path, query, _) = cut_string after_host ''?'';
          segments = split_byte (CHR ''/'') path
      in (if list_ex (is_dense lg s) segments \<and> find_words u (s_link_words s) after_host False \<noteq> []
          then [rule_link_path] else []) @
         (if list_ex (\<lambda>pair. let (key, v, _) = cut_string pair ''='' in
                to_lower u key \<in> set (s_link_params s) \<and> is_dense lg s v)
              (split_byte (CHR ''&'') query)
          then [rule_link_query] else []))"

subsection \<open>Tier 2\<close>

definition candidate :: "string \<Rightarrow> bool" where
  "candidate tok \<longleftrightarrow>
     \<not> (length tok < 4 \<or> 10 < length tok \<or> length (runes tok) \<noteq> length tok) \<and>
     (\<forall>c \<in> set tok. is_digit c \<or> ascii_lower (byte c) \<or> ascii_upper (byte c)) \<and>
     (\<exists>c \<in> set tok. is_digit c)"

definition placed :: "text_layout \<Rightarrow> string \<Rightarrow> segment \<Rightarrow> bool" where
  "placed ls text t =
     (let li = line_of ls (fst t);
          tok = substring text (fst t) (snd t);
          bold = (\<lambda>mark. length mark \<le> fst t \<and> snd t + length mark \<le> length text \<and>
                    substring text (fst t - length mark) (fst t) = mark \<and>
                    substring text (snd t) (snd t + length mark) = mark)
      in tl_trimmed ls ! li = tok \<or> tl_heading ls ! li \<or> bold ''**'' \<or> bold ''__'')"

definition one_if :: "bool \<Rightarrow> float64" where
  "one_if b = (if b then Fin 1 else Fin 0)"

definition score :: "(float64 \<Rightarrow> float64) \<Rightarrow> scanner \<Rightarrow> string \<Rightarrow> segment \<Rightarrow> nat \<Rightarrow> nat list \<Rightarrow>
    text_layout \<Rightarrow> float64" where
  "score lg s text t index triggers ls =
     (let tok = substring text (fst t) (snd t);
          digit = one_if (\<exists>c \<in> set tok. is_digit c);
          lower = one_if (\<exists>c \<in> set tok. \<not> is_digit c \<and> ascii_lower (byte c));
          upper = one_if (\<exists>c \<in> set tok. \<not> is_digit c \<and> \<not> ascii_lower (byte c));
          length_score = (if 6 \<le> length tok \<and> length tok \<le> 10 then Fin 1 else Fin (1 / 2));
          proximity = one_if (near triggers index (sc_window (s_cfg s)));
          position = one_if (placed ls text t);
          w = sc_weights (s_cfg s);
          total = fadd (fadd (fadd (fadd
              (fmul (w_entropy w) (fmin (Fin 1) (fdiv (entropy lg tok) (lg (float_of_nat (length tok))))))
              (fdiv (fmul (w_mix w) (fadd (fadd lower upper) digit)) (Fin 3)))
              (fmul (w_length w) length_score))
              (fmul (w_proximity w) proximity))
              (fmul (w_position w) position)
      in fdiv total (fadd (fadd (fadd (fadd (w_entropy w) (w_mix w)) (w_length w)) (w_proximity w))
           (w_position w)))"

subsection \<open>Detection\<close>

datatype span_flag = NoFlag | OneTimeCode | LoginLink

record span =
  sp_start :: nat
  sp_end :: nat
  sp_rule :: string
  sp_tier :: nat
  sp_flag :: span_flag

definition mark_covered :: "bool list \<Rightarrow> segment \<Rightarrow> bool list" where
  "mark_covered covered seg = foldl (\<lambda>c i. c[i := True]) covered [fst seg..<snd seg]"

definition trigger_tokens :: "unicode \<Rightarrow> scanner \<Rightarrow> string \<Rightarrow> segment list \<Rightarrow> nat list" where
  "trigger_tokens u s text tokens =
     sort (map (\<lambda>m. token_at tokens (oc_start m)) (find_words u (s_triggers s) text True))"

definition window_spans :: "unicode \<Rightarrow> scanner \<Rightarrow> string \<Rightarrow> segment list \<Rightarrow> nat list \<Rightarrow> span list" where
  "window_spans u s text tokens triggers =
     map (\<lambda>r. \<lparr>sp_start = fst r, sp_end = snd r, sp_rule = rule_trigger_window, sp_tier = 1,
              sp_flag = OneTimeCode\<rparr>)
         (filter (\<lambda>r. near triggers (token_at tokens (fst r)) (sc_window (s_cfg s))) (digit_runs u text))"

definition line_spans :: "unicode \<Rightarrow> string \<Rightarrow> text_layout \<Rightarrow> nat \<Rightarrow> span list" where
  "line_spans u text ls li =
     (let ln = tl_lines ls ! li; line = substring text (fst ln) (snd ln)
      in concat (map (\<lambda>r.
           let st = fst ln + fst r; en = fst ln + snd r
           in if tl_trimmed ls ! li = substring line (fst r) (snd r)
              then [\<lparr>sp_start = st, sp_end = en, sp_rule = rule_own_line, sp_tier = 1,
                     sp_flag = OneTimeCode\<rparr>]
              else if tl_heading ls ! li \<or> whole_cell ls li line r
              then [\<lparr>sp_start = st, sp_end = en, sp_rule = rule_heading_or_cell, sp_tier = 1,
                     sp_flag = OneTimeCode\<rparr>]
              else []) (digit_runs u line)))"

text \<open>A URL without the punctuation that ends the sentence around it.\<close>

definition url_segments :: "string \<Rightarrow> segment list" where
  "url_segments text =
     map (\<lambda>(st, en). (st, st + length (trim_right (substring text st en) ''.,;:!?''))) (url_matches text 0)"

definition url_spans :: "unicode \<Rightarrow> (float64 \<Rightarrow> float64) \<Rightarrow> scanner \<Rightarrow> string \<Rightarrow> segment \<Rightarrow> span list" where
  "url_spans u lg s text seg =
     map (\<lambda>rule. \<lparr>sp_start = fst seg, sp_end = snd seg, sp_rule = rule, sp_tier = 1, sp_flag = LoginLink\<rparr>)
         (link_rules u lg s (substring text (fst seg) (snd seg)))"

definition detect :: "unicode \<Rightarrow> (float64 \<Rightarrow> float64) \<Rightarrow> scanner \<Rightarrow> string \<Rightarrow> bool \<Rightarrow> span list \<times> nat" where
  "detect u lg s text subject =
     (let tokens = tokenize u text;
          triggers = trigger_tokens u s text tokens;
          ls = layout text;
          codes = window_spans u s text tokens triggers @
                  concat (map (line_spans u text ls) [0..<length (tl_lines ls)]);
          covered = foldl mark_covered (replicate (length text) False)
                      (map (\<lambda>sp. (sp_start sp, sp_end sp)) codes);
          tokens = (if s_patterns s then [] else tokens);
          urls = url_segments text;
          covered = foldl mark_covered covered urls;
          links = concat (map (url_spans u lg s text) urls);
          threshold = (if subject then sc_subject_threshold (s_cfg s) else sc_threshold (s_cfg s));
          scored = filter (\<lambda>(i, t). candidate (substring text (fst t) (snd t)) \<and>
                              \<not> (\<exists>k \<in> set [fst t..<snd t]. covered ! k)) (enumerate 0 tokens);
          hits = filter (\<lambda>(i, t). fle threshold (score lg s text t i triggers ls)) scored;
          spans = codes @ links @
                  map (\<lambda>(i, t). \<lparr>sp_start = fst t, sp_end = snd t, sp_rule = rule_score, sp_tier = 2,
                                 sp_flag = OneTimeCode\<rparr>) hits
      in (sort_key sp_start spans, if scored = [] then 1 else 2))"

definition subject_spans :: "unicode \<Rightarrow> (float64 \<Rightarrow> float64) \<Rightarrow> scanner \<Rightarrow> string \<Rightarrow> span list \<times> bool" where
  "subject_spans u lg s subject =
     (if \<not> s_built s then ([], False) else (fst (detect u lg s subject True), True))"

subsection \<open>Verdicts\<close>

record scan_verdict =
  sv_flags :: content_flags
  sv_rules :: "string list"
  sv_tier :: nat
  sv_version :: int64
  sv_revision :: string

definition zero_scan_verdict :: scan_verdict where
  "zero_scan_verdict = \<lparr>sv_flags = zero_flags, sv_rules = [], sv_tier = 0, sv_version = 0, sv_revision = []\<rparr>"

definition scanner_version :: "scanner \<Rightarrow> int64" where
  "scanner_version s = (if \<not> s_built s then 0 else scan_version)"

definition scan :: "unicode \<Rightarrow> (float64 \<Rightarrow> float64) \<Rightarrow> scanner \<Rightarrow> string \<Rightarrow> scan_verdict" where
  "scan u lg s text =
     (if \<not> s_built s then zero_scan_verdict
      else let (spans, tier) = detect u lg s text False;
               raise = (\<lambda>(mfa, link) sp. case sp_flag sp of
                          OneTimeCode \<Rightarrow> (True, link) | LoginLink \<Rightarrow> (mfa, True) | NoFlag \<Rightarrow> (True, True));
               (mfa, link) = foldl raise (False, False) spans
           in \<lparr>sv_flags = flags_of mfa link, sv_rules = sort_compact (map sp_rule spans), sv_tier = tier,
               sv_version = scan_version, sv_revision = s_revision s\<rparr>)"

definition scan_patterns :: "unicode \<Rightarrow> (float64 \<Rightarrow> float64) \<Rightarrow> scanner \<Rightarrow> string \<Rightarrow> scan_verdict" where
  "scan_patterns u lg s text = scan u lg (s\<lparr>s_patterns := True\<rparr>) text"

end
