(* ===== verification/ScanFacts.thy ===== *)
theory ScanFacts
  imports Scan
begin

text \<open>
  What the scanner's definitions guarantee: where a detection lies, what a digit run is, what a
  verdict's flags say of its rules, that a scan of the patterns alone is the tier 1 part of a scan, and
  that a code alone on its line is found.
\<close>

subsection \<open>Slices\<close>

lemma length_substring [simp]: "j \<le> length s \<Longrightarrow> length (substring s i j) = j - i"
  by (simp add: substring_def)

lemma substring_empty [simp]: "substring s i i = []"
  by (simp add: substring_def)

lemma substring_step: "i < j \<Longrightarrow> i < length s \<Longrightarrow> substring s i j = s ! i # substring s (i + 1) j"
  by (simp add: substring_def Cons_nth_drop_Suc [symmetric] take_Cons' )

lemma substring_split: "i \<le> k \<Longrightarrow> k \<le> j \<Longrightarrow> substring s i j = substring s i k @ substring s k j"
  using take_add [of "k - i" "j - k" "drop i s"] by (simp add: substring_def)

subsection \<open>Digit runs\<close>

definition digit_count :: "string \<Rightarrow> nat" where
  "digit_count s = length (filter is_digit s)"

lemma digit_count_simps [simp]:
  "digit_count [] = 0"
  "digit_count (c # s) = (if is_digit c then 1 else 0) + digit_count s"
  "digit_count (s @ t) = digit_count s + digit_count t"
  by (simp_all add: digit_count_def)

lemma separator_at_substring:
  assumes "0 < separator_at text i"
  shows "substring text i (i + separator_at text i) \<in> set separators"
proof (cases "find (\<lambda>sep. has_prefix (drop i text) sep) separators")
  case None
  then show ?thesis using assms by (simp add: separator_at_def)
next
  case (Some sep)
  then have "sep \<in> set separators" "has_prefix (drop i text) sep"
    by (auto simp: find_Some_iff)
  then show ?thesis using Some by (simp add: separator_at_def substring_def has_prefix_def)
qed

lemma separators_hold_no_digit: "sep \<in> set separators \<Longrightarrow> digit_count sep = 0"
  by (auto simp: separators_def is_digit_def ascii_digit_def)

lemma run_from_counts:
  "k \<le> length text \<Longrightarrow> snd (run_from text k d g) = d + digit_count (substring text k (fst (run_from text k d g)))"
proof (induction "text" k d g rule: run_from.induct)
  case (1 s k d g)
  let ?n = "separator_at s k"
  consider "length s \<le> k" | "k < length s" "is_digit (s ! k)"
    | "k < length s" "\<not> is_digit (s ! k)"
        "0 < ?n \<and> 3 \<le> g \<and> k + ?n + 3 \<le> length s \<and> is_digit (s ! (k + ?n))
         \<and> is_digit (s ! (k + ?n + 1)) \<and> is_digit (s ! (k + ?n + 2))"
    | "k < length s" "\<not> is_digit (s ! k)"
        "\<not> (0 < ?n \<and> 3 \<le> g \<and> k + ?n + 3 \<le> length s \<and> is_digit (s ! (k + ?n))
         \<and> is_digit (s ! (k + ?n + 1)) \<and> is_digit (s ! (k + ?n + 2)))"
    by linarith
  then show ?case
  proof cases
    case 2
    then have e: "run_from s k d g = run_from s (k + 1) (d + 1) (g + 1)"
      by (subst run_from.simps) simp
    have "k < fst (run_from s (k + 1) (d + 1) (g + 1))"
      using run_from_bounds [of "k + 1" s "d + 1" "g + 1"] 2 by linarith
    then show ?thesis
      using 2 "1.IH"(1) unfolding e by (simp add: substring_step [of k])
  next
    case 3
    then have e: "run_from s k d g = run_from s (k + ?n) d 0"
      by (subst run_from.simps) (simp add: Let_def)
    have "k + ?n \<le> fst (run_from s (k + ?n) d 0)"
      using run_from_bounds [of "k + ?n" s d 0] 3 by linarith
    then have "digit_count (substring s k (fst (run_from s (k + ?n) d 0))) =
        digit_count (substring s (k + ?n) (fst (run_from s (k + ?n) d 0)))"
      using separators_hold_no_digit [OF separator_at_substring [of s k]] 3
        substring_split [of k "k + ?n" "fst (run_from s (k + ?n) d 0)" s] by simp
    then show ?thesis
      using 3 "1.IH"(2) unfolding e by simp
  next
    case 4
    then have "run_from s k d g = (k, d)"
      by (subst run_from.simps) (simp only: Let_def if_not_P not_le if_False)
    then show ?thesis by simp
  next
    case 1
    then have "run_from s k d g = (k, d)" by (subst run_from.simps) simp
    then show ?thesis by simp
  qed
qed

lemma run_from_moves: "i < length text \<Longrightarrow> is_digit (text ! i) \<Longrightarrow> i < fst (run_from text i 0 0)"
  using run_from_bounds [of "i + 1" "text" 1 1] by (subst run_from.simps) auto

definition lone_run :: "unicode \<Rightarrow> string \<Rightarrow> segment \<Rightarrow> bool" where
  "lone_run u text r \<longleftrightarrow> fst r < snd r \<and> snd r \<le> length text \<and> is_digit (text ! fst r) \<and>
     boundary_before u text (fst r) \<and> boundary_after u text (snd r) \<and>
     digit_count (substring text (fst r) (snd r)) \<in> {4..8}"

lemma digit_runs_from_ok:
  "r \<in> set (digit_runs_from u text i) \<Longrightarrow> i \<le> fst r \<and> lone_run u text r"
proof (induction u "text" i rule: digit_runs_from.induct)
  case (1 u s i)
  obtain e d where run: "run_from s i 0 0 = (e, d)" by fastforce
  consider "length s \<le> i" | "i < length s" "\<not> is_digit (s ! i) \<or> \<not> boundary_before u s i"
    | "i < length s" "is_digit (s ! i)" "boundary_before u s i" by linarith
  then show ?case
  proof cases
    case 1
    then show ?thesis using "1.prems" by (subst (asm) digit_runs_from.simps) simp
  next
    case 2
    then have "r \<in> set (digit_runs_from u s (i + 1))"
      using "1.prems" by (subst (asm) digit_runs_from.simps) auto
    then show ?thesis using "1.IH"(1) 2 by fastforce
  next
    case 3
    then have "r = (i, e) \<and> 4 \<le> d \<and> d \<le> 8 \<and> boundary_after u s e \<or> r \<in> set (digit_runs_from u s (e + 1))"
      using "1.prems" run by (subst (asm) digit_runs_from.simps) (auto simp: Let_def split: if_splits)
    moreover have "i < e" "e \<le> length s" "d = digit_count (substring s i e)"
      using run_from_moves [of i s] run_from_bounds [of i s 0 0] run_from_counts [of i s 0 0] run 3
      by simp_all
    ultimately show ?thesis
      using "1.IH"(2) [of "(e, d)"] 3 run by (fastforce simp: lone_run_def)
  qed
qed

lemma digit_runs_ok: "r \<in> set (digit_runs u text) \<Longrightarrow> lone_run u text r"
  using digit_runs_from_ok [of r u "text" 0] by (simp add: digit_runs_def)

subsection \<open>Where detections lie\<close>

definition in_text :: "string \<Rightarrow> segment \<Rightarrow> bool" where
  "in_text s r \<longleftrightarrow> fst r \<le> snd r \<and> snd r \<le> length s"

lemma token_fold_in_text:
  assumes "\<forall>t \<in> set tokens. fst t \<le> snd t \<and> snd t \<le> i" "\<forall>b. start = Some b \<longrightarrow> b \<le> i"
    "foldl (token_step u) (tokens, start) (range_from i s) = (tokens', start')"
  shows "(\<forall>t \<in> set tokens'. fst t \<le> snd t \<and> snd t \<le> i + length s) \<and>
     (\<forall>b. start' = Some b \<longrightarrow> b \<le> i + length s)"
  using assms
proof (induction i s arbitrary: tokens start rule: range_from.induct)
  case (1 i s)
  show ?case
  proof (cases "s = []")
    case True
    then show ?thesis using 1 by (simp add: range_from.simps)
  next
    case False
    obtain r w where rw: "decode_rune s = (r, w)" by fastforce
    have w: "0 < w" "w \<le> length s" using decode_rune_width [OF False] rw by simp_all
    obtain tk st where step: "token_step u (tokens, start) (i, r, w) = (tk, st)" by fastforce
    have "foldl (token_step u) (tk, st) (range_from (i + w) (drop w s)) = (tokens', start')"
      using 1(4) False rw step by (subst (asm) range_from.simps) simp
    moreover have "\<forall>t \<in> set tk. fst t \<le> snd t \<and> snd t \<le> i + w" "\<forall>b. st = Some b \<longrightarrow> b \<le> i + w"
      using step 1(2,3) by (force simp: token_step_def split: if_splits option.splits)+
    ultimately show ?thesis
      using 1(1) [OF False rw [symmetric] refl, of tk st] w by simp
  qed
qed

lemma tokenize_in_text: "t \<in> set (tokenize u text) \<Longrightarrow> in_text text t"
proof -
  assume t: "t \<in> set (tokenize u text)"
  obtain tk st where f: "foldl (token_step u) ([], None) (range_from 0 text) = (tk, st)" by fastforce
  show ?thesis
    using token_fold_in_text [OF _ _ f] t f
    by (cases st) (auto simp: tokenize_def in_text_def range_string_def)
qed

lemma line_fold_in_text:
  assumes "n \<le> Suc (length s)" "foldl (line_step s) ([], 0) [0..<n] = (ls, start)"
  shows "(\<forall>l \<in> set ls. in_text s l) \<and> start \<le> n"
  using assms
proof (induction n arbitrary: ls start)
  case (Suc n)
  obtain l0 s0 where f: "foldl (line_step s) ([], 0) [0..<n] = (l0, s0)" by fastforce
  have "line_step s (l0, s0) n = (ls, start)" using Suc.prems(2) f by simp
  then show ?case
    using Suc.IH [OF _ f] Suc.prems(1)
    by (auto simp: line_step_def in_text_def Let_def split: if_splits)
qed simp

lemma line_segments_in_text: "l \<in> set (line_segments text) \<Longrightarrow> in_text text l"
  using line_fold_in_text [OF order_refl surjective_pairing, of "text"]
  by (simp add: line_segments_def)

lemma url_span_le: "url_span s \<le> length s"
proof (induction s rule: url_span.induct)
  case (1 s)
  then show ?case
    using decode_rune_width [of s] by (subst url_span.simps) fastforce
qed

lemma url_at_le: "url_at s = Some n \<Longrightarrow> 0 < n \<and> n \<le> length s"
proof -
  assume "url_at s = Some n"
  then obtain k where k: "url_scheme s = Some k" "n = k + url_span (drop k s)" "0 < url_span (drop k s)"
    by (auto simp: url_at_def Let_def split: option.splits if_splits)
  then show ?thesis using url_span_le [of "drop k s"] by simp
qed

lemma url_matches_in_text: "m \<in> set (url_matches s i) \<Longrightarrow> in_text s m"
proof (induction s i rule: url_matches.induct)
  case (1 s i)
  show ?case
  proof (cases "length s \<le> i \<or> url_at (drop i s) = None")
    case True
    then show ?thesis
      using 1 by (subst (asm) (2) url_matches.simps) (auto split: if_splits)
  next
    case False
    then obtain n where n: "url_at (drop i s) = Some n" by auto
    then have "m = (i, i + n) \<or> m \<in> set (url_matches s (i + n))"
      using 1(3) False by (subst (asm) url_matches.simps) auto
    then show ?thesis
      using 1(2) [OF _ n] False url_at_le [OF n] by (auto simp: in_text_def)
  qed
qed

lemma length_trim_right: "length (trim_right s cs) \<le> length s"
  using length_dropWhile_le [of _ "rev s"] by (simp add: trim_right_def)

lemma url_segments_in_text: "seg \<in> set (url_segments text) \<Longrightarrow> in_text text seg"
proof -
  assume "seg \<in> set (url_segments text)"
  then obtain st en where m: "(st, en) \<in> set (url_matches text 0)"
    "seg = (st, st + length (trim_right (substring text st en) ''.,;:!?''))"
    by (auto simp: url_segments_def)
  then show ?thesis
    using url_matches_in_text [OF m(1)] length_trim_right [of "substring text st en" "''.,;:!?''"]
    by (auto simp: in_text_def)
qed

subsection \<open>Detections\<close>

definition code_rules :: "string set" where
  "code_rules = {rule_trigger_window, rule_own_line, rule_heading_or_cell, rule_score}"
definition link_rule_names :: "string set" where
  "link_rule_names = {rule_link_path, rule_link_query}"

lemma rules_disjoint [simp]: "code_rules \<inter> link_rule_names = {}"
  by (auto simp: code_rules_def link_rule_names_def rule_names)

definition span_ok :: "string \<Rightarrow> span \<Rightarrow> bool" where
  "span_ok text sp \<longleftrightarrow> in_text text (sp_start sp, sp_end sp) \<and>
     (sp_flag sp = OneTimeCode \<and> sp_rule sp \<in> code_rules \<or>
      sp_flag sp = LoginLink \<and> sp_rule sp \<in> link_rule_names) \<and>
     (sp_tier sp = 2 \<longleftrightarrow> sp_rule sp = rule_score) \<and> sp_tier sp \<in> {1, 2}"

lemma window_spans_ok: "sp \<in> set (window_spans u s text tokens triggers) \<Longrightarrow> span_ok text sp \<and> sp_tier sp = 1"
  by (auto simp: window_spans_def span_ok_def code_rules_def in_text_def lone_run_def rule_names
           dest!: digit_runs_ok)

lemma line_spans_ok:
  assumes "li < length (tl_lines (layout text))" "sp \<in> set (line_spans u text (layout text) li)"
  shows "span_ok text sp \<and> sp_tier sp = 1"
proof -
  let ?ln = "tl_lines (layout text) ! li"
  have ln: "in_text text ?ln"
    using assms(1) by (simp add: layout_def Let_def line_segments_in_text)
  obtain r where r: "r \<in> set (digit_runs u (substring text (fst ?ln) (snd ?ln)))"
    and sp: "sp_start sp = fst ?ln + fst r" "sp_end sp = fst ?ln + snd r" "sp_flag sp = OneTimeCode"
      "sp_tier sp = 1" "sp_rule sp \<in> {rule_own_line, rule_heading_or_cell}"
    using assms(2) by (auto simp: line_spans_def Let_def split: if_splits)
  show ?thesis
    using digit_runs_ok [OF r] ln sp
    by (auto simp: span_ok_def in_text_def lone_run_def code_rules_def rule_names)
qed

lemma link_rules_names: "rule \<in> set (link_rules u lg s url) \<Longrightarrow> rule \<in> link_rule_names"
  by (auto simp: link_rules_def Let_def link_rule_names_def split: prod.splits if_splits)

lemma url_spans_ok:
  "in_text text seg \<Longrightarrow> sp \<in> set (url_spans u lg s text seg) \<Longrightarrow> span_ok text sp \<and> sp_tier sp = 1"
  using link_rules_names
  by (fastforce simp: url_spans_def span_ok_def link_rule_names_def rule_names)

text \<open>The spans of tier 1, the same for a scan of the patterns alone.\<close>

definition tier1_spans :: "unicode \<Rightarrow> (float64 \<Rightarrow> float64) \<Rightarrow> scanner \<Rightarrow> string \<Rightarrow> span list" where
  "tier1_spans u lg s text =
     window_spans u s text (tokenize u text) (trigger_tokens u s text (tokenize u text)) @
     concat (map (line_spans u text (layout text)) [0..<length (tl_lines (layout text))]) @
     concat (map (url_spans u lg s text) (url_segments text))"

lemma tier1_spans_ok: "sp \<in> set (tier1_spans u lg s text) \<Longrightarrow> span_ok text sp \<and> sp_tier sp = 1"
  using window_spans_ok line_spans_ok url_spans_ok url_segments_in_text
  unfolding tier1_spans_def by fastforce

definition score_span :: "segment \<Rightarrow> span" where
  "score_span t = \<lparr>sp_start = fst t, sp_end = snd t, sp_rule = rule_score, sp_tier = 2,
     sp_flag = OneTimeCode\<rparr>"

lemma detect_spans:
  "\<exists>hits tier. detect u lg s text subject = (sort_key sp_start (tier1_spans u lg s text @ map score_span hits), tier) \<and>
     set hits \<subseteq> set (tokenize u text) \<and> tier \<in> {1, 2} \<and> (hits \<noteq> [] \<longrightarrow> tier = 2) \<and>
     (s_patterns s \<longrightarrow> hits = [] \<and> tier = 1)"
proof -
  define tk where "tk = (if s_patterns s then [] else tokenize u text)"
  have *: "\<exists>hits tier. (sort_key sp_start (a @ b @ c @ map (\<lambda>(i, t). \<lparr>sp_start = fst t, sp_end = snd t,
        sp_rule = rule_score, sp_tier = 2, sp_flag = OneTimeCode\<rparr>) (filter Q (filter P (enumerate 0 tk)))),
        if filter P (enumerate 0 tk) = [] then 1 else 2) =
      (sort_key sp_start (a @ b @ c @ map score_span hits), tier) \<and>
     set hits \<subseteq> set (tokenize u text) \<and> tier \<in> {1, 2 :: nat} \<and> (hits \<noteq> [] \<longrightarrow> tier = 2) \<and>
     (s_patterns s \<longrightarrow> hits = [] \<and> tier = 1)" for a b c :: "span list" and P Q :: "nat \<times> segment \<Rightarrow> bool"
  proof (intro exI conjI)
    let ?h = "map snd (filter Q (filter P (enumerate 0 tk)))"
    show "(sort_key sp_start (a @ b @ c @ map (\<lambda>(i, t). \<lparr>sp_start = fst t, sp_end = snd t,
        sp_rule = rule_score, sp_tier = 2, sp_flag = OneTimeCode\<rparr>) (filter Q (filter P (enumerate 0 tk)))),
        if filter P (enumerate 0 tk) = [] then 1 else 2 :: nat) =
        (sort_key sp_start (a @ b @ c @ map score_span ?h), if filter P (enumerate 0 tk) = [] then 1 else 2)"
      by (simp add: score_span_def case_prod_unfold comp_def)
    show "set ?h \<subseteq> set (tokenize u text)"
      by (auto simp: tk_def enumerate_eq_zip dest: set_zip_rightD split: if_splits)
  qed (auto simp: tk_def filter_empty_conv)
  show ?thesis
    unfolding detect_def Let_def tier1_spans_def append_assoc tk_def [symmetric] by (rule *)
qed

lemma detect_spans_ok: "sp \<in> set (fst (detect u lg s text subject)) \<Longrightarrow> span_ok text sp"
  using detect_spans [of u lg s "text" subject] tier1_spans_ok [of sp u lg s "text"]
  by (auto simp: score_span_def span_ok_def code_rules_def dest!: tokenize_in_text subsetD)

lemma patterns_irrelevant [simp]:
  "is_dense lg (s\<lparr>s_patterns := b\<rparr>) = is_dense lg s"
  "link_rules u lg (s\<lparr>s_patterns := b\<rparr>) = link_rules u lg s"
  "url_spans u lg (s\<lparr>s_patterns := b\<rparr>) = url_spans u lg s"
proof -
  show d: "is_dense lg (s\<lparr>s_patterns := b\<rparr>) = is_dense lg s"
    by (rule ext) (simp add: is_dense_def)
  show l: "link_rules u lg (s\<lparr>s_patterns := b\<rparr>) = link_rules u lg s"
    by (rule ext) (simp add: link_rules_def d)
  show "url_spans u lg (s\<lparr>s_patterns := b\<rparr>) = url_spans u lg s"
    by (rule ext)+ (simp add: url_spans_def l)
qed

lemma detect_patterns:
  "detect u lg (s\<lparr>s_patterns := True\<rparr>) text subject = (sort_key sp_start (tier1_spans u lg s text), 1)"
proof -
  have "tier1_spans u lg (s\<lparr>s_patterns := True\<rparr>) text = tier1_spans u lg s text"
    by (simp add: tier1_spans_def window_spans_def trigger_tokens_def)
  then show ?thesis
    using detect_spans [of u lg "s\<lparr>s_patterns := True\<rparr>" "text" subject] by auto
qed

subsection \<open>Verdicts\<close>

lemma raise_fold:
  assumes "\<forall>sp \<in> set spans. sp_flag sp \<noteq> NoFlag"
  shows "foldl (\<lambda>(mfa, link) sp. case sp_flag sp of
            OneTimeCode \<Rightarrow> (True, link) | LoginLink \<Rightarrow> (mfa, True) | NoFlag \<Rightarrow> (True, True)) (m, l) spans
    = (m \<or> (\<exists>sp \<in> set spans. sp_flag sp = OneTimeCode), l \<or> (\<exists>sp \<in> set spans. sp_flag sp = LoginLink))"
  using assms by (induction spans arbitrary: m l) (auto split: span_flag.splits)

text \<open>A verdict as a function of the spans and the tier.\<close>

definition verdict_of :: "scanner \<Rightarrow> span list \<Rightarrow> nat \<Rightarrow> scan_verdict" where
  "verdict_of s spans tier =
     \<lparr>sv_flags = flags_of (\<exists>sp \<in> set spans. sp_flag sp = OneTimeCode) (\<exists>sp \<in> set spans. sp_flag sp = LoginLink),
      sv_rules = sort_compact (map sp_rule spans), sv_tier = tier, sv_version = scan_version,
      sv_revision = s_revision s\<rparr>"

lemma scan_verdict_of:
  "s_built s \<Longrightarrow> scan u lg s text =
     verdict_of s (fst (detect u lg s text False)) (snd (detect u lg s text False))"
proof -
  assume "s_built s"
  moreover have "\<forall>sp \<in> set (fst (detect u lg s text False)). sp_flag sp \<noteq> NoFlag"
    using detect_spans_ok by (fastforce simp: span_ok_def)
  ultimately show ?thesis
    by (simp add: scan_def case_prod_beta raise_fold verdict_of_def)
qed

lemma scan_patterns_verdict_of:
  "s_built s \<Longrightarrow> scan_patterns u lg s text = verdict_of s (sort_key sp_start (tier1_spans u lg s text)) 1"
  by (simp add: scan_patterns_def scan_verdict_of detect_patterns verdict_of_def)

lemma verdict_of_rules:
  assumes "\<forall>sp \<in> set spans. span_ok text sp"
  shows "mfa_code (sv_flags (verdict_of s spans tier)) \<longleftrightarrow> set (sv_rules (verdict_of s spans tier)) \<inter> code_rules \<noteq> {}"
    and "login_link (sv_flags (verdict_of s spans tier)) \<longleftrightarrow>
      set (sv_rules (verdict_of s spans tier)) \<inter> link_rule_names \<noteq> {}"
    and "set (sv_rules (verdict_of s spans tier)) \<subseteq> code_rules \<union> link_rule_names"
  using assms rules_disjoint unfolding span_ok_def verdict_of_def by fastforce+

subsection \<open>A code alone on its line\<close>

lemma decode_last_ascii: "byte c < 128 \<Longrightarrow> decode_last_rune (s @ [c]) = (byte c, 1)"
  by (simp add: decode_last_rune_def last_rune_start_def cont_byte_def Let_def nth_append)

definition plain_edge :: "string \<Rightarrow> bool" where
  "plain_edge p \<longleftrightarrow> (\<forall>c \<in> set p. \<not> is_digit c \<and> byte c < 128 \<and> \<not> ascii_lower (byte c) \<and> \<not> ascii_upper (byte c))"

lemma decoration_plain: "set p \<subseteq> set decoration \<Longrightarrow> plain_edge p"
  by (auto simp: plain_edge_def decoration_def is_digit_def ascii_digit_def ascii_lower_def ascii_upper_def
      dest!: subsetD)

lemma plain_not_word: "plain_edge p \<Longrightarrow> c \<in> set p \<Longrightarrow> \<not> word_rune u (byte c)"
  by (auto simp: plain_edge_def word_rune_def is_letter_def is_digit_rune_def is_digit_def)

lemma boundary_before_plain: "plain_edge p \<Longrightarrow> boundary_before u (p @ t) (length p)"
proof (cases p rule: rev_cases)
  case (snoc q c)
  assume "plain_edge p"
  then show ?thesis
    using snoc plain_not_word [of p c u] decode_last_ascii [of c q]
    by (auto simp: boundary_before_def plain_edge_def)
qed (simp add: boundary_before_def)

lemma boundary_after_plain: "plain_edge p \<Longrightarrow> boundary_after u (t @ p) (length t)"
  using plain_not_word [of p "hd p" u]
  by (cases p) (auto simp: boundary_after_def plain_edge_def)

lemma run_from_digits:
  assumes "\<forall>c \<in> set ds. is_digit c" "plain_edge q"
  shows "run_from (a @ ds @ q) (length a) d g = (length a + length ds, d + length ds)"
  using assms(1)
proof (induction ds arbitrary: a d g)
  case Nil
  have "\<not> is_digit (q ! j)" if "j < length q" for j
    using assms(2) that by (auto simp: plain_edge_def)
  note nd = this
  have "\<not> is_digit ((a @ q) ! (length a + k))" if "k < length q" for k
    using nd [OF that] by simp
  from this [of 0] this [of "separator_at (a @ q) (length a)"]
  show ?case by (subst run_from.simps) (auto simp: Let_def)
next
  case (Cons c ds)
  then show ?case
    using Cons.IH [of "a @ [c]" "d + 1" "g + 1"] by (subst run_from.simps) simp
qed

lemma digit_runs_plain:
  assumes "\<forall>c \<in> set ds. is_digit c" "4 \<le> length ds" "length ds \<le> 8" "plain_edge p" "plain_edge q"
  shows "(length p, length p + length ds) \<in> set (digit_runs u (p @ ds @ q))"
proof -
  let ?s = "p @ ds @ q"
  have skip: "digit_runs_from u ?s i = digit_runs_from u ?s (length p)" if "i \<le> length p" for i
    using that
  proof (induction "length p - i" arbitrary: i)
    case (Suc n)
    then have "\<not> is_digit (?s ! i)" "i < length ?s"
      using assms(4) by (auto simp: plain_edge_def nth_append)
    then have "digit_runs_from u ?s i = digit_runs_from u ?s (i + 1)"
      by (subst digit_runs_from.simps) simp
    then show ?case using Suc by simp
  qed simp
  have "(length p, length p + length ds) \<in> set (digit_runs_from u ?s (length p))"
  proof -
    have "is_digit (?s ! length p)" "length p < length ?s"
      using assms(1,2) by (cases ds; simp)+
    then show ?thesis
      using assms(2,3) run_from_digits [OF assms(1,5), of p 0 0] boundary_before_plain [OF assms(4)]
        boundary_after_plain [OF assms(5), of u "p @ ds"]
      by (subst digit_runs_from.simps) (simp add: Let_def)
  qed
  then show ?thesis using skip [of 0] unfolding digit_runs_def by simp
qed

lemma trim_set_core:
  assumes "set p \<subseteq> set cs" "set q \<subseteq> set cs" "ds \<noteq> []" "hd ds \<notin> set cs" "last ds \<notin> set cs"
  shows "trim_set (p @ ds @ q) cs = ds"
proof -
  have "trim_right (p @ ds @ q) cs = p @ ds"
    using assms by (cases ds rule: rev_cases) (auto simp: trim_right_def dropWhile_append subset_iff)
  then show ?thesis
    using assms by (cases ds) (auto simp: trim_set_def trim_left_def dropWhile_append subset_iff)
qed

text \<open>The line that holds a part of the text between two line breaks.\<close>

lemma line_fold_start:
  "n \<le> length s \<Longrightarrow> snd (foldl (line_step s) ([], 0) [0..<n]) =
     n - length (takeWhile (\<lambda>c. c \<noteq> newline) (rev (take n s)))"
proof (induction n)
  case (Suc n)
  obtain ls st where f: "foldl (line_step s) ([], 0) [0..<n] = (ls, st)" by fastforce
  then have step: "foldl (line_step s) ([], 0) [0..<Suc n] = line_step s (ls, st) n" by simp
  have "st = n - length (takeWhile (\<lambda>c. c \<noteq> newline) (rev (take n s)))"
    using Suc f by simp
  then show ?case
    using length_takeWhile_le [of "\<lambda>c. c \<noteq> newline" "rev (take n s)"] Suc.prems
    unfolding step by (auto simp: line_step_def Let_def take_Suc_conv_app_nth)
qed simp

lemma line_fold_grows:
  "set (fst (foldl (line_step s) (ls, st) is)) \<supseteq> set ls"
proof (induction "is" arbitrary: ls st)
  case (Cons i "is")
  obtain ls' st' where step: "line_step s (ls, st) i = (ls', st')" by fastforce
  then have "set ls \<subseteq> set ls'" by (auto simp: line_step_def Let_def split: if_splits)
  then show ?case using Cons [of ls' st'] step by simp
qed simp

lemma line_segment_between:
  assumes "a = [] \<or> last a = newline" "newline \<notin> set l" "CHR 0x0D \<notin> set l" "b = [] \<or> hd b = newline"
  shows "(length a, length a + length l) \<in> set (line_segments (a @ l @ b))"
proof -
  let ?s = "a @ l @ b" and ?n = "length a + length l"
  obtain ls st where f: "foldl (line_step ?s) ([], 0) [0..<?n] = (ls, st)" by fastforce
  have "takeWhile (\<lambda>c. c \<noteq> newline) (rev (a @ l)) = rev l"
    using assms(1,2) by (cases a rule: rev_cases) (auto simp: takeWhile_append)
  then have st: "st = length a"
    using line_fold_start [of ?n ?s] f by simp
  have "?n = length ?s \<or> ?s ! ?n = newline"
    using assms(4) by (cases b) (auto simp: nth_append)
  moreover have "?s ! (?n - 1) \<noteq> CHR 0x0D" if "l \<noteq> []"
  proof -
    have "?s ! (?n - 1) = last l" using that by (cases l rule: rev_cases) (simp_all add: nth_append)
    then show ?thesis using assms(3) last_in_set [OF that] by auto
  qed
  ultimately have step: "fst (line_step ?s (ls, st) ?n) = ls @ [(length a, ?n)]"
    by (cases "l = []") (auto simp: line_step_def st Let_def)
  have upto: "[0..<Suc (length ?s)] = [0..<?n] @ ?n # [Suc ?n..<Suc (length ?s)]"
    using upt_add_eq_append [of 0 ?n "Suc (length b)"] upt_conv_Cons [of ?n "Suc (?n + length b)"]
    by (simp add: add.assoc del: upt_Suc)
  obtain st2 where step2: "line_step ?s (ls, st) ?n = (ls @ [(length a, ?n)], st2)"
    using step by (cases "line_step ?s (ls, st) ?n") simp
  have "line_segments ?s = fst (foldl (line_step ?s) (ls @ [(length a, ?n)], st2) [Suc ?n..<Suc (length ?s)])"
    unfolding line_segments_def upto foldl_append f foldl_Cons step2 ..
  then show ?thesis
    using line_fold_grows [of "ls @ [(length a, ?n)]" ?s st2 "[Suc ?n..<Suc (length ?s)]"] by auto
qed

lemma own_line_span:
  assumes "a = [] \<or> last a = newline" "b = [] \<or> hd b = newline"
    and "set p \<subseteq> set decoration" "set q \<subseteq> set decoration"
    and "\<forall>c \<in> set ds. is_digit c" "4 \<le> length ds" "length ds \<le> 8"
  shows "\<exists>sp \<in> set (tier1_spans u lg s (a @ (p @ ds @ q) @ b)).
     sp_rule sp = rule_own_line \<and> sp_flag sp = OneTimeCode \<and>
     sp_start sp = length a + length p \<and> sp_end sp = length a + length p + length ds"
proof -
  let ?l = "p @ ds @ q" and ?t = "a @ (p @ ds @ q) @ b"
  let ?ls = "layout ?t" and ?r = "(length p, length p + length ds)"
  have plain: "newline \<notin> set ?l \<and> CHR 0x0D \<notin> set ?l"
  proof -
    have "newline \<notin> set decoration" "CHR 0x0D \<notin> set decoration" "\<not> is_digit newline" "\<not> is_digit (CHR 0x0D)"
      by (simp_all add: newline_def decoration_def is_digit_def ascii_digit_def)
    then show ?thesis using assms(3-5) by auto
  qed
  then obtain li where li: "li < length (line_segments ?t)" "line_segments ?t ! li = (length a, length a + length ?l)"
    using line_segment_between [of a ?l b] assms(1,2) by (auto simp: in_set_conv_nth)
  have line: "substring ?t (length a) (length a + length ?l) = ?l" by (simp add: substring_def)
  have "hd ds \<notin> set decoration \<and> last ds \<notin> set decoration"
  proof -
    have "ds \<noteq> []" using assms(6) by auto
    moreover have "c \<in> set ds \<Longrightarrow> c \<notin> set decoration" for c
      using assms(5) by (auto simp: decoration_def is_digit_def ascii_digit_def)
    ultimately show ?thesis by simp
  qed
  then have trimmed: "tl_trimmed ?ls ! li = ds"
    using li line trim_set_core [OF assms(3,4), of ds] assms(6) by (cases ds) (auto simp: layout_def Let_def)
  have core: "substring ?l (length p) (length p + length ds) = ds" by (simp add: substring_def)
  have "\<exists>sp \<in> set (line_spans u ?t ?ls li). sp_rule sp = rule_own_line \<and> sp_flag sp = OneTimeCode \<and>
     sp_start sp = length a + length p \<and> sp_end sp = length a + length p + length ds"
    using digit_runs_plain [OF assms(5-7) decoration_plain decoration_plain, OF assms(3,4), of u] trimmed li line core
    unfolding line_spans_def Let_def
    by (intro bexI [where x = "\<lparr>sp_start = length a + length p, sp_end = length a + length p + length ds,
          sp_rule = rule_own_line, sp_tier = 1, sp_flag = OneTimeCode\<rparr>"])
       (force simp: layout_def Let_def)+
  moreover have "li < length (tl_lines ?ls)" using li by (simp add: layout_def Let_def)
  ultimately show ?thesis unfolding tier1_spans_def by fastforce
qed

text \<open>
  A scanner's verdict tells its rules: the one-time-code flag is set exactly when a rule of a
  one-time code is recorded, the login-link flag exactly when a rule of a login link is, the rules are
  the known ones, each once and sorted, and the scoring rule is recorded only with tier 2. A scanner
  nobody built gives the zero verdict, which carries both flags.
\<close>

lemma scan_verdict_rules:
  "let v = scan u lg s text; R = set (sv_rules v) in
     if s_built s
     then (mfa_code (sv_flags v) \<longleftrightarrow> R \<inter> code_rules \<noteq> {}) \<and>
          (login_link (sv_flags v) \<longleftrightarrow> R \<inter> link_rule_names \<noteq> {}) \<and>
          R \<subseteq> code_rules \<union> link_rule_names \<and> sorted (sv_rules v) \<and> distinct (sv_rules v) \<and>
          sv_tier v \<in> {1, 2} \<and> (if rule_score \<in> R then sv_tier v = 2 else True) \<and>
          sv_version v = scan_version \<and> sv_revision v = s_revision s
     else v = zero_scan_verdict \<and> mfa_code (sv_flags v) \<and> login_link (sv_flags v)"
proof (cases "s_built s")
  case True
  let ?d = "detect u lg s text False"
  have v: "scan u lg s text = verdict_of s (fst ?d) (snd ?d)" by (rule scan_verdict_of [OF True])
  have ok: "\<forall>sp \<in> set (fst ?d). span_ok text sp" using detect_spans_ok by blast
  have "sorted (sv_rules (verdict_of s (fst ?d) t))" "distinct (sv_rules (verdict_of s (fst ?d) t))"
    "sv_tier (verdict_of s (fst ?d) t) = t" "sv_version (verdict_of s (fst ?d) t) = scan_version"
    "sv_revision (verdict_of s (fst ?d) t) = s_revision s"
    "set (sv_rules (verdict_of s (fst ?d) t)) = sp_rule ` set (fst ?d)" for t
    by (simp_all add: verdict_of_def)
  moreover have "snd ?d \<in> {1, 2}" "rule_score \<in> sp_rule ` set (fst ?d) \<longrightarrow> snd ?d = 2"
    using detect_spans [of u lg s "text" False] tier1_spans_ok
    by (fastforce simp: span_ok_def)+
  ultimately show ?thesis
    using True verdict_of_rules [OF ok, of s "snd ?d"] by (simp add: v Let_def)
next
  case False
  then show ?thesis by (simp add: scan_def zero_scan_verdict_def flag_defs)
qed

text \<open>
  The pattern check run at serve time is exactly the first tier of a scan: it records the rules a
  scan of the same body records less the scoring rule, reaches tier 1 alone, raises the same login-link
  flag, and a one-time-code flag it raises a full scan raises too.
\<close>

lemma patterns_are_tier_one:
  "let v = scan u lg s text; p = scan_patterns u lg s text in
     set (sv_rules p) = set (sv_rules v) - {rule_score} \<and>
     login_link (sv_flags p) = login_link (sv_flags v) \<and>
     (if mfa_code (sv_flags p) then mfa_code (sv_flags v) else True) \<and>
     sv_tier p = (if s_built s then 1 else 0)"
proof (cases "s_built s")
  case True
  obtain hits tier where d: "detect u lg s text False =
      (sort_key sp_start (tier1_spans u lg s text @ map score_span hits), tier)"
    using detect_spans [of u lg s "text" False] by blast
  have "sp_rule sp \<noteq> rule_score" if "sp \<in> set (tier1_spans u lg s text)" for sp
    using tier1_spans_ok [OF that] by (auto simp: span_ok_def)
  then show ?thesis
    using True by (auto simp: Let_def scan_verdict_of scan_patterns_verdict_of d verdict_of_def
        score_span_def)
next
  case False
  then show ?thesis
    by (auto simp: scan_patterns_def scan_def zero_scan_verdict_def)
qed

lemma own_line_flagged:
  assumes "s_built s"
    and "a = [] \<or> last a = newline" "b = [] \<or> hd b = newline"
    and "set p \<subseteq> set decoration" "set q \<subseteq> set decoration"
    and "\<forall>c \<in> set ds. is_digit c" "4 \<le> length ds" "length ds \<le> 8"
  shows "rule_own_line \<in> set (sv_rules (scan_patterns u lg s (a @ (p @ ds @ q) @ b)))"
    and "mfa_code (sv_flags (scan_patterns u lg s (a @ (p @ ds @ q) @ b)))"
    and "mfa_code (sv_flags (scan u lg s (a @ (p @ ds @ q) @ b)))"
proof -
  let ?t = "a @ (p @ ds @ q) @ b"
  let ?T = "tier1_spans u lg s ?t"
  obtain sp where "sp \<in> set ?T" "sp_rule sp = rule_own_line" "sp_flag sp = OneTimeCode"
    using own_line_span [OF assms(2-8), of u lg s] by blast
  then have T: "rule_own_line \<in> sp_rule ` set ?T" "\<exists>sp \<in> set ?T. sp_flag sp = OneTimeCode"
    by force+
  then show "rule_own_line \<in> set (sv_rules (scan_patterns u lg s ?t))" "mfa_code (sv_flags (scan_patterns u lg s ?t))"
    unfolding scan_patterns_verdict_of [OF assms(1)] verdict_of_def Let_def by simp_all
  obtain hits tier where d: "detect u lg s ?t False = (sort_key sp_start (?T @ map score_span hits), tier)"
    using detect_spans [of u lg s ?t False] by blast
  show "mfa_code (sv_flags (scan u lg s ?t))"
    unfolding scan_verdict_of [OF assms(1)] verdict_of_def d using T(2) by auto
qed

text \<open>
  C27. A code alone on its line is always caught by the pattern check, whatever the rest of the body:
  a line holding four to eight ASCII digits and, around them, nothing but spaces, tabs and Markdown's
  marks raises the one-time-code flag under the own-line rule, so the body is withheld.
\<close>

theorem own_line_code_is_caught:
  assumes "s_built s"
    and "a = [] \<or> last a = newline" "b = [] \<or> hd b = newline"
    and "set p \<subseteq> set decoration" "set q \<subseteq> set decoration"
    and "\<forall>c \<in> set ds. is_digit c" "4 \<le> length ds" "length ds \<le> 8"
  shows "let v = scan_patterns u lg s (a @ (p @ ds @ q) @ b) in
     rule_own_line \<in> set (sv_rules v) \<and> mfa_code (sv_flags v)"
  using own_line_flagged(1,2) [OF assms] by simp

theorem own_line_code_is_caught_witness:
  "let v = scan_patterns ascii_tables (\<lambda>x. x) (zero_scanner\<lparr>s_built := True\<rparr>)
       ([newline] @ (''** '' @ ''419283'' @ '' **'') @ [newline]) in
     rule_own_line \<in> set (sv_rules v) \<and> mfa_code (sv_flags v)"
  by (rule own_line_code_is_caught)
     (simp_all add: decoration_def is_digit_def ascii_digit_def)

end
