(* ===== verification/Redact.thy ===== *)
theory Redact
  imports ScanFacts Classify
begin

text \<open>
  \<open>core/redact\<close>: the Redaction Gate's decision and subject masking. The facts say which stored states
  and senders the gate releases a body for, that its decision and the one \<open>core/sensitivity\<close> builds a
  body under are the same, and that nothing of a masked span reaches the masked subject.
\<close>

subsection \<open>The gate's decision\<close>

datatype redact_reason =
    InvalidState | PendingScan | LeftUnscanned | RestrictedSender | ContentFlagged | Released | BodyRefused

fun redact_reason_string :: "redact_reason \<Rightarrow> string" where
  "redact_reason_string PendingScan = ''pending_scan''"
| "redact_reason_string LeftUnscanned = ''skipped_restricted''"
| "redact_reason_string RestrictedSender = ''restricted_sender''"
| "redact_reason_string ContentFlagged = ''content_flagged''"
| "redact_reason_string Released = ''released''"
| "redact_reason_string BodyRefused = ''body_refused''"
| "redact_reason_string InvalidState = ''invalid_stored_state''"

record redact_verdict =
  rv_reason :: redact_reason
  rv_sender :: classify_verdict

definition zero_redact_verdict :: redact_verdict where
  "zero_redact_verdict = \<lparr>rv_reason = InvalidState, rv_sender = zero_classify_verdict\<rparr>"

definition gate_releases :: "redact_verdict \<Rightarrow> bool" where
  "gate_releases v = (case rv_reason v of Released \<Rightarrow> True | _ \<Rightarrow> False)"

definition shows_snippet :: "redact_verdict \<Rightarrow> bool" where
  "shows_snippet v = gate_releases v"

definition shows_attachment_names :: "redact_verdict \<Rightarrow> bool" where
  "shows_attachment_names v = gate_releases v"

definition gate_decide :: "unicode \<Rightarrow> policy \<Rightarrow> string \<Rightarrow> content_flags \<Rightarrow> scan_state \<Rightarrow> redact_verdict" where
  "gate_decide u p sender flags sc =
     (let c = classify u p sender;
          reason =
            (if any_flag flags \<and> sc \<noteq> Scanned then InvalidState
             else if sc = Pending then PendingScan
             else if sc = SkippedRestricted then LeftUnscanned
             else if restricted (cv_class c) then RestrictedSender
             else if sc = Refused then BodyRefused
             else if any_flag flags then ContentFlagged
             else if sc = Scanned \<or> sc = SkippedGate then Released
             else InvalidState)
      in \<lparr>rv_reason = reason, rv_sender = c\<rparr>)"

lemma gate_decide_sender [simp]: "rv_sender (gate_decide u p sender flags sc) = classify u p sender"
  by (simp add: gate_decide_def Let_def)

lemma gate_releases_reason: "gate_releases v \<longleftrightarrow> rv_reason v = Released"
  by (simp add: gate_releases_def split: redact_reason.splits)

lemma gate_decide_releases:
  "gate_releases (gate_decide u p sender flags sc) \<longleftrightarrow>
     \<not> restricted (cv_class (classify u p sender)) \<and> \<not> any_flag flags \<and> sc \<in> {Scanned, SkippedGate}"
  by (cases sc) (auto simp: gate_releases_reason gate_decide_def Let_def)

lemma zero_redact_denies [denies]: "\<not> gate_releases zero_redact_verdict"
  by (simp add: gate_releases_def zero_redact_verdict_def)

text \<open>
  C1. The gate releases a body in exactly one situation: the policy in force does not restrict the
  sender (as the composed policy's rules say it, not as the classifier computes it), the scanner found
  neither content flag, and the message was scanned or skipped by the scan gate. The snippet and the
  attachment names follow the body, and every other stored state is withheld under the reason the
  order of the rules gives it.
\<close>

theorem gate_releases_exactly:
  "let v = gate_decide u (prepare u c l) sender flags sc in
     (gate_releases v \<longleftrightarrow> \<not> restricts u l c sender \<and> \<not> any_flag flags \<and> sc \<in> {Scanned, SkippedGate}) \<and>
     shows_snippet v = gate_releases v \<and> shows_attachment_names v = gate_releases v \<and>
     rv_reason v =
       (if any_flag flags \<and> sc \<noteq> Scanned then InvalidState
        else case sc of
            Pending \<Rightarrow> PendingScan
          | SkippedRestricted \<Rightarrow> LeftUnscanned
          | Refused \<Rightarrow> (if restricts u l c sender then RestrictedSender else BodyRefused)
          | Scanned \<Rightarrow> (if restricts u l c sender then RestrictedSender
                        else if any_flag flags then ContentFlagged else Released)
          | SkippedGate \<Rightarrow> (if restricts u l c sender then RestrictedSender else Released))"
  using classify_restricts [of u c l sender]
  by (cases sc) (auto simp: Let_def gate_releases_reason shows_snippet_def shows_attachment_names_def
      gate_decide_def)

text \<open>
  The gate and the sensitivity a body is built under agree: the gate releases exactly when the
  sensitivity of the gate's own sender class and the stored flags and state can be made and yields the
  body, so a released body is never refused by its constructor and a withheld one is never built.
\<close>

lemma gate_agrees_with_sensitivity:
  "gate_releases (gate_decide u p sender flags sc) \<longleftrightarrow>
     (\<exists>s. new_sensitivity (cv_class (rv_sender (gate_decide u p sender flags sc))) flags sc = Inr s \<and>
          new_body text s = Inr \<lparr>body_text = text\<rparr>)"
  by (auto simp: gate_decide_releases new_sensitivity_iff new_body_iff releases_body_iff sensitivity_ok_def)

subsection \<open>Masking a subject\<close>

text \<open>The UTF-8 bytes of the full block, U+2588.\<close>

definition mask_rune :: string where "mask_rune = [CHR 0xE2, CHR 0x96, CHR 0x88]"

definition rule_whole_subject :: string where "rule_whole_subject = ''mask.whole_subject''"

record mask_event =
  me_rule :: string
  me_tier :: nat

record masked =
  ms_subject :: string
  ms_events :: "mask_event list"

text \<open>The copy loop, over the subject's bytes each with whether a detection hides it.\<close>

function mask_bytes :: "(char \<times> bool) list \<Rightarrow> string" where
  "mask_bytes [] = []"
| "mask_bytes ((c, h) # xs) =
     (if \<not> h then c # mask_bytes xs
      else mask_rune @ mask_bytes (dropWhile (\<lambda>(c, h). h \<and> cont_byte (byte c)) xs))"
  by pat_completeness auto
termination
  by (relation "measure length") (auto simp: less_Suc_eq_le length_dropWhile_le)

definition hidden_bytes :: "string \<Rightarrow> span list \<Rightarrow> bool list" where
  "hidden_bytes subject spans =
     foldl mark_covered (replicate (length subject) False) (map (\<lambda>sp. (sp_start sp, sp_end sp)) spans)"

definition mask_subject :: "unicode \<Rightarrow> (float64 \<Rightarrow> float64) \<Rightarrow> scanner \<Rightarrow> string \<Rightarrow> masked" where
  "mask_subject u lg s subject =
     (case subject_spans u lg s subject of (spans, ok) \<Rightarrow>
        if \<not> ok then \<lparr>ms_subject = concat (replicate (length (runes subject)) mask_rune),
                     ms_events = [\<lparr>me_rule = rule_whole_subject, me_tier = 0\<rparr>]\<rparr>
        else \<lparr>ms_subject = mask_bytes (zip subject (hidden_bytes subject spans)),
              ms_events = map (\<lambda>sp. \<lparr>me_rule = sp_rule sp, me_tier = sp_tier sp\<rparr>) spans\<rparr>)"

lemma length_mark_covered [simp]: "length (mark_covered cov seg) = length cov"
proof -
  have "length (foldl (\<lambda>c i. c[i := True]) cov is) = length cov" for "is"
    by (induction "is" arbitrary: cov) auto
  then show ?thesis by (simp add: mark_covered_def)
qed

lemma nth_set_all:
  "k < length cov \<Longrightarrow> foldl (\<lambda>c i. c[i := True]) cov is ! k \<longleftrightarrow> cov ! k \<or> k \<in> set is"
proof (induction "is" arbitrary: cov)
  case (Cons i "is")
  then show ?case using Cons.IH [of "cov[i := True]"] by (cases "i = k") auto
qed simp

lemma nth_mark_covered:
  "k < length cov \<Longrightarrow> mark_covered cov seg ! k \<longleftrightarrow> cov ! k \<or> fst seg \<le> k \<and> k < snd seg"
  by (simp add: mark_covered_def nth_set_all)

lemma fold_mark_covered:
  "length (foldl mark_covered cov segs) = length cov"
  "k < length cov \<Longrightarrow> foldl mark_covered cov segs ! k \<longleftrightarrow> cov ! k \<or> (\<exists>seg \<in> set segs. fst seg \<le> k \<and> k < snd seg)"
  by (induction segs arbitrary: cov) (auto simp: nth_mark_covered)

lemma length_hidden_bytes [simp]: "length (hidden_bytes subject spans) = length subject"
  by (simp add: hidden_bytes_def fold_mark_covered)

lemma nth_hidden_bytes:
  "k < length subject \<Longrightarrow> hidden_bytes subject spans ! k \<longleftrightarrow>
     (\<exists>sp \<in> set spans. sp_start sp \<le> k \<and> k < sp_end sp)"
  by (auto simp: hidden_bytes_def fold_mark_covered)

text \<open>
  What the copy makes of the byte at \<open>k\<close>, by which bytes are hidden: itself where it is not, and else one mark
  for it and the bytes that go on with its character.
\<close>

definition emitted :: "(nat \<Rightarrow> bool) \<Rightarrow> string \<Rightarrow> nat \<Rightarrow> string" where
  "emitted hidden subject k =
     (if \<not> hidden k then [subject ! k]
      else if 0 < k \<and> hidden (k - 1) \<and> cont_byte (byte (subject ! k)) then []
      else mask_rune)"

fun copied :: "bool \<Rightarrow> (char \<times> bool) list \<Rightarrow> string" where
  "copied before [] = []"
| "copied before ((c, h) # xs) = (if \<not> h then [c] else if before \<and> cont_byte (byte c) then [] else mask_rune) @ copied h xs"

lemma copied_mask_bytes:
  "copied False xs = mask_bytes xs \<and> copied True xs = mask_bytes (dropWhile (\<lambda>(c, h). h \<and> cont_byte (byte c)) xs)"
  by (induction xs) auto

lemma copied_index:
  "copied before xs = concat (map (\<lambda>k. if \<not> snd (xs ! k) then [fst (xs ! k)]
     else if (if k = 0 then before else snd (xs ! (k - 1))) \<and> cont_byte (byte (fst (xs ! k))) then [] else mask_rune) [0..<length xs])"
proof (induction before xs rule: copied.induct)
  case (2 before c h xs)
  have step: "(if k = 0 then h else snd (xs ! (k - 1))) = snd (((c, h) # xs) ! k)" for k by (cases k) simp_all
  show ?case using 2 unfolding step by (simp add: map_upt_Suc cong: if_cong del: upt_Suc)
qed simp

lemma mask_bytes_emitted:
  assumes "length hs = length subject"
  shows "mask_bytes (zip subject hs) = concat (map (emitted (\<lambda>k. hs ! k) subject) [0..<length subject])"
proof -
  have "mask_bytes (zip subject hs) = copied False (zip subject hs)" by (simp add: copied_mask_bytes)
  also have "\<dots> = concat (map (emitted (\<lambda>k. hs ! k) subject) [0..<length subject])"
    unfolding copied_index using assms by (intro arg_cong [where f = concat]) (auto simp: emitted_def nth_zip)
  finally show ?thesis .
qed

lemma mask_bytes_ascii:
  "\<forall>x \<in> set xs. byte (fst x) < 128 \<Longrightarrow> mask_bytes xs = concat (map (\<lambda>(c, h). if h then mask_rune else [c]) xs)"
proof (induction xs rule: mask_bytes.induct)
  case (2 c h xs)
  have "dropWhile (\<lambda>(c, h). h \<and> cont_byte (byte c)) xs = xs"
    using "2.prems" by (cases xs) (auto simp: cont_byte_def)
  then show ?case using 2 by auto
qed simp

lemma bar_pure: "c \<in> set mask_rune \<Longrightarrow> \<not> is_digit c"
  by (auto simp: mask_rune_def is_digit_def ascii_digit_def)

text \<open>Whether masking hides the byte at \<open>k\<close>: all of them without a scanner.\<close>

definition hides :: "unicode \<Rightarrow> (float64 \<Rightarrow> float64) \<Rightarrow> scanner \<Rightarrow> string \<Rightarrow> nat \<Rightarrow> bool" where
  "hides u lg s subject k \<longleftrightarrow> \<not> s_built s \<or>
     (\<exists>sp \<in> set (fst (detect u lg s subject True)). sp_start sp \<le> k \<and> k < sp_end sp)"

text \<open>
  C28. Nothing of what a detection found reaches the masked subject, and all of the rest does. With a built
  scanner the masked subject is, byte after byte, the subject's own byte where no detection covers it, and for
  the bytes one covers a mark at each that starts a character or follows a byte that is not covered and
  nothing at the others; there is one event for each detection, with its rule and tier, and never the
  whole-subject rule. Without a scanner the whole subject is replaced, one mark for each character, and the one
  event names the whole-subject rule.
\<close>

theorem masking_reveals_nothing_hidden:
  "let spans = fst (detect u lg s subject True);
       hidden = (\<lambda>k. \<exists>sp \<in> set spans. sp_start sp \<le> k \<and> k < sp_end sp);
       m = mask_subject u lg s subject in
     if s_built s
     then ms_subject m = concat (map (\<lambda>k.
            if \<not> hidden k then [subject ! k]
            else if 0 < k \<and> hidden (k - 1) \<and> 128 \<le> byte (subject ! k) \<and> byte (subject ! k) < 192 then []
            else [CHR 0xE2, CHR 0x96, CHR 0x88]) [0..<length subject]) \<and>
          map (\<lambda>e. (me_rule e, me_tier e)) (ms_events m) = map (\<lambda>sp. (sp_rule sp, sp_tier sp)) spans \<and>
          rule_whole_subject \<notin> me_rule ` set (ms_events m)
     else ms_subject m = concat (replicate (length (runes subject)) [CHR 0xE2, CHR 0x96, CHR 0x88]) \<and>
          map (\<lambda>e. (me_rule e, me_tier e)) (ms_events m) = [(rule_whole_subject, 0)]"
proof (cases "s_built s")
  case True
  let ?spans = "fst (detect u lg s subject True)"
  have "sp_rule sp \<noteq> rule_whole_subject" if "sp \<in> set ?spans" for sp
    using detect_spans_ok [OF that]
    by (auto simp: span_ok_def in_text_def code_rules_def link_rule_names_def rule_names rule_whole_subject_def)
  then have "rule_whole_subject \<notin> sp_rule ` set ?spans" by force
  moreover have "mask_bytes (zip subject (hidden_bytes subject ?spans)) = concat (map (\<lambda>k.
            if \<not> (\<exists>sp \<in> set ?spans. sp_start sp \<le> k \<and> k < sp_end sp) then [subject ! k]
            else if 0 < k \<and> (\<exists>sp \<in> set ?spans. sp_start sp \<le> k - 1 \<and> k - 1 < sp_end sp) \<and>
                128 \<le> byte (subject ! k) \<and> byte (subject ! k) < 192 then []
            else [CHR 0xE2, CHR 0x96, CHR 0x88]) [0..<length subject])"
    unfolding mask_bytes_emitted [OF length_hidden_bytes]
    by (intro arg_cong [where f = concat] map_cong refl) (simp add: emitted_def nth_hidden_bytes cont_byte_def mask_rune_def less_Suc_eq_le)
  ultimately show ?thesis using True by (auto simp: Let_def mask_subject_def subject_spans_def comp_def)
qed (simp add: mask_subject_def subject_spans_def mask_rune_def)

lemma mask_subject_ascii:
  assumes "ascii_only subject"
  shows "ms_subject (mask_subject u lg s subject) =
     concat (map (\<lambda>k. if hides u lg s subject k then mask_rune else [subject ! k]) [0..<length subject])"
proof (cases "s_built s")
  case True
  let ?spans = "fst (detect u lg s subject True)"
  have z: "zip subject (hidden_bytes subject ?spans) =
      map (\<lambda>k. (subject ! k, hides u lg s subject k)) [0..<length subject]"
    using True by (intro nth_equalityI) (auto simp: nth_hidden_bytes hides_def)
  have "\<forall>x \<in> set (zip subject (hidden_bytes subject ?spans)). byte (fst x) < 128"
    using assms by (auto simp: ascii_only_def dest: set_zip_leftD)
  then show ?thesis
    using True mask_bytes_ascii [of "zip subject (hidden_bytes subject ?spans)"]
    by (simp add: mask_subject_def subject_spans_def z comp_def)
next
  case False
  then have "map (\<lambda>k. if hides u lg s subject k then mask_rune else [subject ! k]) [0..<length subject] =
      replicate (length subject) mask_rune"
    by (intro nth_equalityI) (auto simp: hides_def)
  then show ?thesis
    using False by (simp add: mask_subject_def subject_spans_def runes_ascii [OF assms])
qed

text \<open>
  A subject that is a one-time code is masked whole: when a subject holds four to eight ASCII
  digits and, around them, nothing but spaces, tabs and Markdown's marks, no digit is left in what the
  index stores, under any scanner, built or not.
\<close>

lemma code_subject_is_masked:
  assumes "set p \<subseteq> set decoration" "set q \<subseteq> set decoration"
    and "\<forall>c \<in> set ds. is_digit c" "4 \<le> length ds" "length ds \<le> 8"
  shows "list_all (\<lambda>c. \<not> is_digit c) (ms_subject (mask_subject u lg s (p @ ds @ q)))"
proof -
  let ?t = "p @ ds @ q"
  have pq: "plain_edge p" "plain_edge q" using assms(1,2) by (simp_all add: decoration_plain)
  have "ascii_only ?t"
    using pq assms(3) by (auto simp: ascii_only_def plain_edge_def is_digit_def ascii_digit_def)
  moreover have "\<not> is_digit (?t ! k)" if "\<not> hides u lg s ?t k" "k < length ?t" for k
  proof -
    obtain sp where "sp \<in> set (tier1_spans u lg s ([] @ (p @ ds @ q) @ []))"
      "sp_start sp = length p" "sp_end sp = length p + length ds"
      using own_line_span [OF _ _ assms, of "[]" "[]" u lg s] by auto
    then have "sp \<in> set (fst (detect u lg s ?t True))"
      using detect_spans [of u lg s ?t True] by auto
    then have "k < length p \<or> length p + length ds \<le> k"
      using that(1) \<open>sp_start sp = _\<close> \<open>sp_end sp = _\<close> by (force simp: hides_def)
    then show ?thesis
      using pq that(2) by (auto simp: plain_edge_def nth_append)
  qed
  ultimately show ?thesis
    using bar_pure by (auto simp: mask_subject_ascii list_all_iff split: if_splits)
qed

end
