(* ===== verification/ScanGate.thy ===== *)
theory ScanGate
  imports Sensitivity GoText
begin

text \<open>
  \<open>core/scangate\<close>: whether a message body is worth scanning. The facts give the exact inputs each skip
  happens for, and that a restricted sender's message is never scanned.
\<close>

record gate_config =
  gc_no_reply :: "string list"
  gc_small_bytes :: int64
  gc_recent_age :: int64
  gc_low_volume :: int64
  gc_high_volume :: int64

definition default_gate_config :: gate_config where
  "default_gate_config = \<lparr>
     gc_no_reply = [''noreply'', ''no-reply'', ''security'', ''accounts'', ''verify'', ''auth'', ''support''],
     gc_small_bytes = 30 * 1024, gc_recent_age = 24 * 60 * 60 * 1000,
     gc_low_volume = 20, gc_high_volume = 500\<rparr>"

definition gate_config_valid :: "gate_config \<Rightarrow> bool" where
  "gate_config_valid c \<longleftrightarrow> 1 \<le> sint (gc_small_bytes c) \<and> 1 \<le> sint (gc_recent_age c) \<and>
     1 \<le> sint (gc_low_volume c) \<and> sint (gc_low_volume c) \<le> sint (gc_high_volume c)"

record gate_input =
  gi_class :: sender_class
  gi_subject_masked :: bool
  gi_list_id :: bool
  gi_local_part :: string
  gi_size :: int64
  gi_sent_at :: int64
  gi_volume :: int64
  gi_prior_hits :: int64

datatype gate_reason =
    Undecided | GateRestricted | SubjectSignal | NoReplyLocalPart | RecentSmall | LowVolume | PriorHit
  | HighVolumeNoHits | GateDefault

fun gate_reason_string :: "gate_reason \<Rightarrow> string" where
  "gate_reason_string GateRestricted = ''restricted''"
| "gate_reason_string SubjectSignal = ''subject_signal''"
| "gate_reason_string NoReplyLocalPart = ''noreply_local_part''"
| "gate_reason_string RecentSmall = ''recent_small''"
| "gate_reason_string LowVolume = ''low_volume''"
| "gate_reason_string PriorHit = ''prior_hit''"
| "gate_reason_string HighVolumeNoHits = ''high_volume_no_hits''"
| "gate_reason_string GateDefault = ''default''"
| "gate_reason_string Undecided = ''undecided''"

definition gate_scans :: "gate_reason \<Rightarrow> bool" where
  "gate_scans r \<longleftrightarrow> r \<in> {SubjectSignal, NoReplyLocalPart, RecentSmall, LowVolume, PriorHit, GateDefault}"

definition gate_decided :: "gate_reason \<Rightarrow> bool" where
  "gate_decided r \<longleftrightarrow> r \<noteq> Undecided"

definition gate_state :: "gate_reason \<Rightarrow> scan_state" where
  "gate_state r = (case r of GateRestricted \<Rightarrow> SkippedRestricted | HighVolumeNoHits \<Rightarrow> SkippedGate | _ \<Rightarrow> Pending)"

definition no_reply :: "unicode \<Rightarrow> gate_config \<Rightarrow> string \<Rightarrow> bool" where
  "no_reply u c local_part \<longleftrightarrow> list_ex (\<lambda>p. equal_fold u p local_part) (gc_no_reply c)"

definition scan_gate :: "unicode \<Rightarrow> gate_config \<Rightarrow> int64 \<Rightarrow> gate_input \<Rightarrow> gate_reason" where
  "scan_gate u c now i =
     (if restricted (gi_class i) then GateRestricted
      else if \<not> gate_config_valid c then Undecided
      else if gi_subject_masked i then SubjectSignal
      else if \<not> gi_list_id i \<and> no_reply u c (gi_local_part i) then NoReplyLocalPart
      else if \<not> gi_list_id i \<and> sint (gi_size i) < sint (gc_small_bytes c)
              \<and> sint (now - gi_sent_at i) < sint (gc_recent_age c) then RecentSmall
      else if sint (gi_volume i) < sint (gc_low_volume c) then LowVolume
      else if 0 < sint (gi_prior_hits i) then PriorHit
      else if sint (gc_high_volume c) < sint (gi_volume i) \<and> gi_prior_hits i = 0 \<and> gi_list_id i
      then HighVolumeNoHits
      else GateDefault)"

text \<open>A message the gate may skip as high volume.\<close>

definition bulk_without_hits :: "gate_config \<Rightarrow> gate_input \<Rightarrow> bool" where
  "bulk_without_hits c i \<longleftrightarrow> \<not> gi_subject_masked i \<and> gi_list_id i \<and> gi_prior_hits i = 0 \<and>
     sint (gc_high_volume c) < sint (gi_volume i)"

lemma scan_gate_high_volume:
  "scan_gate u c now i = HighVolumeNoHits \<longleftrightarrow>
     \<not> restricted (gi_class i) \<and> gate_config_valid c \<and> bulk_without_hits c i"
  by (auto simp: scan_gate_def bulk_without_hits_def gate_config_valid_def)

lemma scan_gate_restricted: "scan_gate u c now i = GateRestricted \<longleftrightarrow> restricted (gi_class i)"
  by (auto simp: scan_gate_def)

lemma scan_gate_undecided:
  "scan_gate u c now i = Undecided \<longleftrightarrow> \<not> restricted (gi_class i) \<and> \<not> gate_config_valid c"
  by (auto simp: scan_gate_def)

lemma gate_scans_iff: "gate_scans r \<longleftrightarrow> r \<notin> {Undecided, GateRestricted, HighVolumeNoHits}"
  by (cases r) (auto simp: gate_scans_def)

lemma gate_state_iff:
  "gate_state r = SkippedRestricted \<longleftrightarrow> r = GateRestricted"
  "gate_state r = SkippedGate \<longleftrightarrow> r = HighVolumeNoHits"
  "gate_state r \<in> {Pending, SkippedRestricted, SkippedGate}"
  by (cases r; simp add: gate_state_def)+

lemmas scan_gate_facts = scan_gate_high_volume scan_gate_restricted scan_gate_undecided

text \<open>
  A message is left unscanned in exactly three cases: its sender is restricted, which comes before
  everything else and records the restricted skip; the thresholds decide nothing, which records
  nothing and leaves it pending; or it carries a List-Id, from a sender above the high-volume mark with
  no prior hit and a subject that was not masked, which records the gate's skip. No other message is
  skipped, so no other rule's order can hide one from the scanner.
\<close>

lemma scan_gate_skips_exactly:
  "let r = scan_gate u c now i in
     (gate_scans r \<longleftrightarrow> \<not> restricted (gi_class i) \<and> gate_config_valid c \<and> \<not> bulk_without_hits c i) \<and>
     (gate_state r = SkippedRestricted \<longleftrightarrow> restricted (gi_class i)) \<and>
     (gate_state r = SkippedGate \<longleftrightarrow>
        \<not> restricted (gi_class i) \<and> gate_config_valid c \<and> bulk_without_hits c i) \<and>
     gate_state r \<in> {Pending, SkippedRestricted, SkippedGate} \<and>
     (gate_decided r \<longleftrightarrow> restricted (gi_class i) \<or> gate_config_valid c)"
  using gate_state_iff(3) [of "scan_gate u c now i"]
  unfolding Let_def gate_state_iff(1,2) gate_scans_iff gate_decided_def by (auto simp: scan_gate_facts)

end
