(* ===== verification/IndexCore.thy ===== *)
theory IndexCore
  imports Redact ScanGate MailAttachment
begin

text \<open>
  \<open>core/index\<close>: what every writer of the metadata index decides about a message, the row it stores,
  the scan gate asked with the sender's current inputs, what a scanned body records, and the error
  class of a failure.
\<close>

record stamp =
  st_version :: int64
  st_revision :: string

definition stamp_of :: "scanner \<Rightarrow> stamp" where
  "stamp_of s = \<lparr>st_version = scanner_version s, st_revision = s_revision s\<rparr>"

record index_message =
  im_id :: string
  im_thread :: string
  im_from :: address
  im_domain :: string
  im_subject :: string
  im_subject_masked :: bool
  im_date :: unix_milli
  im_labels :: "string list"
  im_flags :: mail_flags
  im_has_attachments :: bool
  im_media :: "attachment_media list"
  im_list :: string
  im_size :: int64
  im_auth :: auth_results
  im_unclassified :: bool
  im_masks :: "mask_event list"
  im_stamp :: stamp

record index_page =
  ip_messages :: "index_message list"
  ip_domains :: "string list"

definition stored_domain :: "unicode \<Rightarrow> string \<Rightarrow> string" where
  "stored_domain u d =
     to_lower u (replace_all d [CHR 0xC4, CHR 0xB0] ([CHR ''i'', CHR 0xCC, CHR 0x87]))"

definition address_domain :: "unicode \<Rightarrow> string \<Rightarrow> string" where
  "address_domain u address = (case last_index_byte address (CHR ''@'') of
      None \<Rightarrow> [] | Some k \<Rightarrow> stored_domain u (drop (k + 1) address))"

definition index_row :: "unicode \<Rightarrow> (float64 \<Rightarrow> float64) \<Rightarrow> policy \<Rightarrow> scanner \<Rightarrow> message_metadata \<Rightarrow> index_message" where
  "index_row u lg p s m =
     (let masked = mask_subject u lg s (mm_subject m)
      in \<lparr>im_id = mm_id m, im_thread = mm_thread m, im_from = mm_from m,
          im_domain = address_domain u (a_email (mm_from m)), im_subject = ms_subject masked,
          im_subject_masked = 0 < length (ms_events masked), im_date = mm_date m,
          im_labels = mm_labels m, im_flags = mm_flags m, im_has_attachments = mm_has_attachments m,
          im_media = mm_media m, im_list = mm_list m, im_size = mm_size m, im_auth = mm_auth m,
          im_unclassified = (cv_reason (classify u p (a_email (mm_from m))) = Unclassifiable),
          im_masks = ms_events masked, im_stamp = stamp_of s\<rparr>)"

definition index_decide :: "unicode \<Rightarrow> (float64 \<Rightarrow> float64) \<Rightarrow> message_metadata list \<Rightarrow> policy \<Rightarrow> scanner \<Rightarrow> index_page" where
  "index_decide u lg items p s =
     (let ms = map (index_row u lg p s) items
      in \<lparr>ip_messages = ms, ip_domains = sort_compact (map im_domain ms)\<rparr>)"

definition stored_flags :: "mail_flags \<Rightarrow> string \<rightharpoonup> bool" where
  "stored_flags f = [''read'' \<mapsto> mf_read f, ''starred'' \<mapsto> mf_starred f]"

definition stored_auth_results :: "auth_results \<Rightarrow> (string \<rightharpoonup> string) option" where
  "stored_auth_results a =
     (if a = \<lparr>ar_spf = [], ar_dkim = [], ar_dmarc = []\<rparr> then None
      else Some [''spf'' \<mapsto> ar_spf a, ''dkim'' \<mapsto> ar_dkim a, ''dmarc'' \<mapsto> ar_dmarc a])"

subsection \<open>Waiting messages\<close>

definition delisted :: "unicode \<Rightarrow> policy \<Rightarrow> string list \<Rightarrow> string list" where
  "delisted u p ds = filter (\<lambda>d. \<not> restricted (cv_class (classify u p (CHR ''@'' # d)))) ds"

record waiting =
  wt_id :: string
  wt_from :: string
  wt_domain :: string
  wt_subject_masked :: bool
  wt_list_id :: bool
  wt_size :: int64
  wt_sent_at :: unix_milli
  wt_volume :: int64
  wt_hits :: int64

definition index_gate :: "unicode \<Rightarrow> policy \<Rightarrow> gate_config \<Rightarrow> unix_milli \<Rightarrow> waiting \<Rightarrow> int64 \<Rightarrow> gate_reason" where
  "index_gate u p c now m page_hits =
     scan_gate u c now
       \<lparr>gi_class = cv_class (classify u p (wt_from m)), gi_subject_masked = wt_subject_masked m,
        gi_list_id = wt_list_id m,
        gi_local_part = (case last_index_byte (wt_from m) (CHR ''@'') of
            Some k \<Rightarrow> take k (wt_from m) | None \<Rightarrow> wt_from m),
        gi_size = wt_size m, gi_sent_at = wt_sent_at m, gi_volume = wt_volume m,
        gi_prior_hits = wt_hits m + page_hits\<rparr>"

record scanned =
  sd_flags :: content_flags
  sd_rules :: "string list"
  sd_version :: int64
  sd_revision :: string

definition index_scan :: "unicode \<Rightarrow> (float64 \<Rightarrow> float64) \<Rightarrow> scanner \<Rightarrow> string \<Rightarrow> scanned" where
  "index_scan u lg s rendered =
     (let v = scan u lg s rendered
      in \<lparr>sd_flags = flags_of (mfa_code (sv_flags v)) (login_link (sv_flags v)),
          sd_rules = sort_compact (sv_rules v), sd_version = sv_version v, sd_revision = sv_revision v\<rparr>)"

record outcome_row =
  or_id :: string
  or_domain :: string
  or_verdict :: gate_reason
  or_scanned :: "scanned option"
  or_refused :: bool

definition flagged_outcome :: "outcome_row \<Rightarrow> bool" where
  "flagged_outcome o1 \<longleftrightarrow> (case or_scanned o1 of Some sc \<Rightarrow> any_flag (sd_flags sc) | None \<Rightarrow> False)"

definition page_hits :: "outcome_row list \<Rightarrow> string \<rightharpoonup> int64" where
  "page_hits os = foldl (\<lambda>h o1. if flagged_outcome o1
      then h(or_domain o1 \<mapsto> (case h (or_domain o1) of Some n \<Rightarrow> n | None \<Rightarrow> 0) + 1) else h) Map.empty os"

datatype error_class =
  NotProvider | Throttled | ProviderError | Authentication | Gone | Validation | RefusedClass

definition class_of :: "goerror option \<Rightarrow> error_class" where
  "class_of err =
     (let is = (\<lambda>t. case err of None \<Rightarrow> False | Some e \<Rightarrow> err_is e t)
      in if is ErrRefused then RefusedClass
         else if is ErrThrottled then Throttled
         else if is ErrProvider then ProviderError
         else if is ErrAuthentication then Authentication
         else if is ErrNotFound then Gone
         else if is ErrInvalid then Validation
         else NotProvider)"

text \<open>The word a run's failed item stores.\<close>

fun error_class_string :: "error_class \<Rightarrow> string" where
  "error_class_string NotProvider = []"
| "error_class_string Throttled = ''throttled''"
| "error_class_string ProviderError = ''provider_error''"
| "error_class_string Authentication = ''authentication''"
| "error_class_string Gone = ''gone''"
| "error_class_string Validation = ''validation''"
| "error_class_string RefusedClass = ''refused''"

subsection \<open>Facts\<close>

lemma page_hits_count:
  "page_hits os d = (let n = length (filter (\<lambda>o1. flagged_outcome o1 \<and> or_domain o1 = d) os)
     in if n = 0 then None else Some (of_nat n))"
proof (induction os rule: rev_induct)
  case (snoc x xs)
  then show ?case by (auto simp: page_hits_def Let_def)
qed (simp add: page_hits_def)

lemma class_of_wrap [simp]:
  "class_of (Some (ErrWrap s e)) = class_of (Some e)"
  by (simp add: class_of_def)

text \<open>
  What the index stores of a message depends on nothing that follows the body: a page built from
  metadata with any snippets and any attachment names is the same page. There is one row for each
  message, in order, its subject is the masked one, it is marked masked exactly when a mask was
  recorded, and the domains are those of the rows, each once and sorted.
\<close>

lemma index_stores_no_body_text:
  "let page = index_decide u lg items p s in
     index_decide u lg (map (\<lambda>m. m\<lparr>mm_snippet := f m, mm_names := g m\<rparr>) items) p s = page \<and>
     map im_id (ip_messages page) = map mm_id items \<and>
     map im_subject (ip_messages page) = map (\<lambda>m. ms_subject (mask_subject u lg s (mm_subject m))) items \<and>
     list_all (\<lambda>r. im_subject_masked r \<longleftrightarrow> im_masks r \<noteq> []) (ip_messages page) \<and>
     set (ip_domains page) = im_domain ` set (ip_messages page) \<and>
     sorted (ip_domains page) \<and> distinct (ip_domains page)"
proof -
  have row: "index_row u lg p s (m\<lparr>mm_snippet := x, mm_names := y\<rparr>) = index_row u lg p s m" for m x y
    by (simp add: index_row_def)
  have "im_id (index_row u lg p s m) = mm_id m"
    "im_subject (index_row u lg p s m) = ms_subject (mask_subject u lg s (mm_subject m))"
    "im_subject_masked (index_row u lg p s m) \<longleftrightarrow> im_masks (index_row u lg p s m) \<noteq> []" for m
    by (simp_all add: index_row_def Let_def)
  then show ?thesis
    by (simp add: Let_def index_decide_def list_all_iff comp_def row image_image)
qed

text \<open>
  Asked with a sender's current inputs, the scan gate never scans a message whose sender the
  policy in force restricts, and never skips as high volume a message whose sender has a hit, counting
  the hits found earlier in the same read, unless that count wraps to zero.
\<close>

lemma index_gate_follows_policy_and_hits:
  "let r = index_gate u (prepare u c l) cfg now m hits in
     (if restricts u l c (wt_from m) then gate_state r = SkippedRestricted \<and> \<not> gate_scans r
      else gate_state r \<noteq> SkippedRestricted \<and>
           (gate_state r = SkippedGate \<longleftrightarrow> gate_config_valid cfg \<and> wt_hits m + hits = 0 \<and>
              wt_list_id m \<and> \<not> wt_subject_masked m \<and> sint (gc_high_volume cfg) < sint (wt_volume m)))"
  unfolding Let_def gate_state_iff gate_scans_iff index_gate_def
  by (auto simp: scan_gate_facts bulk_without_hits_def classify_restricts)

end
