(* ===== verification/RateLimits.thy ===== *)
theory RateLimits
  imports MailModel
begin

text \<open>
  \<open>ratelimit/core\<close> less lease issuance, which is in \<open>Leases\<close>: the limits a declared ceiling fixes, the
  priority-class split, the AIMD controller with its backoff, and the latency baseline. Rates are
  float64 values, so each rule is shown to hold with the rounding the code does.
\<close>

subsection \<open>Saturating instants\<close>

definition add_saturating :: "int64 \<Rightarrow> int64 \<Rightarrow> int64" where
  "add_saturating a b =
     (if 0 < sint b \<and> max_int64 - sint b < sint a then word_of_int max_int64
      else if sint b < 0 \<and> sint a < min_int64 - sint b then word_of_int min_int64
      else a + b)"

lemma sint_add_in_range:
  "min_int64 \<le> sint a + sint b \<Longrightarrow> sint a + sint b \<le> max_int64 \<Longrightarrow> sint (a + b :: int64) = sint a + sint b"
  using sint_of_int64 [of "sint a + sint b"] by simp

lemma sint_add_saturating [simp]:
  "sint (add_saturating a b) = max min_int64 (min max_int64 (sint a + sint b))"
  using sint_range64 [of a] sint_range64 [of b]
  by (auto simp: add_saturating_def sint_of_int64 sint_add_in_range max_int64_def min_int64_def)

subsection \<open>Limits\<close>

record limits =
  lm_target :: float64
  lm_hard_cap :: float64
  lm_floor :: float64

definition zero_limits :: limits where
  "zero_limits = \<lparr>lm_target = Fin 0, lm_hard_cap = Fin 0, lm_floor = Fin 0\<rparr>"

definition default_target_fraction :: float64 where "default_target_fraction = round64 (1 / 2)"
definition floor_fraction :: float64 where "floor_fraction = round64 (1 / 20)"

definition limits_at :: "float64 \<Rightarrow> float64 \<Rightarrow> limits" where
  "limits_at per_second target =
     (let fl = fmul per_second floor_fraction
      in if \<not> flt (Fin 0) fl \<or> per_second = PInf then zero_limits
         else \<lparr>lm_target = fmul per_second target, lm_hard_cap = fmul per_second hard_cap_fraction,
               lm_floor = fl\<rparr>)"

definition limits_for :: "float64 \<Rightarrow> limits" where
  "limits_for per_second = limits_at per_second default_target_fraction"

definition limits_with_target :: "float64 \<Rightarrow> float64 \<Rightarrow> limits option" where
  "limits_with_target per_second target =
     (if \<not> (flt floor_fraction target \<and> fle target default_target_fraction) then None
      else let l = limits_at per_second target
           in if flt target default_target_fraction \<and> flt (Fin 0) (lm_floor l)
                 \<and> \<not> flt (to_float32 (lm_floor l)) (to_float32 (lm_target l)) then None
              else Some l)"

definition bounded :: "limits \<Rightarrow> float64 \<Rightarrow> float64" where
  "bounded l rate =
     (if \<not> flt (lm_floor l) rate then lm_floor l
      else if flt (lm_target l) rate then lm_target l else rate)"

text \<open>Limits a ceiling can fix: all zero, or a floor, a target and a hard cap in that order.\<close>

definition limits_ok :: "limits \<Rightarrow> bool" where
  "limits_ok l \<longleftrightarrow> is64 (lm_target l) \<and> is64 (lm_hard_cap l) \<and> is64 (lm_floor l) \<and>
     (l = zero_limits \<or>
      flt (Fin 0) (lm_floor l) \<and> fle (lm_floor l) (lm_target l) \<and> fle (lm_target l) (lm_hard_cap l) \<and>
      lm_hard_cap l \<noteq> PInf)"

lemma default_target_value [simp]: "default_target_fraction = Fin (1 / 2)"
  by (simp add: default_target_fraction_def)

lemma floor_fraction_value: obtains f where "floor_fraction = Fin f" "1 / 32 \<le> f" "f \<le> 1 / 2"
proof -
  have "fle (round64 (1 / 32)) floor_fraction" "fle floor_fraction (round64 (1 / 2))"
    unfolding floor_fraction_def by (rule b64.rnd_mono, simp)+
  then show thesis using that unfolding round64_simple by (blast dest: fle_between)
qed

lemma hard_cap_fraction_value: obtains h where "hard_cap_fraction = Fin h" "1 / 2 \<le> h" "h \<le> 1"
proof -
  have "fle (round64 (1 / 2)) hard_cap_fraction" "fle hard_cap_fraction (round64 1)"
    unfolding hard_cap_fraction_def by (rule b64.rnd_mono, simp)+
  then show thesis using that unfolding round64_simple by (blast dest: fle_between)
qed

lemma zero_limits_ok: "limits_ok zero_limits"
  by (simp add: limits_ok_def zero_limits_def)

lemma round64_finite: "0 \<le> a \<Longrightarrow> a \<le> v \<Longrightarrow> round64 v = Fin v \<Longrightarrow> \<exists>w. round64 a = Fin w"
  using b64.rnd_le [of v a] b64.rnd_nonneg [of a] by (cases "round64 a") auto

lemma limits_at_ok:
  assumes "is64 per_second" "target = Fin t" "floor_fraction = Fin f" "f \<le> t" "t \<le> 1 / 2"
  shows "limits_ok (limits_at per_second target)"
proof (cases "limits_at per_second target = zero_limits")
  case False
  then have fl: "flt (Fin 0) (fmul per_second floor_fraction)" "per_second \<noteq> PInf"
    by (auto simp: limits_at_def Let_def split: if_splits)
  obtain f' where "Fin f = Fin f'" "1 / 32 \<le> f'" using floor_fraction_value unfolding assms(3) by blast
  then have f0: "0 < f" by simp
  obtain c where c: "per_second = Fin c" "0 < c"
  proof (cases per_second)
    case (Fin c)
    then have "0 < c * f" using fl(1) b64.rnd_positive [of "c * f"] unfolding assms(3) by simp
    then show ?thesis using that Fin f0 by (simp add: zero_less_mult_iff)
  qed (use fl f0 in \<open>auto simp: assms(3) signed_inf_def flt_def\<close>)
  obtain h where h: "hard_cap_fraction = Fin h" "1 / 2 \<le> h" "h \<le> 1" by (rule hard_cap_fraction_value)
  have "f * c \<le> t * c" "t * c \<le> h * c" "h * c \<le> c" "0 \<le> h * c"
    using assms(4,5) h(2,3) c(2) by (auto intro!: mult_right_mono)
  then have "fle (round64 (c * f)) (round64 (c * t))" "fle (round64 (c * t)) (round64 (c * h))"
      "round64 (c * h) \<noteq> PInf"
    using round64_finite [of "c * h" c] assms(1) c
    by (auto intro!: b64.rnd_mono simp: mult.commute is64_Fin)
  then show ?thesis
    using False fl c assms(2)
    by (auto simp: limits_ok_def limits_at_def Let_def assms(3) h(1) split: if_splits)
qed (simp add: zero_limits_ok)

text \<open>
  C30. Whatever ceiling a profile declares and whatever target an account's configuration asks for, the
  limits either fix no budget, with every limit zero, or order as a positive floor, a target at least
  the floor, and a finite hard cap at least the target. A target that is accepted is a fraction above
  the floor's and at most the default's, moves neither the hard cap nor the floor, and when it is lowered
  lies strictly above the floor.
\<close>

theorem limits_are_ordered:
  assumes "is64 per_second" "is64 target"
  shows "limits_ok (limits_for per_second) \<and>
     (case limits_with_target per_second target of
        None \<Rightarrow> True
      | Some l \<Rightarrow> limits_ok l \<and> flt floor_fraction target \<and> fle target default_target_fraction \<and>
          lm_hard_cap l = lm_hard_cap (limits_for per_second) \<and> lm_floor l = lm_floor (limits_for per_second) \<and>
          (l = zero_limits \<or> target = default_target_fraction \<or> flt (lm_floor l) (lm_target l)))"
proof -
  obtain f where f: "floor_fraction = Fin f" "f \<le> 1 / 2" by (rule floor_fraction_value)
  have d: "limits_ok (limits_for per_second)"
    unfolding limits_for_def default_target_value by (rule limits_at_ok [OF assms(1) refl f(1)]) (use f in simp_all)
  have "limits_ok l \<and> flt floor_fraction target \<and> fle target default_target_fraction \<and>
          lm_hard_cap l = lm_hard_cap (limits_for per_second) \<and> lm_floor l = lm_floor (limits_for per_second) \<and>
          (l = zero_limits \<or> target = default_target_fraction \<or> flt (lm_floor l) (lm_target l))"
    if l: "limits_with_target per_second target = Some l" for l
  proof -
    from l have t: "flt floor_fraction target" "fle target default_target_fraction"
      and la: "l = limits_at per_second target"
      and st: "\<not> (flt target default_target_fraction \<and> flt (Fin 0) (lm_floor l)
                 \<and> \<not> flt (to_float32 (lm_floor l)) (to_float32 (lm_target l)))"
      by (auto simp: limits_with_target_def Let_def split: if_splits)
    obtain q where q: "target = Fin q" "f \<le> q" "q \<le> 1 / 2"
      using t unfolding f(1) by (cases target) (simp_all add: flt_def)
    have ok: "limits_ok l" unfolding la by (rule limits_at_ok [OF assms(1) q(1) f(1) q(2,3)])
    moreover have "lm_hard_cap l = lm_hard_cap (limits_for per_second)" "lm_floor l = lm_floor (limits_for per_second)"
      unfolding la by (auto simp: limits_at_def limits_for_def Let_def)
    moreover have "flt (lm_floor l) (lm_target l)" if "l \<noteq> zero_limits" "target \<noteq> default_target_fraction"
    proof -
      have "flt target default_target_fraction"
        using t(2) that(2) fle_antisym by (auto simp: flt_def)
      then have s: "flt (to_float32 (lm_floor l)) (to_float32 (lm_target l))"
        using st ok that(1) by (auto simp: limits_ok_def)
      have "fle (lm_floor l) (lm_target l)" using ok that(1) by (auto simp: limits_ok_def)
      moreover have "lm_floor l \<noteq> lm_target l" using s by auto
      ultimately show ?thesis using fle_antisym by (auto simp: flt_def)
    qed
    ultimately show ?thesis using t by blast
  qed
  then show ?thesis
    using d unfolding option.case_eq_if by (metis option.collapse)
qed

theorem limits_are_ordered_witness:
  "limits_ok (limits_for (Fin 256)) \<and>
     (case limits_with_target (Fin 256) (Fin (1 / 4)) of
        None \<Rightarrow> True
      | Some l \<Rightarrow> limits_ok l \<and> flt floor_fraction (Fin (1 / 4)) \<and> fle (Fin (1 / 4)) default_target_fraction \<and>
          lm_hard_cap l = lm_hard_cap (limits_for (Fin 256)) \<and> lm_floor l = lm_floor (limits_for (Fin 256)) \<and>
          (l = zero_limits \<or> Fin (1 / 4) = default_target_fraction \<or> flt (lm_floor l) (lm_target l)))"
  by (rule limits_are_ordered) (use round64_int [of 256] in \<open>simp_all add: is64_Fin\<close>)

subsection \<open>Priority classes\<close>

text \<open>A class value no constant names, the zero one included, is \<open>NoClass\<close>.\<close>

datatype rate_class = NoClass | Interactive | Sync | Batch

definition interactive_fraction :: float64 where "interactive_fraction = round64 (3 / 10)"
definition sync_fraction :: float64 where "sync_fraction = round64 (1 / 5)"

definition share :: "rate_class \<Rightarrow> float64 \<Rightarrow> float64 \<Rightarrow> float64" where
  "share c budget target =
     (let interactive = fmin budget (fmul interactive_fraction target);
          sync = fmin (fsub budget interactive) (fmul sync_fraction target)
      in case c of
          Interactive \<Rightarrow> fmax interactive (Fin 0)
        | Sync \<Rightarrow> fmax sync (Fin 0)
        | Batch \<Rightarrow> fmax (fsub (fsub budget interactive) sync) (Fin 0)
        | NoClass \<Rightarrow> Fin 0)"

subsection \<open>The controller\<close>

definition step_fraction :: float64 where "step_fraction = round64 (1 / 50)"
definition throttle_factor :: float64 where "throttle_factor = round64 (1 / 2)"
definition server_error_factor :: float64 where "server_error_factor = round64 (4 / 5)"
definition latency_factor :: float64 where "latency_factor = round64 (9 / 10)"
definition latency_trigger :: float64 where "latency_trigger = Fin 2"
definition backoff_base_millis :: nat where "backoff_base_millis = 1000"
definition backoff_most_millis :: nat where "backoff_most_millis = 32000"

record controller =
  ct_rate :: float64
  ct_backoff_until :: int64
  ct_throttles :: int64

definition succeeded :: "controller \<Rightarrow> limits \<Rightarrow> op_cost \<Rightarrow> controller" where
  "succeeded s l cost =
     (let rate = bounded l (ct_rate s);
          w = oc_weight cost;
          rate = (if flt (Fin 0) w \<and> w \<noteq> PInf \<and> flt (Fin 0) rate
                  then fmin (fadd rate (fdiv (fmul (fmul step_fraction (lm_target l)) w) rate)) (lm_target l)
                  else rate)
      in \<lparr>ct_rate = rate, ct_backoff_until = ct_backoff_until s, ct_throttles = 0\<rparr>)"

function jitter_bound :: "nat \<Rightarrow> nat \<Rightarrow> nat" where
  "jitter_bound throttles bound =
     (if 0 < throttles \<and> bound < backoff_most_millis then jitter_bound (throttles - 1) (bound * 2) else bound)"
  by pat_completeness auto
termination
  by (relation "measure fst") auto

declare jitter_bound.simps [simp del]

definition jitter :: "int64 \<Rightarrow> float64 \<Rightarrow> int64" where
  "jitter throttles draw =
     (let bound = min (jitter_bound (nat (sint throttles)) backoff_base_millis) backoff_most_millis
      in if \<not> (fle (Fin 0) draw \<and> flt draw (Fin 1)) then of_nat bound
         else int64_of_float (fmul draw (float_of_int64 (of_nat bound))))"

definition throttled :: "controller \<Rightarrow> limits \<Rightarrow> throttle_signal \<Rightarrow> int64 \<Rightarrow> float64 \<Rightarrow> controller" where
  "throttled s l signal now draw =
     (let throttles = max64 (ct_throttles s) 0;
          wait = (if ts_has_retry_after signal \<and> 0 < sint (ts_retry_after signal)
                  then ts_retry_after signal else jitter throttles draw)
      in \<lparr>ct_rate = fmax (fmul (bounded l (ct_rate s)) throttle_factor) (lm_floor l),
          ct_backoff_until = max64 (ct_backoff_until s) (add_saturating now wait),
          ct_throttles = (if sint throttles < max_int64 then throttles + 1 else throttles)\<rparr>)"

definition server_errored :: "controller \<Rightarrow> limits \<Rightarrow> controller" where
  "server_errored s l = \<lparr>ct_rate = fmax (fmul (bounded l (ct_rate s)) server_error_factor) (lm_floor l),
     ct_backoff_until = ct_backoff_until s, ct_throttles = ct_throttles s\<rparr>"

definition latency_measured :: "controller \<Rightarrow> limits \<Rightarrow> float64 \<Rightarrow> float64 \<Rightarrow> controller" where
  "latency_measured s l median baseline =
     (let rate = bounded l (ct_rate s);
          rate = (if flt (Fin 0) baseline \<and> baseline \<noteq> PInf \<and> median \<noteq> PInf
                     \<and> flt (fmul latency_trigger baseline) median
                  then fmax (fmul rate latency_factor) (lm_floor l) else rate)
      in \<lparr>ct_rate = rate, ct_backoff_until = ct_backoff_until s, ct_throttles = ct_throttles s\<rparr>)"

text \<open>What the provider's answers make the controller do, one event at a time.\<close>

datatype rate_event =
    CallSucceeded op_cost
  | CallThrottled throttle_signal int64 float64
  | CallErrored
  | WindowClosed float64 float64

fun controller_step :: "limits \<Rightarrow> controller \<Rightarrow> rate_event \<Rightarrow> controller" where
  "controller_step l s (CallSucceeded cost) = succeeded s l cost"
| "controller_step l s (CallThrottled signal now draw) = throttled s l signal now draw"
| "controller_step l s CallErrored = server_errored s l"
| "controller_step l s (WindowClosed median baseline) = latency_measured s l median baseline"

definition rate_in_range :: "limits \<Rightarrow> controller \<Rightarrow> bool" where
  "rate_in_range l s \<longleftrightarrow> fle (lm_floor l) (ct_rate s) \<and> fle (ct_rate s) (lm_target l)"

subsection \<open>The latency baseline\<close>

record latency_window =
  lw_start :: int64
  lw_samples :: "int64 list"

definition median_of :: "int64 list \<Rightarrow> (float64 \<times> bool)" where
  "median_of samples =
     (if length samples < 20 then (Fin 0, False)
      else let sorted = sort_key sint samples; mid = length sorted div 2
           in if length sorted mod 2 = 1 then (float_of_int64 (sorted ! mid), True)
              else (fdiv (fadd (float_of_int64 (sorted ! (mid - 1))) (float_of_int64 (sorted ! mid))) (Fin 2), True))"

definition add_latency :: "latency_window \<Rightarrow> int64 \<Rightarrow> int64 \<Rightarrow> latency_window \<times> float64 \<times> bool" where
  "add_latency w now latency =
     (let (w, median, ok) =
            (if sint (add_saturating (lw_start w) 60000) \<le> sint now
             then (case median_of (lw_samples w) of (m, k) \<Rightarrow> (\<lparr>lw_start = now, lw_samples = []\<rparr>, m, k))
             else (w, Fin 0, False))
      in (if 0 \<le> sint latency then w\<lparr>lw_samples := lw_samples w @ [latency]\<rparr> else w, median, ok))"

definition last_ten :: "'a list \<Rightarrow> 'a list" where
  "last_ten xs = drop (length xs - 10) xs"

definition remember_median :: "float64 list \<Rightarrow> float64 \<Rightarrow> float64 list" where
  "remember_median recent median = last_ten (recent @ [median])"

definition baseline_of :: "float64 list \<Rightarrow> float64" where
  "baseline_of recent =
     (let lowest = foldl (\<lambda>lo m. if flt (Fin 0) m \<and> flt m lo then m else lo) PInf (last_ten recent)
      in if lowest = PInf then Fin 0 else lowest)"

end
