(* ===== verification/RateFacts.thy ===== *)
theory RateFacts
  imports RateLimits
begin

text \<open>
  What the controller, the class split, the backoff and the baseline guarantee, with float64 rounding:
  the rate stays between the floor and the target whatever the provider answers, a backoff is never
  shortened, a cut is taken from batch, then sync, then interactive, and the baseline is the lowest of
  the positive medians remembered.
\<close>

subsection \<open>Float facts\<close>

lemma fmul_nonneg:
  "fle (Fin 0) a \<Longrightarrow> fle (Fin 0) b \<Longrightarrow> a \<noteq> PInf \<Longrightarrow> b \<noteq> PInf \<Longrightarrow> fle (Fin 0) (fmul a b)"
  by (cases a; cases b) (auto intro: b64.rnd_nonneg)

lemma fmul_pos_nonneg:
  "fle (Fin 0) a \<Longrightarrow> flt (Fin 0) b \<Longrightarrow> b \<noteq> PInf \<Longrightarrow> fle (Fin 0) (fmul a b)"
  by (cases a; cases b) (auto intro: b64.rnd_nonneg simp: signed_inf_def flt_def)

lemma fdiv_nonneg:
  "fle (Fin 0) a \<Longrightarrow> flt (Fin 0) b \<Longrightarrow> b \<noteq> PInf \<Longrightarrow> fle (Fin 0) (fdiv a b)"
  by (cases a; cases b) (auto intro: b64.rnd_nonneg simp: flt_def)

lemma fadd_nonneg_ge:
  assumes "fle (Fin 0) a" "fle (Fin 0) b" "is64 a"
  shows "fle a (fadd a b)"
proof -
  have "fadd a b \<noteq> NaN" using assms by (cases a; cases b) auto
  then show ?thesis using assms fle_not_NaN [OF assms(1)] by (intro fadd_ge) auto
qed

lemma fadd_not_NaN: "fle (Fin 0) a \<Longrightarrow> fle (Fin 0) b \<Longrightarrow> fadd a b \<noteq> NaN"
  by (cases a; cases b) auto

text \<open>Scaling by a fraction keeps a rate between zero and any bound it was under.\<close>

lemma fmul_fraction:
  assumes "Fin 0 \<noteq> NaN" "fle (Fin 0) a" "fle a (Fin t)" "round64 t = Fin t" "0 \<le> f" "f \<le> 1"
  shows "fle (Fin 0) (fmul a (Fin f)) \<and> fle (fmul a (Fin f)) (Fin t)"
proof -
  obtain x where x: "a = Fin x" "0 \<le> x" "x \<le> t" using assms(2,3) fle_between by blast
  then have "x * f \<le> t" using assms(5,6) mult_left_le [of f x] by (simp add: mult.commute)
  then show ?thesis
    using x assms(4,5) by (auto intro: b64.rnd_nonneg b64.rnd_le)
qed

lemma fraction_between:
  "0 \<le> q \<Longrightarrow> q \<le> 1 \<Longrightarrow> \<exists>f. round64 q = Fin f \<and> 0 \<le> f \<and> f \<le> 1"
  using b64.rnd_nonneg [of q] b64.rnd_le [of 1 q] fle_between [of 0 "round64 q" 1] by simp

lemma fraction_of:
  assumes "0 \<le> q" "q \<le> 1" "0 \<le> t" "round64 t = Fin t"
  shows "\<exists>i. fmul (round64 q) (Fin t) = Fin i \<and> 0 \<le> i \<and> i \<le> t"
proof -
  obtain k where k: "round64 q = Fin k" "0 \<le> k" "k \<le> 1" using fraction_between assms(1,2) by blast
  then have "0 \<le> k * t" "k * t \<le> t" using assms(3) by (simp_all add: mult_left_le_one_le)
  then show ?thesis
    using k(1) fle_between [of 0 "round64 (k * t)" t] b64.rnd_nonneg [of "k * t"] b64.rnd_le [OF assms(4), of "k * t"]
    by simp
qed

lemma float_of_small: "\<bar>sint x\<bar> < 2 ^ 53 \<Longrightarrow> float_of_int64 x = Fin (of_int (sint x))"
  using round64_int [of "sint x"] by (simp add: float_of_int64_def)

lemma fadd_floor:
  "f \<le> r \<Longrightarrow> round64 f = Fin f \<Longrightarrow> fle (Fin 0) x \<Longrightarrow> fle (Fin f) (fadd (Fin r) x)"
  by (cases x) (auto intro: b64.rnd_ge)

subsection \<open>The rate's range\<close>

lemma limits_ok_finite:
  assumes "limits_ok l"
  obtains f t where "lm_floor l = Fin f" "lm_target l = Fin t" "0 \<le> f" "f \<le> t"
    "round64 f = Fin f" "round64 t = Fin t"
proof (cases "l = zero_limits")
  case True
  then show ?thesis using that [of 0 0] b64.rnd_zero by (simp add: zero_limits_def)
next
  case False
  then have o: "flt (Fin 0) (lm_floor l)" "fle (lm_floor l) (lm_target l)" "fle (lm_target l) (lm_hard_cap l)"
    "lm_hard_cap l \<noteq> PInf" "is64 (lm_floor l)" "is64 (lm_target l)"
    using assms by (auto simp: limits_ok_def)
  obtain f where "lm_floor l = Fin f" "0 \<le> f" using o by (cases "lm_floor l"; cases "lm_target l"; cases "lm_hard_cap l") (auto simp: flt_def)
  moreover obtain t where "lm_target l = Fin t" "f \<le> t"
    using o \<open>lm_floor l = Fin f\<close> by (cases "lm_target l"; cases "lm_hard_cap l") auto
  ultimately show ?thesis using that o(5,6) by (simp add: is64_Fin)
qed

lemma bounded_in_range:
  "limits_ok l \<Longrightarrow> fle (lm_floor l) (bounded l r) \<and> fle (bounded l r) (lm_target l)"
  by (erule limits_ok_finite) (cases r; auto simp: bounded_def flt_def)

lemma cut_in_range:
  assumes "limits_ok l" "fle (lm_floor l) r" "fle r (lm_target l)" "0 \<le> q" "q \<le> 1"
  shows "fle (lm_floor l) (fmax (fmul r (round64 q)) (lm_floor l)) \<and>
    fle (fmax (fmul r (round64 q)) (lm_floor l)) (lm_target l)"
proof (rule limits_ok_finite [OF assms(1)])
  fix f t assume l: "lm_floor l = Fin f" "lm_target l = Fin t" "0 \<le> f" "f \<le> t"
    "round64 f = Fin f" "round64 t = Fin t"
  obtain k where k: "round64 q = Fin k" "0 \<le> k" "k \<le> 1" using fraction_between [OF assms(4,5)] by blast
  have "fle (Fin 0) r" using assms(2) l(1,3) fle_trans [of "Fin 0" "Fin f" r] by simp
  then have m: "fle (Fin 0) (fmul r (Fin k))" "fle (fmul r (Fin k)) (Fin t)"
    using fmul_fraction [of r t k] assms(3) l k by auto
  then show ?thesis
    using l fmax_ge [of "fmul r (Fin k)" "Fin f"] fmax_bounded [of "fmul r (Fin k)" "Fin t" "Fin f"]
    by (auto simp: k(1) dest: fle_not_NaN)
qed

lemma controller_step_range:
  assumes "limits_ok l"
  shows "rate_in_range l (controller_step l s e)"
proof (rule limits_ok_finite [OF assms])
  fix f t assume l: "lm_floor l = Fin f" "lm_target l = Fin t" "0 \<le> f" "f \<le> t"
    "round64 f = Fin f" "round64 t = Fin t"
  note b = bounded_in_range [OF assms, of "ct_rate s"]
  note cut = cut_in_range [OF assms conjunct1 [OF b] conjunct2 [OF b]]
  show ?thesis
  proof (cases e)
    case (CallSucceeded cost)
    let ?r = "bounded l (ct_rate s)" and ?w = "oc_weight cost"
    let ?x = "fdiv (fmul (fmul step_fraction (lm_target l)) ?w) ?r"
    show ?thesis
    proof (cases "flt (Fin 0) ?w \<and> ?w \<noteq> PInf \<and> flt (Fin 0) ?r")
      case True
      obtain k where k: "step_fraction = Fin k" "0 \<le> k" "k \<le> 1"
        unfolding step_fraction_def using fraction_between [of "1 / 50"] by auto
      obtain r where r: "?r = Fin r" "f \<le> r" "r \<le> t" using b l fle_between by metis
      have "fle (Fin 0) (fmul step_fraction (lm_target l))"
        unfolding k(1) l(2) using k(2) l(3,4) by (auto intro: b64.rnd_nonneg)
      then have "fle (Fin 0) ?x" by (rule fdiv_nonneg [OF fmul_pos_nonneg]) (use True r in auto)
      then have "fle (Fin f) (fadd ?r ?x)" unfolding r(1) by (rule fadd_floor [OF r(2) l(5)])
      then have "fle (Fin f) (fmin (fadd ?r ?x) (Fin t)) \<and> fle (fmin (fadd ?r ?x) (Fin t)) (Fin t)"
        using fmin_le [of "fadd ?r ?x" "Fin t"] fmin_bounded [of "Fin f" "fadd ?r ?x" "Fin t"] l
        by (auto dest: fle_not_NaN)
      then show ?thesis using True CallSucceeded l by (simp add: rate_in_range_def succeeded_def Let_def)
    next
      case False
      then show ?thesis using b CallSucceeded by (auto simp: rate_in_range_def succeeded_def Let_def)
    qed
  next
    case (CallThrottled signal now draw)
    then show ?thesis using cut [of "1 / 2"]
      by (simp add: rate_in_range_def throttled_def Let_def throttle_factor_def)
  next
    case CallErrored
    then show ?thesis using cut [of "4 / 5"]
      by (simp add: rate_in_range_def server_errored_def Let_def server_error_factor_def)
  next
    case (WindowClosed median baseline)
    then show ?thesis using cut [of "9 / 10"] b
      by (simp add: rate_in_range_def latency_measured_def Let_def latency_factor_def)
  qed
qed

interpretation controller_rate: machine "controller_step l" "\<lambda>s. limits_ok l \<longrightarrow> rate_in_range l s"
  by unfold_locales (simp add: controller_step_range)

text \<open>Limits of a round ceiling, for concrete evaluations.\<close>

definition example_limits :: limits where
  "example_limits = \<lparr>lm_target = Fin 128, lm_hard_cap = Fin 205, lm_floor = Fin 13\<rparr>"

lemma example_limits_ok: "limits_ok example_limits"
  using round64_int [of 128] round64_int [of 205] round64_int [of 13]
  by (simp add: limits_ok_def example_limits_def is64_Fin)

subsection \<open>Backoff\<close>

lemma controller_step_backoff: "sint (ct_backoff_until s) \<le> sint (ct_backoff_until (controller_step l s e))"
  by (cases e) (simp_all add: succeeded_def throttled_def server_errored_def latency_measured_def Let_def)

interpretation controller_backoff: machine "controller_step l" "\<lambda>s. b \<le> sint (ct_backoff_until s)"
  by unfold_locales (use controller_step_backoff in \<open>blast intro: order_trans\<close>)

lemma jitter_bound_base: "b \<le> jitter_bound n b"
  by (induction n b rule: jitter_bound.induct) (subst jitter_bound.simps, auto)

lemma jitter_range: "0 \<le> sint (jitter n d) \<and> sint (jitter n d) \<le> 32000"
proof -
  let ?b = "min (jitter_bound (nat (sint n)) backoff_base_millis) backoff_most_millis"
  have b: "?b \<le> 32000" by (simp add: backoff_most_millis_def)
  have sb: "sint (of_nat ?b :: int64) = int ?b"
    using sint_of_int64 [of "int ?b"] b by (simp add: min_int64_def max_int64_def)
  show ?thesis
  proof (cases "fle (Fin 0) d \<and> flt d (Fin 1)")
    case True
    then obtain q where q: "d = Fin q" "0 \<le> q" "q < 1" by (cases d) (auto simp: flt_def)
    have fb: "float_of_int64 (of_nat ?b) = Fin (of_nat ?b)"
      using float_of_small [of "of_nat ?b"] b unfolding sb by simp
    have "q * of_nat ?b \<le> of_nat ?b" "0 \<le> q * of_nat ?b"
      using q mult_left_le_one_le [of "of_nat ?b" q] by simp_all
    moreover have "round64 (of_nat ?b) = Fin (of_nat ?b)"
      using round64_int [of "int ?b"] b by simp
    ultimately obtain v where v: "round64 (q * of_nat ?b) = Fin v" "0 \<le> v" "v \<le> of_nat ?b"
      using b64.rnd_nonneg b64.rnd_le fle_between by metis
    then have "0 \<le> \<lfloor>v\<rfloor>" "\<lfloor>v\<rfloor> \<le> int ?b" by (simp_all add: floor_le_iff)
    then show ?thesis
      using True q v b fb sint_of_int64 [of "\<lfloor>v\<rfloor>"]
      by (simp add: jitter_def Let_def Float64.truncate_def min_int64_def max_int64_def)
  next
    case False
    then show ?thesis using sb b by (auto simp: jitter_def Let_def)
  qed
qed

lemma throttled_backoff:
  "sint (ct_backoff_until (throttled s l signal now d)) =
     max (sint (ct_backoff_until s))
       (max min_int64 (min max_int64 (sint now +
          (if ts_has_retry_after signal \<and> 0 < sint (ts_retry_after signal) then sint (ts_retry_after signal)
           else sint (jitter (max64 (ct_throttles s) 0) d)))))"
  by (simp add: throttled_def Let_def)

text \<open>
  C29. Whatever the provider answers, in any order, the controller keeps its rate between the floor and
  the target from the first answer on, even when the stored rate it started from was outside them or
  not a number, and no answer ever brings the end of a backoff forward.
\<close>

theorem controller_keeps_range:
  assumes "limits_ok l" "events \<noteq> []"
  shows "rate_in_range l (foldl (controller_step l) s events) \<and>
     sint (ct_backoff_until s) \<le> sint (ct_backoff_until (foldl (controller_step l) s events))"
proof -
  obtain e es where es: "events = e # es" using assms(2) by (cases events) auto
  have "rate_in_range l (foldl (controller_step l) (controller_step l s e) es)"
    using controller_rate.run_good [of l "controller_step l s e" es] controller_step_range assms(1) by blast
  moreover have "sint (ct_backoff_until s) \<le> sint (ct_backoff_until (foldl (controller_step l) s events))"
    by (rule controller_backoff.run_good) simp
  ultimately show ?thesis by (simp add: es)
qed

theorem controller_keeps_range_witness:
  "rate_in_range example_limits (foldl (controller_step example_limits)
       \<lparr>ct_rate = NaN, ct_backoff_until = 5, ct_throttles = 0\<rparr> [CallErrored, WindowClosed (Fin 3) (Fin 1)]) \<and>
   sint (ct_backoff_until \<lparr>ct_rate = NaN, ct_backoff_until = 5, ct_throttles = 0\<rparr>) \<le>
   sint (ct_backoff_until (foldl (controller_step example_limits)
       \<lparr>ct_rate = NaN, ct_backoff_until = 5, ct_throttles = 0\<rparr> [CallErrored, WindowClosed (Fin 3) (Fin 1)]))"
  by (rule controller_keeps_range) (simp_all add: example_limits_ok)

text \<open>
  A throttle is waited out in full: the backoff then ends no earlier than the retry-after the
  provider asked for, counted from the instant of the throttle and held at the clock's limit, or
  without a positive one, a draw's share of at most 32 seconds; and it ends no earlier than the backoff
  already in force.
\<close>

lemma throttle_waits_in_full:
  "let s' = throttled s l signal now d;
       asked = (ts_has_retry_after signal \<and> 0 < sint (ts_retry_after signal));
       end_at = sint (ct_backoff_until s') in
     sint (ct_backoff_until s) \<le> end_at \<and>
     (if asked then min max_int64 (sint now + sint (ts_retry_after signal)) \<le> end_at
      else min max_int64 (sint now) \<le> end_at \<and>
           end_at \<le> max (sint (ct_backoff_until s)) (sint now + 32000)) \<and>
     0 < sint (ct_throttles s')"
proof -
  have "0 < sint (ct_throttles (throttled s l signal now d))"
    using sint_range64 [of "ct_throttles s"] sint_add_in_range [of "max64 (ct_throttles s) 0" 1]
    by (auto simp: throttled_def Let_def max_int64_def min_int64_def max_def)
  then show ?thesis
    using jitter_range [of "max64 (ct_throttles s) 0" d] sint_range64 [of now]
    by (auto simp: Let_def throttled_backoff min_int64_def max_int64_def)
qed

subsection \<open>The class split\<close>

lemma fsub_self [simp]: "fsub (Fin x) (Fin x) = Fin 0"
  by (simp add: fsub_def b64.rnd_zero)

text \<open>
  A budget below the target is cut from batch first, then from sync, then from interactive: a class
  has a share only when every class before it has its whole reservation, no share is negative, and a
  value no constant names has none.
\<close>

lemma cuts_come_out_of_batch_first:
  assumes "0 \<le> b" "0 \<le> t" "round64 t = Fin t"
  shows "let int_share = share Interactive (Fin b) (Fin t); sync_share = share Sync (Fin b) (Fin t);
       batch_share = share Batch (Fin b) (Fin t) in
     fle (Fin 0) int_share \<and> fle (Fin 0) sync_share \<and> fle (Fin 0) batch_share \<and>
     fle int_share (Fin b) \<and> share NoClass (Fin b) (Fin t) = Fin 0 \<and>
     (sync_share = Fin 0 \<or> int_share = fmul interactive_fraction (Fin t)) \<and>
     (batch_share = Fin 0 \<or> int_share = fmul interactive_fraction (Fin t) \<and> sync_share = fmul sync_fraction (Fin t))"
proof -
  obtain i where i: "fmul interactive_fraction (Fin t) = Fin i" "0 \<le> i"
    unfolding interactive_fraction_def using fraction_of [OF _ _ assms(2,3), of "3 / 10"] by auto
  obtain j where j: "fmul sync_fraction (Fin t) = Fin j" "0 \<le> j"
    unfolding sync_fraction_def using fraction_of [OF _ _ assms(2,3), of "1 / 5"] by auto
  show ?thesis
  proof (cases "b \<le> i")
    case True
    then show ?thesis
      using assms(1) j(2) by (simp add: share_def Let_def i(1) j(1) fmin_def fmax_def)
  next
    case False
    define y where "y = fsub (Fin b) (Fin i)"
    have y: "fle (Fin 0) y" using False by (simp add: y_def fsub_def b64.rnd_nonneg)
    have "share Interactive (Fin b) (Fin t) = Fin i"
      using False i(2) by (auto simp: share_def Let_def i(1) fmin_def fmax_def)
    moreover have "share Sync (Fin b) (Fin t) = fmin y (Fin j)"
      using False y j(2) by (cases y) (auto simp: share_def Let_def i(1) j(1) fmin_def fmax_def simp flip: y_def)
    moreover have "share Batch (Fin b) (Fin t) = fmax (fsub y (fmin y (Fin j))) (Fin 0)"
      using False by (auto simp: share_def Let_def i(1) j(1) fmin_def simp flip: y_def)
    moreover have "share NoClass (Fin b) (Fin t) = Fin 0" by (simp add: share_def)
    ultimately show ?thesis
      using False y i(2) j(2) by (cases y) (auto simp: i(1) j(1) fmin_def fmax_def Let_def fsub_def b64.rnd_zero b64.rnd_nonneg)
  qed
qed

subsection \<open>The baseline\<close>

lemma lowest_fold:
  "(\<forall>m \<in> set ms. flt (Fin 0) m \<longrightarrow> fle (foldl (\<lambda>lo m. if flt (Fin 0) m \<and> flt m lo then m else lo) lo0 ms) m) \<and>
   (let r = foldl (\<lambda>lo m. if flt (Fin 0) m \<and> flt m lo then m else lo) lo0 ms in
      fle r lo0 \<and> (r = lo0 \<or> r \<in> set ms \<and> flt (Fin 0) r))" if "lo0 \<noteq> NaN"
  using that
proof (induction ms arbitrary: lo0)
  case (Cons m ms)
  let ?lo = "if flt (Fin 0) m \<and> flt m lo0 then m else lo0"
  have n: "?lo \<noteq> NaN" "fle ?lo lo0" using Cons.prems by (auto simp: flt_def)
  have "flt (Fin 0) m \<longrightarrow> fle ?lo m"
    using Cons.prems not_flt_fle [of m lo0] by (cases "m = NaN") auto
  then show ?case
    using Cons.IH [OF n(1)] n(2) by (auto simp: Let_def intro: fle_trans split: if_splits)
qed simp

lemma length_last_ten: "length (last_ten xs) = min 10 (length xs)"
  by (simp add: last_ten_def)

text \<open>
  The latency baseline is zero, which decides nothing, exactly when none of the last ten medians is
  a finite positive number, and otherwise is the lowest of those that are. What is remembered after a
  median is at most ten, the new one last.
\<close>

lemma baseline_is_lowest_positive:
  "let good = filter (\<lambda>m. flt (Fin 0) m \<and> m \<noteq> PInf) (last_ten recent); r = remember_median recent m in
     (if good = [] then baseline_of recent = Fin 0
      else baseline_of recent \<in> set good \<and> list_all (\<lambda>m. fle (baseline_of recent) m) good) \<and>
     length r \<le> 10 \<and> last r = m"
proof -
  let ?f = "foldl (\<lambda>lo m. if flt (Fin 0) m \<and> flt m lo then m else lo) PInf (last_ten recent)"
  have f: "\<forall>m \<in> set (last_ten recent). flt (Fin 0) m \<longrightarrow> fle ?f m"
    "?f = PInf \<or> ?f \<in> set (last_ten recent) \<and> flt (Fin 0) ?f"
    using lowest_fold [of PInf "last_ten recent"] by (simp_all add: Let_def)
  have top: "fle PInf m \<Longrightarrow> m = PInf" for m by (cases m) auto
  have r: "length (remember_median recent m) \<le> 10 \<and> last (remember_median recent m) = m"
    by (simp add: remember_median_def length_last_ten) (simp add: last_ten_def)
  show ?thesis
  proof (cases "?f = PInf")
    case True
    then have "filter (\<lambda>m. flt (Fin 0) m \<and> m \<noteq> PInf) (last_ten recent) = []"
      using f(1) top by (auto simp: filter_empty_conv)
    then show ?thesis using True r by (simp add: baseline_of_def Let_def)
  next
    case False
    then have b: "baseline_of recent = ?f" by (simp add: baseline_of_def Let_def)
    have "?f \<in> set (filter (\<lambda>m. flt (Fin 0) m \<and> m \<noteq> PInf) (last_ten recent))"
      using f(2) False by simp
    moreover have "list_all (fle ?f) (filter (\<lambda>m. flt (Fin 0) m \<and> m \<noteq> PInf) (last_ten recent))"
      using f(1) by (simp add: list_all_iff)
    moreover have "filter (\<lambda>m. flt (Fin 0) m \<and> m \<noteq> PInf) (last_ten recent) \<noteq> []"
      using f(2) False by (auto simp: filter_empty_conv)
    ultimately show ?thesis using r unfolding b Let_def by simp
  qed
qed

end
