(* ===== verification/Leases.thy ===== *)
theory Leases
  imports RateFacts
begin

text \<open>
  \<open>ratelimit/core/lease.go\<close>: lease issuance from the bucket and the one-second window. The main fact is
  that over any history of requests the grants of any one second sum to at most the hard cap.
\<close>

definition lease_millis :: int64 where "lease_millis = 1000"

record issued =
  is_at :: int64
  is_tokens :: float64

record issuance =
  is_level :: float64
  is_latest :: int64
  is_asked :: "rate_class \<Rightarrow> int64"
  is_recent :: "issued list"

record lease =
  le_class :: rate_class
  le_tokens :: float64
  le_expires :: int64

record lease_request =
  rq_class :: rate_class
  rq_tokens :: float64

datatype lease_decision = LeaseRefused | LeaseWaiting | LeaseGranted lease

definition named :: "rate_class \<Rightarrow> bool" where
  "named c \<longleftrightarrow> c \<noteq> NoClass"

definition counted :: "float64 \<Rightarrow> float64" where
  "counted tokens = (if flt (Fin 0) tokens then tokens else Fin 0)"

definition live_leases :: "lease list \<Rightarrow> int64 \<Rightarrow> lease list" where
  "live_leases leases now = filter (\<lambda>h. sint now < sint (le_expires h)) leases"

definition held :: "lease list \<Rightarrow> rate_class \<Rightarrow> int64 \<Rightarrow> float64" where
  "held leases c now =
     foldl (\<lambda>acc h. if le_class h = c then fadd acc (counted (le_tokens h)) else acc) (Fin 0)
       (live_leases leases now)"

text \<open>The loop of \<open>windowed\<close> returns at the first grant whose amount is not a number.\<close>

fun windowed_from :: "float64 \<Rightarrow> issued list \<Rightarrow> float64" where
  "windowed_from acc [] = acc"
| "windowed_from acc (g # gs) =
     (if is_tokens g = NaN then PInf else windowed_from (fadd acc (counted (is_tokens g))) gs)"

definition windowed :: "issued list \<Rightarrow> float64" where
  "windowed recent = windowed_from (Fin 0) recent"

definition within_a_second :: "issued list \<Rightarrow> int64 \<Rightarrow> int64 \<Rightarrow> issued list" where
  "within_a_second recent asked now =
     filter (\<lambda>g. sint (add_saturating asked (- lease_millis)) < sint (is_at g))
       (map (\<lambda>g. g\<lparr>is_at := min64 (is_at g) now\<rparr>) recent)"

definition refill_rate :: "float64 \<Rightarrow> limits \<Rightarrow> float64" where
  "refill_rate rate l = (if \<not> flt (Fin 0) rate then Fin 0 else fmin rate (lm_target l))"

definition refill :: "issuance \<Rightarrow> controller \<Rightarrow> float64 \<Rightarrow> float64 \<Rightarrow> int64 \<Rightarrow> issuance" where
  "refill st s rate capacity now =
     (let level = fmin (fmax (is_level st) (Fin 0)) capacity;
          level = (if is_level st = NaN then Fin 0 else level);
          start = max64 (is_latest st) (ct_backoff_until s);
          level = (if sint start < sint now
             then (let elapsed = now - start;
                       elapsed = (if sint elapsed < 0 then word_of_int max_int64 else elapsed)
                   in fmin (fadd level (fdiv (fmul rate (float_of_int64 elapsed)) (Fin 1000))) capacity)
             else level)
      in st\<lparr>is_level := level, is_latest := now\<rparr>)"

text \<open>The classes a class yields to, in the order of the loop.\<close>

fun outranking :: "rate_class \<Rightarrow> rate_class list" where
  "outranking Sync = [Interactive]"
| "outranking Batch = [Interactive, Sync]"
| "outranking _ = []"

definition available_for :: "limits \<Rightarrow> issuance \<Rightarrow> lease list \<Rightarrow> float64 \<Rightarrow> rate_class \<Rightarrow> int64 \<Rightarrow> float64" where
  "available_for l st leases rate cls now =
     foldl (\<lambda>available c.
         if sint now < sint (add_saturating (is_asked st c) lease_millis)
         then fsub available (fmax (fsub (share c rate (lm_target l)) (held leases c now)) (Fin 0))
         else available)
       (is_level st) (outranking cls)"

definition issue :: "limits \<Rightarrow> controller \<Rightarrow> issuance \<Rightarrow> lease list \<Rightarrow> lease_request \<Rightarrow> int64 \<Rightarrow>
    issuance \<times> lease_decision" where
  "issue l s st leases req now =
     (let capacity = lm_hard_cap l in
      if \<not> named (rq_class req) \<or> \<not> flt (Fin 0) (rq_tokens req) \<or> flt capacity (rq_tokens req)
      then (st, LeaseRefused)
      else
       (let asked = now;
            now = max64 now (is_latest st);
            rate = refill_rate (ct_rate s) l;
            st = refill st s rate capacity now;
            st = st\<lparr>is_recent := within_a_second (is_recent st) asked now,
                    is_asked := (is_asked st)(rq_class req := now)\<rparr>
        in if sint now < sint (ct_backoff_until s) then (st, LeaseWaiting)
           else if flt (available_for l st leases rate (rq_class req) now) (rq_tokens req)
                   \<or> flt (lm_hard_cap l) (fadd (windowed (is_recent st)) (rq_tokens req))
           then (st, LeaseWaiting)
           else (st\<lparr>is_level := fsub (is_level st) (rq_tokens req),
                    is_recent := is_recent st @ [\<lparr>is_at = now, is_tokens = rq_tokens req\<rparr>]\<rparr>,
                 LeaseGranted \<lparr>le_class = rq_class req, le_tokens = rq_tokens req,
                   le_expires = add_saturating now lease_millis\<rparr>)))"

subsection \<open>The window\<close>

definition real_grant :: "issued \<Rightarrow> bool" where
  "real_grant g \<longleftrightarrow> flt (Fin 0) (is_tokens g)"

lemma real_grant_counted: "real_grant g \<Longrightarrow> is_tokens g \<noteq> NaN \<and> counted (is_tokens g) = is_tokens g"
  by (auto simp: real_grant_def counted_def)

lemma windowed_filter_le:
  assumes "\<forall>g \<in> set gs. real_grant g" "fle (Fin 0) a" "fle a b" "is64 b"
  shows "fle (windowed_from a (filter Q gs)) (windowed_from b gs) \<and> fle (Fin 0) (windowed_from b gs)"
  using assms
proof (induction gs arbitrary: a b)
  case (Cons g gs)
  let ?x = "is_tokens g"
  have x: "fle (Fin 0) ?x" "?x \<noteq> NaN" "counted ?x = ?x"
    using Cons.prems(1) real_grant_counted [of g] by (auto simp: real_grant_def flt_def)
  have b0: "fle (Fin 0) b" using Cons.prems(2,3) by (rule fle_trans)
  have up: "fle b (fadd b ?x)" by (rule fadd_nonneg_ge [OF b0 x(1) Cons.prems(4)])
  have "fle (fadd a ?x) (fadd b ?x)"
    using Cons.prems(2,3) b0 x(1) by (intro fadd_mono) (auto simp: fadd_not_NaN)
  moreover have "fle (Fin 0) (fadd a ?x)"
    using Cons.prems(2) x(1) by (cases a; cases ?x) (auto intro: b64.rnd_nonneg)
  ultimately show ?case
    using Cons.IH [of "fadd a ?x" "fadd b ?x"] Cons.IH [of a "fadd b ?x"] Cons.prems x up
    by (auto intro: fle_trans)
qed (auto intro: fle_trans)

lemma windowed_sublist:
  "\<forall>g \<in> set gs. real_grant g \<Longrightarrow> fle (windowed (filter Q gs)) (windowed gs) \<and> fle (Fin 0) (windowed gs)"
  unfolding windowed_def by (rule windowed_filter_le) simp_all

lemma windowed_snoc:
  "\<forall>g \<in> set gs. real_grant g \<Longrightarrow> real_grant g' \<Longrightarrow> windowed (gs @ [g']) = fadd (windowed gs) (is_tokens g')"
proof -
  have "\<forall>g \<in> set gs. real_grant g \<Longrightarrow> real_grant g' \<Longrightarrow>
      windowed_from a (gs @ [g']) = fadd (windowed_from a gs) (is_tokens g')" for a
    by (induction gs arbitrary: a) (auto dest!: real_grant_counted)
  then show "\<forall>g \<in> set gs. real_grant g \<Longrightarrow> real_grant g' \<Longrightarrow> ?thesis" by (simp add: windowed_def)
qed

subsection \<open>A history of requests\<close>

text \<open>One request, with the grants of the history so far, each at the instant issuance kept for it.\<close>

definition issue_step :: "limits \<Rightarrow> issuance \<times> issued list \<Rightarrow> controller \<times> lease list \<times> lease_request \<times> int64 \<Rightarrow>
    issuance \<times> issued list" where
  "issue_step l sg i = (case (sg, i) of ((st, grants), (s, leases, req, now)) \<Rightarrow>
     (case issue l s st leases req now of
        (st', LeaseGranted le) \<Rightarrow> (st', grants @ [\<lparr>is_at = is_latest st', is_tokens = le_tokens le\<rparr>])
      | (st', _) \<Rightarrow> (st', grants)))"

definition in_second :: "int \<Rightarrow> issued \<Rightarrow> bool" where
  "in_second T g \<longleftrightarrow> T - 1000 < sint (is_at g) \<and> sint (is_at g) \<le> T"

definition history_ok :: "limits \<Rightarrow> issuance \<times> issued list \<Rightarrow> bool" where
  "history_ok l sg \<longleftrightarrow> (case sg of (st, grants) \<Rightarrow>
     0 \<le> sint (is_latest st) \<and>
     (\<exists>old. grants = old @ is_recent st \<and> (\<forall>g \<in> set old. sint (is_at g) \<le> sint (is_latest st) - 1000)) \<and>
     (\<forall>g \<in> set grants. 0 \<le> sint (is_at g) \<and> sint (is_at g) \<le> sint (is_latest st) \<and> real_grant g) \<and>
     sorted (map (\<lambda>g. sint (is_at g)) grants) \<and>
     (\<forall>T. fle (windowed (filter (in_second T) grants)) (lm_hard_cap l)))"

text \<open>What a request leaves of the window.\<close>

lemma sorted_split:
  "sorted (map f xs) \<Longrightarrow> xs = filter (\<lambda>x. \<not> c < f x) xs @ filter (\<lambda>x. c < f x) xs"
  for f :: "'a \<Rightarrow> int"
proof (induction xs)
  case (Cons x xs)
  show ?case
  proof (cases "c < f x")
    case True
    then have "filter (\<lambda>x. c < f x) xs = xs" "filter (\<lambda>x. \<not> c < f x) xs = []"
      using Cons.prems by (auto simp: filter_id_conv filter_empty_conv)
    then show ?thesis using True by simp
  next
    case False
    then show ?thesis using Cons by simp
  qed
qed simp

lemma within_a_second_kept:
  assumes "\<forall>g \<in> set recent. 0 \<le> sint (is_at g) \<and> sint (is_at g) \<le> sint now"
    and "sorted (map (\<lambda>g. sint (is_at g)) recent)" "sint asked \<le> sint now"
  shows "\<exists>gone. recent = gone @ within_a_second recent asked now \<and> (\<forall>g \<in> set gone. sint (is_at g) \<le> sint now - 1000)"
proof -
  let ?P = "\<lambda>g. sint (add_saturating asked (- lease_millis)) < sint (is_at g)"
  have same: "map (\<lambda>g. g\<lparr>is_at := min64 (is_at g) now\<rparr>) recent = recent"
    using assms(1) by (intro map_idI) (auto simp: min64_def)
  have w: "within_a_second recent asked now = filter ?P recent"
    by (simp only: within_a_second_def same)
  have "recent = filter (\<lambda>g. \<not> ?P g) recent @ filter ?P recent"
    using assms(2) by (rule sorted_split)
  moreover have "sint (is_at g) \<le> sint now - 1000" if "g \<in> set recent" "\<not> ?P g" for g
  proof -
    have "0 \<le> sint (is_at g)" using assms(1) that(1) by simp
    then show ?thesis
      using that(2) assms(3) by (auto simp: lease_millis_def min_int64_def max_int64_def)
  qed
  ultimately show ?thesis unfolding w by (intro exI [of _ "filter (\<lambda>g. \<not> ?P g) recent"]) auto
qed

text \<open>The three ways a request ends.\<close>

lemma issue_cases:
  assumes "issue l s st leases req now = (st', d)"
  shows "d = LeaseRefused \<and> st' = st \<or>
    named (rq_class req) \<and> flt (Fin 0) (rq_tokens req) \<and> \<not> flt (lm_hard_cap l) (rq_tokens req) \<and>
    is_latest st' = max64 now (is_latest st) \<and>
    (let kept = within_a_second (is_recent st) now (max64 now (is_latest st)) in
      d = LeaseWaiting \<and> is_recent st' = kept \<or>
      (\<exists>le. d = LeaseGranted le \<and> le_tokens le = rq_tokens req \<and>
         sint (ct_backoff_until s) \<le> sint (is_latest st') \<and>
         \<not> flt (lm_hard_cap l) (fadd (windowed kept) (rq_tokens req)) \<and>
         is_recent st' = kept @ [\<lparr>is_at = is_latest st', is_tokens = rq_tokens req\<rparr>]))"
  using assms
  by (auto simp: issue_def refill_def Let_def not_less split: if_splits)

lemma issue_step_ok:
  assumes "limits_ok l" "history_ok l sg"
  shows "history_ok l (issue_step l sg i)"
proof -
  obtain st grants where sg: "sg = (st, grants)" by fastforce
  obtain s leases req now where i: "i = (s, leases, req, now)" by (cases i) auto
  obtain st' d where iss: "issue l s st leases req now = (st', d)" by fastforce
  have h: "0 \<le> sint (is_latest st)"
    "\<forall>g \<in> set grants. 0 \<le> sint (is_at g) \<and> sint (is_at g) \<le> sint (is_latest st) \<and> real_grant g"
    "sorted (map (\<lambda>g. sint (is_at g)) grants)"
    "\<And>T. fle (windowed (filter (in_second T) grants)) (lm_hard_cap l)"
    using assms(2) by (auto simp: history_ok_def sg)
  obtain old where old: "grants = old @ is_recent st" "\<forall>g \<in> set old. sint (is_at g) \<le> sint (is_latest st) - 1000"
    using assms(2) by (auto simp: history_ok_def sg)
  let ?now = "max64 now (is_latest st)"
  let ?kept = "within_a_second (is_recent st) now ?now"
  have "\<forall>g \<in> set (is_recent st). 0 \<le> sint (is_at g) \<and> sint (is_at g) \<le> sint ?now"
    using h(2) unfolding old(1) by (simp add: le_max_iff_disj)
  moreover have "sorted (map (\<lambda>g. sint (is_at g)) (is_recent st))"
    using h(3) by (simp add: old(1) sorted_append)
  ultimately obtain gone where gone: "is_recent st = gone @ ?kept" "\<forall>g \<in> set gone. sint (is_at g) \<le> sint ?now - 1000"
    using within_a_second_kept [of "is_recent st" ?now now] by auto
  have past: "grants = (old @ gone) @ ?kept" "\<forall>g \<in> set (old @ gone). sint (is_at g) \<le> sint ?now - 1000"
    using old gone by (simp_all, fastforce)
  have hg: "\<forall>g \<in> set grants. 0 \<le> sint (is_at g) \<and> sint (is_at g) \<le> sint ?now \<and> real_grant g"
    using h(2) by fastforce
  from issue_cases [OF iss] consider "d = LeaseRefused" "st' = st"
    | "d = LeaseWaiting" "is_latest st' = ?now" "is_recent st' = ?kept"
    | le where "d = LeaseGranted le" "le_tokens le = rq_tokens req" "is_latest st' = ?now"
        "flt (Fin 0) (rq_tokens req)" "\<not> flt (lm_hard_cap l) (fadd (windowed ?kept) (rq_tokens req))"
        "is_recent st' = ?kept @ [\<lparr>is_at = ?now, is_tokens = rq_tokens req\<rparr>]"
    by (auto simp: Let_def)
  then show ?thesis
  proof cases
    case 1
    then show ?thesis using assms(2) iss by (simp add: issue_step_def sg i)
  next
    case 2
    then have st2: "issue_step l sg i = (st', grants)" using iss by (simp add: issue_step_def sg i)
    show ?thesis
      unfolding st2 history_ok_def using 2 past hg h(1,3,4)
      by (auto intro!: exI [of _ "old @ gone"])
  next
    case 3
    let ?new = "\<lparr>is_at = ?now, is_tokens = rq_tokens req\<rparr>"
    have st3: "issue_step l sg i = (st', grants @ [?new])"
      using iss 3 by (simp add: issue_step_def sg i)
    have new: "real_grant ?new" using 3 by (simp add: real_grant_def)
    have kept: "\<forall>g \<in> set ?kept. real_grant g" using hg past(1) by (metis Un_iff set_append)
    have cap: "fle (windowed (?kept @ [?new])) (lm_hard_cap l)"
    proof -
      have "fle (Fin 0) (windowed ?kept)" using windowed_sublist [OF kept] by blast
      then have "fadd (windowed ?kept) (rq_tokens req) \<noteq> NaN"
        using 3(4) by (intro fadd_not_NaN) (simp_all add: flt_def)
      moreover have "lm_hard_cap l \<noteq> NaN"
        using assms(1) by (auto simp: limits_ok_def zero_limits_def)
      ultimately show ?thesis
        using 3(5) not_flt_fle windowed_snoc [OF kept new] by auto
    qed
    have "fle (windowed (filter (in_second T) (grants @ [?new]))) (lm_hard_cap l)" for T
    proof (cases "T < sint ?now")
      case True
      then have "filter (in_second T) (grants @ [?new]) = filter (in_second T) grants" by (auto simp: in_second_def)
      then show ?thesis using h(4) by simp
    next
      case False
      then have "\<not> in_second T g" if "g \<in> set (old @ gone)" for g
        using past(2) that by (fastforce simp: in_second_def simp del: sint_max64)
      then have "filter (in_second T) (old @ gone) = []" by (auto simp: filter_empty_conv)
      then have same: "filter (in_second T) (grants @ [?new]) = filter (in_second T) (?kept @ [?new])"
        by (subst past(1)) (simp only: filter_append append_Nil)
      have "fle (windowed (filter (in_second T) (?kept @ [?new]))) (windowed (?kept @ [?new]))"
        using windowed_sublist [of "?kept @ [?new]"] kept new by auto
      then show ?thesis unfolding same using cap by (rule fle_trans)
    qed
    moreover have "sorted (map (\<lambda>g. sint (is_at g)) (grants @ [?new]))"
      using h(3) hg by (auto simp: sorted_append)
    moreover have "\<exists>old'. grants @ [?new] = old' @ is_recent st' \<and> (\<forall>g \<in> set old'. sint (is_at g) \<le> sint (is_latest st') - 1000)"
      using past 3 by (intro exI [of _ "old @ gone"]) auto
    ultimately show ?thesis
      unfolding st3 history_ok_def using 3 hg h(1) new by auto
  qed
qed

interpretation issuance_runs: machine "issue_step l" "\<lambda>sg. limits_ok l \<longrightarrow> history_ok l sg"
  by unfold_locales (simp add: issue_step_ok)

definition example_issuance :: issuance where
  "example_issuance = \<lparr>is_level = Fin 64, is_latest = 0, is_asked = (\<lambda>_. 0), is_recent = []\<rparr>"
definition example_controller :: controller where
  "example_controller = \<lparr>ct_rate = Fin 128, ct_backoff_until = 0, ct_throttles = 0\<rparr>"
definition example_request :: lease_request where
  "example_request = \<lparr>rq_class = Interactive, rq_tokens = Fin 5\<rparr>"

text \<open>
  C9. The hard cap holds in every second of every history: starting from an empty window, whatever the
  requests, their classes and instants, the controller's states and the leases the store gives, and
  even if the clock steps back, the grants issued inside any one-second window sum to at most the hard
  cap, in the order and with the rounding the code adds them up.
\<close>

theorem hard_cap_in_any_second:
  assumes "limits_ok l" "is_recent st0 = []" "0 \<le> sint (is_latest st0)"
  shows "fle (windowed (filter (in_second T) (snd (foldl (issue_step l) (st0, []) requests)))) (lm_hard_cap l)"
proof -
  have "fle (Fin 0) (lm_hard_cap l)"
    by (rule limits_ok_finite [OF assms(1)])
       (use assms(1) in \<open>auto simp: limits_ok_def zero_limits_def intro: fle_trans [of _ "lm_target l"]\<close>)
  then have "history_ok l (st0, [])"
    using assms by (simp add: history_ok_def windowed_def)
  then have "history_ok l (foldl (issue_step l) (st0, []) requests)"
    using issuance_runs.run_good [of l "(st0, [])" requests] assms(1) by simp
  then show ?thesis by (auto simp: history_ok_def split: prod.splits)
qed

theorem hard_cap_in_any_second_witness:
  "fle (windowed (filter (in_second 1000) (snd (foldl (issue_step example_limits) (example_issuance, [])
      [(example_controller, [], example_request, 5), (example_controller, [], example_request, 900)]))))
     (lm_hard_cap example_limits)"
  by (rule hard_cap_in_any_second) (simp_all add: example_limits_ok example_issuance_def)

subsection \<open>One request\<close>

lemma held_nonneg: "fle (Fin 0) (held leases c now)"
proof -
  have "fle (Fin 0) a \<Longrightarrow> fle (Fin 0) (foldl (\<lambda>acc h. if le_class h = c
      then fadd acc (counted (le_tokens h)) else acc) a hs)" for a hs
  proof (induction hs arbitrary: a)
    case (Cons h hs)
    have "fle (Fin 0) (counted (le_tokens h))" by (simp add: counted_def flt_def)
    then have "fle (Fin 0) (fadd a (counted (le_tokens h)))"
      using Cons.prems by (cases a; cases "counted (le_tokens h)") (auto intro: b64.rnd_nonneg)
    then show ?case using Cons by simp
  qed simp
  from this [of "Fin 0"] show ?thesis by (simp add: held_def)
qed

lemma round64_between: "0 \<le> q \<Longrightarrow> q \<le> t \<Longrightarrow> round64 t = Fin t \<Longrightarrow> \<exists>v. round64 q = Fin v \<and> 0 \<le> v \<and> v \<le> t"
  using b64.rnd_nonneg [of q] b64.rnd_le [of t q] fle_between by blast

lemma share_range:
  assumes "0 \<le> b" "b \<le> t" "round64 t = Fin t"
  shows "fle (Fin 0) (share c (Fin b) (Fin t)) \<and> fle (share c (Fin b) (Fin t)) (Fin t)"
proof -
  have t: "0 \<le> t" using assms by simp
  obtain i0 where i0: "fmul interactive_fraction (Fin t) = Fin i0" "0 \<le> i0"
    unfolding interactive_fraction_def using fraction_of [OF _ _ t assms(3), of "3 / 10"] by auto
  obtain j where j: "fmul sync_fraction (Fin t) = Fin j" "0 \<le> j"
    unfolding sync_fraction_def using fraction_of [OF _ _ t assms(3), of "1 / 5"] by auto
  let ?i = "min b i0"
  obtain y where y: "fsub (Fin b) (Fin ?i) = Fin y" "0 \<le> y" "y \<le> t"
  proof -
    have "0 \<le> b - ?i" "b - ?i \<le> t" using assms i0(2) by linarith+
    from round64_between [OF this assms(3)] show ?thesis using that by (auto simp: fsub_def)
  qed
  let ?s = "min y j"
  obtain z where z: "fsub (Fin y) (Fin ?s) = Fin z" "0 \<le> z" "z \<le> t"
  proof -
    have "0 \<le> y - ?s" "y - ?s \<le> t" using y(2,3) j(2) by linarith+
    from round64_between [OF this assms(3)] show ?thesis using that by (auto simp: fsub_def)
  qed
  have m: "fmin (Fin a) (Fin a') = Fin (min a a')" "fmax (Fin a) (Fin 0) = Fin (max a 0)" for a a'
    by (auto simp: fmin_def fmax_def)
  show ?thesis
    using assms i0(2) j(2) y z t by (cases c) (auto simp: share_def Let_def i0(1) j(1) m)
qed

lemma fsub_le:
  assumes "is64 a" "a \<noteq> NaN" "a \<noteq> PInf" "fle (Fin 0) d"
  shows "fle (fsub a d) a \<and> is64 (fsub a d) \<and> fsub a d \<noteq> NaN \<and> fsub a d \<noteq> PInf"
  using assms
proof (cases a)
  case (Fin x)
  have "fle (round64 (x - y)) (Fin x)" if "0 \<le> y" for y
    using assms(1) Fin that by (intro b64.rnd_le) (simp_all add: is64_Fin)
  from this have "0 \<le> y \<Longrightarrow> fle (round64 (x - y)) (Fin x) \<and> round64 (x - y) \<noteq> PInf" for y
    by (cases "round64 (x - y)") fastforce+
  then show ?thesis
    using assms Fin by (cases d) (auto simp: fsub_def is64_Fin)
qed ((cases d; use assms in \<open>auto simp: fsub_def\<close>)+)

lemma available_le:
  assumes "is64 (is_level st)" "fle (Fin 0) (is_level st)" "is_level st \<noteq> PInf"
    and "0 \<le> b" "b \<le> t" "round64 t = Fin t" "lm_target l = Fin t"
  shows "fle (available_for l st leases (Fin b) cls now) (is_level st)"
proof -
  let ?f = "\<lambda>available c.
         if sint now < sint (add_saturating (is_asked st c) lease_millis)
         then fsub available (fmax (fsub (share c (Fin b) (lm_target l)) (held leases c now)) (Fin 0))
         else available"
  have nonneg: "fle (Fin 0) (fmax (fsub (share c (Fin b) (Fin t)) (held leases c now)) (Fin 0))" for c
  proof -
    have "fsub (share c (Fin b) (Fin t)) (held leases c now) \<noteq> NaN"
      using share_range [OF assms(4-6), of c] held_nonneg [of leases c now]
      by (cases "share c (Fin b) (Fin t)"; cases "held leases c now") (auto simp: fsub_def)
    then show ?thesis using fmax_ge by blast
  qed
  have fold: "is64 a \<and> a \<noteq> NaN \<and> a \<noteq> PInf \<Longrightarrow>
      fle (foldl ?f a cs) a \<and> is64 (foldl ?f a cs) \<and> foldl ?f a cs \<noteq> NaN \<and> foldl ?f a cs \<noteq> PInf" for a cs
  proof (induction cs arbitrary: a)
    case (Cons c cs)
    have step: "fle (?f a c) a \<and> is64 (?f a c) \<and> ?f a c \<noteq> NaN \<and> ?f a c \<noteq> PInf"
      using Cons.prems fsub_le [OF _ _ _ nonneg, of a c] by (simp add: assms(7))
    show ?case
      unfolding foldl_Cons using Cons.IH [of "?f a c"] step fle_trans [of _ "?f a c" a] by blast
  qed simp
  have "is64 (is_level st) \<and> is_level st \<noteq> NaN \<and> is_level st \<noteq> PInf"
    using assms(1-3) fle_not_NaN by blast
  from fold [OF this] show ?thesis unfolding available_for_def by blast
qed

lemma float_of_nonneg: "0 \<le> sint x \<Longrightarrow> \<exists>v. float_of_int64 x = Fin v \<and> 0 \<le> v"
  using round64_between [of "of_int (sint x)" "2 ^ 63"] round64_dyadic [of 1 63] sint_range64 [of x]
  by (auto simp: float_of_int64_def pow2_def max_int64_def of_int_le_iff [symmetric, where 'a = rat])

lemma fadd_nonneg: "fle (Fin 0) a \<Longrightarrow> fle (Fin 0) b \<Longrightarrow> fle (Fin 0) (fadd a b)"
  by (cases a; cases b) (auto intro: b64.rnd_nonneg)

lemma refill_rate_range:
  "lm_target l = Fin t \<Longrightarrow> 0 \<le> t \<Longrightarrow> \<exists>b. refill_rate r l = Fin b \<and> 0 \<le> b \<and> b \<le> t"
  by (cases r) (auto simp: refill_rate_def fmin_def flt_def)

lemma refill_level:
  assumes "0 \<le> b" "fle (Fin 0) cap" "is64 cap" "is64 (is_level st)"
  shows "fle (Fin 0) (is_level (refill st s (Fin b) cap now)) \<and>
    fle (is_level (refill st s (Fin b) cap now)) cap \<and> is64 (is_level (refill st s (Fin b) cap now))"
proof -
  have clip: "fle (Fin 0) x \<Longrightarrow> fle (Fin 0) (fmin x cap) \<and> fle (fmin x cap) cap" for x
    using assms(2) fmin_le [of x cap] fmin_bounded [of "Fin 0" x cap] by (auto dest: fle_not_NaN)
  let ?l0 = "if is_level st = NaN then Fin 0 else fmin (fmax (is_level st) (Fin 0)) cap"
  have l0: "fle (Fin 0) ?l0 \<and> fle ?l0 cap \<and> is64 ?l0"
    using clip [of "fmax (is_level st) (Fin 0)"] fmax_ge [of "is_level st" "Fin 0"] assms(2)
      is64_fmin [OF is64_fmax [OF assms(4) is64_simps(4)] assms(3)]
    by simp
  have "fle (Fin 0) (fdiv (fmul (Fin b) (float_of_int64 e)) (Fin 1000))" if e: "0 \<le> sint e" for e
  proof -
    obtain v where "float_of_int64 e = Fin v" "0 \<le> v" using float_of_nonneg [OF e] by blast
    then show ?thesis using assms(1) by (intro fdiv_nonneg fmul_nonneg) auto
  qed
  then have "fle (Fin 0) (fadd ?l0 (fdiv (fmul (Fin b) (float_of_int64 e)) (Fin 1000)))" if "0 \<le> sint e" for e
    using l0 that fadd_nonneg by blast
  note grown = clip [OF this]
  have "0 \<le> sint (if sint e < 0 then word_of_int max_int64 else e :: int64)" for e
    by (simp add: sint_of_int64 min_int64_def max_int64_def)
  note grown = grown [OF this]
  show ?thesis
    using l0 grown assms(3) unfolding refill_def Let_def by (auto intro: is64_fmin)
qed

text \<open>
  C23. One request, whatever the stored state: it is refused exactly when it names no class, asks for no
  positive amount or asks for more than one second's worth at the hard cap, and a refusal changes
  nothing issuance keeps. Otherwise the bucket's level is left between zero and the hard cap, nothing
  is granted before the backoff's end, and a grant is for the whole amount and expires a second after
  the instant it is issued at.
\<close>

theorem issue_one_request:
  assumes "limits_ok l" "is64 (is_level st)"
  shows "case issue l s st leases req now of (st', d) \<Rightarrow>
     (d = LeaseRefused \<longleftrightarrow> \<not> named (rq_class req) \<or> \<not> flt (Fin 0) (rq_tokens req) \<or>
        flt (lm_hard_cap l) (rq_tokens req)) \<and>
     (case d of
        LeaseRefused \<Rightarrow> st' = st
      | LeaseWaiting \<Rightarrow> fle (Fin 0) (is_level st') \<and> fle (is_level st') (lm_hard_cap l)
      | LeaseGranted le \<Rightarrow>
          fle (Fin 0) (is_level st') \<and> fle (is_level st') (lm_hard_cap l) \<and>
          sint (ct_backoff_until s) \<le> sint (is_latest st') \<and>
          is_latest st' = max64 now (is_latest st) \<and>
          le_class le = rq_class req \<and> le_tokens le = rq_tokens req \<and>
          sint (le_expires le) = min max_int64 (sint (is_latest st') + 1000))"
proof -
  obtain t where t: "lm_target l = Fin t" "0 \<le> t" "round64 t = Fin t"
    by (rule limits_ok_finite [OF assms(1)]) auto
  have cap: "fle (Fin 0) (lm_hard_cap l)" "is64 (lm_hard_cap l)" "lm_hard_cap l \<noteq> PInf"
    using assms(1) t by (auto simp: limits_ok_def zero_limits_def intro: fle_trans [of _ "lm_target l"])
  obtain b where b: "refill_rate (ct_rate s) l = Fin b" "0 \<le> b" "b \<le> t"
    using refill_rate_range [OF t(1,2)] by blast
  let ?now = "max64 now (is_latest st)"
  let ?r = "refill st s (Fin b) (lm_hard_cap l) ?now"
  let ?m = "?r\<lparr>is_recent := within_a_second (is_recent st) now ?now,
      is_asked := (is_asked st)(rq_class req := ?now)\<rparr>"
  have r: "fle (Fin 0) (is_level ?r)" "fle (is_level ?r) (lm_hard_cap l)" "is64 (is_level ?r)"
    using refill_level [OF b(2) cap(1,2) assms(2)] by blast+
  have rp: "is_level ?r \<noteq> PInf" using r(2) cap(3) by (cases "is_level ?r"; cases "lm_hard_cap l") auto
  have parts: "is_latest ?r = ?now" "is_recent ?r = is_recent st" "is_asked ?r = is_asked st"
    by (simp_all add: refill_def Let_def)
  have av: "fle (available_for l ?m leases (Fin b) (rq_class req) ?now) (is_level ?r)"
    using available_le [of ?m b t l] r rp b t by simp
  have left: "fle (Fin 0) (fsub (is_level ?r) (rq_tokens req)) \<and> fle (fsub (is_level ?r) (rq_tokens req)) (lm_hard_cap l)"
    if q: "flt (Fin 0) (rq_tokens req)" "\<not> flt (available_for l ?m leases (Fin b) (rq_class req) ?now) (rq_tokens req)"
  proof -
    have "rq_tokens req \<noteq> NaN" using q(1) by auto
    then have "fle (rq_tokens req) (available_for l ?m leases (Fin b) (rq_class req) ?now)"
      using q(2) not_flt_fle fle_not_NaN [OF av] by blast
    then have "fle (rq_tokens req) (is_level ?r)" using av by (rule fle_trans)
    then obtain x y where "is_level ?r = Fin x" "rq_tokens req = Fin y" "0 < y" "y \<le> x"
      using q(1) rp by (cases "is_level ?r"; cases "rq_tokens req") (auto simp: flt_def)
    moreover from this have "fle (fsub (is_level ?r) (rq_tokens req)) (is_level ?r)"
      using fsub_le [OF r(3), of "rq_tokens req"] rp by (auto simp: flt_def)
    ultimately show ?thesis using r(2) fle_trans by (auto simp: fsub_def intro: b64.rnd_nonneg)
  qed
  have ms: "sint (add_saturating x lease_millis) = min max_int64 (sint x + 1000)" for x
    using sint_range64 [of x] by (simp add: lease_millis_def min_int64_def max_int64_def)
  note ms = ms [of ?now, unfolded sint_add_saturating sint_max64]
  show ?thesis
    using left r(1,2)
    unfolding issue_def Let_def b(1) parts(2,3)
    by (auto simp: parts ms not_less)
qed

theorem issue_one_request_witness:
  "case issue example_limits example_controller example_issuance [] example_request 5 of (st', d) \<Rightarrow>
     (d = LeaseRefused \<longleftrightarrow> \<not> named (rq_class example_request) \<or> \<not> flt (Fin 0) (rq_tokens example_request) \<or>
        flt (lm_hard_cap example_limits) (rq_tokens example_request)) \<and>
     (case d of
        LeaseRefused \<Rightarrow> st' = example_issuance
      | LeaseWaiting \<Rightarrow> fle (Fin 0) (is_level st') \<and> fle (is_level st') (lm_hard_cap example_limits)
      | LeaseGranted le \<Rightarrow>
          fle (Fin 0) (is_level st') \<and> fle (is_level st') (lm_hard_cap example_limits) \<and>
          sint (ct_backoff_until example_controller) \<le> sint (is_latest st') \<and>
          is_latest st' = max64 5 (is_latest example_issuance) \<and>
          le_class le = rq_class example_request \<and> le_tokens le = rq_tokens example_request \<and>
          sint (le_expires le) = min max_int64 (sint (is_latest st') + 1000))"
  by (rule issue_one_request [OF example_limits_ok])
     (use round64_int [of 64] in \<open>simp add: is64_Fin example_issuance_def\<close>)

end
