(* ===== verification/Backfill.thy ===== *)
theory Backfill
  imports IndexCore
begin

text \<open>
  \<open>worker/internal/core/backfill\<close>: the due decision and the decisions of the two passes, as values. The
  counts of Go's \<open>int\<close> are 64-bit words. A progress is polymorphic in \<open>Latest\<close> and \<open>Start\<close> as the Go
  generics are.
\<close>

subsection \<open>What is due\<close>

record backfill_state =
  bs_first_ended :: bool
  bs_second_ended :: bool
  bs_restart :: bool

record backfill_work =
  bw_start :: bool
  bw_passes :: bool

definition any_work :: "backfill_work \<Rightarrow> bool" where
  "any_work w \<longleftrightarrow> bw_start w \<or> bw_passes w"

definition backfill_due :: "backfill_state \<Rightarrow> bool \<Rightarrow> backfill_work" where
  "backfill_due s started = \<lparr>bw_start = \<not> started,
     bw_passes = (\<not> started \<or> \<not> bs_first_ended s \<or> \<not> bs_second_ended s \<or> bs_restart s)\<rparr>"

definition backfill_seed :: "backfill_state \<Rightarrow> int64 \<Rightarrow> int64 \<Rightarrow> int64" where
  "backfill_seed s latest_success earliest_start =
     (if \<not> bw_passes (backfill_due s True) then 0
      else if latest_success \<noteq> 0 then latest_success
      else earliest_start)"

subsection \<open>The first pass\<close>

record checkpoint =
  ck_page :: int64
  ck_token :: string
  ck_of :: int64
  ck_stamp :: stamp
  ck_stale :: int64

definition ck_ended :: "checkpoint \<Rightarrow> bool" where
  "ck_ended c \<longleftrightarrow> 0 < sint (ck_page c) \<and> ck_token c = []"

record counters =
  cn_pages :: int64
  cn_messages :: int64
  cn_remasked :: int64
  cn_refetched :: int64

record progress =
  pg_checkpoint :: checkpoint
  pg_counters :: counters

definition zero_stamp :: stamp where "zero_stamp = \<lparr>st_version = 0, st_revision = []\<rparr>"
definition zero_checkpoint :: checkpoint where
  "zero_checkpoint = \<lparr>ck_page = 0, ck_token = [], ck_of = 0, ck_stamp = zero_stamp, ck_stale = 0\<rparr>"
definition zero_counters :: counters where
  "zero_counters = \<lparr>cn_pages = 0, cn_messages = 0, cn_remasked = 0, cn_refetched = 0\<rparr>"
definition zero_progress :: progress where
  "zero_progress = \<lparr>pg_checkpoint = zero_checkpoint, pg_counters = zero_counters\<rparr>"

datatype run_state = NoRunState | RunRunning | RunSucceeded | RunFailed

record 'p latest_run =
  lr_found :: bool
  lr_run_id :: string
  lr_state :: run_state
  lr_progress :: 'p

record 'p pass_start =
  ps_skip :: bool
  ps_reopen :: bool
  ps_resumed_from :: string
  ps_abandon :: bool
  ps_from :: 'p

text \<open>\<open>zero\<close> is the zero value of the progress type.\<close>

definition begin_pass :: "'p \<Rightarrow> bool \<Rightarrow> bool \<Rightarrow> 'p latest_run \<Rightarrow> 'p pass_start" where
  "begin_pass z ended due latest =
     (if ended \<and> \<not> due
      then \<lparr>ps_skip = True, ps_reopen = False, ps_resumed_from = [], ps_abandon = False, ps_from = z\<rparr>
      else if \<not> lr_found latest \<or> lr_state latest = RunSucceeded
      then \<lparr>ps_skip = False, ps_reopen = ended, ps_resumed_from = [], ps_abandon = False, ps_from = z\<rparr>
      else \<lparr>ps_skip = False, ps_reopen = ended, ps_resumed_from = lr_run_id latest,
            ps_abandon = (lr_state latest = RunRunning), ps_from = lr_progress latest\<rparr>)"

definition under_scanner ::
  "progress pass_start \<Rightarrow> progress latest_run \<Rightarrow> stamp \<Rightarrow> int64 \<Rightarrow> progress pass_start" where
  "under_scanner start latest s stale =
     (if ps_skip start then start
      else
        (let start = (if ps_reopen start \<and> ps_resumed_from start = [] \<and> lr_found latest
                         \<and> ck_ended (pg_checkpoint (lr_progress latest))
                      then start\<lparr>ps_from := \<lparr>pg_checkpoint = zero_checkpoint
                             \<lparr>ck_page := ck_page (pg_checkpoint (lr_progress latest)),
                              ck_of := ck_of (pg_checkpoint (lr_progress latest))\<rparr>,
                             pg_counters = zero_counters\<rparr>\<rparr>
                      else start);
             p = ps_from start
         in start\<lparr>ps_from := p\<lparr>pg_checkpoint := (pg_checkpoint p)\<lparr>ck_stamp := s, ck_stale := stale\<rparr>\<rparr>\<rparr>))"

definition restart_pass1 :: "progress \<Rightarrow> progress" where
  "restart_pass1 p = \<lparr>pg_checkpoint = zero_checkpoint\<lparr>ck_stamp := ck_stamp (pg_checkpoint p)\<rparr>,
     pg_counters = pg_counters p\<rparr>"

definition fetched_pass1 :: "progress \<Rightarrow> int64 \<Rightarrow> int64 \<Rightarrow> progress" where
  "fetched_pass1 p fetched stale =
     p\<lparr>pg_checkpoint := (pg_checkpoint p)\<lparr>ck_stale := stale\<rparr>,
       pg_counters := (pg_counters p)\<lparr>cn_refetched := cn_refetched (pg_counters p) + fetched\<rparr>\<rparr>"

definition div64 :: "int64 \<Rightarrow> int64 \<Rightarrow> int64" where
  "div64 a b = word_of_int (sint a sdiv sint b)"

definition pages_of :: "int64 \<Rightarrow> string \<Rightarrow> total option \<Rightarrow> int64" where
  "pages_of page next_token tot =
     (case tot of
        None \<Rightarrow> 0
      | Some t \<Rightarrow>
         if sint (t_page_limit t) \<le> 0 then 0
         else if next_token = [] then page
         else max64 (page + 1) (div64 (max64 (t_items t) 0 + t_page_limit t - 1) (t_page_limit t)))"

definition advance_pass1 :: "progress \<Rightarrow> string \<Rightarrow> total option \<Rightarrow> int64 \<Rightarrow> int64 \<Rightarrow> progress" where
  "advance_pass1 p next_token tot added remasked =
     (let page = ck_page (pg_checkpoint p) + 1; c = pg_counters p
      in \<lparr>pg_checkpoint = \<lparr>ck_page = page, ck_token = next_token, ck_of = pages_of page next_token tot,
            ck_stamp = ck_stamp (pg_checkpoint p), ck_stale = 0\<rparr>,
          pg_counters = \<lparr>cn_pages = cn_pages c + 1, cn_messages = cn_messages c + added,
            cn_remasked = cn_remasked c + remasked, cn_refetched = cn_refetched c\<rparr>\<rparr>)"

record stored_subject =
  ss_id :: string
  ss_subject :: string

definition zero_index_message :: index_message where
  "zero_index_message = \<lparr>im_id = [], im_thread = [], im_from = \<lparr>a_email = [], a_name = []\<rparr>, im_domain = [],
     im_subject = [], im_subject_masked = False, im_date = 0, im_labels = [],
     im_flags = \<lparr>mf_read = False, mf_starred = False\<rparr>, im_has_attachments = False, im_media = [],
     im_list = [], im_size = 0, im_auth = \<lparr>ar_spf = [], ar_dkim = [], ar_dmarc = []\<rparr>,
     im_unclassified = False, im_masks = [], im_stamp = zero_stamp\<rparr>"

definition masked_message :: "unicode \<Rightarrow> (float64 \<Rightarrow> float64) \<Rightarrow> string \<Rightarrow> string \<Rightarrow> scanner \<Rightarrow> index_message" where
  "masked_message u lg i subject s =
     (let m = mask_subject u lg s subject
      in zero_index_message\<lparr>im_id := i, im_subject := ms_subject m, im_stamp := stamp_of s,
           im_masks := ms_events m, im_subject_masked := 0 < length (ms_events m)\<rparr>)"

definition unfound :: "unicode \<Rightarrow> (float64 \<Rightarrow> float64) \<Rightarrow> stored_subject list \<Rightarrow> stamp \<Rightarrow> index_message list" where
  "unfound u lg stored st =
     map (\<lambda>m. (masked_message u lg (ss_id m) (ss_subject m) zero_scanner)\<lparr>im_stamp := st\<rparr>) stored"

definition remasked_stored :: "unicode \<Rightarrow> (float64 \<Rightarrow> float64) \<Rightarrow> stored_subject list \<Rightarrow> scanner \<Rightarrow> index_message list" where
  "remasked_stored u lg stored s = map (\<lambda>m. masked_message u lg (ss_id m) (ss_subject m) s) stored"

text \<open>The map of the metadata returned, the last of an identifier given twice.\<close>

definition returned_subjects :: "message_metadata list \<Rightarrow> string \<rightharpoonup> string" where
  "returned_subjects got = foldl (\<lambda>r m. r(mm_id m \<mapsto> mm_subject m)) Map.empty got"

definition refetch :: "unicode \<Rightarrow> (float64 \<Rightarrow> float64) \<Rightarrow> stored_subject list \<Rightarrow> message_metadata list \<Rightarrow> scanner \<Rightarrow>
    index_message list \<times> index_message list" where
  "refetch u lg stored got s =
     (let returned = returned_subjects got;
          (remasked, left) = foldl (\<lambda>(r, l) m. case returned (ss_id m) of
              None \<Rightarrow> (r, l @ [m])
            | Some subject \<Rightarrow> (r @ [masked_message u lg (ss_id m) subject s], l)) ([], []) stored
      in (remasked, unfound u lg left (stamp_of s)))"

definition max_attempts :: int64 where "max_attempts = 5"

record attempt1 =
  at_class :: error_class
  at_attempts :: int64
  at_resumed_token :: bool
  at_restarted :: bool

datatype next1 = Abandon1 | Backoff1 | Retry1 | StartOver1 | FailRun1

definition on_failure1 :: "attempt1 \<Rightarrow> next1" where
  "on_failure1 f =
     (if at_class f = NotProvider then FailRun1
      else if at_class f = Validation \<and> at_resumed_token f \<and> \<not> at_restarted f then StartOver1
      else if at_class f = Throttled \<and> sint (at_attempts f) < sint max_attempts then Backoff1
      else if at_class f = ProviderError \<and> sint (at_attempts f) < sint max_attempts then Retry1
      else Abandon1)"

subsection \<open>The second pass\<close>

record walk_position =
  wp_sent_at :: int64
  wp_id :: string

record checkpoint2 =
  ck2_page :: int64
  ck2_after :: walk_position

record counters2 =
  c2_pages :: int64
  c2_decided :: int64
  c2_scanned :: int64
  c2_skipped :: int64
  c2_refused :: int64
  c2_pending :: int64

record progress2 =
  p2_checkpoint :: checkpoint2
  p2_counters :: counters2

definition zero_checkpoint2 :: checkpoint2 where
  "zero_checkpoint2 = \<lparr>ck2_page = 0, ck2_after = \<lparr>wp_sent_at = 0, wp_id = []\<rparr>\<rparr>"
definition zero_progress2 :: progress2 where
  "zero_progress2 = \<lparr>p2_checkpoint = zero_checkpoint2, p2_counters = \<lparr>c2_pages = 0, c2_decided = 0,
     c2_scanned = 0, c2_skipped = 0, c2_refused = 0, c2_pending = 0\<rparr>\<rparr>"

definition begin_pass2 :: "bool \<Rightarrow> bool \<Rightarrow> progress2 latest_run \<Rightarrow> progress2 pass_start" where
  "begin_pass2 first_ended ended latest =
     (if \<not> first_ended
      then \<lparr>ps_skip = True, ps_reopen = False, ps_resumed_from = [], ps_abandon = False, ps_from = zero_progress2\<rparr>
      else begin_pass zero_progress2 ended False latest)"

definition restart_pass2 :: "progress2 \<Rightarrow> progress2" where
  "restart_pass2 p = \<lparr>p2_checkpoint = zero_checkpoint2, p2_counters = p2_counters p\<rparr>"

definition start_over2 :: "progress2 pass_start \<Rightarrow> bool \<Rightarrow> progress2 pass_start \<times> bool" where
  "start_over2 start marked =
     (if ps_skip start \<or> \<not> marked \<or> ps_resumed_from start = [] then (start, False)
      else (start\<lparr>ps_from := restart_pass2 (ps_from start)\<rparr>, True))"

definition overturned :: "unicode \<Rightarrow> policy \<Rightarrow> gate_config \<Rightarrow> unix_milli \<Rightarrow> waiting list \<Rightarrow> string list" where
  "overturned u p c now skips = map wt_id (filter (\<lambda>m. index_gate u p c now m 0 \<noteq> HighVolumeNoHits) skips)"

record attempt2 =
  at2_class :: error_class
  at2_attempts :: int64

datatype next2 = Stop2 | Backoff2 | Retry2 | Gone2 | Abandon2 | FailRun2 | Refuse2

definition on_failure2 :: "attempt2 \<Rightarrow> next2" where
  "on_failure2 f =
     (if at2_class f = NotProvider then FailRun2
      else if at2_class f = RefusedClass then Refuse2
      else if at2_class f = Throttled \<and> sint (at2_attempts f) < sint max_attempts then Backoff2
      else if at2_class f = ProviderError \<and> sint (at2_attempts f) < sint max_attempts then Retry2
      else if at2_class f = ProviderError \<or> at2_class f = Validation then Abandon2
      else if at2_class f = Gone then Gone2
      else Stop2)"

record page2 =
  pa_outcomes :: "outcome_row list"
  pa_last :: walk_position

definition count_outcome :: "counters2 \<Rightarrow> outcome_row \<Rightarrow> counters2" where
  "count_outcome c r =
     (let c = (if gate_decided (or_verdict r) then c\<lparr>c2_decided := c2_decided c + 1\<rparr> else c)
      in if or_scanned r \<noteq> None then c\<lparr>c2_scanned := c2_scanned c + 1\<rparr>
         else if or_refused r then c\<lparr>c2_refused := c2_refused c + 1\<rparr>
         else if gate_decided (or_verdict r) \<and> \<not> gate_scans (or_verdict r)
         then c\<lparr>c2_skipped := c2_skipped c + 1\<rparr>
         else c\<lparr>c2_pending := c2_pending c + 1\<rparr>)"

definition advance_pass2 :: "progress2 \<Rightarrow> page2 \<Rightarrow> progress2" where
  "advance_pass2 p page =
     (let c = p2_counters p
      in \<lparr>p2_checkpoint = \<lparr>ck2_page = ck2_page (p2_checkpoint p) + 1, ck2_after = pa_last page\<rparr>,
          p2_counters = foldl count_outcome (c\<lparr>c2_pages := c2_pages c + 1\<rparr>) (pa_outcomes page)\<rparr>)"

end
