(* ===== verification/BackfillFacts.thy ===== *)
theory BackfillFacts
  imports Backfill
begin

text \<open>
  What backfill's decisions guarantee: no work lost or done twice across runs, a
  refetch that accounts for every stored subject, an estimate past the page reached, and counters that
  account for every message of a page.
\<close>

lemma max_attempts_value [simp]: "sint max_attempts = 5"
  by (simp add: max_attempts_def)

subsection \<open>Starting a run\<close>

text \<open>
  A run of the first pass starts where the index stands: it does nothing exactly when the pass has
  ended and is not due; otherwise it runs under the scanner in force with the stale subjects to fetch,
  and it continues a stopped run's page, token, estimate and counters exactly, and after an enumeration
  that ended it starts from that enumeration's end with fresh counters, so it enumerates nothing again.
\<close>

lemma first_pass_starts_where_it_stands:
  assumes "lr_run_id latest \<noteq> []"
  shows "let st = under_scanner (begin_pass zero_progress ended due latest) latest s stale;
       ck = pg_checkpoint (ps_from st); old = pg_checkpoint (lr_progress latest) in
     (ps_skip st \<longleftrightarrow> ended \<and> \<not> due) \<and>
     (if ps_skip st then True
      else ck_stamp ck = s \<and> ck_stale ck = stale \<and> ps_reopen st = ended \<and>
        (if lr_found latest \<and> lr_state latest \<noteq> RunSucceeded
         then ck_page ck = ck_page old \<and> ck_token ck = ck_token old \<and> ck_of ck = ck_of old \<and>
              pg_counters (ps_from st) = pg_counters (lr_progress latest) \<and>
              ps_resumed_from st = lr_run_id latest \<and> ps_abandon st = (lr_state latest = RunRunning)
         else pg_counters (ps_from st) = zero_counters \<and>
              (ck_ended ck \<longleftrightarrow> ended \<and> lr_found latest \<and> ck_ended old) \<and>
              (if ck_ended ck then ck_page ck = ck_page old else ck_page ck = 0 \<and> ck_token ck = [])))"
  using assms
  by (auto simp: begin_pass_def under_scanner_def Let_def zero_progress_def zero_checkpoint_def ck_ended_def)

subsection \<open>The estimate\<close>

text \<open>
  The estimate of an enumeration's pages is never behind it: without a total the provider counted
  it is zero, at the last page it is the page reached, and before it, more than the page reached,
  unless the page count is at the 64-bit limit.
\<close>

lemma estimate_is_past_the_page:
  assumes "sint (ck_page (pg_checkpoint p)) < max_int64 - 1"
  shows "let ck = pg_checkpoint (advance_pass1 p token tot added remasked) in
     sint (ck_page ck) = sint (ck_page (pg_checkpoint p)) + 1 \<and>
     (if tot = None \<or> sint (t_page_limit (the tot)) \<le> 0 then ck_of ck = 0
      else if token = [] then ck_of ck = ck_page ck
      else sint (ck_page ck) < sint (ck_of ck)) \<and>
     (ck_ended ck \<longleftrightarrow> token = [] \<and> 0 \<le> sint (ck_page (pg_checkpoint p))) \<and>
     ck_stamp ck = ck_stamp (pg_checkpoint p) \<and> ck_stale ck = 0"
proof -
  let ?q = "ck_page (pg_checkpoint p)"
  have one: "sint (?q + 1) = sint ?q + 1"
    using assms sint_range64 [of ?q] sint_of_int64 [of "sint ?q + 1"] by (simp add: min_int64_def max_int64_def)
  then have two: "sint (?q + 1 + 1) = sint ?q + 2"
    using assms sint_range64 [of ?q] sint_of_int64 [of "sint ?q + 2"]
    by (simp add: min_int64_def max_int64_def add.assoc)
  show ?thesis
    using one two
    by (auto simp: advance_pass1_def pages_of_def Let_def ck_ended_def split: option.splits)
qed

subsection \<open>Refetching stale subjects\<close>

lemma refetch_fold:
  "foldl (\<lambda>(r, l) m. case f (ss_id m) of None \<Rightarrow> (r, l @ [m])
       | Some subject \<Rightarrow> (r @ [g (ss_id m) subject], l)) (r0, l0) stored =
   (r0 @ map (\<lambda>m. g (ss_id m) (the (f (ss_id m)))) (filter (\<lambda>m. f (ss_id m) \<noteq> None) stored),
    l0 @ filter (\<lambda>m. f (ss_id m) = None) stored)"
  by (induction stored arbitrary: r0 l0) (auto split: option.split)

lemma returned_subjects_dom: "dom (returned_subjects got) = mm_id ` set got"
proof -
  have "dom (foldl (\<lambda>r m. r(mm_id m \<mapsto> mm_subject m)) r0 got) = dom r0 \<union> mm_id ` set got" for r0
    by (induction got arbitrary: r0) auto
  then show ?thesis by (simp add: returned_subjects_def)
qed

lemma returned_subject_of: "returned_subjects got i = Some x \<Longrightarrow> \<exists>m \<in> set got. mm_id m = i \<and> mm_subject m = x"
proof -
  have "foldl (\<lambda>r m. r(mm_id m \<mapsto> mm_subject m)) r0 got i = Some x \<Longrightarrow>
      r0 i = Some x \<or> (\<exists>m \<in> set got. mm_id m = i \<and> mm_subject m = x)" for r0
    by (induction got arbitrary: r0) (fastforce split: if_splits)+
  from this [of Map.empty] show "returned_subjects got i = Some x \<Longrightarrow> ?thesis"
    by (simp add: returned_subjects_def)
qed

lemma masked_message_fields [simp]:
  "im_id (masked_message u lg i subject s) = i"
  "im_subject (masked_message u lg i subject s) = ms_subject (mask_subject u lg s subject)"
  "im_stamp (masked_message u lg i subject s) = stamp_of s"
  by (simp_all add: masked_message_def Let_def)

text \<open>
  A refetch accounts for every stored subject it asked for, once each and in order: the messages
  the provider returned are masked again from the subject it returned, the ones it left out are masked
  whole from the stored subject, one mark a character, both under the scanner's stamp, and metadata for
  a message not asked for changes nothing.
\<close>

lemma refetch_accounts_for_all:
  "let (again, gone) = refetch u lg stored got s;
       held = (\<lambda>m. ss_id m \<in> mm_id ` set got) in
     map im_id again = map ss_id (filter held stored) \<and>
     map im_id gone = map ss_id (filter (\<lambda>m. \<not> held m) stored) \<and>
     list_all (\<lambda>r. im_stamp r = stamp_of s) (again @ gone) \<and>
     map im_subject gone =
       map (\<lambda>m. concat (replicate (length (runes (ss_subject m))) mask_rune)) (filter (\<lambda>m. \<not> held m) stored) \<and>
     list_all (\<lambda>r. list_ex (\<lambda>m. mm_id m = im_id r \<and>
         im_subject r = ms_subject (mask_subject u lg s (mm_subject m))) got) again"
proof -
  have held: "returned_subjects got (ss_id m) \<noteq> None \<longleftrightarrow> ss_id m \<in> mm_id ` set got" for m
    using returned_subjects_dom [of got] by (auto simp: domIff [symmetric])
  have whole: "ms_subject (mask_subject u lg zero_scanner x) = concat (replicate (length (runes x)) mask_rune)" for x
    by (simp add: mask_subject_def subject_spans_def zero_scanner_def)
  let ?held = "\<lambda>m. ss_id m \<in> mm_id ` set got"
  have fh: "filter (\<lambda>m. returned_subjects got (ss_id m) \<noteq> None) stored = filter ?held stored"
    "filter (\<lambda>m. returned_subjects got (ss_id m) = None) stored = filter (\<lambda>m. \<not> ?held m) stored"
    by (rule filter_cong [OF refl], use held in blast)+
  have split: "refetch u lg stored got s =
      (map (\<lambda>m. masked_message u lg (ss_id m) (the (returned_subjects got (ss_id m))) s) (filter ?held stored),
       unfound u lg (filter (\<lambda>m. \<not> ?held m) stored) (stamp_of s))"
    using refetch_fold [where f = "returned_subjects got" and g = "\<lambda>i x. masked_message u lg i x s" and
        ?r0.0 = "[]" and ?l0.0 = "[]" and stored = stored] fh
    by (simp add: refetch_def Let_def del: not_None_eq)
  have source: "list_ex (\<lambda>m'. mm_id m' = ss_id m \<and>
      ms_subject (mask_subject u lg s (the (returned_subjects got (ss_id m)))) =
      ms_subject (mask_subject u lg s (mm_subject m'))) got" if h: "?held m" for m
  proof -
    obtain x where x: "returned_subjects got (ss_id m) = Some x" using held [of m] h by auto
    then show ?thesis using returned_subject_of [OF x] by (auto simp: list_ex_iff)
  qed
  show ?thesis
    unfolding split Let_def prod.case
    using source by (auto simp: unfound_def comp_def whole list_all_iff)
qed

subsection \<open>The second pass\<close>

lemma count_outcome_adds:
  "c2_scanned (foldl count_outcome c os) + c2_refused (foldl count_outcome c os)
     + c2_skipped (foldl count_outcome c os) + c2_pending (foldl count_outcome c os)
   = c2_scanned c + c2_refused c + c2_skipped c + c2_pending c + of_nat (length os)"
  "c2_decided (foldl count_outcome c os) = c2_decided c + of_nat (length (filter (\<lambda>r. gate_decided (or_verdict r)) os))"
  "c2_scanned (foldl count_outcome c os) = c2_scanned c + of_nat (length (filter (\<lambda>r. or_scanned r \<noteq> None) os))"
  "c2_pages (foldl count_outcome c os) = c2_pages c"
  by (induction os arbitrary: c) (simp_all add: count_outcome_def Let_def)

text \<open>
  A page of the second pass is accounted for message by message: the scanned, refused, skipped and
  pending counters together grow by exactly the number of its messages, the scanned one by those whose
  scan was recorded and the decided one by those the gate decided; one page is counted, and the
  checkpoint moves one page on, to the page's last message.
\<close>

lemma second_pass_counts_every_message:
  "let c = p2_counters p; q = advance_pass2 p page; d = p2_counters q; os = pa_outcomes page in
     (c2_scanned d + c2_refused d + c2_skipped d + c2_pending d)
       - (c2_scanned c + c2_refused c + c2_skipped c + c2_pending c) = of_nat (length os) \<and>
     c2_scanned d = c2_scanned c + of_nat (length (filter (\<lambda>r. or_scanned r \<noteq> None) os)) \<and>
     c2_decided d = c2_decided c + of_nat (length (filter (\<lambda>r. gate_decided (or_verdict r)) os)) \<and>
     c2_pages d = c2_pages c + 1 \<and>
     ck2_page (p2_checkpoint q) = ck2_page (p2_checkpoint p) + 1 \<and> ck2_after (p2_checkpoint q) = pa_last page"
proof -
  let ?c = "(p2_counters p)\<lparr>c2_pages := c2_pages (p2_counters p) + 1\<rparr>"
  let ?d = "foldl count_outcome ?c (pa_outcomes page)"
  have d: "p2_counters (advance_pass2 p page) = ?d" by (simp add: advance_pass2_def Let_def)
  have "(c2_scanned ?d + c2_refused ?d + c2_skipped ?d + c2_pending ?d) -
      (c2_scanned ?c + c2_refused ?c + c2_skipped ?c + c2_pending ?c) = of_nat (length (pa_outcomes page))"
    unfolding count_outcome_adds(1) by simp
  then show ?thesis
    unfolding Let_def d by (simp add: count_outcome_adds(2-4)) (simp add: advance_pass2_def Let_def)
qed

lemma index_gate_high_volume:
  "index_gate u (prepare u c l) cfg now m h = HighVolumeNoHits \<longleftrightarrow>
     \<not> restricts u l c (wt_from m) \<and> gate_config_valid cfg \<and> wt_hits m + h = 0 \<and> wt_list_id m \<and>
     \<not> wt_subject_masked m \<and> sint (gc_high_volume cfg) < sint (wt_volume m)"
  by (auto simp: index_gate_def scan_gate_high_volume bulk_without_hits_def classify_restricts)

text \<open>
  A stored gate skip stands only while every reason for it holds: it is returned to pending as soon
  as the policy in force restricts its sender, the thresholds decide nothing, the sender has a hit, or
  the sender is no longer above the high-volume mark, and in the order read.
\<close>

lemma skips_stand_only_while_decided:
  "overturned u (prepare u c l) cfg now skips =
     map wt_id (filter (\<lambda>m. if restricts u l c (wt_from m) then True
        else \<not> (gate_config_valid cfg \<and> wt_hits m = 0 \<and> wt_list_id m \<and> \<not> wt_subject_masked m \<and>
                sint (gc_high_volume cfg) < sint (wt_volume m))) skips)"
  unfolding overturned_def
  by (rule arg_cong [where f = "map wt_id"], rule filter_cong) (auto simp: index_gate_high_volume)

end
