(* ===== verification/DeltaSync.thy ===== *)
theory DeltaSync
  imports IndexCore
begin

text \<open>
  \<open>worker/internal/core/deltasync\<close>: when a tick is due, and the decisions of a tick: the window a gap's
  recovery lists, which stored messages it removes, which messages' metadata a change set asks for, and
  what a failed body fetch does.
\<close>

subsection \<open>What is due\<close>

definition tick_due :: "bool \<Rightarrow> unix_milli \<Rightarrow> unix_milli \<Rightarrow> int64 \<Rightarrow> bool" where
  "tick_due ticked last_tick asked_at interval_millis \<longleftrightarrow>
     \<not> ticked \<or> sint interval_millis \<le> sint (asked_at - last_tick)"

definition sync_seed :: "unix_milli \<Rightarrow> unix_milli \<Rightarrow> unix_milli" where
  "sync_seed latest_success earliest_start = (if latest_success \<noteq> 0 then latest_success else earliest_start)"

subsection \<open>One tick\<close>

definition gap_overlap :: unix_milli where "gap_overlap = 60 * 60 * 1000"

definition gap_window :: "unix_milli option \<Rightarrow> unix_milli \<Rightarrow> unix_milli \<Rightarrow> unix_milli \<times> unix_milli" where
  "gap_window cursor_at now first =
     (case cursor_at of Some c \<Rightarrow> (c - gap_overlap, now) | None \<Rightarrow> (now - first, now))"

definition unlisted_messages :: "string list \<Rightarrow> string set \<Rightarrow> string list" where
  "unlisted_messages stored listed = filter (\<lambda>i. i \<notin> listed) stored"

definition gone_messages :: "string list \<Rightarrow> message_metadata list \<Rightarrow> string list" where
  "gone_messages asked held =
     (let returned = foldl (\<lambda>r m. insert (mm_id m) r) {} held in filter (\<lambda>i. i \<notin> returned) asked)"

definition fetched_messages :: "change_set \<Rightarrow> string list" where
  "fetched_messages cs = first_seen {} (cs_added cs @ cs_modified cs)"

datatype tick_next = FailTick | LeaveWaiting | StopScanning | RefuseBody

fun on_body_failure :: "error_class \<Rightarrow> tick_next" where
  "on_body_failure RefusedClass = RefuseBody"
| "on_body_failure Throttled = StopScanning"
| "on_body_failure Authentication = StopScanning"
| "on_body_failure ProviderError = LeaveWaiting"
| "on_body_failure Gone = LeaveWaiting"
| "on_body_failure Validation = LeaveWaiting"
| "on_body_failure NotProvider = FailTick"

definition disposition :: "error_class \<Rightarrow> string" where
  "disposition c = (if c = Gone then ''gone'' else if c = RefusedClass then ''refused'' else ''abandoned'')"

subsection \<open>Facts\<close>

lemma set_gone_messages: "set (gone_messages asked held) = set asked - mm_id ` set held"
proof -
  have "foldl (\<lambda>r m. insert (mm_id m) r) r0 held = r0 \<union> mm_id ` set held" for r0
    by (induction held arbitrary: r0) auto
  then show ?thesis by (auto simp: gone_messages_def)
qed

text \<open>
  A gap's window never starts after the cursor's write and always ends now, an hour before that
  write when it is known, unless the subtraction leaves the 64-bit range; a tick the scheduler asks for
  one interval after the last is due; and the class of a failed body fetch decides what is recorded: a
  tick fails only on a failure that is not the provider's, a body is recorded as refused only when the
  port refused it, and scanning stops only when the provider refuses the tick rather than the message.
\<close>

lemma tick_windows_and_failures:
  assumes "min_int64 + 3600000 \<le> sint c" "min_int64 \<le> sint last_tick + sint interval"
    "sint last_tick + sint interval \<le> max_int64"
  shows "gap_window (Some c) now first = (c - gap_overlap, now) \<and> sint (c - gap_overlap) = sint c - 3600000 \<and>
     tick_due ticked last_tick (last_tick + interval) interval \<and>
     (on_body_failure cls = FailTick \<longleftrightarrow> cls = NotProvider) \<and>
     (on_body_failure cls = RefuseBody \<longleftrightarrow> disposition cls = ''refused'') \<and>
     (on_body_failure cls = StopScanning \<longleftrightarrow> cls = Throttled \<or> cls = Authentication) \<and>
     (disposition cls = ''gone'' \<longleftrightarrow> cls = Gone)"
proof -
  have "sint (c - gap_overlap) = sint c - 3600000"
    using sint_of_int64 [of "sint c - 3600000"] assms(1) sint_range64 [of c]
    by (simp add: gap_overlap_def min_int64_def)
  then show ?thesis
    by (cases cls) (auto simp: gap_window_def tick_due_def disposition_def)
qed

end
