(* ===== verification/Utf8.thy ===== *)
theory Utf8
  imports GoText
begin

text \<open>
  How a string falls into the chunks its runes are decoded from: where two strings may be joined or one
  cut without changing the runes of either side.
\<close>

text \<open>\<open>utf8.RuneLen\<close> for a rune that encodes.\<close>

definition rune_len :: "nat \<Rightarrow> nat" where
  "rune_len r = (if r < 128 then 1 else if r < 2048 then 2 else if r < 65536 then 3 else 4)"

subsection \<open>What a decoded rune reads\<close>

lemma decode2_reads:
  "snd (decode2 b t) = 2 \<and> cont_byte (byte (t ! 0)) \<and> t \<noteq> [] \<or> decode2 b t = (rune_error, 1)"
  by (cases "(b, t)" rule: decode2.cases) auto

lemma decode3_reads:
  "snd (decode3 b t) = 3 \<and> 2 \<le> length t \<and> cont_byte (byte (t ! 0)) \<and> cont_byte (byte (t ! 1)) \<or>
   decode3 b t = (rune_error, 1)"
  by (cases "(b, t)" rule: decode3.cases) (auto simp: cont_byte_def split: if_splits)

lemma decode4_reads:
  "snd (decode4 b t) = 4 \<and> 3 \<le> length t \<and> cont_byte (byte (t ! 0)) \<and> cont_byte (byte (t ! 1)) \<and>
     cont_byte (byte (t ! 2)) \<or>
   decode4 b t = (rune_error, 1)"
  by (cases "(b, t)" rule: decode4.cases) (auto simp: cont_byte_def split: if_splits)

lemma decode_conts:
  assumes "0 < k" "k < snd (decode_rune s)"
  shows "cont_byte (byte (s ! k))"
proof (cases s)
  case (Cons c t)
  have k: "k = 1 \<or> k = 2 \<or> k = 3 \<or> 4 \<le> k" using assms(1) by linarith
  show ?thesis
    using assms k decode2_reads [of "byte c" t] decode3_reads [of "byte c" t] decode4_reads [of "byte c" t]
    by (auto simp: Cons decode_rune_def Let_def split: if_splits)
qed (use assms in simp)

lemma decode2_take:
  "snd (decode2 b t) \<le> Suc m \<Longrightarrow> decode2 b (take m t) = decode2 b t"
  by (cases "(b, t)" rule: decode2.cases; cases m) (auto split: if_splits)

lemma decode3_take:
  "snd (decode3 b t) \<le> Suc m \<Longrightarrow> decode3 b (take m t) = decode3 b t"
  by (cases "(b, t)" rule: decode3.cases; cases m; cases "m - 1") (auto split: if_splits)

lemma decode4_take:
  "snd (decode4 b t) \<le> Suc m \<Longrightarrow> decode4 b (take m t) = decode4 b t"
  by (cases "(b, t)" rule: decode4.cases; cases m; cases "m - 1"; cases "m - 2") (auto split: if_splits)

lemma decode_take:
  assumes "snd (decode_rune s) \<le> n"
  shows "decode_rune (take n s) = decode_rune s"
proof (cases s)
  case (Cons c t)
  then have "0 < n" using assms decode_rune_width [of s] by simp
  then obtain m where "n = Suc m" by (cases n) auto
  then show ?thesis
    using assms decode2_take [of "byte c" t m] decode3_take [of "byte c" t m] decode4_take [of "byte c" t m]
    by (auto simp: Cons decode_rune_def Let_def)
qed simp

lemma decode2_len:
  assumes "194 \<le> b" "b \<le> 223" "fst (decode2 b t) \<noteq> rune_error"
  shows "rune_len (fst (decode2 b t)) = snd (decode2 b t)"
proof (cases t)
  case (Cons c u)
  have "2 * 64 \<le> (b - 192) * 64" "(b - 192) * 64 \<le> 31 * 64" using assms(1,2) by (auto intro: mult_le_mono1)
  then show ?thesis using assms(3) by (auto simp: Cons rune_len_def cont_byte_def split: if_splits)
qed (use assms in simp)

lemma decode3_len:
  assumes "224 \<le> b" "b \<le> 239" "fst (decode3 b t) \<noteq> rune_error"
  shows "rune_len (fst (decode3 b t)) = snd (decode3 b t)"
  using assms by (cases "(b, t)" rule: decode3.cases) (auto simp: rune_len_def cont_byte_def split: if_splits)

lemma decode4_len:
  assumes "240 \<le> b" "b \<le> 244" "fst (decode4 b t) \<noteq> rune_error"
  shows "rune_len (fst (decode4 b t)) = snd (decode4 b t)"
  using assms by (cases "(b, t)" rule: decode4.cases) (auto simp: rune_len_def cont_byte_def split: if_splits)

lemma decode_letter_width:
  assumes "fst (decode_rune s) \<noteq> rune_error"
  shows "rune_len (fst (decode_rune s)) = snd (decode_rune s)"
proof (cases s)
  case (Cons c t)
  then show ?thesis
    using assms decode2_len [of "byte c" t] decode3_len [of "byte c" t] decode4_len [of "byte c" t]
    by (auto simp: decode_rune_def Let_def rune_len_def split: if_splits)
qed (use assms in simp)

subsection \<open>Where a rune starts\<close>

lemma range_from_shift: "range_from i s = map (\<lambda>(j, x). (i + j, x)) (range_from 0 s)"
proof (induction s arbitrary: i rule: measure_induct_rule [where f = length])
  case (less s)
  show ?case
  proof (cases "s = []")
    case False
    obtain r w where d: "decode_rune s = (r, w)" by (cases "decode_rune s")
    with decode_rune_width [OF False] have "0 < w" "w \<le> length s" by simp_all
    then have "length (drop w s) < length s" by (auto simp: diff_less)
    from less.IH [OF this] have e: "\<And>k. range_from k (drop w s) = map (\<lambda>(j, x). (k + j, x)) (range_from 0 (drop w s))" .
    have "range_from i s = (i, r, w) # range_from (i + w) (drop w s)"
      and "range_from 0 s = (0, r, w) # range_from w (drop w s)"
      using False by (simp_all add: range_from.simps [of _ s] d)
    then show ?thesis by (simp add: e [of "i + w"] e [of w] case_prod_beta)
  qed (simp add: range_from.simps)
qed

lemma runes_Nil [simp]: "runes [] = []"
  by (simp add: runes_def range_string_def range_from.simps)

lemma runes_step:
  assumes "s \<noteq> []"
  shows "runes s = fst (decode_rune s) # runes (drop (snd (decode_rune s)) s)"
proof -
  obtain r w where d: "decode_rune s = (r, w)" by (cases "decode_rune s")
  have "range_from 0 s = (0, r, w) # range_from w (drop w s)"
    using assms by (simp add: range_from.simps [of _ s] d)
  then show ?thesis
    by (simp add: runes_def range_string_def d range_from_shift [of w] case_prod_beta comp_def)
qed

function boundary :: "string \<Rightarrow> nat \<Rightarrow> bool" where
  "boundary s i =
     (if i = 0 then True
      else if s = [] \<or> i < snd (decode_rune s) then False
      else boundary (drop (snd (decode_rune s)) s) (i - snd (decode_rune s)))"
  by pat_completeness auto
termination
proof (relation "measure (\<lambda>(s, i). length s)", goal_cases)
  case (2 s i)
  then show ?case using decode_rune_width [of s] by auto
qed simp

declare boundary.simps [simp del]

lemma boundary_0 [simp, intro]: "boundary s 0"
  by (subst boundary.simps) simp

lemma boundary_first: "s \<noteq> [] \<Longrightarrow> boundary s (snd (decode_rune s))"
  by (subst boundary.simps) simp

lemma runes_cut:
  "boundary s i \<Longrightarrow> runes s = runes (take i s) @ runes (drop i s)"
proof (induction s i rule: boundary.induct)
  case (1 s i)
  let ?w = "snd (decode_rune s)"
  show ?case
  proof (cases "i = 0")
    case False
    then have s: "s \<noteq> []" and w: "?w \<le> i" and b: "boundary (drop ?w s) (i - ?w)"
      using "1.prems" by (simp_all add: boundary.simps [of s] split: if_splits)
    have "runes (take i s) = fst (decode_rune s) # runes (take (i - ?w) (drop ?w s))"
      using runes_step [of "take i s"] s w False by (simp add: decode_take drop_take)
    moreover have "runes (drop ?w s) = runes (take (i - ?w) (drop ?w s)) @ runes (drop i s)"
      using "1.IH" s w b False by simp
    ultimately show ?thesis using s by (simp add: runes_step [of s])
  qed simp
qed

lemma boundary_trans: "boundary s i \<Longrightarrow> boundary (drop i s) k \<Longrightarrow> boundary s (i + k)"
proof (induction s i rule: boundary.induct)
  case (1 s i)
  then show ?case
    by (cases "i = 0") (simp_all add: boundary.simps [of s] split: if_splits)
qed

lemma boundary_between:
  "boundary s i \<Longrightarrow> boundary s j \<Longrightarrow> i \<le> j \<Longrightarrow> boundary (drop i s) (j - i)"
proof (induction s i arbitrary: j rule: boundary.induct)
  case (1 s i)
  let ?w = "snd (decode_rune s)"
  show ?case
  proof (cases "i = 0")
    case False
    then have "s \<noteq> []" "?w \<le> i" "boundary (drop ?w s) (i - ?w)" "boundary (drop ?w s) (j - ?w)"
      using "1.prems" by (simp_all add: boundary.simps [of s] split: if_splits)
    moreover from this have "i - ?w \<le> j - ?w" using "1.prems" by simp
    ultimately show ?thesis using "1.IH" [of "j - ?w"] False "1.prems"(3) by simp
  qed (use 1 in simp)
qed

lemma boundary_take: "boundary s i \<Longrightarrow> i \<le> j \<Longrightarrow> boundary (take j s) i"
proof (induction s i arbitrary: j rule: boundary.induct)
  case (1 s i)
  show ?case
  proof (cases "i = 0")
    case False
    then have "s \<noteq> []" "snd (decode_rune s) \<le> i" using "1.prems" by (simp_all add: boundary.simps [of s] split: if_splits)
    then show ?thesis
      using 1 False by (simp add: boundary.simps [of s] boundary.simps [of "take j s"] decode_take drop_take)
  qed simp
qed

text \<open>Two strings may be joined where the second starts no continuation byte.\<close>

lemma decode_append:
  assumes "a \<noteq> []" "b = [] \<or> \<not> cont_byte (byte (hd b))"
  shows "decode_rune (a @ b) = decode_rune a"
proof -
  have w: "snd (decode_rune (a @ b)) \<le> length a"
  proof (rule ccontr)
    assume n: "\<not> ?thesis"
    then have "b \<noteq> []" using decode_rune_width [of "a @ b"] assms(1) by auto
    moreover have "cont_byte (byte ((a @ b) ! length a))"
      using n assms(1) by (intro decode_conts) auto
    ultimately show False using assms(2) by (simp add: nth_append hd_conv_nth)
  qed
  then have "decode_rune (take (length a) (a @ b)) = decode_rune (a @ b)" by (rule decode_take)
  then show ?thesis by simp
qed

lemma runes_append:
  "b = [] \<or> \<not> cont_byte (byte (hd b)) \<Longrightarrow> runes (a @ b) = runes a @ runes b"
proof (induction a rule: measure_induct_rule [where f = length])
  case (less a)
  show ?case
  proof (cases "a = []")
    case False
    have w: "0 < snd (decode_rune a)" "snd (decode_rune a) \<le> length a"
      using decode_rune_width [OF False] by simp_all
    have "runes (a @ b) = fst (decode_rune a) # runes (drop (snd (decode_rune a)) a @ b)"
      using runes_step [of "a @ b"] False less.prems w by (simp add: decode_append)
    also have "\<dots> = runes a @ runes b"
      using less False w by (simp add: runes_step [of a])
    finally show ?thesis .
  qed simp
qed

lemma runes_ascii_append: "ascii_only a \<Longrightarrow> runes (a @ b) = map byte a @ runes b"
  by (induction a) (simp_all add: ascii_only_def runes_step)

end
