(* ===== verification/Json.thy ===== *)
theory Json
  imports GoText
begin

text \<open>
  JSON values as \<open>encoding/json\<close> reads them, a text being taken as the value it spells: an object is its
  members in the order written, repeated keys and all, since Go's readers differ in which they keep.
\<close>

datatype json =
    JNull | JBool bool | JNumber string | JString string | JArray "json list" | JObject "(string \<times> json) list"

text \<open>
  A struct's field is set from every member whose key names it, exactly or under case folding, in the
  order written.
\<close>

definition field_values :: "unicode \<Rightarrow> string \<Rightarrow> (string \<times> json) list \<Rightarrow> json list" where
  "field_values u name ms = map snd (filter (\<lambda>m. equal_fold u (fst m) name) ms)"

definition last_field :: "unicode \<Rightarrow> string \<Rightarrow> (string \<times> json) list \<Rightarrow> json option" where
  "last_field u name ms = (let vs = field_values u name ms in if vs = [] then None else Some (last vs))"

text \<open>A Go map keeps the last of a repeated key.\<close>

definition member_map :: "(string \<times> json) list \<Rightarrow> string \<rightharpoonup> json" where
  "member_map ms = map_of (rev ms)"

lemma member_map_Nil [simp]: "member_map [] = Map.empty"
  by (simp add: member_map_def)

end
