(* ===== verification/Registry.thy ===== *)
theory Registry
  imports Json
begin

text \<open>
  \<open>api/internal/service/surface.go\<close> and \<open>registry.go\<close>: the effects an operation declares, what the
  generation checks refuse, the validated registry, and the one call both roots run every operation
  through. A handler is a parameter of the operation. The arguments of a call are the members the JSON
  decoder reads from the text before it stops, each with the value read. The facts show what no
  accepted registry holds and what a handler may rely on when it runs.
\<close>

subsection \<open>Effects\<close>

datatype effect = NoEffect | ReadEffect | StructuredRead | CreateEffect | Reversible | Disposal

record annotations =
  an_read_only :: bool
  an_destructive :: bool
  an_idempotent :: bool
  an_open_world :: bool

definition method_get :: string where "method_get = ''GET''"
definition method_post :: string where "method_post = ''POST''"

fun derive :: "effect \<Rightarrow> (string \<times> annotations) option" where
  "derive ReadEffect = Some (method_get,
     \<lparr>an_read_only = True, an_destructive = False, an_idempotent = True, an_open_world = False\<rparr>)"
| "derive StructuredRead = Some (method_post,
     \<lparr>an_read_only = True, an_destructive = False, an_idempotent = True, an_open_world = False\<rparr>)"
| "derive CreateEffect = Some (method_post,
     \<lparr>an_read_only = False, an_destructive = False, an_idempotent = False, an_open_world = False\<rparr>)"
| "derive Reversible = Some (method_post,
     \<lparr>an_read_only = False, an_destructive = False, an_idempotent = True, an_open_world = False\<rparr>)"
| "derive Disposal = Some (method_post,
     \<lparr>an_read_only = False, an_destructive = True, an_idempotent = True, an_open_world = False\<rparr>)"
| "derive NoEffect = None"

subsection \<open>Names and paths\<close>

definition accounts_path :: string where "accounts_path = ''/api/accounts''"
definition account_prefix :: string where "account_prefix = accounts_path @ ''/{account_id}/''"

text \<open>The characters of the source's regular expressions.\<close>

definition lower_byte :: "char \<Rightarrow> bool" where "lower_byte c \<longleftrightarrow> ascii_lower (byte c)"
definition word_byte :: "char \<Rightarrow> char \<Rightarrow> bool" where
  "word_byte joint c \<longleftrightarrow> lower_byte c \<or> ascii_digit (byte c) \<or> c = joint"

definition ident_shape :: "char \<Rightarrow> string \<Rightarrow> bool" where
  "ident_shape joint s \<longleftrightarrow> (case s of [] \<Rightarrow> False | c # t \<Rightarrow> lower_byte c \<and> list_all (word_byte joint) t)"

definition valid_name :: "string \<Rightarrow> bool" where
  "valid_name s \<longleftrightarrow> ident_shape CHR ''_'' s \<and> length s \<le> 64"

text \<open>\<open>literalSegment\<close>: the name and the verb, empty where there is none.\<close>

definition literal_segment :: "string \<Rightarrow> (string \<times> string) option" where
  "literal_segment seg =
     (case cut_string seg '':'' of (name, verb, colon) \<Rightarrow>
        if ident_shape CHR ''-'' name \<and> (if colon then ident_shape CHR ''-'' verb else True)
        then Some (name, verb) else None)"

definition wildcard_segment :: "string \<Rightarrow> string option" where
  "wildcard_segment seg =
     (case seg of [] \<Rightarrow> None
      | c # t \<Rightarrow> if c = CHR ''{'' \<and> t \<noteq> [] \<and> last t = CHR ''}'' \<and> ident_shape CHR ''_'' (butlast t)
                then Some (butlast t) else None)"

definition lifecycle_stems :: "string list" where
  "lifecycle_stems = [''approv'', ''appl'', ''rollback'']"

definition names_lifecycle :: "string \<Rightarrow> char \<Rightarrow> bool" where
  "names_lifecycle txt separator \<longleftrightarrow>
     index_string txt ''roll_back'' \<noteq> None \<or> index_string txt ''roll-back'' \<noteq> None \<or>
     list_ex (\<lambda>token. list_ex (has_prefix token) lifecycle_stems) (split_byte separator txt)"

definition path_segments :: "string \<Rightarrow> string list" where
  "path_segments path = split_byte CHR ''/'' (case cut_prefix path ''/'' of Some p \<Rightarrow> p | None \<Rightarrow> path)"

definition path_variables :: "string \<Rightarrow> string list" where
  "path_variables path = List.map_filter wildcard_segment (split_byte CHR ''/'' path)"

subsection \<open>Operations\<close>

record 'h operation =
  op_name :: string
  op_effect :: effect
  op_path :: string
  op_description :: string
  op_input :: "json option"   \<comment> \<open>None for bytes that are not JSON\<close>
  op_output :: "json option"
  op_handle :: "'h option"

definition object_schema :: "unicode \<Rightarrow> json option \<Rightarrow> bool" where
  "object_schema u schema = (case schema of
      Some (JObject ms) \<Rightarrow> last_field u ''type'' ms = Some (JString ''object'')
    | _ \<Rightarrow> False)"

text \<open>\<open>schemaFacts\<close>: the properties, each with the type it declares, and the required arguments.\<close>

definition property_types :: "unicode \<Rightarrow> json list \<Rightarrow> (string \<times> json option) list option" where
  "property_types u vs =
     foldl (\<lambda>acc v. case acc of None \<Rightarrow> None | Some ps \<Rightarrow>
         (case v of
            JNull \<Rightarrow> Some []
          | JObject ms \<Rightarrow>
              if list_all (\<lambda>m. case snd m of JObject _ \<Rightarrow> True | JNull \<Rightarrow> True | _ \<Rightarrow> False) ms
              then Some (ps @ map (\<lambda>m. (fst m, case snd m of JObject qs \<Rightarrow> last_field u ''type'' qs | _ \<Rightarrow> None)) ms)
              else None
          | _ \<Rightarrow> None)) (Some []) vs"

definition required_names :: "json list \<Rightarrow> string list option" where
  "required_names vs =
     foldl (\<lambda>acc v. case acc of None \<Rightarrow> None | Some _ \<Rightarrow>
         (case v of
            JNull \<Rightarrow> Some []
          | JArray xs \<Rightarrow>
              if list_all (\<lambda>x. case x of JString _ \<Rightarrow> True | JNull \<Rightarrow> True | _ \<Rightarrow> False) xs
              then Some (map (\<lambda>x. case x of JString s \<Rightarrow> s | _ \<Rightarrow> []) xs) else None
          | _ \<Rightarrow> None)) (Some []) vs"

definition schema_facts :: "unicode \<Rightarrow> json option \<Rightarrow> ((string \<times> json option) list \<times> string list) option" where
  "schema_facts u schema = (case schema of
      Some JNull \<Rightarrow> Some ([], [])
    | Some (JObject ms) \<Rightarrow>
        (case (property_types u (field_values u ''properties'' ms), required_names (field_values u ''required'' ms)) of
           (Some ps, Some rs) \<Rightarrow> Some (ps, rs) | _ \<Rightarrow> None)
    | _ \<Rightarrow> None)"

definition scalar_types :: "string list" where
  "scalar_types = [''string'', ''integer'', ''number'', ''boolean'']"

fun holds_key :: "unicode \<Rightarrow> string \<Rightarrow> json \<Rightarrow> bool"
  and holds_key_in :: "unicode \<Rightarrow> string \<Rightarrow> (string \<times> json) list \<Rightarrow> bool"
  and holds_key_any :: "unicode \<Rightarrow> string \<Rightarrow> json list \<Rightarrow> bool" where
  "holds_key u k (JObject ms) = holds_key_in u k ms"
| "holds_key u k (JArray vs) = holds_key_any u k vs"
| "holds_key u k _ = False"
| "holds_key_in u k [] = False"
| "holds_key_in u k ((m, v) # ms) =
     (equal_fold u m k \<or> (m \<notin> fst ` set ms \<and> holds_key u k v) \<or> holds_key_in u k ms)"
| "holds_key_any u k [] = False"
| "holds_key_any u k (v # vs) = (holds_key u k v \<or> holds_key_any u k vs)"

definition schema_holds_key :: "unicode \<Rightarrow> string \<Rightarrow> json option \<Rightarrow> bool" where
  "schema_holds_key u k doc = (case doc of None \<Rightarrow> False | Some v \<Rightarrow> holds_key u k v)"

subsection \<open>The generation checks\<close>

definition shape_problem :: "effect \<Rightarrow> string \<Rightarrow> string" where
  "shape_problem e lst =
     (let verb = (case literal_segment lst of Some (_, v) \<Rightarrow> v | None \<Rightarrow> [])
      in case e of
          StructuredRead \<Rightarrow> if verb \<noteq> ''search''
            then ''is a structured read whose path does not end in a :search route'' else []
        | Reversible \<Rightarrow> if verb = [] \<or> verb = ''search''
            then ''is a change whose path does not end in a :verb route other than :search'' else []
        | Disposal \<Rightarrow> if verb = [] \<or> verb = ''search''
            then ''is a change whose path does not end in a :verb route other than :search'' else []
        | ReadEffect \<Rightarrow> if verb \<noteq> []
            then ''is a read or a create whose path ends in a :verb route'' else []
        | CreateEffect \<Rightarrow> if verb \<noteq> []
            then ''is a read or a create whose path ends in a :verb route'' else []
        | NoEffect \<Rightarrow> [])"

text \<open>The loop over the path's segments, with the variables seen and how many segments follow.\<close>

fun segment_problems :: "string set \<Rightarrow> string list \<Rightarrow> string list" where
  "segment_problems seen [] = []"
| "segment_problems seen (seg # segs) =
     (case wildcard_segment seg of
        Some v \<Rightarrow> (if v \<in> seen then [''names the path variable '' @ v @ '' twice''] else []) @
                  segment_problems (insert v seen) segs
      | None \<Rightarrow> (case literal_segment seg of
          None \<Rightarrow> [''has the path segment '' @ seg @ '', which is neither a name, a name with a :verb nor a {variable}'']
        | Some (name, verb) \<Rightarrow>
            (if names_lifecycle name CHR ''-'' \<or> names_lifecycle verb CHR ''-''
             then [''has the path segment '' @ seg @ '', which names a plan's lifecycle''] else []) @
            (if verb \<noteq> [] \<and> segs \<noteq> [] then [''has the :verb segment '' @ seg @ '' before the path's end''] else [])) @
          segment_problems seen segs)"

definition surface_problems :: "unicode \<Rightarrow> 'h operation \<Rightarrow> string list" where
  "surface_problems u op =
     (let derived = (if derive (op_effect op) = None
                     then [''declares no effect the derivation table has a row for''] else [])
      in case schema_facts u (op_input op) of
           None \<Rightarrow> derived @ [''has an input schema whose properties cannot be read'']
         | Some (properties, required) \<Rightarrow>
            (let listing = (op_path op = accounts_path);
                 segments = path_segments (op_path op);
                 shape = shape_problem (op_effect op) (last segments);
                 types = map_of (rev properties)
             in derived @
               (if listing \<and> op_effect op \<noteq> ReadEffect
                then [''takes the accounts listing's path without being a read'']
                else if \<not> listing \<and> \<not> has_prefix (op_path op) account_prefix
                then [''has a path not under '' @ account_prefix @ '', so it names no account in its path'']
                else []) @
               segment_problems {} segments @
               (if names_lifecycle (op_name op) CHR ''_''
                then [''has the name '' @ op_name op @ '', which names a plan's lifecycle''] else []) @
               (if shape \<noteq> [] then [shape] else []) @
               concat (map (\<lambda>v. if types v \<noteq> Some (Some (JString ''string'')) \<or> v \<notin> set required
                  then [''has the path variable '' @ v @ '', which is not a required string argument''] else [])
                 (path_variables (op_path op))) @
               (if op_effect op = ReadEffect
                then concat (map (\<lambda>(name, _). case types name of
                    Some (Some (JString t)) \<Rightarrow>
                      if t \<in> set scalar_types then [] else [''is a GET whose argument '' @ name @ '' is not a scalar'']
                  | _ \<Rightarrow> [''is a GET whose argument '' @ name @ '' is not a scalar'']) properties)
                else []) @
               (if op_effect op \<noteq> ReadEffect \<and> op_effect op \<noteq> StructuredRead \<and> schema_holds_key u ''status'' (op_input op)
                then [''changes the mailbox and declares a property named status in its input''] else []) @
               (if schema_holds_key u ''x-mcp-header'' (op_input op) \<or> schema_holds_key u ''x-mcp-header'' (op_output op)
                then [''has a schema carrying x-mcp-header''] else [])))"

subsection \<open>The registry\<close>

record 'h registry =
  rg_ops :: "'h operation list"
  rg_known :: "string set option"

definition zero_registry :: "'h registry" where
  "zero_registry = \<lparr>rg_ops = [], rg_known = None\<rparr>"

definition route_of :: "'h operation \<Rightarrow> string option" where
  "route_of op = map_option (\<lambda>(method, _). method @ '' '' @ op_path op) (derive (op_effect op))"

definition operation_problems :: "unicode \<Rightarrow> string set \<Rightarrow> string set \<Rightarrow> 'h operation \<Rightarrow> string list" where
  "operation_problems u seen routes op =
     (if \<not> valid_name (op_name op)
      then ['' has a name that is not lowercase letters, digits and underscores starting with a letter, at most 64 characters'']
      else []) @
     (if op_name op \<in> seen then ['' repeats a name''] else []) @
     (if trim_space (op_description op) = [] then ['' has no description''] else []) @
     (if \<not> object_schema u (op_input op) then ['' has an input schema that is not an object schema'']
      else map (\<lambda>p. '' '' @ p) (surface_problems u op)) @
     (case route_of op of None \<Rightarrow> [] | Some r \<Rightarrow> if r \<in> routes then ['' repeats the route '' @ r] else []) @
     (if \<not> object_schema u (op_output op) then ['' has an output schema that is not an object schema''] else []) @
     (if op_handle op = None then ['' has no handler''] else [])"

fun registry_problems :: "unicode \<Rightarrow> nat \<Rightarrow> string set \<Rightarrow> string set \<Rightarrow> 'h operation list \<Rightarrow> string list" where
  "registry_problems u i seen routes [] = []"
| "registry_problems u i seen routes (op # ops) =
     map (\<lambda>p. ''operation '' @ digits_of i @ '' ('' @ u_quote u (op_name op) @ '')'' @ p)
       (operation_problems u seen routes op) @
     registry_problems u (Suc i) (insert (op_name op) seen)
       (case route_of op of None \<Rightarrow> routes | Some r \<Rightarrow> insert r routes) ops"

definition serve_accounts :: "'h registry \<Rightarrow> string list \<Rightarrow> 'h registry" where
  "serve_accounts r accounts = r\<lparr>rg_known := Some {a \<in> set accounts. a \<noteq> []}\<rparr>"

definition serves :: "'h registry \<Rightarrow> string \<Rightarrow> bool" where
  "serves r account \<longleftrightarrow> (case rg_known r of None \<Rightarrow> False | Some known \<Rightarrow> account \<in> known)"

definition new_registry :: "unicode \<Rightarrow> string list \<Rightarrow> 'h operation list \<Rightarrow> string list + 'h registry" where
  "new_registry u accounts ops =
     (let problems = registry_problems u 0 {} {} ops
      in if problems \<noteq> [] then Inl problems
         else Inr (serve_accounts \<lparr>rg_ops = sort_key op_name ops, rg_known = None\<rparr> accounts))"

definition lookup_operation :: "'h registry \<Rightarrow> string \<Rightarrow> 'h operation option" where
  "lookup_operation r name =
     (let i = search_first (\<lambda>op. name \<le> op_name op) (rg_ops r)
      in if i < length (rg_ops r) \<and> op_name (rg_ops r ! i) = name then Some (rg_ops r ! i) else None)"

subsection \<open>A call\<close>

text \<open>
  The arguments as the decoder reads them: whether the text opens an object, the members read while
  there are more, and whether one of them could not be read, which ends the reading.
\<close>

record call_args =
  ca_object :: bool
  ca_members :: "(string \<times> json) list"
  ca_broken :: bool

datatype call_error =
    ErrMissingAccount | ErrUnknownAccount | ErrAmbiguousAccount | ErrRepeatedArgument
  | ErrTooManyArguments | ErrNotAnObject | ErrNoOperation

definition max_arguments :: nat where "max_arguments = 1024"

text \<open>\<open>foldKey\<close>: each rune replaced with the least one it is equal to under case folding.\<close>

definition least_fold :: "unicode \<Rightarrow> nat \<Rightarrow> nat" where
  "least_fold u r = hd (filter (same_fold u r) [0..<Suc r])"

definition fold_key :: "unicode \<Rightarrow> string \<Rightarrow> string" where
  "fold_key u key = concat (map (\<lambda>r. encode_rune (least_fold u r)) (runes key))"

fun distinct_keys_from :: "unicode \<Rightarrow> string set \<Rightarrow> nat \<Rightarrow> bool \<Rightarrow> (string \<times> json) list \<Rightarrow> call_error option" where
  "distinct_keys_from u seen n broken [] =
     (if \<not> broken then None else if n = max_arguments then Some ErrTooManyArguments else Some ErrNotAnObject)"
| "distinct_keys_from u seen n broken ((key, v) # ms) =
     (if n = max_arguments then Some ErrTooManyArguments
      else if fold_key u key \<in> seen
      then Some (if fold_key u key = fold_key u ''account_id'' then ErrAmbiguousAccount else ErrRepeatedArgument)
      else distinct_keys_from u (insert (fold_key u key) seen) (Suc n) broken ms)"

definition distinct_keys :: "unicode \<Rightarrow> call_args \<Rightarrow> call_error option" where
  "distinct_keys u a =
     (if \<not> ca_object a then Some ErrNotAnObject else distinct_keys_from u {} 0 (ca_broken a) (ca_members a))"

fun split_members :: "unicode \<Rightarrow> json option \<Rightarrow> (string \<times> json) list \<Rightarrow> (string \<times> json) list \<Rightarrow>
    call_error + (json option \<times> (string \<times> json) list)" where
  "split_members u account rest [] = Inr (account, rest)"
| "split_members u account rest ((key, v) # ms) =
     (if equal_fold u key ''account_id''
      then if key \<noteq> ''account_id'' then Inl ErrAmbiguousAccount else split_members u (Some v) rest ms
      else split_members u account (rest @ [(key, v)]) ms)"

definition split_account :: "unicode \<Rightarrow> call_args \<Rightarrow> call_error + (string \<times> call_args)" where
  "split_account u a =
     (if \<not> ca_object a then Inl ErrMissingAccount
      else case split_members u None [] (ca_members a) of
          Inl e \<Rightarrow> Inl e
        | Inr (account, rest) \<Rightarrow>
            if ca_broken a then Inl ErrMissingAccount
            else (case account of
                Some (JString i) \<Rightarrow> Inr (i, \<lparr>ca_object = True, ca_members = rest, ca_broken = False\<rparr>)
              | _ \<Rightarrow> Inl ErrMissingAccount))"

text \<open>What a call runs: the handler, the account and the arguments it gets, or the refusal.\<close>

definition registry_call :: "unicode \<Rightarrow> 'h registry \<Rightarrow> string \<Rightarrow> call_args \<Rightarrow> call_error + ('h \<times> string \<times> call_args)" where
  "registry_call u r name a =
     (case lookup_operation r name of
        None \<Rightarrow> Inl ErrNoOperation
      | Some op \<Rightarrow> (case distinct_keys u a of
          Some e \<Rightarrow> Inl e
        | None \<Rightarrow>
            if op_path op = accounts_path then Inr (the (op_handle op), [], a)
            else (case split_account u a of
                Inl e \<Rightarrow> Inl e
              | Inr (account, rest) \<Rightarrow>
                  if \<not> serves r account then Inl ErrUnknownAccount
                  else Inr (the (op_handle op), account, rest))))"

subsection \<open>What a handler may rely on\<close>

lemma distinct_keys_from_None:
  "distinct_keys_from u seen n broken ms = None \<Longrightarrow> n \<le> max_arguments \<Longrightarrow>
     \<not> broken \<and> n + length ms \<le> max_arguments \<and>
     distinct (map (\<lambda>m. fold_key u (fst m)) ms) \<and> (\<lambda>m. fold_key u (fst m)) ` set ms \<inter> seen = {}"
proof (induction u seen n broken ms rule: distinct_keys_from.induct)
  case (2 u seen n broken key v ms)
  from "2.prems" have c: "n \<noteq> max_arguments" "fold_key u key \<notin> seen"
      "distinct_keys_from u (insert (fold_key u key) seen) (Suc n) broken ms = None" "Suc n \<le> max_arguments"
    by (auto split: if_splits)
  with "2.IH" show ?case by auto
qed (auto split: if_splits)

lemma distinct_keys_None:
  "distinct_keys u a = None \<Longrightarrow>
     ca_object a \<and> \<not> ca_broken a \<and> length (ca_members a) \<le> max_arguments \<and>
     distinct (map (\<lambda>m. fold_key u (fst m)) (ca_members a))"
  using distinct_keys_from_None [of u "{}" 0 "ca_broken a" "ca_members a"]
  by (auto simp: distinct_keys_def split: if_splits)

abbreviation account_member :: "unicode \<Rightarrow> string \<times> json \<Rightarrow> bool" where
  "account_member u m \<equiv> equal_fold u (fst m) ''account_id''"

lemma split_members_Inr:
  "split_members u account rest ms = Inr (account', rest') \<Longrightarrow>
     list_all (\<lambda>m. fst m = ''account_id'') (filter (account_member u) ms) \<and>
     rest' = rest @ filter (\<lambda>m. \<not> account_member u m) ms \<and>
     account' = (case rev (filter (account_member u) ms) of [] \<Rightarrow> account | m # _ \<Rightarrow> Some (snd m))"
proof (induction u account rest ms rule: split_members.induct)
  case (2 u account rest key v ms)
  show ?case
  proof (cases "equal_fold u key ''account_id''")
    case True
    with "2.prems" have k: "key = ''account_id''" "split_members u (Some v) rest ms = Inr (account', rest')"
      by (auto split: if_splits)
    with True "2.IH"(1) [OF True] show ?thesis
      by (cases "rev (filter (account_member u) ms)") auto
  next
    case False
    with 2 show ?thesis by auto
  qed
qed auto

lemma equal_fold_refl [simp]: "equal_fold u s s"
  by (simp add: equal_fold_def list.rel_refl_strong same_fold_def)

lemma one_key: "distinct (map g xs) \<Longrightarrow> \<forall>x \<in> set xs. g x = k \<Longrightarrow> length xs \<le> 1"
  by (cases xs; cases "tl xs") auto

lemma split_account_Inr:
  assumes "split_account u a = Inr (account, rest)" "distinct (map (\<lambda>m. fold_key u (fst m)) (ca_members a))"
  shows "filter (account_member u) (ca_members a) = [(''account_id'', JString account)] \<and>
     rest = \<lparr>ca_object = True, ca_members = filter (\<lambda>m. \<not> account_member u m) (ca_members a), ca_broken = False\<rparr>"
proof -
  obtain v ms where sp: "split_members u None [] (ca_members a) = Inr (Some (JString account), ms)"
      and rest: "rest = \<lparr>ca_object = True, ca_members = ms, ca_broken = False\<rparr>"
    using assms(1) by (auto simp: split_account_def split: if_splits sum.splits option.splits json.splits)
  note inr = split_members_Inr [OF sp]
  let ?f = "filter (account_member u) (ca_members a)"
  have all: "\<forall>m \<in> set ?f. fst m = ''account_id''" using inr unfolding list_all_iff by blast
  have "length ?f \<le> 1"
  proof (rule one_key)
    show "distinct (map (\<lambda>m. fold_key u (fst m)) ?f)" by (rule distinct_map_filter [OF assms(2)])
    show "\<forall>m \<in> set ?f. fold_key u (fst m) = fold_key u ''account_id''"
    proof
      fix m assume "m \<in> set ?f"
      with all have "fst m = ''account_id''" by blast
      then show "fold_key u (fst m) = fold_key u ''account_id''" by (rule arg_cong)
    qed
  qed
  have acc: "Some (JString account) = (case rev ?f of [] \<Rightarrow> None | m # _ \<Rightarrow> Some (snd m))"
    and ms: "ms = filter (\<lambda>m. \<not> account_member u m) (ca_members a)"
    using inr by simp_all
  have "?f \<noteq> []"
  proof
    assume "?f = []"
    with acc show False by simp
  qed
  with \<open>length ?f \<le> 1\<close> obtain m where f: "?f = [m]" by (cases ?f) auto
  have "snd m = JString account" using acc unfolding f by simp
  moreover have "fst m = ''account_id''" using all unfolding f by simp
  ultimately show ?thesis unfolding f rest ms by (cases m) simp
qed

subsection \<open>What an accepted registry holds\<close>

lemma registry_problems_Nil:
  "registry_problems u i seen routes ops = [] \<Longrightarrow>
     (\<forall>op \<in> set ops. \<exists>s r. operation_problems u s r op = []) \<and>
     distinct (map op_name ops) \<and> op_name ` set ops \<inter> seen = {}"
proof (induction ops arbitrary: i seen routes)
  case (Cons op ops)
  let ?routes = "case route_of op of None \<Rightarrow> routes | Some r \<Rightarrow> insert r routes"
  have p: "operation_problems u seen routes op = []"
    and q: "registry_problems u (Suc i) (insert (op_name op) seen) ?routes ops = []"
    using Cons.prems by simp_all
  have "op_name op \<notin> seen" using p by (auto simp: operation_problems_def split: if_splits)
  with Cons.IH [OF q] p show ?case by auto
qed simp

definition operation_ok :: "'h operation \<Rightarrow> bool" where
  "operation_ok op \<longleftrightarrow> valid_name (op_name op) \<and> \<not> names_lifecycle (op_name op) CHR ''_'' \<and>
     list_all (\<lambda>seg. case literal_segment seg of
         Some (name, verb) \<Rightarrow> \<not> names_lifecycle name CHR ''-'' \<and> \<not> names_lifecycle verb CHR ''-''
       | None \<Rightarrow> wildcard_segment seg \<noteq> None) (path_segments (op_path op)) \<and>
     (op_path op = accounts_path \<and> op_effect op = ReadEffect \<or> has_prefix (op_path op) account_prefix) \<and>
     derive (op_effect op) \<noteq> None \<and> op_handle op \<noteq> None"

lemma wildcard_not_literal: "wildcard_segment seg = Some v \<Longrightarrow> literal_segment seg = None"
  by (auto simp: wildcard_segment_def literal_segment_def cut_string_def ident_shape_def lower_byte_def go_defs
      take_Cons' split: list.splits if_splits option.splits prod.splits)

lemma segment_problems_Nil:
  "segment_problems seen segs = [] \<Longrightarrow>
     list_all (\<lambda>seg. case literal_segment seg of
         Some (name, verb) \<Rightarrow> \<not> names_lifecycle name CHR ''-'' \<and> \<not> names_lifecycle verb CHR ''-''
       | None \<Rightarrow> wildcard_segment seg \<noteq> None) segs"
proof (induction seen segs rule: segment_problems.induct)
  case (2 seen seg segs)
  show ?case
  proof (cases "wildcard_segment seg")
    case None
    with 2 show ?thesis by (auto split: option.splits prod.splits if_splits)
  next
    case (Some v)
    with 2 wildcard_not_literal [OF Some] show ?thesis by (auto split: if_splits)
  qed
qed simp

lemma operation_problems_ok: "operation_problems u seen routes op = [] \<Longrightarrow> operation_ok op"
proof -
  assume p: "operation_problems u seen routes op = []"
  have o: "object_schema u (op_input op)" and s: "surface_problems u op = []" and v: "valid_name (op_name op)"
    and h: "op_handle op \<noteq> None"
    using p by (auto simp: operation_problems_def split: if_splits)
  have "derive (op_effect op) \<noteq> None" "segment_problems {} (path_segments (op_path op)) = []"
    "\<not> names_lifecycle (op_name op) CHR ''_''"
    "op_path op = accounts_path \<and> op_effect op = ReadEffect \<or> has_prefix (op_path op) account_prefix"
    using s by (auto simp: surface_problems_def Let_def split: option.splits prod.splits if_splits)
  then show ?thesis using v h segment_problems_Nil by (auto simp: operation_ok_def)
qed

lemma takeWhile_sorted_index:
  assumes "sorted (map f xs)" "x \<in> set xs" "f x = k"
  shows "search_first (\<lambda>y. k \<le> f y) xs < length xs \<and> f (xs ! search_first (\<lambda>y. k \<le> f y) xs) = k"
proof -
  let ?i = "search_first (\<lambda>y. k \<le> f y) xs"
  have i: "?i < length xs"
  proof (rule ccontr)
    assume "\<not> ?i < length xs"
    then have "takeWhile (\<lambda>y. \<not> k \<le> f y) xs = xs"
      using takeWhile_eq_take [of "\<lambda>y. \<not> k \<le> f y" xs] by (simp add: search_first_def)
    then show False using assms(2,3) by (auto simp: takeWhile_eq_all_conv)
  qed
  have ge: "k \<le> f (xs ! ?i)"
    using nth_length_takeWhile [of "\<lambda>y. \<not> k \<le> f y" xs] i unfolding search_first_def by simp
  obtain j where j: "j < length xs" "xs ! j = x" using assms(2) by (auto simp: in_set_conv_nth)
  have "?i \<le> j"
  proof (rule ccontr)
    assume "\<not> ?i \<le> j"
    then have "xs ! j \<in> set (takeWhile (\<lambda>y. \<not> k \<le> f y) xs)"
      unfolding search_first_def by (metis not_le nth_mem takeWhile_nth)
    then show False using j assms(3) by (auto dest: set_takeWhileD)
  qed
  then have "f (xs ! ?i) \<le> k" using sorted_nth_mono [OF assms(1), of ?i j] j assms(3) by simp
  with ge i show ?thesis by auto
qed

lemma lookup_operation_found:
  assumes "sorted (map op_name (rg_ops r))"
  shows "case lookup_operation r name of
      Some op \<Rightarrow> op \<in> set (rg_ops r) \<and> op_name op = name
    | None \<Rightarrow> name \<notin> op_name ` set (rg_ops r)"
  using takeWhile_sorted_index [OF assms] by (auto simp: lookup_operation_def Let_def split: option.split)

lemma new_registry_ops:
  assumes "new_registry u accounts ops = Inr r"
  shows "registry_problems u 0 {} {} ops = []" "rg_ops r = sort_key op_name ops"
    "rg_known r = Some {a \<in> set accounts. a \<noteq> []}"
  using assms by (auto simp: new_registry_def serve_accounts_def Let_def split: if_splits)

subsection \<open>Properties\<close>

text \<open>
  C8. A handler runs on one account, and it is the one that was checked. When a call runs a handler it is
  the named operation's; the arguments are a JSON object of at most 1024 members no two of whose keys
  are equal under case folding; and unless the operation lists the accounts, exactly one member names the
  account in any case, it is spelled account_id, the account is one the registry serves, and the
  handler gets every other member, in order, and none that names an account.
\<close>

theorem handler_gets_the_one_verified_account:
  "case registry_call u r name a of
     Inl e \<Rightarrow> True
   | Inr (h, account, rest) \<Rightarrow>
      (case lookup_operation r name of
         None \<Rightarrow> False
       | Some op \<Rightarrow> h = the (op_handle op) \<and> op_name op = name \<and>
           ca_object a \<and> \<not> ca_broken a \<and> length (ca_members a) \<le> 1024 \<and>
           distinct (map (\<lambda>m. fold_key u (fst m)) (ca_members a)) \<and>
           (if op_path op = accounts_path then account = [] \<and> rest = a
            else serves r account \<and>
              filter (\<lambda>m. equal_fold u (fst m) ''account_id'') (ca_members a) = [(''account_id'', JString account)] \<and>
              ca_members rest = filter (\<lambda>m. \<not> equal_fold u (fst m) ''account_id'') (ca_members a)))"
proof (cases "registry_call u r name a")
  case (Inr x)
  obtain h account rest where x: "x = (h, account, rest)" by (cases x)
  obtain op where op: "lookup_operation r name = Some op" and d: "distinct_keys u a = None"
    using Inr by (auto simp: registry_call_def split: option.splits)
  have n: "op_name op = name" using op by (auto simp: lookup_operation_def Let_def split: if_splits)
  note dk = distinct_keys_None [OF d]
  show ?thesis
  proof (cases "op_path op = accounts_path")
    case True
    then have "h = the (op_handle op)" "account = []" "rest = a"
      using Inr op d x by (simp_all add: registry_call_def)
    then show ?thesis using Inr x op n dk True by (simp add: max_arguments_def)
  next
    case False
    then have sp: "split_account u a = Inr (account, rest)" and h: "h = the (op_handle op)" and sv: "serves r account"
      using Inr op d x by (auto simp: registry_call_def split: sum.splits if_splits)
    have "filter (account_member u) (ca_members a) = [(''account_id'', JString account)] \<and>
        ca_members rest = filter (\<lambda>m. \<not> account_member u m) (ca_members a)"
      using split_account_Inr [OF sp] dk by simp
    then show ?thesis unfolding Inr x op using n dk False h sv by (simp only: max_arguments_def) simp
  qed
qed simp

text \<open>
  No accepted registry can express the approval of a plan: every operation of one has a name, and a
  path of names, none of which names a plan's lifecycle, lies under the account prefix unless it is the
  read that lists the accounts, and derives its method from a declared effect. The registry holds exactly the
  operations given, each name once, a lookup finds each by its name and nothing else, and the accounts
  served are those given and never the empty one.
\<close>

lemma accepted_registry_names_no_lifecycle:
  "case new_registry u accounts ops of
     Inl problems \<Rightarrow> problems \<noteq> []
   | Inr r \<Rightarrow>
      set (rg_ops r) = set ops \<and> sorted (map op_name (rg_ops r)) \<and> distinct (map op_name (rg_ops r)) \<and>
      list_all (\<lambda>op. valid_name (op_name op) \<and> \<not> names_lifecycle (op_name op) CHR ''_'' \<and>
         list_all (\<lambda>seg. case literal_segment seg of
             Some (name, verb) \<Rightarrow> \<not> names_lifecycle name CHR ''-'' \<and> \<not> names_lifecycle verb CHR ''-''
           | None \<Rightarrow> wildcard_segment seg \<noteq> None) (path_segments (op_path op)) \<and>
         (op_path op = accounts_path \<and> op_effect op = ReadEffect \<or> has_prefix (op_path op) account_prefix) \<and>
         derive (op_effect op) \<noteq> None \<and> op_handle op \<noteq> None) (rg_ops r) \<and>
      (case lookup_operation r name of
         Some op \<Rightarrow> op \<in> set ops \<and> op_name op = name
       | None \<Rightarrow> name \<notin> op_name ` set ops) \<and>
      (serves r account \<longleftrightarrow> account \<in> set accounts \<and> account \<noteq> [])"
proof (cases "new_registry u accounts ops")
  case (Inl problems)
  then show ?thesis by (auto simp: new_registry_def Let_def split: if_splits)
next
  case (Inr r)
  note r = new_registry_ops [OF Inr]
  note p = registry_problems_Nil [OF r(1)]
  have s: "sorted (map op_name (rg_ops r))" by (simp add: r(2))
  have "distinct (map op_name (rg_ops r))" using p by (simp add: r(2) distinct_map)
  moreover have "list_all operation_ok (rg_ops r)"
    using p operation_problems_ok by (fastforce simp: r(2) list_all_iff)
  moreover have "serves r account \<longleftrightarrow> account \<in> set accounts \<and> account \<noteq> []"
    by (simp add: serves_def r(3))
  ultimately show ?thesis
    using s lookup_operation_found [OF s, of name] unfolding Inr operation_ok_def
    by (simp add: r(2) split: option.splits)
qed

end
