(* ===== verification/Surface.thy ===== *)
theory Surface
  imports Redact MailAttachment Registry
begin

text \<open>
  \<open>api/internal/service/failure.go\<close>, \<open>timestamps.go\<close> and \<open>present.go\<close>: where a failed call failed and
  what its client is told, how an instant is written, how the stored state is read back, and one message
  as the client surface serves it.
\<close>

subsection \<open>Failures\<close>

datatype origin = OriginClient | OriginAPI | OriginProvider

definition api_server_message :: string where
  "api_server_message = ''the operation failed inside the API server; get_system_status reports the account's operational state''"

fun refusal_message :: "call_error \<Rightarrow> string" where
  "refusal_message Registry.ErrMissingAccount = ''the operation needs account_id, and the call carries none''"
| "refusal_message Registry.ErrUnknownAccount = ''the operation's account_id names no account the API server serves''"
| "refusal_message Registry.ErrAmbiguousAccount = ''the call's arguments name the account more than once''"
| "refusal_message Registry.ErrRepeatedArgument = ''the call's arguments name an argument more than once''"
| "refusal_message Registry.ErrTooManyArguments = ''the call's arguments hold more keys than any operation takes''"
| "refusal_message Registry.ErrNotAnObject = ''the call's arguments are not a JSON object''"
| "refusal_message Registry.ErrNoOperation = ''no such operation''"

text \<open>
  The errors the service layer returns: its refusal of an argument, the registry's of a call, a
  provider's failure, an error from below, or several joined.
\<close>

datatype service_error =
    ArgumentError string
  | CallRefused call_error
  | ProviderFailed string goerror
  | Underlying goerror
  | Joined "service_error list"

definition provider_kinds :: "(goerror \<times> string) list" where
  "provider_kinds = [
     (ErrThrottled, ''the provider throttled the request; get_system_status reports the rate controller's state''),
     (ErrAuthentication, ''the provider refused the account's credential; get_system_status reports the last authentication''),
     (ErrNotFound, ''the provider no longer holds the message''),
     (ErrProvider, ''the provider failed the request or did not answer'')]"

definition from_provider :: "goerror \<Rightarrow> service_error" where
  "from_provider e = (case filter (\<lambda>k. err_is e (fst k)) provider_kinds of
      [] \<Rightarrow> Underlying e | k # _ \<Rightarrow> ProviderFailed (snd k) e)"

text \<open>\<open>errors.As\<close> and \<open>errors.Is\<close> on these, depth first.\<close>

fun as_argument :: "service_error \<Rightarrow> string option"
  and as_argument_any :: "service_error list \<Rightarrow> string option" where
  "as_argument (ArgumentError m) = Some m"
| "as_argument (Joined es) = as_argument_any es"
| "as_argument _ = None"
| "as_argument_any [] = None"
| "as_argument_any (e # es) = (case as_argument e of Some m \<Rightarrow> Some m | None \<Rightarrow> as_argument_any es)"

fun is_refusal :: "service_error \<Rightarrow> call_error \<Rightarrow> bool" where
  "is_refusal (CallRefused r) t \<longleftrightarrow> r = t"
| "is_refusal (Joined es) t \<longleftrightarrow> list_ex (\<lambda>e. is_refusal e t) es"
| "is_refusal _ t \<longleftrightarrow> False"

fun as_provider :: "service_error \<Rightarrow> string option"
  and as_provider_any :: "service_error list \<Rightarrow> string option" where
  "as_provider (ProviderFailed m e) = Some m"
| "as_provider (Joined es) = as_provider_any es"
| "as_provider _ = None"
| "as_provider_any [] = None"
| "as_provider_any (e # es) = (case as_provider e of Some m \<Rightarrow> Some m | None \<Rightarrow> as_provider_any es)"

definition refusals :: "call_error list" where
  "refusals = [Registry.ErrMissingAccount, Registry.ErrUnknownAccount, Registry.ErrAmbiguousAccount,
     Registry.ErrRepeatedArgument, Registry.ErrTooManyArguments, Registry.ErrNotAnObject, Registry.ErrNoOperation]"

definition classify_failure :: "service_error \<Rightarrow> origin \<times> string" where
  "classify_failure e =
     (case as_argument e of
        Some m \<Rightarrow> (OriginClient, m)
      | None \<Rightarrow> (case filter (is_refusal e) refusals of
          r # _ \<Rightarrow> (OriginClient, refusal_message r)
        | [] \<Rightarrow> (case as_provider e of
            Some m \<Rightarrow> (OriginProvider, m)
          | None \<Rightarrow> (OriginAPI, api_server_message))))"

datatype log_level = LevelInfo | LevelWarn | LevelError

definition failure_level :: "service_error \<Rightarrow> log_level" where
  "failure_level e = (case fst (classify_failure e) of
      OriginClient \<Rightarrow> LevelInfo | OriginProvider \<Rightarrow> LevelWarn | OriginAPI \<Rightarrow> LevelError)"

subsection \<open>Instants\<close>

text \<open>
  A time as its seconds and nanoseconds since 1970 in UTC, and its civil date: years are counted from
  March so a leap day ends one, in eras of 400 years.
\<close>

definition civil_date :: "int \<Rightarrow> int \<times> int \<times> int" where
  "civil_date days =
     (let z = days + 719468; era = z div 146097; doe = z mod 146097;
          yoe = (doe - doe div 1460 + doe div 36524 - doe div 146096) div 365;
          doy = doe - (365 * yoe + yoe div 4 - yoe div 100);
          mp = (5 * doy + 2) div 153;
          month = (if mp < 10 then mp + 3 else mp - 9)
      in (yoe + era * 400 + (if month \<le> 2 then 1 else 0), month, doy - (153 * mp + 2) div 5 + 1))"

definition pad_digits :: "nat \<Rightarrow> nat \<Rightarrow> string" where
  "pad_digits w n = (let d = digits_of n in replicate (w - length d) CHR ''0'' @ d)"

definition pad_int :: "nat \<Rightarrow> int \<Rightarrow> string" where
  "pad_int w i = (if i < 0 then CHR ''-'' # pad_digits w (nat (- i)) else pad_digits w (nat i))"

definition format_utc :: "int \<times> nat \<Rightarrow> string" where
  "format_utc t =
     (let (secs, nanos) = t; (year, month, day) = civil_date (secs div 86400); s = nat (secs mod 86400);
          fraction = rev (dropWhile (\<lambda>c. c = CHR ''0'') (rev (pad_digits 9 nanos)))
      in pad_int 4 year @ ''-'' @ pad_int 2 month @ ''-'' @ pad_int 2 day @ ''T'' @
         pad_digits 2 (s div 3600) @ '':'' @ pad_digits 2 (s div 60 mod 60) @ '':'' @ pad_digits 2 (s mod 60) @
         (if fraction = [] then [] else CHR ''.'' # fraction) @ ''Z'')"

subsection \<open>A served message\<close>

record message_flags =
  fl_read :: bool
  fl_starred :: bool

definition stored_bool :: "json option \<Rightarrow> bool" where
  "stored_bool raw = (case raw of Some (JBool b) \<Rightarrow> b | _ \<Rightarrow> False)"

definition stored_message_flags :: "json option \<Rightarrow> message_flags" where
  "stored_message_flags stored = (case stored of
      Some (JObject ms) \<Rightarrow> \<lparr>fl_read = stored_bool (member_map ms ''read''),
                            fl_starred = stored_bool (member_map ms ''starred'')\<rparr>
    | _ \<Rightarrow> \<lparr>fl_read = False, fl_starred = False\<rparr>)"

fun read_flag_names :: "bool \<Rightarrow> bool \<Rightarrow> string list \<Rightarrow> content_flags" where
  "read_flag_names mfa login [] = flags_of mfa login"
| "read_flag_names mfa login (n # ns) =
     (if n = ''mfa_code'' then read_flag_names True login ns
      else if n = ''login_link'' then read_flag_names mfa True ns
      else flags_of True True)"

definition flags_from_store :: "string list \<Rightarrow> content_flags" where
  "flags_from_store names = read_flag_names False False names"

definition state_from_store :: "string \<Rightarrow> scan_state" where
  "state_from_store name =
     (if name = ''scanned'' then Scanned
      else if name = ''skipped_gate'' then SkippedGate
      else if name = ''skipped_restricted'' then SkippedRestricted
      else if name = ''refused'' then Refused
      else Pending)"

record stored_message =
  sm_id :: string
  sm_thread :: string
  sm_from :: string
  sm_from_name :: "string option"
  sm_subject :: "string option"
  sm_sent_at :: "int \<times> nat"
  sm_labels :: "string list"
  sm_flags :: "json option"
  sm_has_attachments :: bool
  sm_media :: "attachment_media list"
  sm_content_flags :: "string list"
  sm_scan_state :: string

record served_message =
  sv_account :: string
  sv_id :: string
  sv_thread :: string
  sv_subject :: "string option"
  sv_from :: "string \<times> string option"
  sv_date :: string
  sv_labels :: "string list"
  sv_message_flags :: message_flags
  sv_has_attachments :: bool
  sv_types :: "string list"
  sv_sender_class :: string
  sv_content_flags :: "string list"
  sv_scan_state :: string
  sv_body_available :: bool

definition flag_names :: "content_flags \<Rightarrow> string list" where
  "flag_names f = (if mfa_code f then [''mfa_code''] else []) @ (if login_link f then [''login_link''] else [])"

definition shown_types :: "attachment_media list \<Rightarrow> string list" where
  "shown_types media = map attachment_word (attachment_types media)"

definition present :: "unicode \<Rightarrow> string \<Rightarrow> stored_message \<Rightarrow> policy \<Rightarrow> served_message" where
  "present u account m p =
     (let flags = flags_from_store (sm_content_flags m); sc = state_from_store (sm_scan_state m);
          v = gate_decide u p (sm_from m) flags sc
      in \<lparr>sv_account = account, sv_id = sm_id m, sv_thread = sm_thread m, sv_subject = sm_subject m,
          sv_from = (sm_from m, sm_from_name m), sv_date = format_utc (sm_sent_at m),
          sv_labels = sm_labels m, sv_message_flags = stored_message_flags (sm_flags m),
          sv_has_attachments = sm_has_attachments m, sv_types = shown_types (sm_media m),
          sv_sender_class = (if restricted (cv_class (rv_sender v)) then ''restricted'' else ''normal''),
          sv_content_flags = flag_names flags, sv_scan_state = scan_state_string sc,
          sv_body_available = gate_releases v\<rparr>)"

subsection \<open>Facts\<close>

lemma state_round_trip [simp]: "state_from_store (scan_state_string s) = s"
  by (cases s) (simp_all add: state_from_store_def)

lemma flags_round_trip [simp]: "flags_from_store (flag_names f) = f"
  by (auto simp: flags_from_store_def flag_names_def flags_eq_iff)

text \<open>A name the schema does not hold reads as the most restrictive value.\<close>

lemma unknown_flag_denies: "n \<in> set names \<Longrightarrow> n \<notin> {''mfa_code'', ''login_link''} \<Longrightarrow> any_flag (flags_from_store names)"
proof -
  assume n: "n \<in> set names" "n \<notin> {''mfa_code'', ''login_link''}"
  have "any_flag (read_flag_names a b names)" for a b
    using n(1) by (induction names arbitrary: a b) (use n(2) in auto)
  then show ?thesis by (simp add: flags_from_store_def)
qed

lemma unknown_state_pending:
  "name \<notin> scan_state_string ` UNIV \<Longrightarrow> state_from_store name = Pending"
proof -
  assume n: "name \<notin> scan_state_string ` UNIV"
  have "name \<noteq> scan_state_string s" for s using n by blast
  from this [of Scanned] this [of SkippedGate] this [of SkippedRestricted] this [of Refused]
  show ?thesis by (simp add: state_from_store_def)
qed

lemma read_flag_names_cases:
  "read_flag_names a b names =
     (if set names \<subseteq> {''mfa_code'', ''login_link''}
      then flags_of (a \<or> ''mfa_code'' \<in> set names) (b \<or> ''login_link'' \<in> set names) else flags_of True True)"
  by (induction names arbitrary: a b) auto

text \<open>
  C32. What the index stored reads back as what was stored: a scan state as itself and flags as
  themselves, whatever the order and the repetitions of their names. A name the schema does not hold,
  from a later version of the worker say, reads as every flag set, and as a message nobody scanned.
\<close>

theorem stored_names_read_back:
  "state_from_store (scan_state_string s) = s \<and>
   (name \<in> range scan_state_string \<or> state_from_store name = Pending) \<and>
   flags_from_store (flag_names f) = f \<and>
   flags_from_store names =
     (if set names \<subseteq> {''mfa_code'', ''login_link''}
      then flags_of (''mfa_code'' \<in> set names) (''login_link'' \<in> set names) else flags_of True True)"
  using unknown_state_pending [of name]
  by (auto simp: flags_from_store_def [of names] read_flag_names_cases)

end
