(* ===== verification/BodyService.thy ===== *)
theory BodyService
  imports Surface Release IndexCore
begin

text \<open>
  \<open>api/internal/service/body.go\<close>: one body request. The policy, the index, the provider's session, the
  converter and the audit log arrive as a record of what each answers, and the request is the trace of
  what it does with the answer its client gets. The facts show that the provider is reached only after
  the gate released the message, that nothing is served before its audit row is written, and that what
  is served is what the release step released.
\<close>

record body_result =
  br_account :: string
  br_message :: string
  br_released :: bool
  br_reason :: string
  br_note :: "string option"
  br_body :: "string option"
  br_snippet :: "string option"
  br_names :: "string list option"

definition conversion_refused :: string where "conversion_refused = ''conversion_refused''"
definition body_refused :: string where "body_refused = ''body_refused''"
definition released_reason :: string where "released_reason = ''released''"
definition action_read :: string where "action_read = ''READ_BODY''"
definition action_deny :: string where "action_deny = ''DENY_BODY''"
definition stage_gate :: string where "stage_gate = ''gate''"
definition stage_serve :: string where "stage_serve = ''serve''"
definition audit_actor :: string where "audit_actor = ''client''"

definition never_released :: string where
  "never_released = '' No argument, setting or request releases it.''"

definition denial_note :: "string \<Rightarrow> string" where
  "denial_note reason =
     (if reason = ''pending_scan'' then
        ''The message has not been through its content scan yet, so its body is withheld until the scan clears it. '' @
        ''This is backlog, not a permission problem; get_system_status reports the scan backlog.''
      else if reason = ''skipped_restricted'' then
        ''The sender was restricted when the message was stored, and the message has not been scanned since, so its body '' @
        ''stays withheld until it is. The message's metadata stays available.''
      else if reason = ''restricted_sender'' then
        ''The sender is on the sensitive-sender policy, so the body is denied by policy. The message's metadata stays available.''
      else if reason = ''content_flagged'' then
        ''The message holds a one-time code or a login link, so its body is denied.''
      else if reason = ''serve_time_check_matched'' then
        ''The message was never scanned, and the check run as it was served found a one-time code or a login link in it, so it is denied.''
      else if reason = conversion_refused then
        ''The body could not be converted to clean Markdown, so it is denied.''
      else if reason = body_refused then
        ''The body is larger than the system releases, or cannot be read or converted, so it is denied. '' @
        ''The message's metadata stays available.''
      else ''The message's stored state does not let its body be released, so it is denied.'') @ never_released"

definition deny :: "body_result \<Rightarrow> string \<Rightarrow> body_result" where
  "deny r reason = r\<lparr>br_released := False, br_reason := reason, br_note := Some (denial_note reason)\<rparr>"

subsection \<open>What the audit row records\<close>

record gate_facts =
  gf_class :: string
  gf_rule :: "string option"
  gf_scope :: "string option"
  gf_flags :: "string list"
  gf_rules :: "string list"
  gf_state :: string

definition gate_facts_of :: "redact_verdict \<Rightarrow> content_flags \<Rightarrow> scan_state \<Rightarrow> string list \<Rightarrow> gate_facts" where
  "gate_facts_of v flags state stored =
     \<lparr>gf_class = (if restricted (cv_class (rv_sender v)) then ''restricted'' else ''normal''),
      gf_rule = (if cv_rule (rv_sender v) \<noteq> [] then Some (cv_rule (rv_sender v)) else None),
      gf_scope = (if cv_rule (rv_sender v) \<noteq> [] then Some (scope_string (cv_scope (rv_sender v))) else None),
      gf_flags = flag_names flags,
      gf_rules = (if any_flag flags then sort_compact stored else []),
      gf_state = scan_state_string state\<rparr>"

record serve_check =
  sc_ran :: bool
  sc_rules :: "string list"
  sc_version :: int64
  sc_check_revision :: string

definition no_check :: serve_check where
  "no_check = \<lparr>sc_ran = False, sc_rules = [], sc_version = 0, sc_check_revision = []\<rparr>"

definition check_of :: "decision \<Rightarrow> scanner \<Rightarrow> serve_check" where
  "check_of d s =
     (let ran = (if scanner_version s = 0 then no_check
                 else \<lparr>sc_ran = True, sc_rules = sort_compact (d_rules d), sc_version = scanner_version s,
                       sc_check_revision = s_revision s\<rparr>)
      in case d_reason d of
          release_reason.Released \<Rightarrow> ran | PatternMatched \<Rightarrow> ran
        | release_reason.Undecided \<Rightarrow> no_check | NotReleasable \<Rightarrow> no_check | NoScanner \<Rightarrow> no_check)"

record audit_row =
  au_actor :: string
  au_action :: string
  au_message :: string
  au_stage :: string
  au_reason :: string
  au_gate :: gate_facts
  au_check :: "serve_check option"

definition audit_of :: "string \<Rightarrow> string \<Rightarrow> string \<Rightarrow> string \<Rightarrow> gate_facts \<Rightarrow> serve_check \<Rightarrow> audit_row" where
  "audit_of message action stage reason g c =
     \<lparr>au_actor = audit_actor, au_action = action, au_message = message, au_stage = stage, au_reason = reason,
      au_gate = g, au_check = (if sc_ran c then Some c else None)\<rparr>"

subsection \<open>One request\<close>

record gate_row =
  gr_from :: string
  gr_flags :: "string list"
  gr_state :: string
  gr_rules :: "string list"

text \<open>What the policy load, the index, the provider, the converter and the audit log answer a request.\<close>

record body_sources =
  bo_policy :: policy
  bo_rows :: "goerror + gate_row list"
  bo_open :: "goerror option"
  bo_metadata :: "goerror + message_metadata"
  bo_body :: "goerror + message_body"
  bo_render :: "message_body \<Rightarrow> string option"
  bo_literal :: "string \<Rightarrow> string"
  bo_scanner :: scanner
  bo_audit :: "audit_row \<Rightarrow> goerror option"

datatype body_event =
    LoadPolicy | ReadGate | OpenSession | FetchMetadata | FetchBody
  | WriteAudit audit_row | Observe string string | EndSession

definition markdown_content :: "body_sources \<Rightarrow> message_body \<Rightarrow> message_metadata \<Rightarrow> content option" where
  "markdown_content src b m = (case bo_render src b of
      None \<Rightarrow> None
    | Some rendered \<Rightarrow> Some \<lparr>c_body = rendered,
        c_snippet = (if mm_snippet m \<noteq> [] then bo_literal src (mm_snippet m) else []),
        c_names = map (bo_literal src) (mm_names m)\<rparr>)"

text \<open>The audit row, and the answer once it is written.\<close>

definition audited ::
  "body_sources \<Rightarrow> audit_row \<Rightarrow> string \<Rightarrow> body_result \<Rightarrow> body_event list \<times> (service_error + body_result)" where
  "audited src row stage result =
     (case bo_audit src row of
        Some e \<Rightarrow> ([WriteAudit row],
          Inl (Joined [Underlying (ErrText ''writing the body request's audit row''), Underlying e]))
      | None \<Rightarrow> ([WriteAudit row, Observe stage (au_reason row)], Inr result))"

text \<open>What a fetched body becomes, and then everything after the gate released the message.\<close>

definition serve_body ::
  "unicode \<Rightarrow> (float64 \<Rightarrow> float64) \<Rightarrow> body_sources \<Rightarrow> string \<Rightarrow> body_result \<Rightarrow> scan_state \<Rightarrow> gate_facts \<Rightarrow>
     message_metadata \<Rightarrow> message_body \<Rightarrow> body_event list \<times> (service_error + body_result)" where
  "serve_body u lg src message denied state g meta b =
     (let converted = markdown_content src b meta;
          d = (case converted of None \<Rightarrow> zero_decision
               | Some c \<Rightarrow> decide_release u lg c state (bo_scanner src));
          check = check_of d (bo_scanner src);
          (out, ok) = released d
      in if \<not> ok
         then let reason = (if converted = None then conversion_refused
                            else release_reason_string (d_reason d))
              in audited src (audit_of message action_deny stage_serve reason g check) stage_serve
                   (deny denied reason)
         else audited src (audit_of message action_read stage_serve released_reason g check) []
                (denied\<lparr>br_released := True, br_reason := released_reason, br_body := Some (c_body out),
                   br_names := Some (c_names out),
                   br_snippet := (if mm_snippet meta \<noteq> [] then Some (c_snippet out) else None)\<rparr>))"

definition serve_released ::
  "unicode \<Rightarrow> (float64 \<Rightarrow> float64) \<Rightarrow> body_sources \<Rightarrow> string \<Rightarrow> body_result \<Rightarrow> scan_state \<Rightarrow> gate_facts \<Rightarrow>
     body_event list \<times> (service_error + body_result)" where
  "serve_released u lg src message denied state g =
     (case bo_metadata src of
        Inl e \<Rightarrow> ([FetchMetadata], Inl (from_provider e))
      | Inr meta \<Rightarrow>
         (let (es, r) =
            (case bo_body src of
               Inl e \<Rightarrow>
                 if err_is e ErrRefused
                 then audited src (audit_of message action_deny stage_serve body_refused g no_check) stage_serve
                        (deny denied body_refused)
                 else ([], Inl (from_provider e))
             | Inr b \<Rightarrow> serve_body u lg src message denied state g meta b)
          in ([FetchMetadata, FetchBody] @ es, r)))"

definition get_message_body ::
  "unicode \<Rightarrow> (float64 \<Rightarrow> float64) \<Rightarrow> body_sources \<Rightarrow> string \<Rightarrow> service_error + string \<Rightarrow>
     body_event list \<times> (service_error + body_result)" where
  "get_message_body u lg src account args =
     (case args of
        Inl e \<Rightarrow> ([], Inl e)
      | Inr message \<Rightarrow> (case bo_rows src of
          Inl e \<Rightarrow> ([LoadPolicy, ReadGate], Inl (Underlying e))
        | Inr [] \<Rightarrow> ([LoadPolicy, ReadGate],
            Inl (ArgumentError ''the account holds no message with that message_id''))
        | Inr (row # _) \<Rightarrow>
           (let flags = flags_from_store (gr_flags row); state = state_from_store (gr_state row);
                v = gate_decide u (bo_policy src) (gr_from row) flags state;
                g = gate_facts_of v flags state (gr_rules row);
                denied = \<lparr>br_account = account, br_message = message, br_released = False, br_reason = [],
                          br_note = None, br_body = None, br_snippet = None, br_names = None\<rparr>
            in if \<not> gate_releases v
               then let reason = redact_reason_string (rv_reason v);
                        (es, r) = audited src (audit_of message action_deny stage_gate reason g no_check)
                                    stage_gate (deny denied reason)
                    in (LoadPolicy # ReadGate # es, r)
               else (case bo_open src of
                   Some e \<Rightarrow> ([LoadPolicy, ReadGate, OpenSession], Inl (Underlying e))
                 | None \<Rightarrow>
                    (let (es, r) = serve_released u lg src message denied state g
                     in ([LoadPolicy, ReadGate, OpenSession] @ es @ [EndSession], r))))))"

subsection \<open>Facts\<close>

definition audit_rows :: "body_event list \<Rightarrow> audit_row list" where
  "audit_rows es = List.map_filter (\<lambda>e. case e of WriteAudit row \<Rightarrow> Some row | _ \<Rightarrow> None) es"

definition observations :: "body_event list \<Rightarrow> (string \<times> string) list" where
  "observations es = List.map_filter (\<lambda>e. case e of Observe st rs \<Rightarrow> Some (st, rs) | _ \<Rightarrow> None) es"

lemma audit_rows_simps [simp]:
  "audit_rows [] = []" "audit_rows (es @ fs) = audit_rows es @ audit_rows fs"
  "audit_rows (LoadPolicy # es) = audit_rows es" "audit_rows (ReadGate # es) = audit_rows es"
  "audit_rows (OpenSession # es) = audit_rows es" "audit_rows (FetchMetadata # es) = audit_rows es"
  "audit_rows (FetchBody # es) = audit_rows es" "audit_rows (EndSession # es) = audit_rows es"
  "audit_rows (Observe a b # es) = audit_rows es" "audit_rows (WriteAudit row # es) = row # audit_rows es"
  by (simp_all add: audit_rows_def map_filter_simps List.map_filter_def)

lemma observations_simps [simp]:
  "observations [] = []" "observations (es @ fs) = observations es @ observations fs"
  "observations (LoadPolicy # es) = observations es" "observations (ReadGate # es) = observations es"
  "observations (OpenSession # es) = observations es" "observations (FetchMetadata # es) = observations es"
  "observations (FetchBody # es) = observations es" "observations (EndSession # es) = observations es"
  "observations (Observe a b # es) = (a, b) # observations es" "observations (WriteAudit row # es) = observations es"
  by (simp_all add: observations_def map_filter_simps List.map_filter_def)

text \<open>An answer of the handler, against its trace: what was recorded is what is answered.\<close>

definition recorded :: "body_sources \<Rightarrow> body_event list \<times> (service_error + body_result) \<Rightarrow> bool" where
  "recorded src x = (case x of
      (es, Inl e) \<Rightarrow> observations es = [] \<and> list_all (\<lambda>row. bo_audit src row \<noteq> None) (audit_rows es)
    | (es, Inr r) \<Rightarrow>
        (case (audit_rows es, observations es) of
           ([row], [(stage, reason)]) \<Rightarrow>
             bo_audit src row = None \<and> au_reason row = br_reason r \<and> reason = br_reason r \<and>
             au_action row = (if br_released r then action_read else action_deny) \<and>
             stage = (if br_released r then [] else au_stage row)
         | _ \<Rightarrow> False))"

definition withheld :: "body_result \<Rightarrow> bool" where
  "withheld r \<longleftrightarrow> br_body r = None \<and> br_snippet r = None \<and> br_names r = None"

definition denial_ok :: "service_error + body_result \<Rightarrow> bool" where
  "denial_ok res = (case res of Inl e \<Rightarrow> True
    | Inr r \<Rightarrow> br_released r \<or> withheld r \<and> br_note r = Some (denial_note (br_reason r)))"

lemma deny_simps [simp]:
  "br_released (deny r reason) = False" "br_reason (deny r reason) = reason"
  "br_note (deny r reason) = Some (denial_note reason)" "withheld (deny r reason) = withheld r"
  "br_message (deny r reason) = br_message r" "br_account (deny r reason) = br_account r"
  by (simp_all add: deny_def withheld_def)

lemma audit_of_simps [simp]:
  "au_reason (audit_of m a st rs g c) = rs" "au_action (audit_of m a st rs g c) = a"
  "au_stage (audit_of m a st rs g c) = st" "au_message (audit_of m a st rs g c) = m"
  by (simp_all add: audit_of_def)

lemma audited_recorded:
  assumes "au_reason row = br_reason r" "au_action row = (if br_released r then action_read else action_deny)"
    "stage = (if br_released r then [] else au_stage row)"
  shows "recorded src (audited src row stage r)"
  using assms by (auto simp: recorded_def audited_def split: option.splits)

lemma audited_result: "snd (audited src row stage r) \<in> insert (Inr r) (range Inl)"
  by (auto simp: audited_def split: option.splits)

lemma recorded_around:
  "audit_rows pre = [] \<Longrightarrow> observations pre = [] \<Longrightarrow> audit_rows post = [] \<Longrightarrow> observations post = [] \<Longrightarrow>
     recorded src (es, r) \<Longrightarrow> recorded src (pre @ es @ post, r)"
  by (auto simp: recorded_def split: sum.splits list.splits)

lemma recorded_failure: "audit_rows es = [] \<Longrightarrow> observations es = [] \<Longrightarrow> recorded src (es, Inl e)"
  by (simp add: recorded_def)

lemma serve_body_recorded: "\<not> br_released denied \<Longrightarrow> recorded src (serve_body u lg src message denied state g meta b)"
  unfolding serve_body_def Let_def case_prod_beta
  by (split if_split) (intro conjI impI audited_recorded; simp)

lemma serve_released_recorded:
  assumes "\<not> br_released denied"
  shows "recorded src (serve_released u lg src message denied state g)"
proof (cases "bo_metadata src")
  case (Inr meta)
  let ?inner = "case bo_body src of
               Inl e \<Rightarrow>
                 if err_is e ErrRefused
                 then audited src (audit_of message action_deny stage_serve body_refused g no_check) stage_serve
                        (deny denied body_refused)
                 else ([], Inl (from_provider e))
             | Inr b \<Rightarrow> serve_body u lg src message denied state g meta b"
  have "recorded src ?inner"
    using serve_body_recorded [OF assms]
    by (auto split: sum.split intro: recorded_failure intro!: audited_recorded)
  then have "recorded src ([FetchMetadata, FetchBody] @ fst ?inner @ [], snd ?inner)"
    by (intro recorded_around) simp_all
  then show ?thesis by (simp add: serve_released_def Inr case_prod_beta)
qed (simp add: serve_released_def recorded_failure)

lemma get_message_body_recorded: "recorded src (get_message_body u lg src account args)"
proof (cases args)
  case (Inr message)
  show ?thesis
  proof (cases "bo_rows src")
    case rows: (Inr rows)
    show ?thesis
    proof (cases rows)
      case (Cons row more_rows)
      let ?v = "gate_decide u (bo_policy src) (gr_from row) (flags_from_store (gr_flags row)) (state_from_store (gr_state row))"
      let ?g = "gate_facts_of ?v (flags_from_store (gr_flags row)) (state_from_store (gr_state row)) (gr_rules row)"
      let ?denied = "\<lparr>br_account = account, br_message = message, br_released = False, br_reason = [],
                          br_note = None, br_body = None, br_snippet = None, br_names = None\<rparr>"
      let ?reason = "redact_reason_string (rv_reason ?v)"
      let ?x = "audited src (audit_of message action_deny stage_gate ?reason ?g no_check) stage_gate (deny ?denied ?reason)"
      let ?y = "serve_released u lg src message ?denied (state_from_store (gr_state row)) ?g"
      have x: "recorded src ?x" by (rule audited_recorded) simp_all
      have y: "recorded src ?y" by (rule serve_released_recorded) simp
      have "recorded src ([LoadPolicy, ReadGate] @ fst ?x @ [], snd ?x)"
        using x by (intro recorded_around) simp_all
      moreover have "recorded src ([LoadPolicy, ReadGate, OpenSession] @ fst ?y @ [EndSession], snd ?y)"
        using y by (intro recorded_around) simp_all
      ultimately show ?thesis
        by (auto simp: get_message_body_def Inr rows Cons Let_def case_prod_beta recorded_failure split: option.split)
    qed (simp add: get_message_body_def Inr rows recorded_failure)
  qed (simp add: get_message_body_def Inr recorded_failure)
qed (simp add: get_message_body_def recorded_failure)

definition provider_events :: "body_event list \<Rightarrow> body_event list" where
  "provider_events es = filter (\<lambda>e. e \<in> {OpenSession, FetchMetadata, FetchBody, EndSession}) es"

lemma audited_provider [simp]: "provider_events (fst (audited src row stage r)) = []"
  by (auto simp: audited_def provider_events_def split: option.split)

lemma provider_append [simp]: "provider_events (a @ b) = provider_events a @ provider_events b"
  by (simp add: provider_events_def)

lemma serve_body_provider [simp]: "provider_events (fst (serve_body u lg src message denied state g meta b)) = []"
  by (simp add: serve_body_def Let_def case_prod_beta)

lemma provider_events_Nil [simp]: "provider_events [] = []"
  by (simp add: provider_events_def)

lemma provider_events_Cons [simp]: "provider_events (x # es) =
    (if x \<in> {OpenSession, FetchMetadata, FetchBody, EndSession} then x # provider_events es else provider_events es)"
  by (simp add: provider_events_def)

lemma serve_released_provider:
  "provider_events (fst (serve_released u lg src message denied state g)) =
     (case bo_metadata src of Inl _ \<Rightarrow> [FetchMetadata] | Inr _ \<Rightarrow> [FetchMetadata, FetchBody])"
  by (auto simp: serve_released_def Let_def case_prod_beta split: sum.split)

text \<open>What is served of one body, and that a denial serves nothing.\<close>

definition served_from ::
  "unicode \<Rightarrow> (float64 \<Rightarrow> float64) \<Rightarrow> body_sources \<Rightarrow> scan_state \<Rightarrow> message_metadata \<Rightarrow> message_body \<Rightarrow> body_result \<Rightarrow> bool" where
  "served_from u lg src state meta b r = (case markdown_content src b meta of
      None \<Rightarrow> False
    | Some c \<Rightarrow>
        snd (released (decide_release u lg c state (bo_scanner src))) \<and>
        br_body r = Some (wrap u (c_body c)) \<and>
        br_snippet r = (if mm_snippet meta = [] then None else Some (neutralize u (bo_literal src (mm_snippet meta)))) \<and>
        br_names r = Some (map (\<lambda>n. neutralize u (bo_literal src n)) (mm_names meta)))"

lemma audited_case:
  "(case snd (audited src row st r) of Inl e \<Rightarrow> True | Inr r' \<Rightarrow> Q r') \<longleftrightarrow>
     (if bo_audit src row = None then Q r else True)"
  by (simp add: audited_def split: option.split)

lemma decide_release_outcome:
  "snd (released (decide_release u lg c state s)) \<Longrightarrow>
     fst (released (decide_release u lg c state s)) =
       \<lparr>c_body = wrap u (c_body c), c_snippet = neutralize u (c_snippet c), c_names = map (neutralize u) (c_names c)\<rparr>"
  by (simp add: decide_release_released split: if_splits)

lemma serve_body_served:
  assumes "\<not> br_released denied" "withheld denied"
  shows "case snd (serve_body u lg src message denied state g meta b) of Inl e \<Rightarrow> True
    | Inr r \<Rightarrow> if br_released r then served_from u lg src state meta b r
              else withheld r \<and> br_note r = Some (denial_note (br_reason r))"
proof (cases "markdown_content src b meta")
  case None
  then show ?thesis
    using assms by (simp add: serve_body_def zero_decision_def released_def Let_def audited_case)
next
  case (Some c)
  have c: "c_snippet c = (if mm_snippet meta \<noteq> [] then bo_literal src (mm_snippet meta) else [])"
    "c_names c = map (bo_literal src) (mm_names meta)"
    using Some by (auto simp: markdown_content_def split: option.splits)
  let ?d = "decide_release u lg c state (bo_scanner src)"
  show ?thesis
  proof (cases "snd (released ?d)")
    case True
    then show ?thesis
      using decide_release_outcome [OF True]
      by (simp add: serve_body_def Some case_prod_beta audited_case served_from_def c Let_def)
  next
    case False
    then show ?thesis
      using assms by (simp add: serve_body_def Some case_prod_beta audited_case Let_def)
  qed
qed

lemma serve_released_served:
  assumes "\<not> br_released denied" "withheld denied"
  shows "case snd (serve_released u lg src message denied state g) of Inl e \<Rightarrow> True
    | Inr r \<Rightarrow> if br_released r
        then (case (bo_metadata src, bo_body src) of
            (Inr meta, Inr b) \<Rightarrow> served_from u lg src state meta b r | _ \<Rightarrow> False)
        else withheld r \<and> br_note r = Some (denial_note (br_reason r))"
proof (cases "bo_metadata src")
  case (Inr meta)
  show ?thesis
  proof (cases "bo_body src")
    case (Inl e)
    then show ?thesis
      using assms Inr by (simp add: serve_released_def audited_case Let_def case_prod_beta)
  next
    case b: (Inr b)
    then show ?thesis
      using serve_body_served [OF assms, where u = u and lg = lg and src = src and message = message and state = state
        and g = g and meta = meta and b = b] Inr
      by (simp add: serve_released_def case_prod_beta split: sum.splits)
  qed
qed (simp add: serve_released_def)

subsection \<open>Properties\<close>

text \<open>
  C6. A provider is reached only for a message the gate released: a session is opened exactly when the
  arguments name a message the index holds, the policy in force does not restrict its sender, no content
  flag is stored, and it was scanned or gate-skipped, whatever the stored names are. The metadata is
  asked for before the body, nothing is asked after a failure, and every session opened is ended, once
  and last.
\<close>

theorem denied_request_reaches_no_provider:
  "let (es, res) = get_message_body u lg src account args;
       reached = (case args of Inl _ \<Rightarrow> False | Inr _ \<Rightarrow> (case bo_rows src of
           Inr (row # _) \<Rightarrow> \<not> restricted (cv_class (classify u (bo_policy src) (gr_from row))) \<and>
             \<not> any_flag (flags_from_store (gr_flags row)) \<and>
             state_from_store (gr_state row) \<in> {Scanned, SkippedGate}
         | _ \<Rightarrow> False)) in
     provider_events es =
       (if \<not> reached then []
        else OpenSession # (case bo_open src of
            Some _ \<Rightarrow> []
          | None \<Rightarrow> (case bo_metadata src of Inl _ \<Rightarrow> [FetchMetadata] | Inr _ \<Rightarrow> [FetchMetadata, FetchBody]) @ [EndSession]))"
proof -
  have gate: "gate_releases (gate_decide u (bo_policy src) (gr_from row) (flags_from_store (gr_flags row))
        (state_from_store (gr_state row))) \<longleftrightarrow>
      \<not> restricted (cv_class (classify u (bo_policy src) (gr_from row))) \<and>
      \<not> any_flag (flags_from_store (gr_flags row)) \<and> state_from_store (gr_state row) \<in> {Scanned, SkippedGate}" for row
    by (rule gate_decide_releases)
  show ?thesis
    by (simp add: get_message_body_def gate case_prod_beta Let_def serve_released_provider
        split: sum.split list.split option.split)
qed

text \<open>
  C7. Nothing is answered before its audit row is written. Every answer, a release or a denial, has
  exactly one row, written without error, which records the reason the client is given and whether the
  body was read or denied, and one observation of the same reason; and a request whose row could not be
  written answers an error, releases nothing and is not observed.
\<close>

theorem every_answer_is_audited:
  "case get_message_body u lg src account args of
      (es, Inl e) \<Rightarrow> observations es = [] \<and> list_all (\<lambda>row. bo_audit src row \<noteq> None) (audit_rows es)
    | (es, Inr r) \<Rightarrow>
        (case (audit_rows es, observations es) of
           ([row], [(stage, reason)]) \<Rightarrow>
             bo_audit src row = None \<and> au_reason row = br_reason r \<and> reason = br_reason r \<and>
             au_action row = (if br_released r then action_read else action_deny) \<and>
             stage = (if br_released r then [] else au_stage row)
         | _ \<Rightarrow> False)"
  using get_message_body_recorded [of src u lg account args] unfolding recorded_def .

text \<open>
  C5. What a client is served is the converted body between the delimiters, with the snippet and the
  filenames shown literally, each with the delimiters' words neutralized, and only when the release step
  released that very content in the stored scan state; a denial carries no body, no snippet and no
  filename, and the note of its reason.
\<close>

theorem served_content_is_the_released_content:
  "case snd (get_message_body u lg src account args) of
     Inl e \<Rightarrow> True
   | Inr r \<Rightarrow>
      if br_released r
      then (case (bo_rows src, bo_metadata src, bo_body src) of
          (Inr (row # _), Inr meta, Inr b) \<Rightarrow> (case markdown_content src b meta of
             None \<Rightarrow> False
           | Some c \<Rightarrow>
               snd (released (decide_release u lg c (state_from_store (gr_state row)) (bo_scanner src))) \<and>
               br_body r = Some (wrap u (c_body c)) \<and>
               br_snippet r = (if mm_snippet meta = [] then None
                               else Some (neutralize u (bo_literal src (mm_snippet meta)))) \<and>
               br_names r = Some (map (\<lambda>n. neutralize u (bo_literal src n)) (mm_names meta)))
        | _ \<Rightarrow> False)
      else br_body r = None \<and> br_snippet r = None \<and> br_names r = None \<and>
           br_note r = Some (denial_note (br_reason r))"
proof (cases "\<exists>message row rest. args = Inr message \<and> bo_rows src = Inr (row # rest)")
  case True
  then obtain message row rest where a: "args = Inr message" "bo_rows src = Inr (row # rest)" by blast
  let ?denied = "\<lparr>br_account = account, br_message = message, br_released = False, br_reason = [],
                      br_note = None, br_body = None, br_snippet = None, br_names = None\<rparr>"
  let ?v = "gate_decide u (bo_policy src) (gr_from row) (flags_from_store (gr_flags row)) (state_from_store (gr_state row))"
  let ?g = "gate_facts_of ?v (flags_from_store (gr_flags row)) (state_from_store (gr_state row)) (gr_rules row)"
  let ?served = "serve_released u lg src message ?denied (state_from_store (gr_state row)) ?g"
  have d: "\<not> br_released ?denied" "withheld ?denied" by (simp_all add: withheld_def)
  note served = serve_released_served [OF d, where u = u and lg = lg and src = src and message = message
      and state = "state_from_store (gr_state row)" and g = ?g]
  show ?thesis
  proof (cases "gate_releases ?v \<and> bo_open src = None")
    case True
    then have "snd (get_message_body u lg src account args) = snd ?served"
      by (simp add: get_message_body_def a Let_def case_prod_beta)
    then show ?thesis
      using served unfolding served_from_def withheld_def
      by (cases "snd ?served"; cases "bo_metadata src"; cases "bo_body src") (auto simp: a split: option.splits)
  next
    case False
    then show ?thesis
      by (auto simp: get_message_body_def a Let_def case_prod_beta audited_case deny_def split: option.split)
  qed
next
  case False
  then show ?thesis by (auto simp: get_message_body_def split: sum.splits list.splits)
qed

text \<open>
  The note of a denial at serve time says that the message was never scanned, also when it was: a
  scanned message one of whose filenames matches the patterns is denied with it.
\<close>

lemma scanned_message_is_told_it_was_never_scanned:
  assumes "s_built s" "matches u lg s name"
  shows "d_reason (decide_release u lg \<lparr>c_body = b, c_snippet = snip, c_names = [name]\<rparr> Scanned s) = PatternMatched"
    and "has_prefix (denial_note (release_reason_string PatternMatched)) ''The message was never scanned''"
  using assms by (simp_all add: decide_release_cases to_check_def denial_note_def has_prefix_def)

text \<open>
  C31. The index promises what the body request keeps: a listed message says its body is available exactly
  when a request for that body, made while the same row and policy stand, asks a provider for it.
\<close>

theorem body_available_is_what_the_gate_serves:
  "sv_body_available (present u account m (bo_policy src)) \<longleftrightarrow>
   OpenSession \<in> set (fst (get_message_body u lg
     (src\<lparr>bo_rows := Inr (\<lparr>gr_from = sm_from m, gr_flags = sm_content_flags m, gr_state = sm_scan_state m,
        gr_rules = rules\<rparr> # rest)\<rparr>) account (Inr message)))"
  by (simp add: present_def get_message_body_def audited_def Let_def case_prod_beta split: option.split)

end
