(* ===== verification/Lens.thy ===== *)
theory Lens
  imports Utf8 Classify
begin

text \<open>
  \<open>ui/internal/core/lens\<close>: the declarative half of a dataset, and the decision whether a request is one
  the catalogue's entries allow. A request's query parameters, a Go map of lists, are a list of names and
  values with distinct names, in the order one iteration over the map meets them. A refusal carries the
  error contract's code and its message. The lemmas show that an accepted request names only what its
  entry declares, that ranges, sorts and pages print as they were read, and which texts are dates.
\<close>

subsection \<open>Declarations\<close>

definition rows_per_page :: int where "rows_per_page = 50"

abbreviation level_summary :: int where "level_summary \<equiv> 0"
abbreviation level_distribution :: int where "level_distribution \<equiv> 1"
abbreviation level_cohort :: int where "level_cohort \<equiv> 2"
abbreviation level_rows :: int where "level_rows \<equiv> 3"

definition presets :: "string list" where
  "presets = [''24h'', ''7d'', ''30d'', ''90d'', ''all'']"

record dimension =
  dm_name :: string
  dm_storage :: string
  dm_groupable :: bool
  dm_filterable :: bool
  dm_sortable :: bool
  dm_wording :: string
  dm_null_wording :: string
  dm_empty :: bool
  dm_values :: "string list"
  dm_search :: bool

record sorting =
  so_column :: string
  so_descending :: bool

definition sort_string :: "sorting \<Rightarrow> string" where
  "sort_string s = (if so_descending s then so_column s @ '',desc'' else so_column s @ '',asc'')"

record defaults =
  de_group :: string
  de_level :: int
  de_range :: string
  de_sort :: sorting
  de_filters :: "(string \<times> string list) list"

record row_identity =
  ri_name :: string
  ri_storage :: string

record descriptor =
  ds_name :: string
  ds_parent :: string
  ds_ranged :: bool
  ds_range_column :: string
  ds_dimensions :: "dimension list"
  ds_default :: defaults
  ds_identity :: "row_identity option"

definition dimension_of :: "descriptor \<Rightarrow> string \<Rightarrow> dimension option" where
  "dimension_of d name = find (\<lambda>x. dm_name x = name) (ds_dimensions d)"

record lens_filter =
  fi_dimension :: string
  fi_values :: "string list"
  fi_exclude :: bool

record lens_range =
  rg_preset :: string
  rg_from :: string
  rg_to :: string

definition zero_range :: lens_range where "zero_range = \<lparr>rg_preset = [], rg_from = [], rg_to = []\<rparr>"

definition range_text :: "lens_range \<Rightarrow> string" where
  "range_text r = (if rg_preset r \<noteq> [] then rg_preset r else rg_from r @ '','' @ rg_to r)"

record request =
  rq_dataset :: string
  rq_level :: int
  rq_group :: string
  rq_range :: lens_range
  rq_filters :: "lens_filter list"
  rq_parent :: string
  rq_sort :: sorting
  rq_page :: int

definition filter_of :: "request \<Rightarrow> string \<Rightarrow> lens_filter option" where
  "filter_of r name = find (\<lambda>f. fi_dimension f = name) (rq_filters r)"

subsection \<open>Refusals\<close>

record refusal =
  rf_code :: string
  rf_message :: string

definition replace_first :: "string \<Rightarrow> string \<Rightarrow> string \<Rightarrow> string" where
  "replace_first s old new = (case cut_string s old of (a, b, found) \<Rightarrow> if found then a @ new @ b else s)"

definition refuse :: "string \<Rightarrow> string \<Rightarrow> string list \<Rightarrow> refusal + 'a" where
  "refuse code fmt args = Inl \<lparr>rf_code = code, rf_message = foldl (\<lambda>m a. replace_first m ''%s'' a) fmt args\<rparr>"

definition and_then :: "'e + 'a \<Rightarrow> ('a \<Rightarrow> 'e + 'b) \<Rightarrow> 'e + 'b" where
  "and_then x f = (case x of Inl e \<Rightarrow> Inl e | Inr a \<Rightarrow> f a)"

lemma and_then_Inr: "and_then x f = Inr b \<longleftrightarrow> (\<exists>a. x = Inr a \<and> f a = Inr b)"
  by (cases x) (simp_all add: and_then_def)

lemma refuse_not_Inr [simp]: "refuse c f as \<noteq> Inr x"
  by (simp add: refuse_def)

subsection \<open>Values\<close>

definition value_none :: string where "value_none = ''none''"
definition value_empty :: string where "value_empty = ''empty''"

definition days_of :: "int \<Rightarrow> int \<Rightarrow> int" where
  "days_of year month =
     (if month = 2 \<and> year mod 4 = 0 \<and> (year mod 100 \<noteq> 0 \<or> year mod 400 = 0) then 29
      else [31, 28, 31, 30, 31, 30, 31, 31, 30, 31, 30, 31] ! nat (month - 1))"

definition is_date :: "string \<Rightarrow> bool" where
  "is_date s =
     (if length s \<noteq> 10 \<or> s ! 4 \<noteq> CHR ''-'' \<or> s ! 7 \<noteq> CHR ''-'' then False
      else if list_ex (\<lambda>(i, c, w). i \<noteq> 4 \<and> i \<noteq> 7 \<and> \<not> ascii_digit c) (range_string s) then False
      else case (atoi (take 4 s), atoi (take 2 (drop 5 s)), atoi (take 2 (drop 8 s))) of
          (Some year, Some month, Some day) \<Rightarrow>
            if year < 1 \<or> month < 1 \<or> month > 12 \<or> day < 1 then False else day \<le> days_of year month
        | _ \<Rightarrow> False)"

definition is_whole :: "string \<Rightarrow> bool" where
  "is_whole v = (case parse_int 32 v of None \<Rightarrow> False | Some n \<Rightarrow> n \<ge> 0 \<and> format_int n = v)"

definition of_storage :: "string \<Rightarrow> string \<Rightarrow> bool" where
  "of_storage storage v =
     (if storage = ''number'' then is_whole v else if storage = ''date'' then is_date v else True)"

definition of_row_storage :: "string \<Rightarrow> string \<Rightarrow> bool" where
  "of_row_storage storage v =
     (if storage \<noteq> ''number'' then True
      else case parse_int 64 v of None \<Rightarrow> False | Some n \<Rightarrow> n \<ge> 0 \<and> format_int n = v)"

subsection \<open>The grammars\<close>

definition parse_range :: "unicode \<Rightarrow> string \<Rightarrow> refusal + lens_range" where
  "parse_range u v =
     (if v \<in> set presets then Inr (zero_range\<lparr>rg_preset := v\<rparr>)
      else case cut_string v '','' of (from, to, found) \<Rightarrow>
        if \<not> found \<or> \<not> is_date from \<or> \<not> is_date to \<or> to < from
        then refuse ''invalid_range'' ''range %s is not a preset or two UTC dates from,to'' [u_quote u v]
        else Inr (zero_range\<lparr>rg_from := from, rg_to := to\<rparr>))"

definition parse_sort :: "unicode \<Rightarrow> descriptor \<Rightarrow> string \<Rightarrow> refusal + sorting" where
  "parse_sort u d v =
     (case cut_string v '','' of (column, direction, found) \<Rightarrow>
        if \<not> found \<or> direction \<noteq> ''asc'' \<and> direction \<noteq> ''desc''
        then refuse ''invalid_sort'' ''sort %s is not column,asc or column,desc'' [u_quote u v]
        else case dimension_of d column of
            Some dim \<Rightarrow>
              if dm_sortable dim then Inr \<lparr>so_column = column, so_descending = (direction = ''desc'')\<rparr>
              else refuse ''unknown_sort'' ''the dataset %s declares no sortable column %s'' [ds_name d, u_quote u column]
          | None \<Rightarrow> refuse ''unknown_sort'' ''the dataset %s declares no sortable column %s'' [ds_name d, u_quote u column])"

text \<open>The loop over a filter's values.\<close>

fun check_values :: "unicode \<Rightarrow> dimension \<Rightarrow> lens_filter \<Rightarrow> string list \<Rightarrow> refusal + lens_filter" where
  "check_values u dim f [] = Inr f"
| "check_values u dim f (v # vs) =
     (if v = value_none then
        if dm_null_wording dim = []
        then refuse ''invalid_filter'' ''the filter %s names none, and the dimension has no null group'' [dm_name dim]
        else check_values u dim f vs
      else if v = value_empty then
        if \<not> dm_empty dim
        then refuse ''invalid_filter'' ''the filter %s names empty, and the dimension holds no value stored empty'' [dm_name dim]
        else check_values u dim f vs
      else if \<not> of_storage (dm_storage dim) v
      then refuse ''invalid_filter'' ''the filter %s holds %s, which is not a value of its kind'' [dm_name dim, u_quote u v]
      else check_values u dim f vs)"

definition parse_filter :: "unicode \<Rightarrow> dimension \<Rightarrow> string \<Rightarrow> refusal + lens_filter" where
  "parse_filter u dim value =
     (let f = \<lparr>fi_dimension = dm_name dim, fi_values = [], fi_exclude = False\<rparr>
      in if dm_search dim then
           if value = [] then refuse ''invalid_filter'' ''the filter %s holds an empty value'' [dm_name dim]
           else Inr (f\<lparr>fi_values := [value]\<rparr>)
         else case cut_prefix value ''!'' of
             Some rest \<Rightarrow>
               if rest = [] \<or> CHR '','' \<in> set rest
               then refuse ''invalid_filter'' ''the exclusion %s names one value'' [u_quote u value]
               else check_values u dim (f\<lparr>fi_values := [rest], fi_exclude := True\<rparr>) [rest]
           | None \<Rightarrow>
               (let values = split_byte CHR '','' value
                in if [] \<in> set values
                   then refuse ''invalid_filter'' ''the filter %s holds an empty value'' [dm_name dim]
                   else check_values u dim (f\<lparr>fi_values := values\<rparr>) values))"

subsection \<open>A request\<close>

definition parameters :: "string list" where
  "parameters = [''dataset'', ''level'', ''group'', ''range'', ''sort'', ''page'']"

type_synonym query = "(string \<times> string list) list"

definition parameter :: "query \<Rightarrow> string \<Rightarrow> string option" where
  "parameter q name = map_option hd (map_of q name)"

definition parse_level :: "unicode \<Rightarrow> descriptor \<Rightarrow> query \<Rightarrow> refusal + int" where
  "parse_level u d q =
     (case parameter q ''level'' of
        None \<Rightarrow> Inr (de_level (ds_default d))
      | Some v \<Rightarrow> (case atoi v of
          None \<Rightarrow> refuse ''invalid_level'' ''level %s is not 0, 1, 2 or 3'' [u_quote u v]
        | Some level \<Rightarrow>
            if level < level_summary \<or> level > level_rows
            then refuse ''invalid_level'' ''level %s is not 0, 1, 2 or 3'' [u_quote u v]
            else Inr level))"

definition parse_group :: "unicode \<Rightarrow> descriptor \<Rightarrow> query \<Rightarrow> int \<Rightarrow> refusal + string" where
  "parse_group u d q level =
     and_then
       (case parameter q ''group'' of
          Some g \<Rightarrow>
            (case dimension_of d g of
               Some dim \<Rightarrow>
                 if dm_groupable dim then Inr g
                 else refuse ''unknown_group'' ''the dataset %s declares no groupable dimension %s'' [ds_name d, u_quote u g]
             | None \<Rightarrow> refuse ''unknown_group'' ''the dataset %s declares no groupable dimension %s'' [ds_name d, u_quote u g])
        | None \<Rightarrow> Inr (de_group (ds_default d)))
       (\<lambda>g. if level = level_distribution \<or> level = level_cohort
            then if g = [] then refuse ''missing_group'' ''level %s requires exactly one group'' [format_int level]
                 else Inr g
            else Inr [])"

definition parse_range_parameter :: "unicode \<Rightarrow> descriptor \<Rightarrow> query \<Rightarrow> refusal + lens_range" where
  "parse_range_parameter u d q =
     (case parameter q ''range'' of
        Some v \<Rightarrow> if \<not> ds_ranged d then refuse ''unknown_dimension'' ''the dataset %s takes no range'' [ds_name d]
          else parse_range u v
      | None \<Rightarrow> if ds_ranged d then parse_range u (de_range (ds_default d)) else Inr zero_range)"

definition parse_sort_parameter :: "unicode \<Rightarrow> descriptor \<Rightarrow> query \<Rightarrow> refusal + sorting" where
  "parse_sort_parameter u d q =
     (case parameter q ''sort'' of None \<Rightarrow> Inr (de_sort (ds_default d)) | Some v \<Rightarrow> parse_sort u d v)"

definition parse_page :: "unicode \<Rightarrow> query \<Rightarrow> refusal + int" where
  "parse_page u q =
     (case parameter q ''page'' of
        None \<Rightarrow> Inr 1
      | Some v \<Rightarrow> (case atoi v of
          None \<Rightarrow> refuse ''invalid_page'' ''page %s is not a whole number from 1'' [u_quote u v]
        | Some page \<Rightarrow>
            if page < 1 \<or> format_int page \<noteq> v
            then refuse ''invalid_page'' ''page %s is not a whole number from 1'' [u_quote u v]
            else Inr page))"

text \<open>The loop over the filters' names in order, with the filters and the parent found so far.\<close>

fun parse_filters :: "unicode \<Rightarrow> descriptor \<Rightarrow> query \<Rightarrow> lens_filter list \<Rightarrow> string \<Rightarrow> string list \<Rightarrow>
    refusal + (lens_filter list \<times> string)" where
  "parse_filters u d q fs par [] = Inr (fs, par)"
| "parse_filters u d q fs par (key # keys) =
     (let value = the (parameter q key)
      in if ds_parent d \<noteq> [] \<and> key = ds_parent d
         then if value = [] then refuse ''invalid_filter'' ''the parent filter %s is empty'' [key]
              else parse_filters u d q fs value keys
         else case dimension_of d key of
             None \<Rightarrow> refuse ''unknown_dimension'' ''the dataset %s declares no filter %s'' [ds_name d, u_quote u key]
           | Some dim \<Rightarrow>
               if \<not> dm_filterable dim
               then refuse ''unknown_dimension'' ''the dataset %s declares no filter %s'' [ds_name d, u_quote u key]
               else and_then (parse_filter u dim value) (\<lambda>f. parse_filters u d q (fs @ [f]) par keys))"

definition filter_names :: "query \<Rightarrow> string list" where
  "filter_names q = sort (filter (\<lambda>key. key \<notin> set parameters) (map fst q))"

definition parse_request :: "unicode \<Rightarrow> descriptor list \<Rightarrow> query \<Rightarrow> refusal + request" where
  "parse_request u catalogue q =
     (case find (\<lambda>(name, values). length values \<noteq> 1) q of
        Some (name, _) \<Rightarrow> refuse ''repeated_parameter'' ''the parameter %s is given more than once'' [name]
      | None \<Rightarrow>
         (case parameter q ''dataset'' of
            None \<Rightarrow> refuse ''missing_dataset'' ''the request names no dataset'' []
          | Some name \<Rightarrow>
             if name = [] then refuse ''missing_dataset'' ''the request names no dataset'' []
             else case find (\<lambda>d. ds_name d = name) catalogue of
                 None \<Rightarrow> refuse ''unknown_dataset'' ''the registry declares no dataset %s'' [u_quote u name]
               | Some d \<Rightarrow>
                   and_then (parse_level u d q) (\<lambda>level.
                   and_then (parse_group u d q level) (\<lambda>g.
                   and_then (parse_range_parameter u d q) (\<lambda>range.
                   and_then (parse_sort_parameter u d q) (\<lambda>sorts.
                   and_then (parse_page u q) (\<lambda>page.
                   and_then (parse_filters u d q [] [] (filter_names q)) (\<lambda>(fs, par).
                     if ds_parent d \<noteq> [] \<and> par = []
                     then refuse ''missing_parent'' ''the dataset %s requires the parent filter %s'' [ds_name d, ds_parent d]
                     else if level = level_cohort \<and> fs = []
                     then refuse ''missing_filter'' ''level 2 requires at least one dimension filter'' []
                     else Inr \<lparr>rq_dataset = ds_name d, rq_level = level, rq_group = g, rq_range = range,
                                rq_filters = fs, rq_parent = par, rq_sort = sorts, rq_page = page\<rparr>))))))))"

subsection \<open>A row's detail\<close>

record row_request =
  rr_dataset :: string
  rr_row :: string
  rr_parent :: string

fun row_parent :: "unicode \<Rightarrow> descriptor \<Rightarrow> string \<Rightarrow> query \<Rightarrow> refusal + string" where
  "row_parent u d par [] = Inr par"
| "row_parent u d par ((name, values) # q) =
     (if name \<noteq> ds_parent d \<or> ds_parent d = []
      then refuse ''unknown_parameter'' ''the row detail of %s takes no parameter %s'' [ds_name d, u_quote u name]
      else if length values \<noteq> 1
      then refuse ''repeated_parameter'' ''the parameter %s is given more than once'' [name]
      else if values ! 0 = [] then refuse ''invalid_filter'' ''the parent filter %s is empty'' [name]
      else row_parent u d (values ! 0) q)"

definition parse_row :: "unicode \<Rightarrow> descriptor list \<Rightarrow> string \<Rightarrow> string \<Rightarrow> query \<Rightarrow> refusal + row_request" where
  "parse_row u catalogue dataset row q =
     (case find (\<lambda>d. ds_name d = dataset \<and> ds_identity d \<noteq> None) catalogue of
        None \<Rightarrow> refuse ''unknown_dataset'' ''the registry declares no row detail for %s'' [u_quote u dataset]
      | Some d \<Rightarrow>
          let i = the (ds_identity d) in
          if row = [] \<or> \<not> of_row_storage (ri_storage i) row
          then refuse ''invalid_row'' ''%s is not a %s of %s'' [u_quote u row, ri_name i, ds_name d]
          else and_then (row_parent u d [] q) (\<lambda>par.
            if ds_parent d \<noteq> [] \<and> par = []
            then refuse ''missing_parent'' ''the dataset %s requires the parent filter %s'' [ds_name d, ds_parent d]
            else Inr \<lparr>rr_dataset = ds_name d, rr_row = row, rr_parent = par\<rparr>))"

subsection \<open>Facts: cutting and printing\<close>

lemma cut_at [simp]: "c \<notin> set a \<Longrightarrow> cut_string (a @ c # b) [c] = (a, b, True)"
proof -
  assume c: "c \<notin> set a"
  then have "index_string (a @ c # b) [c] = Some (length a)"
    by (induction a) (auto simp: has_prefix_def)
  then show ?thesis by (simp add: cut_string_def)
qed

lemma cut_none [simp]: "c \<notin> set v \<Longrightarrow> cut_string v [c] = (v, [], False)"
proof -
  assume c: "c \<notin> set v"
  then have "index_string v [c] = None" by (induction v) (auto simp: has_prefix_def)
  then show ?thesis by (simp add: cut_string_def)
qed

lemma cut_found: "cut_string v [c] = (a, b, True) \<longleftrightarrow> v = a @ c # b \<and> c \<notin> set a"
proof (cases "c \<in> set v")
  case True
  then obtain x y where v: "v = x @ c # y" "c \<notin> set x" using split_list_first by metis
  show ?thesis
  proof
    assume "v = a @ c # b \<and> c \<notin> set a"
    then show "cut_string v [c] = (a, b, True)" by simp
  qed (use v in auto)
qed auto

text \<open>A number that prints as it was read.\<close>

definition parses_back :: "string \<Rightarrow> int \<Rightarrow> bool" where
  "parses_back v n \<longleftrightarrow> parse_int 64 v = Some n \<and> format_int n = v"

lemma parse_range_reads:
  "parse_range u v = Inr r \<Longrightarrow> range_text r = v \<and>
     (r = zero_range\<lparr>rg_preset := v\<rparr> \<and> v \<in> set presets \<or>
      r = zero_range\<lparr>rg_from := rg_from r, rg_to := rg_to r\<rparr> \<and> is_date (rg_from r) \<and> is_date (rg_to r) \<and>
      rg_from r \<le> rg_to r)"
  unfolding parse_range_def
  by (auto simp: range_text_def zero_range_def presets_def cut_found not_less split: if_splits prod.splits)

lemma parse_sort_reads:
  "parse_sort u d v = Inr s \<Longrightarrow> sort_string s = v \<and>
     (\<exists>dim. dimension_of d (so_column s) = Some dim \<and> dm_sortable dim)"
  unfolding parse_sort_def
  by (auto simp: sort_string_def cut_found split: if_splits prod.splits option.splits)

lemma parse_page_reads:
  "parse_page u q = Inr n \<Longrightarrow> 1 \<le> n \<and> (parameter q ''page'' = None \<and> n = 1 \<or> parameter q ''page'' = Some (format_int n))"
  unfolding parse_page_def by (auto split: if_splits option.splits)

subsection \<open>Facts: dates\<close>

lemma decode_high:
  assumes "128 \<le> byte c"
  shows "128 \<le> fst (decode_rune (c # t))"
proof -
  have "194 \<le> b \<Longrightarrow> 128 \<le> fst (decode2 b t)" for b :: nat
    by (cases "(b, t)" rule: decode2.cases) (auto simp: rune_error_def)
  moreover have "224 \<le> b \<Longrightarrow> 128 \<le> fst (decode3 b t)" for b :: nat
    by (cases "(b, t)" rule: decode3.cases) (auto simp: rune_error_def split: if_splits)
  moreover have "240 \<le> b \<Longrightarrow> 128 \<le> fst (decode4 b t)" for b :: nat
    by (cases "(b, t)" rule: decode4.cases) (auto simp: rune_error_def split: if_splits)
  ultimately show ?thesis using assms by (simp add: decode_rune_def Let_def rune_error_def)
qed

lemma range_digits:
  "(\<And>k. k < length s \<Longrightarrow> i + k = 4 \<or> i + k = 7 \<Longrightarrow> s ! k = CHR ''-'') \<Longrightarrow>
   list_ex (\<lambda>(i, c, w). i \<noteq> 4 \<and> i \<noteq> 7 \<and> \<not> ascii_digit c) (range_from i s) \<longleftrightarrow>
   (\<exists>k < length s. i + k \<noteq> 4 \<and> i + k \<noteq> 7 \<and> \<not> ascii_digit (byte (s ! k)))"
proof (induction s arbitrary: i)
  case (Cons c s)
  show ?case
  proof (cases "byte c < 128")
    case True
    have "(\<exists>k < length (c # s). i + k \<noteq> 4 \<and> i + k \<noteq> 7 \<and> \<not> ascii_digit (byte ((c # s) ! k))) \<longleftrightarrow>
        (i \<noteq> 4 \<and> i \<noteq> 7 \<and> \<not> ascii_digit (byte c)) \<or>
        (\<exists>k < length s. Suc i + k \<noteq> 4 \<and> Suc i + k \<noteq> 7 \<and> \<not> ascii_digit (byte (s ! k)))"
      by (simp add: Ex_less_Suc2)
    moreover have "s ! k = CHR ''-''" if "k < length s" "Suc i + k = 4 \<or> Suc i + k = 7" for k
      using Cons.prems [of "Suc k"] that by simp
    ultimately show ?thesis
      using True Cons.IH [of "Suc i"] by (subst range_from.simps) simp
  next
    case False
    then have "c \<noteq> CHR ''-''" by auto
    then have i: "i \<noteq> 4" "i \<noteq> 7" using Cons.prems [of 0] by auto
    moreover have "\<not> ascii_digit (byte c)" "\<not> ascii_digit (fst (decode_rune (c # s)))"
      using False decode_high [of c s] by (auto simp: ascii_digit_def)
    ultimately show ?thesis by (subst range_from.simps) (auto simp: case_prod_beta)
  qed
qed (simp add: range_from.simps)

definition all_digits :: "string \<Rightarrow> bool" where
  "all_digits s \<longleftrightarrow> (\<forall>c \<in> set s. ascii_digit (byte c))"

lemma digits_value_snoc [simp]: "digits_value (s @ [c]) = digits_value s * 10 + (byte c - 48)"
  by (simp add: digits_value_def)

lemma digits_value_bound: "all_digits s \<Longrightarrow> digits_value s < 10 ^ length s"
proof (induction s rule: rev_induct)
  case (snoc c s)
  then have "digits_value s < 10 ^ length s" "byte c - 48 \<le> 9"
    by (auto simp: all_digits_def ascii_digit_def)
  then have "digits_value s * 10 + (byte c - 48) < 10 * 10 ^ length s" by linarith
  then show ?case by simp
qed (simp add: digits_value_def)

lemma atoi_digits:
  assumes "all_digits s" "s \<noteq> []" "length s \<le> 18"
  shows "atoi s = Some (int (digits_value s))"
proof -
  obtain c t where s: "s = c # t" using assms(2) by (cases s) auto
  then have "c \<noteq> CHR ''-''" "c \<noteq> CHR ''+''" using assms(1) by (auto simp: all_digits_def ascii_digit_def)
  moreover have "digits_value s < 10 ^ 18"
    using digits_value_bound [OF assms(1)] power_increasing [OF assms(3), of "10 :: nat"] by linarith
  ultimately show ?thesis
    using assms(1) s by (simp add: atoi_def parse_int_def all_digits_def)
qed

text \<open>A number written in a fixed number of digits, and a day of the calendar written as the code reads it.\<close>

fun digit_text :: "nat \<Rightarrow> nat \<Rightarrow> string" where
  "digit_text 0 n = []"
| "digit_text (Suc w) n = digit_text w (n div 10) @ [chr (48 + n mod 10)]"

definition day_text :: "nat \<times> nat \<times> nat \<Rightarrow> string" where
  "day_text day = (case day of (y, m, d) \<Rightarrow> digit_text 4 y @ CHR ''-'' # digit_text 2 m @ CHR ''-'' # digit_text 2 d)"

definition real_day :: "nat \<times> nat \<times> nat \<Rightarrow> bool" where
  "real_day day = (case day of (y, m, d) \<Rightarrow> 1 \<le> y \<and> y \<le> 9999 \<and> 1 \<le> m \<and> m \<le> 12 \<and> 1 \<le> d \<and>
     int d \<le> days_of (int y) (int m))"

definition day_le :: "nat \<times> nat \<times> nat \<Rightarrow> nat \<times> nat \<times> nat \<Rightarrow> bool" where
  "day_le a b = (case (a, b) of ((y, m, d), (y', m', d')) \<Rightarrow> y < y' \<or> y = y' \<and> (m < m' \<or> m = m' \<and> d \<le> d'))"

lemma length_digit_text [simp]: "length (digit_text w n) = w"
  by (induction w arbitrary: n) simp_all

lemma digit_char [simp]: "byte (chr (48 + n mod 10)) = 48 + n mod 10"
proof -
  have "n mod 10 < 10" by simp
  then show ?thesis by simp
qed

lemma all_digits_text [simp]: "all_digits (digit_text w n)"
proof (induction w arbitrary: n)
  case (Suc w)
  have "n mod 10 < 10" by simp
  then have "ascii_digit (48 + n mod 10)" unfolding ascii_digit_def by linarith
  then show ?case using Suc by (auto simp: all_digits_def)
qed (simp add: all_digits_def)

lemma value_digit_text [simp]: "n < 10 ^ w \<Longrightarrow> digits_value (digit_text w n) = n"
  by (induction w arbitrary: n) (auto simp: digits_value_def)

lemma digit_text_value: "all_digits a \<Longrightarrow> digit_text (length a) (digits_value a) = a"
proof (induction a rule: rev_induct)
  case (snoc c a)
  then have c: "48 \<le> byte c" "byte c \<le> 57" by (auto simp: all_digits_def ascii_digit_def)
  then obtain r where r: "byte c = 48 + r" "r < 10" using le_Suc_ex [of 48 "byte c"] by auto
  then have "chr (48 + r) = c" by (metis char_of_char)
  then show ?case using snoc r by (simp add: all_digits_def)
qed (simp add: digits_value_def)

lemma digits_value_Cons:
  "digits_value (c # s) = (byte c - 48) * 10 ^ length s + digits_value s"
  by (induction s rule: rev_induct) (simp_all add: digits_value_def algebra_simps)

lemma digits_order:
  "length a = length b \<Longrightarrow> all_digits a \<Longrightarrow> all_digits b \<Longrightarrow>
     (a < b \<longleftrightarrow> digits_value a < digits_value b) \<and> (a = b \<longleftrightarrow> digits_value a = digits_value b)"
proof (induction a b rule: list_induct2)
  case (Cons c a d b)
  define x y where "x = byte c - 48" and "y = byte d - 48"
  have cd: "48 \<le> byte c" "48 \<le> byte d" "all_digits a" "all_digits b"
    using Cons.prems by (auto simp: all_digits_def ascii_digit_def)
  have lt: "digits_value a < 10 ^ length a" "digits_value b < 10 ^ length a"
    using digits_value_bound cd Cons.hyps by metis+
  have head: "c < d \<longleftrightarrow> x < y" "c = d \<longleftrightarrow> x = y"
    using cd by (auto simp: x_def y_def less_char_def eq_diff_iff)
  have step: "x < y \<Longrightarrow> x * 10 ^ length a + digits_value a < y * 10 ^ length a + digits_value b"
    "y < x \<Longrightarrow> y * 10 ^ length a + digits_value b < x * 10 ^ length a + digits_value a"
  proof -
    assume "x < y"
    then have "(x + 1) * 10 ^ length a \<le> y * 10 ^ length a" by (intro mult_right_mono) simp_all
    then show "x * 10 ^ length a + digits_value a < y * 10 ^ length a + digits_value b" using lt by simp
  next
    assume "y < x"
    then have "(y + 1) * 10 ^ length a \<le> x * 10 ^ length a" by (intro mult_right_mono) simp_all
    then show "y * 10 ^ length a + digits_value b < x * 10 ^ length a + digits_value a" using lt by simp
  qed
  show ?case
    using Cons.IH [OF cd(3,4)] step Cons.hyps head
    by (cases x y rule: linorder_cases)
       (simp_all add: digits_value_Cons flip: x_def y_def)
qed (simp add: digits_value_def)

lemma less_append:
  fixes a b c d :: string
  shows "length a = length b \<Longrightarrow> a @ c < b @ d \<longleftrightarrow> a < b \<or> a = b \<and> c < d"
  by (induction a b rule: list_induct2) auto

lemma day_text_split:
  assumes "length a = 4" "length b = 2" "length c = 2"
  shows "take 4 (a @ CHR ''-'' # b @ CHR ''-'' # c) = a" "take 2 (drop 5 (a @ CHR ''-'' # b @ CHR ''-'' # c)) = b"
    "take 2 (drop 8 (a @ CHR ''-'' # b @ CHR ''-'' # c)) = c"
  using assms by simp_all

lemma is_date_parts:
  assumes "length a = 4" "length b = 2" "length c = 2" "s = a @ CHR ''-'' # b @ CHR ''-'' # c"
  shows "is_date s \<longleftrightarrow> all_digits a \<and> all_digits b \<and> all_digits c \<and>
    real_day (digits_value a, digits_value b, digits_value c)"
proof -
  have len: "length s = 10" and dash: "s ! 4 = CHR ''-''" "s ! 7 = CHR ''-''"
    using assms by (simp_all add: nth_append)
  have "(\<exists>k < length s. 0 + k \<noteq> 4 \<and> 0 + k \<noteq> 7 \<and> \<not> ascii_digit (byte (s ! k))) \<longleftrightarrow>
      \<not> (all_digits a \<and> all_digits b \<and> all_digits c)"
  proof -
    obtain a0 a1 a2 a3 b0 b1 c0 c1 where "a = [a0, a1, a2, a3]" "b = [b0, b1]" "c = [c0, c1]"
      using assms(1-3) by (auto simp: length_Suc_conv numeral_eq_Suc)
    then show ?thesis by (simp add: assms(4) all_digits_def numeral_eq_Suc Ex_less_Suc2)
  qed
  then have digits: "list_ex (\<lambda>(i, c, w). i \<noteq> 4 \<and> i \<noteq> 7 \<and> \<not> ascii_digit c) (range_string s) \<longleftrightarrow>
      \<not> (all_digits a \<and> all_digits b \<and> all_digits c)"
    unfolding range_string_def using dash by (subst range_digits) auto
  show ?thesis
  proof (cases "all_digits a \<and> all_digits b \<and> all_digits c")
    case True
    then have "atoi a = Some (int (digits_value a))" "atoi b = Some (int (digits_value b))"
      "atoi c = Some (int (digits_value c))"
      using assms(1-3) by (auto intro!: atoi_digits)
    moreover have "digits_value a < 10 ^ 4" using digits_value_bound [of a] True assms(1) by simp
    moreover have "take 4 s = a" "take 2 (drop 5 s) = b" "take 2 (drop 8 s) = c"
      unfolding assms(4) by (rule day_text_split [OF assms(1-3)])+
    ultimately show ?thesis
      using True len dash digits by (auto simp: is_date_def real_day_def)
  next
    case False
    then show ?thesis using digits by (auto simp: is_date_def)
  qed
qed

lemma days_of_le: "1 \<le> m \<Longrightarrow> m \<le> 12 \<Longrightarrow> days_of y (int m) \<le> 31"
proof -
  assume "1 \<le> m" "m \<le> 12"
  then have "m \<in> {1, 2, 3, 4, 5, 6, 7, 8, 9, 10, 11, 12}" by simp presburger
  then show ?thesis by (auto simp: days_of_def)
qed

lemma is_date_day: "is_date s \<longleftrightarrow> (\<exists>day. real_day day \<and> s = day_text day)"
proof
  assume s: "is_date s"
  then have len: "length s = 10" "s ! 4 = CHR ''-''" "s ! 7 = CHR ''-''" by (auto simp: is_date_def split: if_splits)
  let ?a = "take 4 s" and ?b = "take 2 (drop 5 s)" and ?c = "take 2 (drop 8 s)"
  have "s = ?a @ CHR ''-'' # ?b @ CHR ''-'' # ?c"
  proof -
    obtain a0 a1 a2 a3 d b0 b1 e c0 c1 where "s = [a0, a1, a2, a3, d, b0, b1, e, c0, c1]"
      using len(1) by (auto simp: length_Suc_conv numeral_eq_Suc)
    then show ?thesis using len by simp
  qed
  moreover have "length ?a = 4" "length ?b = 2" "length ?c = 2" using len by simp_all
  ultimately show "\<exists>day. real_day day \<and> s = day_text day"
    using s is_date_parts [of ?a ?b ?c s] digit_text_value [of ?a] digit_text_value [of ?b] digit_text_value [of ?c]
    by (intro exI [of _ "(digits_value ?a, digits_value ?b, digits_value ?c)"]) (simp add: day_text_def)
next
  assume "\<exists>day. real_day day \<and> s = day_text day"
  then obtain y m d where d: "real_day (y, m, d)" "s = day_text (y, m, d)" by (metis prod_cases3)
  moreover have "y < 10 ^ 4" "m < 10 ^ 2" "d < 10 ^ 2"
    using d(1) days_of_le [of m "int y"] by (auto simp: real_day_def)
  ultimately show "is_date s" by (subst is_date_parts [OF _ _ _ d(2) [unfolded day_text_def prod.case]]) simp_all
qed

lemma digit_text_less:
  "a < 10 ^ w \<Longrightarrow> b < 10 ^ w \<Longrightarrow>
     (digit_text w a < digit_text w b \<longleftrightarrow> a < b) \<and> (digit_text w a = digit_text w b \<longleftrightarrow> a = b)"
  using digits_order [of "digit_text w a" "digit_text w b"] by simp

lemma day_order: "real_day a \<Longrightarrow> real_day b \<Longrightarrow> day_text a < day_text b \<longleftrightarrow> \<not> day_le b a"
proof -
  assume r: "real_day a" "real_day b"
  obtain y m d where a: "a = (y, m, d)" by (metis prod_cases3)
  obtain y' m' d' where b: "b = (y', m', d')" by (metis prod_cases3)
  have "y < 10 ^ 4" "m < 10 ^ 2" "d < 10 ^ 2" "y' < 10 ^ 4" "m' < 10 ^ 2" "d' < 10 ^ 2"
    using r days_of_le [of m "int y"] days_of_le [of m' "int y'"] by (auto simp: real_day_def a b)
  note less = digit_text_less [OF this(1,4)] digit_text_less [OF this(2,5)] digit_text_less [OF this(3,6)]
  show ?thesis
    by (simp only: day_text_def a b prod.case less_append length_digit_text Cons_less_Cons less day_le_def)
       (auto simp: less)
qed

lemma day_no_comma: "CHR '','' \<notin> set (day_text day)"
proof -
  have "CHR '','' \<notin> set (digit_text w n)" for w n
    using all_digits_text [of w n] by (auto simp: all_digits_def ascii_digit_def)
  then show ?thesis by (auto simp: day_text_def split: prod.split)
qed

lemma length_day_text [simp]: "length (day_text day) = 10"
  by (simp add: day_text_def split: prod.split)

text \<open>
  A range the request gives is one of the presets or an interval of the calendar: two days that exist,
  written in the one way the code reads, the first on or before the second in time, as the text
  comparison decides. Every range is written back as it was read.
\<close>

lemma range_is_preset_or_interval:
  "parse_range u v = Inr r \<longleftrightarrow> range_text r = v \<and>
     (r \<in> (\<lambda>p. zero_range\<lparr>rg_preset := p\<rparr>) ` set presets \<or>
      (\<exists>first last. real_day first \<and> real_day last \<and> day_le first last \<and>
         r = zero_range\<lparr>rg_from := day_text first, rg_to := day_text last\<rparr>))"
proof
  assume v: "parse_range u v = Inr r"
  from parse_range_reads [OF this] show "range_text r = v \<and>
     (r \<in> (\<lambda>p. zero_range\<lparr>rg_preset := p\<rparr>) ` set presets \<or>
      (\<exists>first last. real_day first \<and> real_day last \<and> day_le first last \<and>
         r = zero_range\<lparr>rg_from := day_text first, rg_to := day_text last\<rparr>))"
    using day_order by (fastforce simp: is_date_day not_less [symmetric])
next
  assume r: "range_text r = v \<and>
     (r \<in> (\<lambda>p. zero_range\<lparr>rg_preset := p\<rparr>) ` set presets \<or>
      (\<exists>first last. real_day first \<and> real_day last \<and> day_le first last \<and>
         r = zero_range\<lparr>rg_from := day_text first, rg_to := day_text last\<rparr>))"
  then show "parse_range u v = Inr r"
  proof (elim conjE disjE)
    assume "range_text r = v" "r \<in> (\<lambda>p. zero_range\<lparr>rg_preset := p\<rparr>) ` set presets"
    then show ?thesis by (auto simp: parse_range_def range_text_def presets_def)
  next
    assume v: "range_text r = v" and "\<exists>first last. real_day first \<and> real_day last \<and> day_le first last \<and>
         r = zero_range\<lparr>rg_from := day_text first, rg_to := day_text last\<rparr>"
    then obtain first last where d: "real_day first" "real_day last" "day_le first last"
      "r = zero_range\<lparr>rg_from := day_text first, rg_to := day_text last\<rparr>" by blast
    then have t: "v = day_text first @ '','' @ day_text last" using v by (simp add: range_text_def zero_range_def)
    then have "length v = 21" by simp
    then have "v \<notin> set presets" by (auto simp: presets_def)
    moreover have "is_date (day_text first)" "is_date (day_text last)"
      unfolding is_date_day using d by blast+
    moreover have "\<not> day_text last < day_text first" using day_order d by blast
    ultimately show ?thesis using d(4) t day_no_comma by (simp add: parse_range_def)
  qed
qed

subsection \<open>Facts: what an accepted request names\<close>

definition filter_text :: "lens_filter \<Rightarrow> string" where
  "filter_text f = (if fi_exclude f then CHR ''!'' # hd (fi_values f) else join_with '','' (fi_values f))"

definition value_allowed :: "dimension \<Rightarrow> string \<Rightarrow> bool" where
  "value_allowed dim v \<longleftrightarrow> v \<noteq> [] \<and>
     (if v = value_none then dm_null_wording dim \<noteq> [] else if v = value_empty then dm_empty dim
      else of_storage (dm_storage dim) v)"

definition filter_allowed :: "dimension \<Rightarrow> lens_filter \<Rightarrow> bool" where
  "filter_allowed dim f \<longleftrightarrow> fi_dimension f = dm_name dim \<and> dm_filterable dim \<and> fi_values f \<noteq> [] \<and>
     (if dm_search dim then \<not> fi_exclude f \<and> (\<exists>v. v \<noteq> [] \<and> fi_values f = [v])
      else list_all (value_allowed dim) (fi_values f) \<and> (if fi_exclude f then length (fi_values f) = 1 else True))"

lemma check_values_Inr:
  "check_values u dim f vs = Inr g \<Longrightarrow> [] \<notin> set vs \<Longrightarrow> g = f \<and> list_all (value_allowed dim) vs"
  by (induction u dim f vs rule: check_values.induct) (auto simp: value_allowed_def value_none_def value_empty_def split: if_splits)

lemma join_split: "join_with [c] (split_byte c v) = v"
  by (rule split_byte_join) (rule refl)

lemma parse_filter_Inr:
  assumes "parse_filter u dim v = Inr f" "dm_filterable dim"
  shows "filter_allowed dim f \<and> filter_text f = v"
proof (cases "dm_search dim")
  case True
  then show ?thesis
    using assms by (auto simp: parse_filter_def filter_allowed_def filter_text_def Let_def split: if_splits)
next
  case search: False
  show ?thesis
  proof (cases "cut_prefix v ''!''")
    case None
    with search assms(1) have e: "[] \<notin> set (split_byte CHR '','' v)"
      "check_values u dim \<lparr>fi_dimension = dm_name dim, fi_values = split_byte CHR '','' v, fi_exclude = False\<rparr>
         (split_byte CHR '','' v) = Inr f"
      by (auto simp: parse_filter_def Let_def split: if_splits)
    from check_values_Inr [OF e(2,1)] show ?thesis
      using search assms(2) by (auto simp: filter_allowed_def filter_text_def join_split)
  next
    case (Some rest)
    with search assms(1) have e: "[] \<notin> set [rest]"
      "check_values u dim \<lparr>fi_dimension = dm_name dim, fi_values = [rest], fi_exclude = True\<rparr> [rest] = Inr f"
      by (auto simp: parse_filter_def Let_def split: if_splits)
    have "v = CHR ''!'' # rest"
      using Some by (cases v) (auto simp: cut_prefix_def has_prefix_def split: if_splits)
    with check_values_Inr [OF e(2,1)] show ?thesis
      using search assms(2) by (auto simp: filter_allowed_def filter_text_def)
  qed
qed

lemma dimension_of_Some: "dimension_of d k = Some dim \<Longrightarrow> dim \<in> set (ds_dimensions d) \<and> dm_name dim = k"
  by (auto simp: dimension_of_def find_Some_iff)

lemma parse_filters_Inr:
  "parse_filters u d q fs par keys = Inr (fs', par') \<Longrightarrow>
   \<exists>gs. fs' = fs @ gs \<and>
     map fi_dimension gs = filter (\<lambda>k. \<not> (ds_parent d \<noteq> [] \<and> k = ds_parent d)) keys \<and>
     list_all (\<lambda>f. filter_text f = the (parameter q (fi_dimension f)) \<and>
        (\<exists>dim \<in> set (ds_dimensions d). filter_allowed dim f)) gs \<and>
     (if ds_parent d \<noteq> [] \<and> ds_parent d \<in> set keys then par' = the (parameter q (ds_parent d)) \<and> par' \<noteq> []
      else par' = par)"
proof (induction keys arbitrary: fs par)
  case (Cons key keys)
  show ?case
  proof (cases "ds_parent d \<noteq> [] \<and> key = ds_parent d")
    case True
    then have "the (parameter q key) \<noteq> []" "parse_filters u d q fs (the (parameter q key)) keys = Inr (fs', par')"
      using Cons.prems by (auto simp: Let_def split: if_splits)
    with Cons.IH [OF this(2)] True show ?thesis by (auto split: if_splits)
  next
    case False
    then obtain dim f where f: "dimension_of d key = Some dim" "dm_filterable dim"
        "parse_filter u dim (the (parameter q key)) = Inr f" "parse_filters u d q (fs @ [f]) par keys = Inr (fs', par')"
      using Cons.prems by (auto simp: Let_def and_then_Inr split: if_splits option.splits)
    have "filter_allowed dim f" "filter_text f = the (parameter q key)" "dim \<in> set (ds_dimensions d)" "dm_name dim = key"
      using parse_filter_Inr [OF f(3,2)] dimension_of_Some [OF f(1)] by simp_all
    moreover then have "fi_dimension f = key" by (simp add: filter_allowed_def)
    moreover obtain gs where "fs' = fs @ [f] @ gs"
       "map fi_dimension gs = filter (\<lambda>k. \<not> (ds_parent d \<noteq> [] \<and> k = ds_parent d)) keys"
       "list_all (\<lambda>f. filter_text f = the (parameter q (fi_dimension f)) \<and>
          (\<exists>dim \<in> set (ds_dimensions d). filter_allowed dim f)) gs"
       "if ds_parent d \<noteq> [] \<and> ds_parent d \<in> set keys then par' = the (parameter q (ds_parent d)) \<and> par' \<noteq> []
        else par' = par"
      using Cons.IH [OF f(4)] by auto
    ultimately show ?thesis using False by (intro exI [of _ "f # gs"]) auto
  qed
qed simp

text \<open>What an entry declares a request may name.\<close>

definition level_group_allowed :: "descriptor \<Rightarrow> request \<Rightarrow> bool" where
  "level_group_allowed d r \<longleftrightarrow>
     (rq_level r = de_level (ds_default d) \<or> rq_level r \<in> {0..3}) \<and>
     (if rq_level r \<in> {1, 2}
      then rq_group r \<noteq> [] \<and> (rq_group r = de_group (ds_default d) \<or>
             (\<exists>dim \<in> set (ds_dimensions d). dm_name dim = rq_group r \<and> dm_groupable dim))
      else rq_group r = [])"

definition order_allowed :: "unicode \<Rightarrow> descriptor \<Rightarrow> request \<Rightarrow> bool" where
  "order_allowed u d r \<longleftrightarrow>
     (rq_sort r = de_sort (ds_default d) \<or>
      (\<exists>dim \<in> set (ds_dimensions d). dm_name dim = so_column (rq_sort r) \<and> dm_sortable dim)) \<and>
     1 \<le> rq_page r \<and>
     (if ds_ranged d then parse_range u (range_text (rq_range r)) = Inr (rq_range r) else rq_range r = zero_range)"

definition filters_allowed :: "descriptor \<Rightarrow> query \<Rightarrow> request \<Rightarrow> bool" where
  "filters_allowed d q r \<longleftrightarrow>
     map fi_dimension (rq_filters r) = filter (\<lambda>k. \<not> (ds_parent d \<noteq> [] \<and> k = ds_parent d)) (filter_names q) \<and>
     list_all (\<lambda>f. filter_text f = the (parameter q (fi_dimension f)) \<and>
        (\<exists>dim \<in> set (ds_dimensions d). filter_allowed dim f)) (rq_filters r) \<and>
     (rq_parent r = [] \<longleftrightarrow> ds_parent d = []) \<and>
     (if rq_level r = 2 then rq_filters r \<noteq> [] else True)"

lemma parse_level_Inr:
  "parse_level u d q = Inr l \<Longrightarrow> l = de_level (ds_default d) \<or> l \<in> {0..3}"
  by (auto simp: parse_level_def split: if_splits option.splits)

lemma parse_group_Inr:
  "parse_group u d q l = Inr g \<Longrightarrow>
     (if l \<in> {1, 2} then g \<noteq> [] \<and> (g = de_group (ds_default d) \<or>
        (\<exists>dim \<in> set (ds_dimensions d). dm_name dim = g \<and> dm_groupable dim)) else g = [])"
  by (auto simp: parse_group_def and_then_Inr dest!: dimension_of_Some split: if_splits option.splits)

lemma parse_range_parameter_Inr:
  "parse_range_parameter u d q = Inr r \<Longrightarrow>
     (if ds_ranged d then parse_range u (range_text r) = Inr r else r = zero_range)"
  using parse_range_reads by (auto simp: parse_range_parameter_def split: if_splits option.splits)

lemma parse_sort_parameter_Inr:
  "parse_sort_parameter u d q = Inr s \<Longrightarrow>
     s = de_sort (ds_default d) \<or> (\<exists>dim \<in> set (ds_dimensions d). dm_name dim = so_column s \<and> dm_sortable dim)"
  by (auto simp: parse_sort_parameter_def dest!: parse_sort_reads dimension_of_Some split: option.splits)

lemma accepted_requests_declared:
  "case parse_request u catalogue q of
     Inl e \<Rightarrow> True
   | Inr r \<Rightarrow> (\<exists>d \<in> set catalogue. rq_dataset r = ds_name d \<and> parameter q ''dataset'' = Some (ds_name d) \<and>
       level_group_allowed d r \<and> order_allowed u d r \<and> filters_allowed d q r)"
proof (cases "parse_request u catalogue q")
  case (Inr r)
  then obtain d level g range sorts page fs par where d: "find (\<lambda>d. ds_name d = the (parameter q ''dataset'')) catalogue = Some d"
      "parameter q ''dataset'' \<noteq> None" and
    p: "parse_level u d q = Inr level" "parse_group u d q level = Inr g" "parse_range_parameter u d q = Inr range"
      "parse_sort_parameter u d q = Inr sorts" "parse_page u q = Inr page"
      "parse_filters u d q [] [] (filter_names q) = Inr (fs, par)" and
    ok: "\<not> (ds_parent d \<noteq> [] \<and> par = [])" "\<not> (level = 2 \<and> fs = [])" and
    r: "r = \<lparr>rq_dataset = ds_name d, rq_level = level, rq_group = g, rq_range = range,
              rq_filters = fs, rq_parent = par, rq_sort = sorts, rq_page = page\<rparr>"
    unfolding parse_request_def
    by (auto simp: and_then_Inr split: option.splits prod.splits if_splits)
  have member: "d \<in> set catalogue" "the (parameter q ''dataset'') = ds_name d"
    using d(1) by (auto simp: find_Some_iff)
  have "level_group_allowed d r"
    using parse_level_Inr [OF p(1)] parse_group_Inr [OF p(2)] by (simp add: level_group_allowed_def r)
  moreover have "order_allowed u d r"
    using parse_range_parameter_Inr [OF p(3)] parse_sort_parameter_Inr [OF p(4)] parse_page_reads [OF p(5)]
    by (simp add: order_allowed_def r)
  moreover have "filters_allowed d q r"
    using parse_filters_Inr [OF p(6)] ok by (auto simp: filters_allowed_def r split: if_splits)
  ultimately show ?thesis using member d(2) r Inr by auto
qed simp

text \<open>
  C38. The endpoint is not an open query surface. A request it accepts is of a dataset of the catalogue and
  names only what that entry declares: a level there is, a groupable group where the level groups, a
  sortable column, a page from one, a range where the dataset has one, and as filters exactly the
  request's other parameters, each on a filterable dimension, with values of its kind, and holding the
  text the request gave. A nested dataset's parent is given and any other's is not, and a cohort has a
  filter.
\<close>

theorem accepted_requests_are_declared:
  "case parse_request u catalogue q of
     Inl e \<Rightarrow> True
   | Inr r \<Rightarrow> (\<exists>d \<in> set catalogue. rq_dataset r = ds_name d \<and> parameter q ''dataset'' = Some (ds_name d) \<and>
       level_group_allowed d r \<and> order_allowed u d r \<and> filters_allowed d q r)"
  by (rule accepted_requests_declared)

end
