(* ===== verification/Datasets.thy ===== *)
theory Datasets
  imports Lens IndexCore
begin

text \<open>
  \<open>ui/internal/registry\<close>: the datasets the dataset endpoint serves and what it does with an accepted
  request. A dataset's statements are named by the Go functions that run them, so an entry is data, and
  the endpoint's answer to a request is the names of the statements it runs, None where it reports that
  no statement serves the request. The database the statements read is not modelled. The lemmas show
  that every request the core accepts on the registry as declared runs its statements with parameters
  that decode, and which rows a page reads.
\<close>

subsection \<open>Entries\<close>

record dataset =
  da_descriptor :: descriptor
  da_message_derived :: bool
  da_summary :: "string option"
  da_rows :: "string option"
  da_aggregates :: "(string \<times> string option) list"
  da_detail :: "string option"

definition descriptors :: "dataset list \<Rightarrow> descriptor list" where
  "descriptors ds = map da_descriptor ds"

definition zero_dimension :: dimension where
  "zero_dimension = \<lparr>dm_name = [], dm_storage = [], dm_groupable = False, dm_filterable = False, dm_sortable = False,
     dm_wording = [], dm_null_wording = [], dm_empty = False, dm_values = [], dm_search = False\<rparr>"

definition sortable_dim :: "string \<Rightarrow> string \<Rightarrow> string \<Rightarrow> dimension" where
  "sortable_dim name storage wording =
     zero_dimension\<lparr>dm_name := name, dm_storage := storage, dm_sortable := True, dm_wording := wording\<rparr>"

definition filter_dim :: "string \<Rightarrow> string \<Rightarrow> string \<Rightarrow> string list \<Rightarrow> dimension" where
  "filter_dim name storage wording values =
     zero_dimension\<lparr>dm_name := name, dm_storage := storage, dm_filterable := True, dm_wording := wording,
       dm_values := values\<rparr>"

definition group_dim :: "string \<Rightarrow> string \<Rightarrow> string \<Rightarrow> string list \<Rightarrow> dimension" where
  "group_dim name storage wording values = (filter_dim name storage wording values)\<lparr>dm_groupable := True\<rparr>"

definition row_defaults :: "string \<Rightarrow> string \<Rightarrow> bool \<Rightarrow> (string \<times> string list) list \<Rightarrow> defaults" where
  "row_defaults preset column descending filters =
     \<lparr>de_group = [], de_level = level_rows, de_range = preset,
      de_sort = \<lparr>so_column = column, so_descending = descending\<rparr>, de_filters = filters\<rparr>"

definition plan_statuses :: "string list" where
  "plan_statuses = [''DRAFT'', ''APPROVED'', ''APPLYING'', ''APPLIED'', ''ROLLED_BACK'', ''REJECTED'', ''APPLY_REFUSED'']"

definition plans :: dataset where
  "plans = \<lparr>da_descriptor =
      \<lparr>ds_name = ''plans'', ds_parent = [], ds_ranged = True, ds_range_column = ''created_at'',
       ds_dimensions = [filter_dim ''status'' ''text'' ''status'' plan_statuses,
         sortable_dim ''created_at'' ''time'' ''created''],
       ds_default = row_defaults ''all'' ''created_at'' True [], ds_identity = None\<rparr>,
     da_message_derived = False, da_summary = Some ''planSummary'', da_rows = Some ''planRows'',
     da_aggregates = [], da_detail = None\<rparr>"

definition candidate_statuses :: "string list" where
  "candidate_statuses = [''pending'', ''confirmed'', ''dismissed'']"

definition candidates :: dataset where
  "candidates = \<lparr>da_descriptor =
      \<lparr>ds_name = ''candidates'', ds_parent = [], ds_ranged = True, ds_range_column = ''created_at'',
       ds_dimensions = [filter_dim ''status'' ''text'' ''status'' candidate_statuses,
         sortable_dim ''score'' ''number'' ''score'', sortable_dim ''created_at'' ''time'' ''time in queue''],
       ds_default = row_defaults ''all'' ''score'' True [(''status'', [''pending''])], ds_identity = None\<rparr>,
     da_message_derived = False, da_summary = Some ''candidateSummary'', da_rows = Some ''candidateRows'',
     da_aggregates = [], da_detail = None\<rparr>"

definition workloads :: "string list" where
  "workloads = [''backfill'', ''sync'', ''apply'', ''heuristics'']"
definition passes :: "string list" where
  "passes = [''pass1'', ''pass2'', ''tick'', ''gap_recovery'', ''apply'', ''rollback'']"
definition run_states :: "string list" where
  "run_states = [''running'', ''succeeded'', ''failed'']"

definition runs :: dataset where
  "runs = \<lparr>da_descriptor =
      \<lparr>ds_name = ''runs'', ds_parent = [], ds_ranged = True, ds_range_column = ''started_at'',
       ds_dimensions = [group_dim ''workload'' ''text'' ''workload'' workloads,
         group_dim ''state'' ''text'' ''state'' run_states, group_dim ''day'' ''date'' ''day'' [],
         filter_dim ''pass'' ''text'' ''pass'' passes, sortable_dim ''started_at'' ''time'' ''started'',
         sortable_dim ''duration'' ''number'' ''duration'', sortable_dim ''failures'' ''number'' ''failures''],
       ds_default = row_defaults ''7d'' ''started_at'' True [(''pass'', [''!tick''])], ds_identity = None\<rparr>,
     da_message_derived = False, da_summary = Some ''runSummary'', da_rows = Some ''runRows'',
     da_aggregates = [(''workload'', Some ''runsByWorkload''), (''state'', Some ''runsByState''),
       (''day'', Some ''runsByDay'')], da_detail = None\<rparr>"

definition error_classes :: "string list" where
  "error_classes = [''throttled'', ''provider_error'', ''gone'', ''scanner_timeout'', ''validation'',
     ''authentication'', ''refused'']"
definition dispositions :: "string list" where
  "dispositions = [''recovered'', ''pending'', ''gone'', ''abandoned'', ''refused'']"

definition failures :: dataset where
  "failures = \<lparr>da_descriptor =
      \<lparr>ds_name = ''failures'', ds_parent = ''run'', ds_ranged = False, ds_range_column = [],
       ds_dimensions = [group_dim ''error_class'' ''text'' ''error class'' error_classes,
         (group_dim ''sender'' ''text'' ''sender'' [])\<lparr>dm_null_wording := ''no message'', dm_empty := True\<rparr>,
         (group_dim ''page_number'' ''number'' ''page'' [])\<lparr>dm_null_wording := ''no page''\<rparr>,
         group_dim ''disposition'' ''text'' ''disposition'' dispositions,
         sortable_dim ''last_at'' ''time'' ''last error'', sortable_dim ''attempts'' ''number'' ''attempts''],
       ds_default = \<lparr>de_group = ''error_class'', de_level = level_distribution, de_range = [],
         de_sort = \<lparr>so_column = ''last_at'', so_descending = True\<rparr>, de_filters = []\<rparr>,
       ds_identity = Some \<lparr>ri_name = ''seq'', ri_storage = ''number''\<rparr>\<rparr>,
     da_message_derived = True, da_summary = Some ''summary'', da_rows = Some ''rows'',
     da_aggregates = [(''error_class'', Some ''byErrorClass''), (''sender'', Some ''bySender''),
       (''page_number'', Some ''byPage''), (''disposition'', Some ''byDisposition'')],
     da_detail = Some ''detail''\<rparr>"

definition policy_rules :: dataset where
  "policy_rules = \<lparr>da_descriptor =
      \<lparr>ds_name = ''rules'', ds_parent = [], ds_ranged = True, ds_range_column = ''created_at'',
       ds_dimensions = [(filter_dim ''search'' ''text'' ''search'' [])\<lparr>dm_search := True\<rparr>,
         sortable_dim ''rule_id'' ''text'' ''rule''],
       ds_default = row_defaults ''all'' ''rule_id'' False [],
       ds_identity = Some \<lparr>ri_name = ''rule'', ri_storage = ''text''\<rparr>\<rparr>,
     da_message_derived = False, da_summary = Some ''rulesSummary'', da_rows = Some ''rulesRows'',
     da_aggregates = [], da_detail = Some ''ruleDetail''\<rparr>"

definition change_actions :: "string list" where
  "change_actions = [''added'', ''edited'', ''lifted'', ''confirmed'']"

definition policy_changes :: dataset where
  "policy_changes = \<lparr>da_descriptor =
      \<lparr>ds_name = ''policy_changes'', ds_parent = [], ds_ranged = True, ds_range_column = ''ts'',
       ds_dimensions = [group_dim ''action'' ''text'' ''action'' change_actions,
         (group_dim ''scope'' ''text'' ''scope'' [])\<lparr>dm_null_wording := ''base''\<rparr>,
         group_dim ''actor'' ''text'' ''identity'' [], group_dim ''day'' ''date'' ''day'' [],
         filter_dim ''rule'' ''text'' ''rule'' [], sortable_dim ''ts'' ''time'' ''time''],
       ds_default = row_defaults ''30d'' ''ts'' True [], ds_identity = None\<rparr>,
     da_message_derived = False, da_summary = Some ''changesSummary'', da_rows = Some ''changesRows'',
     da_aggregates = [(''action'', Some ''changesByAction''), (''scope'', Some ''changesByScope''),
       (''actor'', Some ''changesByActor''), (''day'', Some ''changesByDay'')], da_detail = None\<rparr>"

definition sender_dataset :: dataset where
  "sender_dataset = \<lparr>da_descriptor =
      \<lparr>ds_name = ''senders'', ds_parent = [], ds_ranged = False, ds_range_column = [],
       ds_dimensions = [(filter_dim ''search'' ''text'' ''search'' [])\<lparr>dm_search := True\<rparr>,
         sortable_dim ''message_count'' ''number'' ''messages''],
       ds_default = row_defaults [] ''message_count'' True [], ds_identity = None\<rparr>,
     da_message_derived = False, da_summary = Some ''sendersSummary'', da_rows = Some ''senderRows'',
     da_aggregates = [], da_detail = None\<rparr>"

definition datasets :: "dataset list" where
  "datasets = [plans, candidates, runs, failures, policy_rules, policy_changes, sender_dataset]"

subsection \<open>The statement-set check\<close>

definition aggregate_of :: "dataset \<Rightarrow> string \<Rightarrow> string option" where
  "aggregate_of d name = (case map_of (da_aggregates d) name of None \<Rightarrow> None | Some f \<Rightarrow> f)"

definition dataset_problems :: "string set \<Rightarrow> dataset \<Rightarrow> string list" where
  "dataset_problems seen d =
     (let name = ds_name (da_descriptor d); dims = ds_dimensions (da_descriptor d)
      in (if name \<in> seen then [name @ '': declared twice''] else []) @
         (if da_summary d = None then [name @ '': no summary statement''] else []) @
         (if da_rows d = None then [name @ '': no rows statement''] else []) @
         (if ds_identity (da_descriptor d) \<noteq> None \<and> da_detail d = None
          then [name @ '': a row identity with no provenance query''] else []) @
         (if ds_identity (da_descriptor d) = None \<and> da_detail d \<noteq> None
          then [name @ '': a provenance query with no row identity''] else []) @
         concat (map (\<lambda>dim. if dm_name dim \<in> set parameters \<or> dm_name dim = ds_parent (da_descriptor d)
           then [name @ '': the dimension '' @ dm_name dim @ '' is named as a parameter''] else []) dims) @
         concat (map (\<lambda>dim. if dm_groupable dim \<and> aggregate_of d (dm_name dim) = None
           then [name @ '': the groupable dimension '' @ dm_name dim @ '' has no aggregate statement''] else []) dims) @
         concat (map (\<lambda>n. if (case dimension_of (da_descriptor d) n of None \<Rightarrow> True | Some x \<Rightarrow> \<not> dm_groupable x)
           then [name @ '': an aggregate statement for '' @ n @ '', which is not a groupable dimension''] else [])
           (sort (map fst (da_aggregates d)))))"

fun check_datasets_from :: "string set \<Rightarrow> dataset list \<Rightarrow> string list" where
  "check_datasets_from seen [] = []"
| "check_datasets_from seen (d # ds) =
     dataset_problems seen d @ check_datasets_from (insert (ds_name (da_descriptor d)) seen) ds"

definition check_datasets :: "dataset list \<Rightarrow> string list" where
  "check_datasets ds = check_datasets_from {} ds"

subsection \<open>Parameters of the statements\<close>

text \<open>The inclusion and exclusion lists of one dimension's filter, and those of one with a null group.\<close>

definition split_filter :: "request \<Rightarrow> string \<Rightarrow> string list option \<times> string list option" where
  "split_filter r dimension =
     (case filter_of r dimension of
        None \<Rightarrow> (None, None)
      | Some f \<Rightarrow>
         (let values = map (\<lambda>v. if v = value_empty then [] else v) (fi_values f)
          in if fi_exclude f then (None, Some values) else (Some values, None)))"

definition status_filter :: "request \<Rightarrow> string list option \<times> string list option" where
  "status_filter r =
     (case filter_of r ''status'' of
        None \<Rightarrow> (None, None)
      | Some f \<Rightarrow> if fi_exclude f then (None, Some (fi_values f)) else (Some (fi_values f), None))"

definition listed :: "string list option \<Rightarrow> string list" where
  "listed vs = (case vs of None \<Rightarrow> [] | Some vs \<Rightarrow> vs)"

record nullable =
  nu_in :: "string list option"
  nu_out :: "string list option"
  nu_in_none :: bool
  nu_out_none :: bool

definition some_unless_empty :: "'a list \<Rightarrow> 'a list option" where
  "some_unless_empty xs = (if xs = [] then None else Some xs)"

definition split_nullable :: "request \<Rightarrow> string \<Rightarrow> nullable" where
  "split_nullable r dimension =
     (case split_filter r dimension of (i, out) \<Rightarrow>
       \<lparr>nu_in = some_unless_empty (filter (\<lambda>v. v \<noteq> value_none) (listed i)),
        nu_out = some_unless_empty (filter (\<lambda>v. v \<noteq> value_none) (listed out)),
        nu_in_none = list_ex (\<lambda>v. v = value_none) (listed i),
        nu_out_none = list_ex (\<lambda>v. v = value_none) (listed out)\<rparr>)"

text \<open>The values as dates, by \<open>time.Parse\<close> in the layout of a day, and as whole numbers, None where one does not
  parse.\<close>

fun each_parsed :: "('a \<Rightarrow> 'b option) \<Rightarrow> 'a list \<Rightarrow> 'b list option" where
  "each_parsed f [] = Some []"
| "each_parsed f (v # vs) =
     (case f v of None \<Rightarrow> None
      | Some x \<Rightarrow> (case each_parsed f vs of None \<Rightarrow> None | Some xs \<Rightarrow> Some (x # xs)))"

definition parse_day :: "string \<Rightarrow> (int \<times> int \<times> int) option" where
  "parse_day v =
     (let year = int (digits_value (take 4 v)); month = int (digits_value (take 2 (drop 5 v)));
          day = int (digits_value (drop 8 v))
      in if length v = 10 \<and> v ! 4 = CHR ''-'' \<and> v ! 7 = CHR ''-'' \<and>
            list_all (\<lambda>c. ascii_digit (byte c)) (take 4 v @ take 2 (drop 5 v) @ drop 8 v) \<and>
            1 \<le> month \<and> month \<le> 12 \<and> 1 \<le> day \<and> day \<le> days_of year month
         then Some (year, month, day) else None)"

definition parse_dates :: "string list option \<Rightarrow> (int \<times> int \<times> int) list option option" where
  "parse_dates vs = (case vs of None \<Rightarrow> Some None | Some vs \<Rightarrow> map_option Some (each_parsed parse_day vs))"

definition parse_whole :: "string list option \<Rightarrow> int list option option" where
  "parse_whole vs = (case vs of None \<Rightarrow> Some None | Some vs \<Rightarrow> map_option Some (each_parsed (parse_int 32) vs))"

definition stored_domains :: "unicode \<Rightarrow> string list option \<Rightarrow> string list option" where
  "stored_domains u ds = map_option (map (stored_domain u)) ds"

record run_filters =
  rf_workload :: "string list option \<times> string list option"
  rf_state :: "string list option \<times> string list option"
  rf_pass :: "string list option \<times> string list option"
  rf_day_in :: "(int \<times> int \<times> int) list option"
  rf_day_out :: "(int \<times> int \<times> int) list option"

definition run_filters_of :: "request \<Rightarrow> run_filters option" where
  "run_filters_of r =
     (let (day_in, day_out) = split_filter r ''day'' in
      case parse_dates day_in of None \<Rightarrow> None | Some i \<Rightarrow>
      case parse_dates day_out of None \<Rightarrow> None | Some out \<Rightarrow>
        Some \<lparr>rf_workload = split_filter r ''workload'', rf_state = split_filter r ''state'',
              rf_pass = split_filter r ''pass'', rf_day_in = i, rf_day_out = out\<rparr>)"

record failure_filters =
  ff_error_class :: "string list option \<times> string list option"
  ff_disposition :: "string list option \<times> string list option"
  ff_sender :: nullable
  ff_page_in :: "int list option"
  ff_page_out :: "int list option"
  ff_page_in_none :: bool
  ff_page_out_none :: bool

definition failure_filters_of :: "unicode \<Rightarrow> request \<Rightarrow> failure_filters option" where
  "failure_filters_of u r =
     (let sender = split_nullable r ''sender''; page = split_nullable r ''page_number'' in
      case parse_whole (nu_in page) of None \<Rightarrow> None | Some i \<Rightarrow>
      case parse_whole (nu_out page) of None \<Rightarrow> None | Some out \<Rightarrow>
        Some \<lparr>ff_error_class = split_filter r ''error_class'', ff_disposition = split_filter r ''disposition'',
              ff_sender = sender\<lparr>nu_in := stored_domains u (nu_in sender), nu_out := stored_domains u (nu_out sender)\<rparr>,
              ff_page_in = i, ff_page_out = out,
              ff_page_in_none = nu_in_none page, ff_page_out_none = nu_out_none page\<rparr>)"

record change_filters =
  cf_base_rows :: bool
  cf_own_rows :: bool
  cf_action :: "string list option \<times> string list option"
  cf_actor :: "string list option \<times> string list option"
  cf_rule :: "string list option \<times> string list option"
  cf_day_in :: "(int \<times> int \<times> int) list option"
  cf_day_out :: "(int \<times> int \<times> int) list option"

definition change_filters_of :: "string \<Rightarrow> request \<Rightarrow> change_filters option" where
  "change_filters_of account r =
     (let (day_in, day_out) = split_filter r ''day'' in
      case parse_dates day_in of None \<Rightarrow> None | Some i \<Rightarrow>
      case parse_dates day_out of None \<Rightarrow> None | Some out \<Rightarrow>
        let (base, own) = (case filter_of r ''scope'' of
              None \<Rightarrow> (True, True)
            | Some f \<Rightarrow>
               (let b = value_none \<in> set (fi_values f); mine = account \<in> set (fi_values f)
                in if fi_exclude f then (\<not> b, \<not> mine) else (b, mine)))
        in Some \<lparr>cf_base_rows = base, cf_own_rows = own, cf_action = split_filter r ''action'',
              cf_actor = split_filter r ''actor'', cf_rule = split_filter r ''rule'',
              cf_day_in = i, cf_day_out = out\<rparr>)"

text \<open>The first row of a page: the product in 64 bits, and what a 32-bit parameter takes of it.\<close>

definition row_offset :: "request \<Rightarrow> 32 word \<times> bool" where
  "row_offset r =
     (let first = (word_of_int (rq_page r - 1) :: int64) * word_of_int rows_per_page
      in if sint first > 2147483647 then (0, False) else (ucast first, True))"

subsection \<open>The dataset endpoint\<close>

text \<open>The dataset of a request, the last entry of its name, and the statements that answer it.\<close>

definition dataset_of :: "dataset list \<Rightarrow> string \<Rightarrow> dataset option" where
  "dataset_of ds name = foldl (\<lambda>found d. if ds_name (da_descriptor d) = name then Some d else found) None ds"

definition lens_statements :: "dataset list \<Rightarrow> request \<Rightarrow> string list option" where
  "lens_statements ds r =
     (case dataset_of ds (rq_dataset r) of
        None \<Rightarrow> None
      | Some d \<Rightarrow> (case da_summary d of
          None \<Rightarrow> None
        | Some summary \<Rightarrow>
            if rq_level r = level_summary then Some [summary]
            else if rq_level r = level_rows
            then (case da_rows d of None \<Rightarrow> None | Some rows \<Rightarrow> Some [summary, rows])
            else (case aggregate_of d (rq_group r) of None \<Rightarrow> None | Some f \<Rightarrow> Some [summary, f])))"

definition applied_filters :: "request \<Rightarrow> string \<rightharpoonup> string" where
  "applied_filters r =
     foldl (\<lambda>m f. m(fi_dimension f \<mapsto>
         (let v = join_with '','' (fi_values f) in if fi_exclude f then CHR ''!'' # v else v)))
       (if rq_range r \<noteq> zero_range then [''range'' \<mapsto> range_text (rq_range r)] else Map.empty) (rq_filters r)"

subsection \<open>Every accepted request is served\<close>

lemma check_datasets_clean:
  "check_datasets_from seen ds = [] \<longleftrightarrow>
     list_all (\<lambda>d. dataset_problems {} d = []) ds \<and> distinct (map (ds_name \<circ> da_descriptor) ds) \<and>
     seen \<inter> set (map (ds_name \<circ> da_descriptor) ds) = {}"
proof (induction ds arbitrary: seen)
  case (Cons d ds)
  have "dataset_problems seen d = [] \<longleftrightarrow> dataset_problems {} d = [] \<and> ds_name (da_descriptor d) \<notin> seen"
    unfolding dataset_problems_def Let_def by auto
  then show ?case by (auto simp: Cons.IH)
qed simp

lemma if_Nil: "(if c then [x] else []) = [] \<longleftrightarrow> \<not> c"
  by simp

lemma concat_if_Nil: "concat (map (\<lambda>x. if P x then [f x] else []) xs) = [] \<longleftrightarrow> (\<forall>x \<in> set xs. \<not> P x)"
  by auto

lemma clean_dataset:
  assumes "dataset_problems {} d = []"
  shows "da_summary d \<noteq> None" "da_rows d \<noteq> None"
    "dm \<in> set (ds_dimensions (da_descriptor d)) \<Longrightarrow> dm_groupable dm \<Longrightarrow> aggregate_of d (dm_name dm) \<noteq> None"
  using assms unfolding dataset_problems_def Let_def append_is_Nil_conv if_Nil concat_if_Nil by (blast, blast, simp)

lemma dataset_of_unique:
  assumes "distinct (map (ds_name \<circ> da_descriptor) ds)" "d \<in> set ds"
  shows "dataset_of ds (ds_name (da_descriptor d)) = Some d"
proof -
  have fold: "foldl (\<lambda>found d. if ds_name (da_descriptor d) = name then Some d else found) e ds =
      (case find (\<lambda>d. ds_name (da_descriptor d) = name) (rev ds) of None \<Rightarrow> e | Some d \<Rightarrow> Some d)" for e name
    by (induction ds rule: rev_induct) (auto split: option.split)
  have "find (\<lambda>x. ds_name (da_descriptor x) = ds_name (da_descriptor d)) (rev ds) = Some d"
  proof (cases "find (\<lambda>x. ds_name (da_descriptor x) = ds_name (da_descriptor d)) (rev ds)")
    case None
    then show ?thesis using assms(2) by (auto simp: find_None_iff)
  next
    case (Some x)
    then have "x \<in> set ds" "ds_name (da_descriptor x) = ds_name (da_descriptor d)"
      by (auto simp: find_Some_iff) (metis nth_mem length_rev set_rev)
    then show ?thesis using Some assms by (auto simp: distinct_map inj_on_def)
  qed
  then show ?thesis by (simp add: dataset_of_def fold)
qed

text \<open>The defaults of an entry are what the endpoint can serve.\<close>

definition defaults_served :: "descriptor \<Rightarrow> bool" where
  "defaults_served d \<longleftrightarrow> de_level (ds_default d) \<in> {0..3} \<and>
     (de_group (ds_default d) \<noteq> [] \<longrightarrow>
       (\<exists>dm \<in> set (ds_dimensions d). dm_name dm = de_group (ds_default d) \<and> dm_groupable dm))"

lemma clean_registry_serves:
  assumes "check_datasets ds = []" "d \<in> set ds" "defaults_served (da_descriptor d)"
    "level_group_allowed (da_descriptor d) r" "rq_dataset r = ds_name (da_descriptor d)"
  shows "\<exists>ss. lens_statements ds r = Some ss \<and> length ss = (if rq_level r = 0 then 1 else 2)"
proof -
  have clean: "dataset_problems {} d = []" and found: "dataset_of ds (rq_dataset r) = Some d"
    using assms(1,2) dataset_of_unique [of ds d]
    by (auto simp: check_datasets_def check_datasets_clean list_all_iff assms(5))
  have "rq_level r \<in> {0..3}" using assms(3,4) by (auto simp: defaults_served_def level_group_allowed_def)
  then have level: "rq_level r = 0 \<or> rq_level r = 3 \<or> rq_level r \<in> {1, 2}" by auto
  have agg: "\<exists>f. aggregate_of d (rq_group r) = Some f" if lv: "rq_level r \<in> {1, 2}"
  proof -
    obtain dm where "dm \<in> set (ds_dimensions (da_descriptor d))" "dm_name dm = rq_group r" "dm_groupable dm"
      using assms(3,4) unfolding defaults_served_def level_group_allowed_def if_P [OF lv] by metis
    then show ?thesis using clean_dataset(3) [OF clean, of dm] by auto
  qed
  then show ?thesis
    using clean_dataset(1,2) [OF clean] level agg by (auto simp: lens_statements_def found)
qed

lemma registry_clean: "check_datasets datasets = []"
  by code_simp

lemma registry_defaults: "list_all defaults_served (descriptors datasets)"
  by (simp add: datasets_def descriptors_def defaults_served_def plans_def candidates_def runs_def failures_def
      policy_rules_def policy_changes_def sender_dataset_def row_defaults_def group_dim_def filter_dim_def)

lemma parse_day_text: "real_day day \<Longrightarrow> parse_day (day_text day) \<noteq> None"
proof -
  assume r: "real_day day"
  obtain y m d where day: "day = (y, m, d)" by (metis prod_cases3)
  let ?a = "digit_text 4 y" and ?b = "digit_text 2 m" and ?c = "digit_text 2 d"
  have t: "day_text day = ?a @ CHR ''-'' # ?b @ CHR ''-'' # ?c" by (simp add: day_text_def day)
  have parts: "take 4 (day_text day) = ?a" "take 2 (drop 5 (day_text day)) = ?b" "drop 8 (day_text day) = ?c"
    "day_text day ! 4 = CHR ''-''" "day_text day ! 7 = CHR ''-''"
    unfolding t by (simp_all add: nth_append)
  have "y < 10 ^ 4" "m < 10 ^ 2" "d < 10 ^ 2"
    using r days_of_le [of m "int y"] by (auto simp: real_day_def day)
  then show ?thesis
    unfolding parse_day_def parts Let_def
    using r all_digits_text [of 4 y] all_digits_text [of 2 m] all_digits_text [of 2 d]
    by (auto simp: real_day_def day list_all_iff all_digits_def)
qed

lemma each_parsed_Some: "(\<And>v. v \<in> set vs \<Longrightarrow> f v \<noteq> None) \<Longrightarrow> each_parsed f vs \<noteq> None"
  by (induction vs) (auto split: option.split)

lemma dataset_names:
  "ds_name (da_descriptor plans) = ''plans''" "ds_name (da_descriptor candidates) = ''candidates''"
  "ds_name (da_descriptor runs) = ''runs''" "ds_name (da_descriptor failures) = ''failures''"
  "ds_name (da_descriptor policy_rules) = ''rules''" "ds_name (da_descriptor policy_changes) = ''policy_changes''"
  "ds_name (da_descriptor sender_dataset) = ''senders''"
  by (simp_all add: plans_def candidates_def runs_def failures_def policy_rules_def policy_changes_def sender_dataset_def)

lemma dims_name:
  "dm_name (group_dim n st w vs) = n" "dm_name (filter_dim n st w vs) = n" "dm_name (sortable_dim n st w) = n"
  by (simp_all add: group_dim_def filter_dim_def sortable_dim_def zero_dimension_def)

text \<open>The filter of a dimension the entry declares once.\<close>

lemma filter_of_allowed:
  assumes "filters_allowed d q r" "filter_of r name = Some f"
    "\<And>x. x \<in> set (ds_dimensions d) \<Longrightarrow> dm_name x = name \<Longrightarrow> x = the_dim"
  shows "filter_allowed the_dim f"
proof -
  have f: "f \<in> set (rq_filters r)" "fi_dimension f = name"
    using assms(2) by (auto simp: filter_of_def find_Some_iff)
  then obtain x where "x \<in> set (ds_dimensions d)" "filter_allowed x f"
    using assms(1) by (auto simp: filters_allowed_def list_all_iff)
  then show ?thesis using assms(3) f by (auto simp: filter_allowed_def)
qed

lemma day_filter_parses:
  assumes "filters_allowed d q r" "day_dim = group_dim ''day'' ''date'' wording vals"
    "\<And>x. x \<in> set (ds_dimensions d) \<Longrightarrow> dm_name x = ''day'' \<Longrightarrow> x = day_dim"
  shows "\<exists>i out. parse_dates (fst (split_filter r ''day'')) = Some i \<and> parse_dates (snd (split_filter r ''day'')) = Some out"
proof (cases "filter_of r ''day''")
  case None
  then show ?thesis by (simp add: split_filter_def parse_dates_def)
next
  case (Some f)
  have "filter_allowed day_dim f" by (rule filter_of_allowed [OF assms(1) Some assms(3)])
  then have v: "v \<noteq> value_empty \<and> is_date v" if "v \<in> set (fi_values f)" for v
    using that by (auto simp: filter_allowed_def value_allowed_def list_all_iff assms(2) group_dim_def filter_dim_def
        zero_dimension_def of_storage_def split: if_splits)
  then have "map (\<lambda>v. if v = value_empty then [] else v) (fi_values f) = fi_values f" by (simp add: map_idI)
  moreover have "each_parsed parse_day (fi_values f) \<noteq> None"
    using v parse_day_text unfolding is_date_day by (metis each_parsed_Some)
  ultimately show ?thesis using Some by (auto simp: split_filter_def parse_dates_def Let_def)
qed

lemma page_filter_parses:
  assumes "filters_allowed d q r"
    "page_dim = (group_dim name ''number'' wording vals)\<lparr>dm_null_wording := null\<rparr>"
    "\<And>x. x \<in> set (ds_dimensions d) \<Longrightarrow> dm_name x = name \<Longrightarrow> x = page_dim"
  shows "\<exists>i out. parse_whole (nu_in (split_nullable r name)) = Some i \<and> parse_whole (nu_out (split_nullable r name)) = Some out"
proof (cases "filter_of r name")
  case None
  then show ?thesis by (simp add: split_nullable_def split_filter_def parse_whole_def listed_def some_unless_empty_def)
next
  case (Some f)
  have "filter_allowed page_dim f" by (rule filter_of_allowed [OF assms(1) Some assms(3)])
  then have v: "v \<noteq> value_empty \<and> (v = value_none \<or> is_whole v)" if "v \<in> set (fi_values f)" for v
    using that by (auto simp: filter_allowed_def value_allowed_def list_all_iff assms(2) group_dim_def filter_dim_def
        zero_dimension_def of_storage_def value_none_def value_empty_def split: if_splits)
  then have same: "map (\<lambda>v. if v = value_empty then [] else v) (fi_values f) = fi_values f" by (simp add: map_idI)
  have "parse_int 32 x \<noteq> None" if "x \<in> set (filter (\<lambda>v. v \<noteq> value_none) (fi_values f))" for x
    using v [of x] that by (auto simp: is_whole_def split: option.splits)
  then have "each_parsed (parse_int 32) (filter (\<lambda>v. v \<noteq> value_none) (fi_values f)) \<noteq> None"
    by (rule each_parsed_Some)
  then show ?thesis
    using Some same by (auto simp: split_nullable_def split_filter_def parse_whole_def listed_def some_unless_empty_def
        Let_def split: if_split)
qed

text \<open>
  On the registry as declared, a request the endpoint accepts is of one of its datasets, the statements that
  answer it are declared, a summary alone at level 0 and one more at any other, and its filters decode into
  those statements' parameters. Its page may still not: \<open>last_page_wraps\<close> has one whose offset wraps.
\<close>

lemma accepted_requests_find_their_statements:
  "case parse_request u (descriptors datasets) q of
     Inl e \<Rightarrow> True
   | Inr r \<Rightarrow>
      (case lens_statements datasets r of
         None \<Rightarrow> False
       | Some ss \<Rightarrow> length ss = (if rq_level r = level_summary then 1 else 2)) \<and>
      (if rq_dataset r = ''runs'' then run_filters_of r \<noteq> None
       else if rq_dataset r = ''policy_changes'' then change_filters_of account r \<noteq> None
       else if rq_dataset r = ''failures'' then failure_filters_of u r \<noteq> None else True)"
proof (cases "parse_request u (descriptors datasets) q")
  case (Inr r)
  then obtain d where d: "d \<in> set datasets" "rq_dataset r = ds_name (da_descriptor d)"
      "level_group_allowed (da_descriptor d) r" "filters_allowed (da_descriptor d) q r"
    using accepted_requests_declared [where u = u and catalogue = "descriptors datasets" and q = q] by (auto simp: descriptors_def)
  have "defaults_served (da_descriptor d)"
    using registry_defaults d(1) by (auto simp: list_all_iff descriptors_def)
  from clean_registry_serves [OF registry_clean d(1) this d(3,2)]
  have served: "\<exists>ss. lens_statements datasets r = Some ss \<and> length ss = (if rq_level r = 0 then 1 else 2)" .
  have runs: "run_filters_of r \<noteq> None" if "rq_dataset r = ''runs''"
  proof -
    have "d = runs" using that d(1,2) by (auto simp: datasets_def dataset_names)
    then have "\<exists>i out. parse_dates (fst (split_filter r ''day'')) = Some i \<and> parse_dates (snd (split_filter r ''day'')) = Some out"
      by (intro day_filter_parses [where wording = "''day''" and vals = "[]", OF d(4) refl])
         (auto simp: runs_def dims_name)
    then show ?thesis by (auto simp: run_filters_of_def case_prod_beta)
  qed
  have changes: "change_filters_of account r \<noteq> None" if "rq_dataset r = ''policy_changes''"
  proof -
    have "d = policy_changes" using that d(1,2) by (auto simp: datasets_def dataset_names)
    then have "\<exists>i out. parse_dates (fst (split_filter r ''day'')) = Some i \<and> parse_dates (snd (split_filter r ''day'')) = Some out"
      by (intro day_filter_parses [where wording = "''day''" and vals = "[]", OF d(4) refl])
         (auto simp: policy_changes_def dims_name)
    then show ?thesis by (auto simp: change_filters_of_def case_prod_beta)
  qed
  have fails: "failure_filters_of u r \<noteq> None" if "rq_dataset r = ''failures''"
  proof -
    have "d = failures" using that d(1,2) by (auto simp: datasets_def dataset_names)
    then have "\<exists>i out. parse_whole (nu_in (split_nullable r ''page_number'')) = Some i \<and>
        parse_whole (nu_out (split_nullable r ''page_number'')) = Some out"
      by (intro page_filter_parses [where name = "''page_number''" and wording = "''page''" and vals = "[]" and
          null = "''no page''", OF d(4) refl])
         (auto simp: failures_def dims_name)
    then show ?thesis by (auto simp: failure_filters_of_def Let_def)
  qed
  show ?thesis using Inr served runs changes fails by auto
qed simp

subsection \<open>Pages of rows\<close>

lemma ucast_small:
  "0 \<le> n \<Longrightarrow> n \<le> 2147483647 \<Longrightarrow> (ucast (word_of_int n :: int64) :: 32 word) = word_of_int n"
proof -
  assume "0 \<le> n" "n \<le> 2147483647"
  then have "uint (word_of_int n :: int64) = n" by (simp add: unsigned_of_int take_bit_int_eq_self)
  then show ?thesis by (simp only: ucast_eq)
qed

text \<open>
  A page's offset is fifty rows for each page before it, and a page whose offset a 32-bit parameter
  cannot hold has none, as long as the product fits 64 bits.
\<close>

lemma row_offset_exact:
  assumes "1 \<le> rq_page r" "(rq_page r - 1) * rows_per_page \<le> max_int64"
  shows "row_offset r = (if (rq_page r - 1) * rows_per_page \<le> 2147483647
     then (word_of_int ((rq_page r - 1) * rows_per_page), True) else (0, False))"
proof -
  let ?n = "(rq_page r - 1) * rows_per_page"
  have n: "0 \<le> ?n" using assms(1) by (simp add: rows_per_page_def)
  have w: "(word_of_int (rq_page r - 1) :: int64) * word_of_int rows_per_page = word_of_int ?n"
    by (simp add: wi_hom_mult)
  have s: "sint (word_of_int ?n :: int64) = ?n"
    using n assms(2) by (intro sint_of_int64) (simp_all add: min_int64_def)
  have u: "?n \<le> 2147483647 \<Longrightarrow> (ucast (word_of_int ?n :: int64) :: 32 word) = word_of_int ?n"
    using n by (rule ucast_small)
  show ?thesis unfolding row_offset_def Let_def w s using u by simp
qed

text \<open>
  The product is not checked: the last page a request can name is accepted, and its offset wraps to a
  negative row.
\<close>

lemma last_page_wraps:
  "rq_page r = 9223372036854775807 \<Longrightarrow> row_offset r = (word_of_int (-100), True)"
proof -
  assume p: "rq_page r = 9223372036854775807"
  have w: "(word_of_int (rq_page r - 1) :: int64) * word_of_int rows_per_page = word_of_int (-100)"
    by (simp add: p rows_per_page_def)
  have "sint (word_of_int (-100) :: int64) = -100"
    by (rule sint_of_int64) (simp_all add: min_int64_def max_int64_def)
  then show ?thesis unfolding row_offset_def Let_def w by simp
qed

lemma last_page_is_accepted:
  "parse_page u [(''page'', [''9223372036854775807''])] = Inr 9223372036854775807"
  by (simp add: parse_page_def parameter_def atoi_def parse_int_def digits_value_def ascii_digit_def format_int_def
      digits_of.simps Let_def) code_simp

end
