(* ===== verification/RuleEdits.thy ===== *)
theory RuleEdits
  imports Classify "HOL-Library.Multiset"
begin

text \<open>
  \<open>ui/internal/core/rules\<close>: what a write of the policy screens may hold, what importing a file changes
  and lifts, and what a scope's rules match among an account's senders. A scope's rules are checked by
  the validation a reload makes, and every match is the classifier's comparison of names. The lemmas
  show that a checked write loads, that a diff turns the stored rules into the file's, that an import
  which lifts nothing releases nobody, and that the screens class a sender as the classifier does.

  \<open>sorted\<close> orders rules by identifier with an unstable sort, and a stable one stands for it: the rules
  of a scope have distinct identifiers, among which the two agree.
\<close>

subsection \<open>Checking a write\<close>

record scope_rule =
  sr_id :: string
  sr_suffixes :: "string list"

definition unreachable :: "string \<Rightarrow> bool" where
  "unreachable i \<longleftrightarrow> i = ''.'' \<or> i = ''..'' \<or> CHR ''/'' \<in> set i"

datatype rule_kind =
  BlankIdentifier | RepeatedIdentifier | NoSuffix | InvalidSuffix | OtherClass | ReservedIdentifier

record rule_problem =
  rp_rule :: nat
  rp_kind :: rule_kind
  rp_suffix :: string

fun kind_of :: "problem_kind \<Rightarrow> rule_kind" where
  "kind_of Policy.BlankIdentifier = BlankIdentifier"
| "kind_of Policy.RepeatedIdentifier = RepeatedIdentifier"
| "kind_of Policy.OtherClass = OtherClass"
| "kind_of Policy.NoSuffix = NoSuffix"
| "kind_of Policy.InvalidSuffix = InvalidSuffix"

definition row_for :: "string \<Rightarrow> scope_rule \<Rightarrow> string \<Rightarrow> row" where
  "row_for account r c = \<lparr>row_account = account, row_id = sr_id r, row_class = c, row_suffixes = sr_suffixes r\<rparr>"

definition check_classes :: "unicode \<Rightarrow> scope_rule list \<Rightarrow> string list \<Rightarrow> rule_problem list" where
  "check_classes u rules classes =
     sort_key rp_rule
       (map (\<lambda>p. \<lparr>rp_rule = p_row p, rp_kind = kind_of (p_kind p), rp_suffix = p_suffix p\<rparr>)
          (validate u (map2 (row_for []) rules classes)) @
        map (\<lambda>(i, r). \<lparr>rp_rule = i, rp_kind = ReservedIdentifier, rp_suffix = []\<rparr>)
          (filter (\<lambda>(i, r). unreachable (sr_id r)) (enumerate 0 rules)))"

definition check_rules :: "unicode \<Rightarrow> scope_rule list \<Rightarrow> rule_problem list" where
  "check_rules u rules = check_classes u rules (replicate (length rules) restricted_class)"

subsection \<open>Comparing a scope with a file\<close>

record edit =
  ed_id :: string
  ed_before :: "string list"
  ed_after :: "string list"
  ed_added :: "string list"
  ed_removed :: "string list"

record diff =
  df_added :: "scope_rule list"
  df_edited :: "edit list"
  df_lifted :: "scope_rule list"
  df_unchanged :: nat

definition lifts :: "diff \<Rightarrow> nat" where
  "lifts d = foldl (\<lambda>n e. n + length (ed_removed e)) (length (df_lifted d)) (df_edited d)"

definition changes :: "diff \<Rightarrow> nat" where
  "changes d = length (df_added d) + length (df_edited d) + length (df_lifted d)"

definition confirmation :: "nat \<Rightarrow> string" where
  "confirmation k = ''lift '' @ digits_of k"

definition sorted_rules :: "scope_rule list \<Rightarrow> scope_rule list" where
  "sorted_rules rules = sort_key sr_id rules"

definition minus_suffixes :: "string list \<Rightarrow> string list \<Rightarrow> string list" where
  "minus_suffixes a b = foldl (\<lambda>out s. if s \<notin> set b \<and> s \<notin> set out then out @ [s] else out) [] a"

definition compare_step :: "(string \<rightharpoonup> scope_rule) \<Rightarrow> diff \<Rightarrow> scope_rule \<Rightarrow> diff" where
  "compare_step by_id d r =
     (case by_id (sr_id r) of
        None \<Rightarrow> d\<lparr>df_added := df_added d @ [r]\<rparr>
      | Some s \<Rightarrow>
         (let added = minus_suffixes (sr_suffixes r) (sr_suffixes s);
              removed = minus_suffixes (sr_suffixes s) (sr_suffixes r)
          in if added = [] \<and> removed = [] then d\<lparr>df_unchanged := df_unchanged d + 1\<rparr>
             else d\<lparr>df_edited := df_edited d @
                   [\<lparr>ed_id = sr_id r, ed_before = sr_suffixes s, ed_after = sr_suffixes r,
                     ed_added = added, ed_removed = removed\<rparr>]\<rparr>))"

definition by_identifier :: "scope_rule list \<Rightarrow> string \<rightharpoonup> scope_rule" where
  "by_identifier rules = foldl (\<lambda>m r. m(sr_id r \<mapsto> r)) Map.empty rules"

definition compare_rules :: "scope_rule list \<Rightarrow> scope_rule list \<Rightarrow> diff" where
  "compare_rules stored file =
     (let d = foldl (compare_step (by_identifier stored))
                \<lparr>df_added = [], df_edited = [], df_lifted = [], df_unchanged = 0\<rparr> (sorted_rules file);
          in_file = (\<lambda>i. list_ex (\<lambda>r. sr_id r = i) (sorted_rules file))
      in d\<lparr>df_lifted := filter (\<lambda>r. \<not> in_file (sr_id r)) (sorted_rules stored)\<rparr>)"

subsection \<open>An account's senders\<close>

record stored_sender =
  ss_domain :: string
  ss_messages :: int64

record sender =
  sd_domain :: string
  sd_messages :: int64
  sd_restricted :: bool

record named =
  nm_id :: string
  nm_suffixes :: "name list"

record senders =
  se_senders :: "sender list"
  se_names :: "name list"
  se_ok :: "bool list"
  se_lookups :: lookups

definition suffix_names :: "unicode \<Rightarrow> string list \<Rightarrow> lookups \<Rightarrow> name list" where
  "suffix_names u suffixes l = map (\<lambda>x. suffix_name u x l) suffixes"

definition names_of :: "unicode \<Rightarrow> scope_rule list \<Rightarrow> lookups \<Rightarrow> named list" where
  "names_of u rules l = map (\<lambda>r. \<lparr>nm_id = sr_id r, nm_suffixes = suffix_names u (sr_suffixes r) l\<rparr>) rules"

fun rule_of_name :: "name \<Rightarrow> named list \<Rightarrow> string" where
  "rule_of_name n [] = []"
| "rule_of_name n (r # rs) = (if list_ex (under n) (nm_suffixes r) then nm_id r else rule_of_name n rs)"

definition class_of :: "unicode \<Rightarrow> string \<Rightarrow> named list \<Rightarrow> lookups \<Rightarrow> bool \<times> string" where
  "class_of u domain rules l =
     (case sender_name u domain l of
        None \<Rightarrow> (True, [])
      | Some n \<Rightarrow> let r = rule_of_name n rules in (r \<noteq> [], r))"

definition name_or_zero :: "unicode \<Rightarrow> lookups \<Rightarrow> string \<Rightarrow> name" where
  "name_or_zero u l domain = (case sender_name u domain l of None \<Rightarrow> Name [] | Some n \<Rightarrow> n)"

definition new_senders :: "unicode \<Rightarrow> stored_sender list \<Rightarrow> named list \<Rightarrow> lookups \<Rightarrow> senders" where
  "new_senders u stored policy l =
     (let names = map (\<lambda>x. name_or_zero u l (ss_domain x)) stored;
          oks = map (\<lambda>x. sender_name u (ss_domain x) l \<noteq> None) stored
      in \<lparr>se_senders = map (\<lambda>(x, n, k). \<lparr>sd_domain = ss_domain x, sd_messages = ss_messages x,
              sd_restricted = (\<not> k \<or> rule_of_name n policy \<noteq> [])\<rparr>) (zip stored (zip names oks)),
          se_names = names, se_ok = oks, se_lookups = l\<rparr>)"

definition sender_under :: "senders \<Rightarrow> nat \<Rightarrow> name list \<Rightarrow> bool" where
  "sender_under s i suffixes =
     (if \<not> se_ok s ! i then False else list_ex (\<lambda>n. under (se_names s ! i) n) suffixes)"

record match_count =
  mc_senders :: int64
  mc_messages :: int64

definition no_matches :: match_count where "no_matches = \<lparr>mc_senders = 0, mc_messages = 0\<rparr>"

definition count_one :: "match_count \<Rightarrow> sender \<Rightarrow> match_count" where
  "count_one c x = \<lparr>mc_senders = mc_senders c + 1, mc_messages = mc_messages c + sd_messages x\<rparr>"

definition count_senders :: "senders \<Rightarrow> int64" where
  "count_senders s = of_nat (length (se_senders s))"

definition match_senders :: "unicode \<Rightarrow> senders \<Rightarrow> string list \<Rightarrow> match_count" where
  "match_senders u s suffixes =
     (let names = suffix_names u suffixes (se_lookups s)
      in foldl (\<lambda>c (i, x). if sender_under s i names then count_one c x else c) no_matches
           (enumerate 0 (se_senders s)))"

definition normal_domains :: "senders \<Rightarrow> string list" where
  "normal_domains s = foldl (\<lambda>out x. if \<not> sd_restricted x then out @ [sd_domain x] else out) [] (se_senders s)"

definition restricted_senders :: "senders \<Rightarrow> match_count" where
  "restricted_senders s = foldl (\<lambda>c x. if sd_restricted x then count_one c x else c) no_matches (se_senders s)"

definition matched_senders :: "unicode \<Rightarrow> senders \<Rightarrow> string list \<Rightarrow> sender list" where
  "matched_senders u s suffixes =
     (let names = suffix_names u suffixes (se_lookups s)
      in foldl (\<lambda>out (i, x). if sender_under s i names then out @ [x] else out) []
           (enumerate 0 (se_senders s)))"

definition released_senders :: "unicode \<Rightarrow> senders \<Rightarrow> string list \<Rightarrow> string list \<Rightarrow> match_count" where
  "released_senders u s before after =
     (let b = suffix_names u before (se_lookups s); a = suffix_names u after (se_lookups s)
      in foldl (\<lambda>c (i, x). if sender_under s i b \<and> \<not> sender_under s i a then count_one c x else c) no_matches
           (enumerate 0 (se_senders s)))"

definition covers :: "unicode \<Rightarrow> name list \<Rightarrow> string \<Rightarrow> lookups \<Rightarrow> bool" where
  "covers u names suffix l = list_ex (under (suffix_name u suffix l)) names"

definition public_suffix :: "string \<Rightarrow> lookups \<Rightarrow> bool" where
  "public_suffix suffix l =
     (case l_to_ascii l (trim_suffix suffix ''.'') of
        None \<Rightarrow> False
      | Some ascii \<Rightarrow> if ascii = [] then False else l_registrable l ascii = None)"

definition suffixes_of :: "scope_rule list \<Rightarrow> string list" where
  "suffixes_of rules = foldl (\<lambda>out r. out @ sr_suffixes r) [] rules"

subsection \<open>A checked write loads\<close>

lemma check_classes_Nil:
  "check_classes u rules classes = [] \<longleftrightarrow>
     valid_rows u (map2 (row_for []) rules classes) \<and> list_all (\<lambda>r. \<not> unreachable (sr_id r)) rules"
proof -
  have "filter (\<lambda>(i, r). unreachable (sr_id r)) (enumerate n rules) = [] \<longleftrightarrow>
      list_all (\<lambda>r. \<not> unreachable (sr_id r)) rules" for n
    by (induction rules arbitrary: n) auto
  then show ?thesis
    by (simp add: check_classes_def validate_Nil [symmetric] flip: set_empty)
qed

lemma map2_replicate: "map2 f xs (replicate (length xs) c) = map (\<lambda>x. f x c) xs"
  by (induction xs) simp_all

lemma check_rules_Nil:
  "check_rules u rules = [] \<longleftrightarrow>
     valid_rows u (map (\<lambda>r. row_for [] r restricted_class) rules) \<and> list_all (\<lambda>r. \<not> unreachable (sr_id r)) rules"
  by (simp add: check_rules_def check_classes_Nil map2_replicate)

lemma checked_ids:
  "check_rules u rules = [] \<Longrightarrow> distinct (map sr_id rules) \<and> (\<forall>r \<in> set rules. sr_id r \<noteq> [])"
  by (auto simp: check_rules_Nil valid_rows_def row_key_def row_for_def valid_row_def distinct_map inj_on_def)

text \<open>
  C35. No write the screens accept fails a reload. A scope's rules that check without a problem, written
  over whatever the scope held, leave rows every process loads, when the other scopes' rows were valid,
  in whatever order the rows are read back.
\<close>

theorem checked_write_reloads:
  assumes "check_rules u rules = []" "valid_rows u others" "account \<notin> row_account ` set others"
    "mset rows = mset (others @ map (\<lambda>r. row_for account r restricted_class) rules)"
  shows "o_accepted (snd (swap u active rows))"
proof -
  let ?mine = "map (\<lambda>r. row_for account r restricted_class) rules"
  have set: "set rows = set others \<union> set ?mine" using mset_eq_setD [OF assms(4)] by simp
  have "distinct (map row_key others)" "distinct (map row_key ?mine)"
    using assms(2) checked_ids [OF assms(1)]
    by (simp_all add: valid_rows_def row_key_def row_for_def distinct_map inj_on_def)
  moreover have "row_key ` set others \<inter> row_key ` set ?mine = {}"
    using assms(3) by (auto simp: row_key_def row_for_def)
  moreover have "mset (map row_key rows) = mset (map row_key (others @ ?mine))"
    unfolding mset_map assms(4) ..
  ultimately have "distinct (map row_key rows)"
    using mset_eq_imp_distinct_iff [of "map row_key rows" "map row_key (others @ ?mine)"] by (simp add: image_image)
  moreover have "\<forall>row \<in> set rows. valid_row u row"
    unfolding set using assms(1,2) by (auto simp: check_rules_Nil valid_rows_def row_for_def valid_row_def)
  ultimately show ?thesis by (simp add: swap_cases valid_rows_def)
qed

theorem checked_write_reloads_witness:
  "let rules = [\<lparr>sr_id = ''bank'', sr_suffixes = [''bank.example'']\<rparr>];
       rows = [\<lparr>row_account = ''a'', row_id = ''bank'', row_class = ''restricted'', row_suffixes = [''bank.example'']\<rparr>,
               \<lparr>row_account = [], row_id = ''bank'', row_class = ''restricted'', row_suffixes = [''b.c'']\<rparr>]
   in o_accepted (snd (swap ascii_tables zero_snapshot rows))"
  unfolding Let_def
  by (rule checked_write_reloads [where account = "''a''" and
        others = "[\<lparr>row_account = [], row_id = ''bank'', row_class = ''restricted'', row_suffixes = [''b.c'']\<rparr>]"
        and rules = "[\<lparr>sr_id = ''bank'', sr_suffixes = [''bank.example'']\<rparr>]"])
     (simp_all add: check_rules_Nil valid_rows_def valid_row_def row_for_def row_key_def restricted_class_def
        unreachable_def valid_suffix_def runes_ascii ascii_only_def is_letter_def ascii_lower_def
        trim_space_def trim_space_left.simps trim_space_right.simps decode_last_rune_def last_rune_start_def
        decode_rune_def space_rune_def cont_byte_def Let_def add_mset_commute)

subsection \<open>What a diff does\<close>

lemma minus_suffixes_fold:
  "set (foldl (\<lambda>out s. if s \<notin> set b \<and> s \<notin> set out then out @ [s] else out) out a) = set out \<union> (set a - set b)"
  by (induction a arbitrary: out) auto

lemma set_minus_suffixes [simp]: "set (minus_suffixes a b) = set a - set b"
  by (simp add: minus_suffixes_def minus_suffixes_fold)

lemma minus_suffixes_Nil: "minus_suffixes a b = [] \<longleftrightarrow> set a \<subseteq> set b"
  by (metis Diff_eq_empty_iff set_empty set_minus_suffixes)

lemma by_identifier_fold:
  "foldl (\<lambda>m r. m(sr_id r \<mapsto> r)) m rs = m ++ by_identifier rs"
proof (induction rs rule: rev_induct)
  case (snoc r rs)
  then show ?case by (auto simp: by_identifier_def map_add_def fun_eq_iff split: option.split)
qed (simp add: by_identifier_def)

lemma by_identifier_simps [simp]:
  "by_identifier [] = Map.empty"
  "by_identifier (xs @ ys) = by_identifier xs ++ by_identifier ys"
  "by_identifier [r] = [sr_id r \<mapsto> r]"
  using by_identifier_fold [of "by_identifier xs" ys] by (simp_all add: by_identifier_def)

lemma by_identifier_None: "by_identifier rs i = None \<longleftrightarrow> i \<notin> sr_id ` set rs"
  by (induction rs rule: rev_induct) (auto simp: map_add_Some_iff map_add_def split: option.split)

lemma by_identifier_SomeD: "by_identifier rs i = Some r \<Longrightarrow> r \<in> set rs \<and> sr_id r = i"
  by (induction rs rule: rev_induct) (auto simp: map_add_Some_iff split: if_splits)

lemma by_identifier_member:
  assumes "distinct (map sr_id rs)" "r \<in> set rs"
  shows "by_identifier rs (sr_id r) = Some r"
proof -
  have "by_identifier rs (sr_id r) \<noteq> None" using assms(2) by (simp add: by_identifier_None)
  then obtain s where s: "by_identifier rs (sr_id r) = Some s" by blast
  from by_identifier_SomeD [OF this] have "s = r"
    using assms by (auto simp: distinct_map dest: inj_onD)
  then show ?thesis using s by simp
qed

lemma by_identifier_filter:
  "by_identifier (filter (\<lambda>r. P (sr_id r)) rs) i = (if P i then by_identifier rs i else None)"
  by (induction rs rule: rev_induct) (auto simp: map_add_def split: option.split)

lemma by_identifier_map:
  "(\<And>r. sr_id (g r) = sr_id r) \<Longrightarrow> by_identifier (map g rs) i = map_option g (by_identifier rs i)"
  by (induction rs rule: rev_induct) (auto simp: map_add_def split: option.split)

text \<open>The edit of one rule of the file, where there is one.\<close>

definition same_suffixes :: "scope_rule \<Rightarrow> scope_rule \<Rightarrow> bool" where
  "same_suffixes a b \<longleftrightarrow> set (sr_suffixes a) = set (sr_suffixes b)"

definition edit_of :: "(string \<rightharpoonup> scope_rule) \<Rightarrow> scope_rule \<Rightarrow> edit option" where
  "edit_of m r = (case m (sr_id r) of
      None \<Rightarrow> None
    | Some s \<Rightarrow> if same_suffixes r s then None
        else Some \<lparr>ed_id = sr_id r, ed_before = sr_suffixes s, ed_after = sr_suffixes r,
               ed_added = minus_suffixes (sr_suffixes r) (sr_suffixes s),
               ed_removed = minus_suffixes (sr_suffixes s) (sr_suffixes r)\<rparr>)"

lemma compare_step_fields:
  "df_added (compare_step m d r) = df_added d @ (if m (sr_id r) = None then [r] else [])"
  "df_edited (compare_step m d r) = df_edited d @ (case edit_of m r of None \<Rightarrow> [] | Some e \<Rightarrow> [e])"
  "df_lifted (compare_step m d r) = df_lifted d"
  by (auto simp: compare_step_def edit_of_def same_suffixes_def minus_suffixes_Nil Let_def split: option.split)

lemma compare_fold_fields:
  "df_added (foldl (compare_step m) d rs) = df_added d @ filter (\<lambda>r. m (sr_id r) = None) rs"
  "df_edited (foldl (compare_step m) d rs) = df_edited d @ List.map_filter (edit_of m) rs"
  by (induction rs arbitrary: d)
     (auto simp: compare_step_fields List.map_filter_def map_filter_simps split: option.split)

lemma set_sorted_rules [simp]: "set (sorted_rules rs) = set rs"
  by (simp add: sorted_rules_def)

lemma compare_rules_fields:
  "df_added (compare_rules stored file) = filter (\<lambda>r. by_identifier stored (sr_id r) = None) (sorted_rules file)"
  "df_edited (compare_rules stored file) = List.map_filter (edit_of (by_identifier stored)) (sorted_rules file)"
  "df_lifted (compare_rules stored file) = filter (\<lambda>r. sr_id r \<notin> sr_id ` set file) (sorted_rules stored)"
  by (simp_all add: compare_rules_def compare_fold_fields Let_def list_ex_iff image_iff eq_commute)

text \<open>The scope as sets of suffixes, and what applying a diff to it leaves.\<close>

definition suffix_sets :: "scope_rule list \<Rightarrow> string \<rightharpoonup> string set" where
  "suffix_sets rules i = map_option (\<lambda>r. set (sr_suffixes r)) (by_identifier rules i)"

definition edited :: "diff \<Rightarrow> scope_rule \<Rightarrow> scope_rule" where
  "edited d r = (case find (\<lambda>e. ed_id e = sr_id r) (df_edited d) of
      None \<Rightarrow> r | Some e \<Rightarrow> r\<lparr>sr_suffixes := ed_after e\<rparr>)"

definition apply_diff :: "diff \<Rightarrow> scope_rule list \<Rightarrow> scope_rule list" where
  "apply_diff d rules =
     map (edited d) (filter (\<lambda>r. sr_id r \<notin> sr_id ` set (df_lifted d)) rules) @ df_added d"

lemma sr_id_edited [simp]: "sr_id (edited d r) = sr_id r"
  by (simp add: edited_def split: option.split)

lemma find_edit:
  assumes "distinct (map sr_id rs)"
  shows "find (\<lambda>e. ed_id e = i) (List.map_filter (edit_of m) rs) =
     (case by_identifier rs i of None \<Rightarrow> None | Some r \<Rightarrow> edit_of m r)"
  using assms
proof (induction rs)
  case (Cons r rs)
  have e: "edit_of m x = Some e \<Longrightarrow> ed_id e = sr_id x" for x e
    by (auto simp: edit_of_def split: option.splits if_splits)
  have n: "by_identifier rs (sr_id r) = None" using Cons.prems by (simp add: by_identifier_None)
  have look: "by_identifier (r # rs) i = (if i = sr_id r then Some r else by_identifier rs i)"
    using n fun_cong [OF by_identifier_simps(2) [of "[r]" rs], of i]
    by (cases "by_identifier rs i") (auto simp: map_add_def)
  show ?case
    using n Cons e [of r] by (auto simp: look map_filter_simps split: option.split)
qed (simp add: map_filter_simps)

lemma by_identifier_sorted:
  "distinct (map sr_id rs) \<Longrightarrow> by_identifier (sorted_rules rs) = by_identifier rs"
  "distinct (map sr_id rs) \<Longrightarrow> distinct (map sr_id (sorted_rules rs))"
proof -
  assume d: "distinct (map sr_id rs)"
  show e: "distinct (map sr_id (sorted_rules rs))"
    using d by (simp add: sorted_rules_def distinct_map)
  show "by_identifier (sorted_rules rs) = by_identifier rs"
  proof
    fix i
    show "by_identifier (sorted_rules rs) i = by_identifier rs i"
    proof (cases "by_identifier rs i")
      case None
      then have "by_identifier (sorted_rules rs) i = None" by (simp add: by_identifier_None)
      then show ?thesis using None by simp
    next
      case (Some r)
      from by_identifier_SomeD [OF this] have "r \<in> set (sorted_rules rs)" "sr_id r = i" by simp_all
      then show ?thesis using by_identifier_member [OF e, of r] Some by simp
    qed
  qed
qed

lemma edited_sets:
  assumes "distinct (map sr_id file)" "by_identifier stored i = Some s" "by_identifier file i = Some f"
  shows "set (sr_suffixes (edited (compare_rules stored file) s)) = set (sr_suffixes f)"
proof -
  have "sr_id s = i" "sr_id f = i" using assms(2,3) by (auto dest: by_identifier_SomeD)
  then show ?thesis
    using assms by (auto simp: edited_def compare_rules_fields find_edit by_identifier_sorted edit_of_def
        same_suffixes_def split: option.split if_splits)
qed

text \<open>
  C34. Importing a file makes the scope hold the file: what the diff shows, applied to the stored rules,
  leaves under every identifier exactly the suffixes the file has there, and a diff with no change is
  one between a scope and a file that hold the same rules.
\<close>

theorem import_makes_the_scope_the_file:
  assumes "distinct (map sr_id file)"
  shows "suffix_sets (apply_diff (compare_rules stored file) stored) = suffix_sets file \<and>
     (changes (compare_rules stored file) = 0 \<longleftrightarrow> suffix_sets stored = suffix_sets file)"
proof -
  let ?d = "compare_rules stored file"
  have lifted: "sr_id r \<notin> sr_id ` set (df_lifted ?d) \<longleftrightarrow> sr_id r \<in> sr_id ` set file" if "r \<in> set stored" for r
    using that by (auto simp: compare_rules_fields)
  have kept: "by_identifier (filter (\<lambda>r. sr_id r \<notin> sr_id ` set (df_lifted ?d)) stored) =
      (\<lambda>i. if i \<in> sr_id ` set file then by_identifier stored i else None)"
    using by_identifier_filter [where P = "\<lambda>i. i \<in> sr_id ` set file" and rs = stored] lifted
    by (auto simp: fun_eq_iff cong: filter_cong)
  have added: "by_identifier (df_added ?d) i =
      (if by_identifier stored i = None then by_identifier file i else None)" for i
    by (simp add: compare_rules_fields by_identifier_filter [of "\<lambda>i. by_identifier stored i = None"]
        by_identifier_sorted assms)
  have sets: "suffix_sets (apply_diff ?d stored) i = suffix_sets file i" for i
    using edited_sets [OF assms, of stored i] by_identifier_None [where rs = "file" and i = i]
    by (cases "by_identifier stored i"; cases "by_identifier file i")
       (simp_all add: suffix_sets_def apply_diff_def map_add_def by_identifier_map kept added)
  moreover have "changes ?d = 0 \<longleftrightarrow> suffix_sets stored = suffix_sets file"
  proof
    assume "changes ?d = 0"
    then have "apply_diff ?d stored = stored"
      by (simp add: changes_def apply_diff_def edited_def map_idI)
    then show "suffix_sets stored = suffix_sets file" using sets by (metis ext)
  next
    assume same: "suffix_sets stored = suffix_sets file"
    have ids: "by_identifier stored i = None \<longleftrightarrow> by_identifier file i = None" for i
      using fun_cong [OF same, of i] by (simp add: suffix_sets_def) (metis option.map_disc_iff)
    have same_at: "edit_of (by_identifier stored) r = None \<and> by_identifier stored (sr_id r) \<noteq> None"
      if "r \<in> set file" for r
    proof -
      have r: "by_identifier file (sr_id r) = Some r" by (rule by_identifier_member [OF assms that])
      obtain s where s: "by_identifier stored (sr_id r) = Some s" using ids [of "sr_id r"] r by (cases "by_identifier stored (sr_id r)") simp_all
      then have "set (sr_suffixes s) = set (sr_suffixes r)"
        using fun_cong [OF same, of "sr_id r"] r by (simp add: suffix_sets_def)
      then show ?thesis using s by (simp add: edit_of_def same_suffixes_def)
    qed
    have "sr_id r \<in> sr_id ` set file" if "r \<in> set stored" for r
      using ids [of "sr_id r"] imageI [OF that, of sr_id] by (simp add: by_identifier_None)
    then show "changes ?d = 0"
      using same_at by (simp add: changes_def compare_rules_fields List.map_filter_def filter_empty_conv)
  qed
  ultimately show ?thesis by blast
qed

theorem import_makes_the_scope_the_file_witness:
  "let stored = [\<lparr>sr_id = ''a'', sr_suffixes = [''a.b'', ''c.d'']\<rparr>, \<lparr>sr_id = ''z'', sr_suffixes = [''z.z'']\<rparr>];
       imported = [\<lparr>sr_id = ''n'', sr_suffixes = [''n.n'']\<rparr>, \<lparr>sr_id = ''a'', sr_suffixes = [''c.d'', ''e.f'']\<rparr>]
   in suffix_sets (apply_diff (compare_rules stored imported) stored) = suffix_sets imported \<and>
      (changes (compare_rules stored imported) = 0 \<longleftrightarrow> suffix_sets stored = suffix_sets imported)"
  unfolding Let_def by (rule import_makes_the_scope_the_file) simp

subsection \<open>Lifts and releases\<close>

lemma lifts_sum: "lifts d = length (df_lifted d) + sum_list (map (\<lambda>e. length (ed_removed e)) (df_edited d))"
proof -
  have "foldl (\<lambda>n e. n + length (ed_removed e)) n es = n + sum_list (map (\<lambda>e. length (ed_removed e)) es)" for n es
    by (induction es arbitrary: n) simp_all
  then show ?thesis by (simp add: lifts_def)
qed

lemma no_lift_keeps:
  assumes "distinct (map sr_id stored)" "lifts (compare_rules stored file) = 0" "r \<in> set stored"
  shows "\<exists>f \<in> set file. sr_id f = sr_id r \<and> set (sr_suffixes r) \<subseteq> set (sr_suffixes f)"
proof -
  let ?d = "compare_rules stored file"
  have kept_all: "df_lifted ?d = []" "\<And>e. e \<in> set (df_edited ?d) \<Longrightarrow> ed_removed e = []"
    using assms(2) by (simp_all add: lifts_sum)
  then have "sr_id r \<in> sr_id ` set file"
    using assms(3) by (simp add: compare_rules_fields filter_empty_conv)
  then obtain f where f: "f \<in> set file" "sr_id f = sr_id r" by auto
  have r: "by_identifier stored (sr_id f) = Some r" using by_identifier_member [OF assms(1,3)] f by simp
  have "set (sr_suffixes r) \<subseteq> set (sr_suffixes f)"
  proof (cases "edit_of (by_identifier stored) f")
    case None
    then show ?thesis using r by (simp add: edit_of_def same_suffixes_def split: if_splits)
  next
    case (Some e)
    then have "e \<in> set (df_edited ?d)"
      using f by (force simp: compare_rules_fields List.map_filter_def)
    then have "ed_removed e = []" by (rule kept_all(2))
    then show ?thesis
      using Some r minus_suffixes_Nil [of "sr_suffixes r" "sr_suffixes f"]
      by (simp add: edit_of_def split: if_splits) auto
  qed
  then show ?thesis using f by blast
qed

lemma set_suffixes_of [simp]: "set (suffixes_of rules) = (\<Union>r \<in> set rules. set (sr_suffixes r))"
proof -
  have "set (foldl (\<lambda>out r. out @ sr_suffixes r) out rules) = set out \<union> (\<Union>r \<in> set rules. set (sr_suffixes r))" for out
    by (induction rules arbitrary: out) auto
  then show ?thesis by (simp add: suffixes_of_def)
qed

lemma sender_under_mono:
  "set before \<subseteq> set after \<Longrightarrow> sender_under s i (suffix_names u before l) \<Longrightarrow> sender_under s i (suffix_names u after l)"
  by (auto simp: sender_under_def suffix_names_def list_ex_iff split: if_splits)

text \<open>
  C33. An import that counts no lift releases nobody: whatever the other rules of the account's policy
  are, no sender that was under one of its suffixes before the import is under none after it.
\<close>

theorem import_without_lifts_releases_nobody:
  assumes "distinct (map sr_id stored)" "lifts (compare_rules stored file) = 0"
  shows "released_senders u s (suffixes_of (base @ stored @ own)) (suffixes_of (base @ file @ own)) = no_matches"
proof -
  have sub: "set (suffixes_of (base @ stored @ own)) \<subseteq> set (suffixes_of (base @ file @ own))"
    using no_lift_keeps [OF assms] by fastforce
  have fold: "(\<And>i x. \<not> P i) \<Longrightarrow> foldl (\<lambda>c (i, x). if P i then count_one c x else c) c xs = c" for P c xs
    by (induction xs arbitrary: c) auto
  show ?thesis
    unfolding released_senders_def Let_def by (rule fold) (use sender_under_mono [OF sub] in blast)
qed

theorem import_without_lifts_releases_nobody_witness:
  "let stored = [\<lparr>sr_id = ''bank'', sr_suffixes = [''b.example'', ''c.example'']\<rparr>];
       imported = [\<lparr>sr_id = ''shop'', sr_suffixes = [''s.example'']\<rparr>,
               \<lparr>sr_id = ''bank'', sr_suffixes = [''c.example'', ''d.example'', ''b.example'']\<rparr>];
       l = \<lparr>l_to_unicode = Some, l_to_ascii = Some, l_registrable = Some\<rparr>;
       s = new_senders ascii_tables [\<lparr>ss_domain = ''x.b.example'', ss_messages = 3\<rparr>] [] l
   in released_senders ascii_tables s (suffixes_of ([] @ stored @ [])) (suffixes_of ([] @ imported @ [])) = no_matches"
  unfolding Let_def
  by (rule import_without_lifts_releases_nobody)
     (simp_all add: lifts_def compare_rules_def compare_step_def by_identifier_def minus_suffixes_def sorted_rules_def)

subsection \<open>The screens and the classifier\<close>

lemma rule_of_name_first:
  "(\<forall>r \<in> set rules. rule_id r \<noteq> []) \<Longrightarrow>
   rule_of_name n (names_of u (map (\<lambda>r. \<lparr>sr_id = rule_id r, sr_suffixes = rule_suffixes r\<rparr>) rules) l) =
     (case first_match n (map (\<lambda>r. \<lparr>pr_id = rule_id r, pr_scope = rule_scope r,
          pr_suffixes = map (\<lambda>s. suffix_name u s l) (rule_suffixes r)\<rparr>) rules) of
        None \<Rightarrow> [] | Some r \<Rightarrow> pr_id r)"
  by (induction rules) (simp_all add: names_of_def suffix_names_def)

lemma address_name_at:
  "CHR ''@'' \<notin> set domain \<Longrightarrow> address_name u l (local @ CHR ''@'' # domain) = sender_name u domain l"
proof -
  assume d: "CHR ''@'' \<notin> set domain"
  then have "dropWhile (\<lambda>x. x \<noteq> CHR ''@'') (rev (local @ CHR ''@'' # domain)) = CHR ''@'' # rev local"
    by (subst rev_append, simp) (subst dropWhile_append2, auto)
  then show ?thesis by (simp add: address_name_def last_index_byte_def)
qed

lemma class_of_classifier:
  assumes "\<forall>r \<in> set (c_rules c). rule_id r \<noteq> []" "c_loaded c" "CHR ''@'' \<notin> set domain"
  shows "let v = classify u (prepare u c l) (local @ CHR ''@'' # domain);
     rules = names_of u (map (\<lambda>r. \<lparr>sr_id = rule_id r, sr_suffixes = rule_suffixes r\<rparr>) (c_rules c)) l in
     class_of u domain rules l = (restricted (cv_class v), cv_rule v)"
proof -
  have "first_match n (map (\<lambda>r. \<lparr>pr_id = rule_id r, pr_scope = rule_scope r,
          pr_suffixes = map (\<lambda>s. suffix_name u s l) (rule_suffixes r)\<rparr>) (c_rules c)) = Some r \<Longrightarrow> pr_id r \<noteq> []" for n r
    using assms(1) by (auto dest!: first_match_Some)
  then show ?thesis
    using assms
    by (simp add: class_of_def classify_by_name restricts_all_def address_name_at rule_of_name_first
        prepare_def zero_classify_verdict_def Let_def split: option.split)
qed

lemma sd_restricted_class:
  "se_senders (new_senders u stored policy l) = map (\<lambda>x. \<lparr>sd_domain = ss_domain x, sd_messages = ss_messages x,
     sd_restricted = fst (class_of u (ss_domain x) policy l)\<rparr>) stored"
  by (induction stored) (auto simp: new_senders_def name_or_zero_def class_of_def Let_def split: option.split)

lemma foldl_if: "foldl (\<lambda>c x. if P x then g c x else c) c xs = foldl g c (filter P xs)"
  by (induction xs arbitrary: c) simp_all

lemma foldl_count_one:
  "foldl count_one c xs = \<lparr>mc_senders = mc_senders c + of_nat (length xs),
     mc_messages = mc_messages c + sum_list (map sd_messages xs)\<rparr>"
  by (induction xs arbitrary: c) (simp_all add: count_one_def add.assoc)

lemma foldl_snoc: "foldl (\<lambda>out x. out @ [g x]) out xs = out @ map g xs"
  by (induction xs arbitrary: out) simp_all

text \<open>
  The screens class a sender as the classifier does. Of the senders of an account, whose policy is
  the snapshot of any valid rows, those the screens count as restricted are the ones the classifier
  restricts at any address of the domain, those they list as normal are the others, and the rule they
  name for a domain is the one the classifier names.
\<close>

lemma screens_class_senders_as_the_classifier:
  assumes "valid_rows u rows" "account \<noteq> []" "\<forall>x \<in> set stored. CHR ''@'' \<notin> set (ss_domain x)"
  shows "let c = snapshot_for (fst (load_rows u rows)) account;
     policy = names_of u (map (\<lambda>r. \<lparr>sr_id = rule_id r, sr_suffixes = rule_suffixes r\<rparr>) (c_rules c)) l;
     v = (\<lambda>x. classify u (prepare u c l) (local @ CHR ''@'' # ss_domain x));
     s = new_senders u stored policy l;
     denied = filter (\<lambda>x. restricted (cv_class (v x))) stored in
     restricted_senders s = \<lparr>mc_senders = of_nat (length denied), mc_messages = sum_list (map ss_messages denied)\<rparr> \<and>
     normal_domains s = map ss_domain (filter (\<lambda>x. \<not> restricted (cv_class (v x))) stored) \<and>
     (\<forall>x \<in> set stored. class_of u (ss_domain x) policy l = (restricted (cv_class (v x)), cv_rule (v x)))"
proof -
  let ?c = "snapshot_for (fst (load_rows u rows)) account"
  let ?policy = "names_of u (map (\<lambda>r. \<lparr>sr_id = rule_id r, sr_suffixes = rule_suffixes r\<rparr>) (c_rules ?c)) l"
  let ?v = "\<lambda>x. classify u (prepare u ?c l) (local @ CHR ''@'' # ss_domain x)"
  have "\<forall>r \<in> set (c_rules ?c). rule_id r \<noteq> []" "c_loaded ?c"
    using valid_rows_rule [OF assms(1)] by (auto simp: load_rows_for [OF assms(2)])
  then have cls: "class_of u (ss_domain x) ?policy l = (restricted (cv_class (?v x)), cv_rule (?v x))"
    if "x \<in> set stored" for x
    using class_of_classifier [of ?c "ss_domain x" u l "local"] assms(3) that by (simp add: Let_def)
  have denied: "filter (\<lambda>x. fst (class_of u (ss_domain x) ?policy l)) stored =
      filter (\<lambda>x. restricted (cv_class (?v x))) stored"
    "filter (\<lambda>x. \<not> fst (class_of u (ss_domain x) ?policy l)) stored =
      filter (\<lambda>x. \<not> restricted (cv_class (?v x))) stored"
    using cls by (auto intro!: filter_cong)
  show ?thesis
    unfolding Let_def restricted_senders_def normal_domains_def sd_restricted_class foldl_if foldl_count_one foldl_snoc
    using cls by (simp add: filter_map o_def denied no_matches_def)
qed

end
