(* ===== verification/PolicyScreens.thy ===== *)
theory PolicyScreens
  imports Datasets RuleEdits "HOL-Library.Product_Lexorder"
begin

text \<open>
  The policy screens' reads of \<open>ui/internal/registry/policy.go\<close> that decide in the server: an account's
  composed rules, their search, order and pages, the identity of a rule's row, and what lifting a rule
  or a part of it would release. A rule's creation is an instant in nanoseconds. The lemmas show that
  the pages hold every rule once, that a row's identity reads back, and that a release counts exactly
  the senders the policy restricts before the change and not after it.
\<close>

subsection \<open>Stored rules\<close>

record stored_rule =
  st_base :: bool
  st_id :: string
  st_class :: string
  st_suffixes :: "string list"
  st_source :: string
  st_created_at :: int
  st_created_by :: string

definition base_row :: string where "base_row = ''base:''"
definition account_row :: string where "account_row = ''account:''"

definition rule_row_id :: "string \<Rightarrow> string \<Rightarrow> string" where
  "rule_row_id scope i = scope @ '':'' @ i"

definition class_name :: "bool \<Rightarrow> string" where
  "class_name r = (if r then ''restricted'' else ''normal'')"

definition scope_of :: "bool \<Rightarrow> string" where
  "scope_of base = (if base then ''base'' else ''account'')"

text \<open>The base rules and then the account's own, each in the order read.\<close>

definition composed_step :: "scope_rule list \<times> scope_rule list \<Rightarrow> stored_rule \<Rightarrow> scope_rule list \<times> scope_rule list" where
  "composed_step acc r =
     (let x = \<lparr>sr_id = st_id r, sr_suffixes = st_suffixes r\<rparr>
      in if st_base r then (fst acc @ [x], snd acc) else (fst acc, snd acc @ [x]))"

definition composed_rules :: "stored_rule list \<Rightarrow> scope_rule list" where
  "composed_rules stored = (let (base, own) = foldl composed_step ([], []) stored in base @ own)"

definition account_senders :: "unicode \<Rightarrow> stored_sender list \<Rightarrow> stored_rule list \<Rightarrow> lookups \<Rightarrow> senders" where
  "account_senders u read stored l = new_senders u read (names_of u (composed_rules stored) l) l"

record rule_row =
  ru_scope :: string
  ru_id :: string
  ru_class :: string
  ru_suffixes :: "string list"
  ru_senders :: int64
  ru_messages :: int64

definition rule_row_of :: "unicode \<Rightarrow> stored_rule \<Rightarrow> senders \<Rightarrow> rule_row" where
  "rule_row_of u r s =
     (let c = match_senders u s (st_suffixes r)
      in \<lparr>ru_scope = scope_of (st_base r), ru_id = st_id r, ru_class = st_class r, ru_suffixes = st_suffixes r,
          ru_senders = mc_senders c, ru_messages = mc_messages c\<rparr>)"

subsection \<open>Search, order and pages\<close>

definition contains_text :: "string \<Rightarrow> string \<Rightarrow> bool" where
  "contains_text s t = (index_string s t \<noteq> None)"

definition matches_search :: "unicode \<Rightarrow> stored_rule \<Rightarrow> string \<Rightarrow> bool" where
  "matches_search u r search =
     (let s = to_lower u search
      in if contains_text (to_lower u (st_id r)) s then True
         else list_ex (\<lambda>x. contains_text (to_lower u x) s) (st_suffixes r))"

text \<open>The bounds of a read, each missing or an instant, the start within and the end not.\<close>

definition filtered_rules :: "unicode \<Rightarrow> stored_rule list \<Rightarrow> int option \<times> int option \<Rightarrow> request \<Rightarrow> stored_rule list" where
  "filtered_rules u stored bounds r =
     (let search = filter_of r ''search'';
          out = filter (\<lambda>x.
             \<not> ((case fst bounds of None \<Rightarrow> False | Some start \<Rightarrow> st_created_at x < start) \<or>
                (case snd bounds of None \<Rightarrow> False | Some e \<Rightarrow> \<not> st_created_at x < e)) \<and>
             \<not> (case search of None \<Rightarrow> False | Some f \<Rightarrow> \<not> matches_search u x (fi_values f ! 0))) stored;
          sorts = sort_key (\<lambda>x. (\<not> st_base x, st_id x)) out
      in if so_descending (rq_sort r) then rev sorts else sorts)"

text \<open>
  The loop over a page's rows, from the first index to the last in 64 bits. Go's index is out of range
  below zero, which ends the request in a panic, None here.
\<close>

function page_loop :: "int \<Rightarrow> int \<Rightarrow> 'a list \<Rightarrow> 'a list option" where
  "page_loop i stop kept =
     (if i < int (length kept) \<and> i < stop
      then if i < 0 then None
           else map_option ((#) (kept ! nat i)) (page_loop (i + 1) stop kept)
      else Some [])"
  by pat_completeness auto
termination by (relation "measure (\<lambda>(i, stop, kept). nat (stop - i))") auto

declare page_loop.simps [simp del]

definition page_rows :: "'a list \<Rightarrow> int \<Rightarrow> 'a list option" where
  "page_rows kept page =
     (let first = (word_of_int (page - 1) :: int64) * word_of_int rows_per_page
      in page_loop (sint first) (sint (first + word_of_int rows_per_page)) kept)"

definition rules_rows ::
  "unicode \<Rightarrow> stored_rule list \<Rightarrow> senders \<Rightarrow> int option \<times> int option \<Rightarrow> request \<Rightarrow> rule_row list option" where
  "rules_rows u stored s bounds r =
     map_option (map (\<lambda>x. rule_row_of u x s)) (page_rows (filtered_rules u stored bounds r) (rq_page r))"

subsection \<open>One rule\<close>

definition rules_suffixes :: "stored_rule list \<Rightarrow> bool \<Rightarrow> string \<Rightarrow> string list" where
  "rules_suffixes stored base i =
     (case find (\<lambda>r. st_base r = base \<and> st_id r = i) stored of None \<Rightarrow> [] | Some r \<Rightarrow> st_suffixes r)"

definition without_rule :: "stored_rule list \<Rightarrow> bool \<Rightarrow> string \<Rightarrow> string list \<Rightarrow> string list" where
  "without_rule stored base i keep =
     foldl (\<lambda>out r. if st_base r = base \<and> st_id r = i then out @ keep else out @ st_suffixes r) [] stored"

definition rule_release :: "unicode \<Rightarrow> stored_rule list \<Rightarrow> senders \<Rightarrow> bool \<Rightarrow> string \<Rightarrow> string list \<Rightarrow> match_count" where
  "rule_release u stored s base i after =
     released_senders u s (without_rule stored base i (rules_suffixes stored base i)) (without_rule stored base i after)"

record suffix_detail =
  sx_suffix :: string
  sx_count :: match_count
  sx_released :: match_count

record rule_detail =
  rd_row :: rule_row
  rd_suffixes :: "suffix_detail list"
  rd_released :: match_count
  rd_matched :: "sender list"
  rd_matched_total :: int64
  rd_elsewhere :: "(string \<times> string list) option"

text \<open>The scope and the identifier a row's path names.\<close>

definition row_rule :: "string \<Rightarrow> (bool \<times> string) option" where
  "row_rule row =
     (if has_prefix row base_row then Some (True, drop (length base_row) row)
      else if has_prefix row account_row then Some (False, drop (length account_row) row)
      else None)"

definition rule_detail_of :: "unicode \<Rightarrow> stored_rule list \<Rightarrow> senders \<Rightarrow> string \<Rightarrow> rule_detail option" where
  "rule_detail_of u stored s row =
     (case row_rule row of
        None \<Rightarrow> None
      | Some (base, i) \<Rightarrow> (case find (\<lambda>r. st_base r = base \<and> st_id r = i) stored of
          None \<Rightarrow> None
        | Some rule \<Rightarrow>
           (let matched = sort_key sd_domain (matched_senders u s (st_suffixes rule));
                by_messages = sort_key (\<lambda>x. - sint (sd_messages x)) matched
            in Some \<lparr>rd_row = rule_row_of u rule s,
                 rd_suffixes = map (\<lambda>suffix. \<lparr>sx_suffix = suffix, sx_count = match_senders u s [suffix],
                     sx_released = rule_release u stored s base i (filter (\<lambda>x. x \<noteq> suffix) (st_suffixes rule))\<rparr>)
                   (st_suffixes rule),
                 rd_released = rule_release u stored s base i [],
                 rd_matched = take 50 by_messages,
                 rd_matched_total = of_nat (length by_messages),
                 rd_elsewhere = map_option (\<lambda>r. (scope_of (\<not> base), st_suffixes r))
                   (find (\<lambda>r. st_base r \<noteq> base \<and> st_id r = i) stored)\<rparr>)))"

definition rule_exists :: "stored_rule list \<Rightarrow> string option \<Rightarrow> string \<Rightarrow> bool" where
  "rule_exists stored account rule = list_ex (\<lambda>r. st_base r = (account = None) \<and> st_id r = rule) stored"

subsection \<open>Every rule is on one page\<close>

lemma page_loop_take:
  "0 \<le> i \<Longrightarrow> page_loop i stop kept = Some (take (nat (stop - i)) (drop (nat i) kept))"
proof (induction i stop kept rule: page_loop.induct)
  case (1 i stop kept)
  show ?case
  proof (cases "i < int (length kept) \<and> i < stop")
    case True
    then have d: "drop (nat i) kept = kept ! nat i # drop (Suc (nat i)) kept"
      using 1(2) by (intro Cons_nth_drop_Suc [symmetric]) (auto simp: nat_less_iff)
    have "nat (stop - i) = Suc (nat (stop - (i + 1)))" "nat (i + 1) = Suc (nat i)" using True 1(2) by auto
    then show ?thesis
      using 1 True by (subst page_loop.simps) (simp add: d)
  next
    case False
    then show ?thesis by (subst page_loop.simps) (auto simp: not_less)
  qed
qed

lemma page_rows_exact:
  assumes "1 \<le> page" "page * rows_per_page \<le> max_int64"
  shows "page_rows kept page = Some (take 50 (drop (nat ((page - 1) * 50)) kept))"
proof -
  let ?n = "(page - 1) * rows_per_page"
  have w: "(word_of_int (page - 1) :: int64) * word_of_int rows_per_page = word_of_int ?n"
    by (simp add: wi_hom_mult)
  have n: "0 \<le> ?n" "?n + 50 \<le> max_int64" using assms by (simp_all add: rows_per_page_def)
  then have s: "sint (word_of_int ?n :: int64) = ?n" "sint (word_of_int (?n + 50) :: int64) = ?n + 50"
    by (intro sint_of_int64; simp add: min_int64_def)+
  have "(word_of_int ?n :: int64) + word_of_int rows_per_page = word_of_int (?n + 50)"
    by (simp add: wi_hom_add rows_per_page_def)
  then show ?thesis
    unfolding page_rows_def Let_def w using n s by (simp add: page_loop_take) (simp add: rows_per_page_def)
qed

lemma take_pages:
  "concat (map (\<lambda>k. take 50 (drop (k * 50) xs)) [0..<n]) = take (n * 50) xs"
proof (induction n)
  case (Suc n)
  have "take (n * 50) xs @ take 50 (drop (n * 50) xs) = take (n * 50 + 50) xs" by (simp add: take_add)
  then show ?case using Suc by (simp add: add.commute)
qed simp

lemma last_page_panics:
  "kept \<noteq> [] \<Longrightarrow> page_rows kept 9223372036854775807 = None"
proof -
  assume k: "kept \<noteq> []"
  have f: "(word_of_int (9223372036854775807 - 1) :: int64) * word_of_int rows_per_page = word_of_int (-100)"
    by (simp add: rows_per_page_def)
  have "sint (word_of_int (-100) :: int64) = -100" "sint (word_of_int (-50) :: int64) = -50"
    by (rule sint_of_int64; simp add: min_int64_def max_int64_def)+
  moreover have "(word_of_int (-100) :: int64) + word_of_int rows_per_page = word_of_int (-50)"
    by (simp add: rows_per_page_def)
  ultimately show ?thesis
    unfolding page_rows_def Let_def f by (subst page_loop.simps) simp
qed

lemma filtered_page [simp]: "filtered_rules u stored bounds (r\<lparr>rq_page := p\<rparr>) = filtered_rules u stored bounds r"
  by (simp add: filtered_rules_def filter_of_def)

text \<open>
  C37. The policy screen's pages hold every rule the search and the range keep, each once and in order: the
  pages one after another are the filtered rules, for as many pages as hold them all, while the rows
  fit 64 bits.
\<close>

theorem rules_pages_hold_every_rule:
  assumes "length (filtered_rules u stored bounds r) \<le> n * 50" "int n * rows_per_page \<le> max_int64"
  shows "concat (map (\<lambda>k. the (rules_rows u stored s bounds (r\<lparr>rq_page := int k + 1\<rparr>))) [0..<n]) =
     map (\<lambda>x. rule_row_of u x s) (filtered_rules u stored bounds r)"
proof -
  let ?kept = "filtered_rules u stored bounds r"
  have page: "page_rows ?kept (int k + 1) = Some (take 50 (drop (k * 50) ?kept))" if "k < n" for k
  proof -
    have "(int k + 1) * rows_per_page \<le> int n * rows_per_page" using that by (simp add: rows_per_page_def)
    then have "page_rows ?kept (int k + 1) = Some (take 50 (drop (nat ((int k + 1 - 1) * 50)) ?kept))"
      using assms(2) by (intro page_rows_exact) auto
    then show ?thesis by (simp add: nat_mult_distrib)
  qed
  have "map (\<lambda>k. the (rules_rows u stored s bounds (r\<lparr>rq_page := int k + 1\<rparr>))) [0..<n] =
      map (\<lambda>k. map (\<lambda>x. rule_row_of u x s) (take 50 (drop (k * 50) ?kept))) [0..<n]"
    by (intro map_cong refl) (auto simp: rules_rows_def page)
  also have "concat \<dots> = map (\<lambda>x. rule_row_of u x s) (concat (map (\<lambda>k. take 50 (drop (k * 50) ?kept)) [0..<n]))"
    by (simp add: map_concat o_def)
  finally show ?thesis using assms(1) by (simp add: take_pages)
qed

theorem rules_pages_hold_every_rule_witness:
  "let stored = [\<lparr>st_base = False, st_id = ''b'', st_class = ''restricted'', st_suffixes = [''b.c''], st_source = [],
         st_created_at = 5, st_created_by = []\<rparr>];
       r = \<lparr>rq_dataset = ''rules'', rq_level = 3, rq_group = [], rq_range = zero_range, rq_filters = [], rq_parent = [],
            rq_sort = \<lparr>so_column = ''rule_id'', so_descending = True\<rparr>, rq_page = 9\<rparr>;
       s = \<lparr>se_senders = [], se_names = [], se_ok = [], se_lookups = \<lparr>l_to_unicode = Some, l_to_ascii = Some, l_registrable = Some\<rparr>\<rparr>
   in concat (map (\<lambda>k. the (rules_rows ascii_tables stored s (None, Some 7) (r\<lparr>rq_page := int k + 1\<rparr>))) [0..<1]) =
      map (\<lambda>x. rule_row_of ascii_tables x s) (filtered_rules ascii_tables stored (None, Some 7) r)"
  unfolding Let_def
  by (rule rules_pages_hold_every_rule)
     (simp_all add: filtered_rules_def filter_of_def rows_per_page_def max_int64_def)

subsection \<open>A row's identity\<close>

lemma row_rule_reads_back: "row_rule (rule_row_id (scope_of base) i) = Some (base, i)"
  by (cases base) (simp_all add: row_rule_def rule_row_id_def scope_of_def base_row_def account_row_def has_prefix_def)

subsection \<open>What a change releases\<close>

lemma composed_fold:
  "foldl composed_step acc stored =
     (fst acc @ map (\<lambda>r. \<lparr>sr_id = st_id r, sr_suffixes = st_suffixes r\<rparr>) (filter st_base stored),
      snd acc @ map (\<lambda>r. \<lparr>sr_id = st_id r, sr_suffixes = st_suffixes r\<rparr>) (filter (\<lambda>r. \<not> st_base r) stored))"
  by (induction stored arbitrary: acc) (simp_all add: composed_step_def Let_def)

lemma set_composed_rules:
  "set (composed_rules stored) = (\<lambda>r. \<lparr>sr_id = st_id r, sr_suffixes = st_suffixes r\<rparr>) ` set stored"
  by (auto simp: composed_rules_def composed_fold)

lemma rule_of_name_Nil:
  "\<forall>r \<in> set rules. sr_id r \<noteq> [] \<Longrightarrow>
   rule_of_name n (names_of u rules l) \<noteq> [] \<longleftrightarrow> (\<exists>r \<in> set rules. \<exists>s \<in> set (sr_suffixes r). under n (suffix_name u s l))"
  by (induction rules) (auto simp: names_of_def suffix_names_def list_ex_iff)

lemma class_of_restricts:
  "\<forall>r \<in> set rules. sr_id r \<noteq> [] \<Longrightarrow>
   fst (class_of u d (names_of u rules l) l) \<longleftrightarrow>
     (case sender_name u d l of None \<Rightarrow> True
      | Some n \<Rightarrow> \<exists>r \<in> set rules. \<exists>s \<in> set (sr_suffixes r). under n (suffix_name u s l))"
  by (simp add: class_of_def Let_def rule_of_name_Nil split: option.split)

lemma set_without_rule:
  "set (without_rule stored base i keep) =
     (\<Union>r \<in> set stored. set (if st_base r = base \<and> st_id r = i then keep else st_suffixes r))"
proof -
  have "set (foldl (\<lambda>out r. if st_base r = base \<and> st_id r = i then out @ keep else out @ st_suffixes r) out stored) =
      set out \<union> (\<Union>r \<in> set stored. set (if st_base r = base \<and> st_id r = i then keep else st_suffixes r))" for out
    by (induction stored arbitrary: out) auto
  then show ?thesis by (simp add: without_rule_def)
qed

lemma set_without_nothing:
  assumes "distinct (map (\<lambda>r. (st_base r, st_id r)) stored)"
  shows "set (without_rule stored base i (rules_suffixes stored base i)) = (\<Union>r \<in> set stored. set (st_suffixes r))"
proof -
  have "rules_suffixes stored base i = st_suffixes r" if "r \<in> set stored" "st_base r = base" "st_id r = i" for r
  proof (cases "find (\<lambda>r. st_base r = base \<and> st_id r = i) stored")
    case None
    then show ?thesis using that by (auto simp: find_None_iff)
  next
    case (Some x)
    then have "x \<in> set stored" "st_base x = base" "st_id x = i" by (auto simp: find_Some_iff)
    then have "x = r" using that assms by (auto simp: distinct_map inj_on_def)
    then show ?thesis using Some by (simp add: rules_suffixes_def)
  qed
  then show ?thesis unfolding set_without_rule by (intro SUP_cong refl) auto
qed

lemma sender_under_new:
  "i < length stored \<Longrightarrow> sender_under (new_senders u stored policy l) i (suffix_names u suffixes l) \<longleftrightarrow>
     (case sender_name u (ss_domain (stored ! i)) l of None \<Rightarrow> False
      | Some n \<Rightarrow> \<exists>s \<in> set suffixes. under n (suffix_name u s l))"
  by (auto simp: sender_under_def new_senders_def name_or_zero_def suffix_names_def list_ex_iff Let_def split: option.split)

lemma foldl_enumerate_if:
  "(\<And>i. i < length ys \<Longrightarrow> P (n + i) \<longleftrightarrow> Q (ys ! i)) \<Longrightarrow>
   foldl (\<lambda>c (i, x). if P i then f c x else c) c (enumerate n (map g ys)) = foldl f c (map g (filter Q ys))"
proof (induction ys arbitrary: n c)
  case (Cons y ys)
  have "P n \<longleftrightarrow> Q y" using Cons.prems [of 0] by simp
  moreover have "P (Suc n + i) \<longleftrightarrow> Q (ys ! i)" if "i < length ys" for i using Cons.prems [of "Suc i"] that by simp
  ultimately show ?case using Cons.IH [of "Suc n"] by simp
qed simp

text \<open>The rules with one rule's suffixes changed.\<close>

definition changed_rule :: "bool \<Rightarrow> string \<Rightarrow> string list \<Rightarrow> stored_rule \<Rightarrow> stored_rule" where
  "changed_rule base i after r = (if st_base r = base \<and> st_id r = i then r\<lparr>st_suffixes := after\<rparr> else r)"

text \<open>
  C36. What a lift, or a removal of suffixes, is said to release is what it frees: the senders of the
  account the policy restricts as it stands and would not restrict with that one rule changed, each
  counted once with its messages. A sender whose domain the classifier cannot read stays restricted and
  is never counted.
\<close>

theorem release_counts_what_the_change_frees:
  assumes "distinct (map (\<lambda>r. (st_base r, st_id r)) stored)" "\<forall>r \<in> set stored. st_id r \<noteq> []"
  shows "let restricted_under = (\<lambda>rules x. fst (class_of u (ss_domain x) (names_of u (composed_rules rules) l) l));
     freed = filter (\<lambda>x. restricted_under stored x \<and>
       \<not> restricted_under (map (changed_rule base i after) stored) x) read in
     rule_release u stored (account_senders u read stored l) base i after =
       \<lparr>mc_senders = of_nat (length freed), mc_messages = sum_list (map ss_messages freed)\<rparr>"
proof -
  let ?now = "\<lambda>x. fst (class_of u (ss_domain x) (names_of u (composed_rules stored) l) l)"
  let ?then = "\<lambda>x. fst (class_of u (ss_domain x) (names_of u (composed_rules (map (changed_rule base i after) stored)) l) l)"
  let ?s = "account_senders u read stored l"
  let ?b = "suffix_names u (without_rule stored base i (rules_suffixes stored base i)) l"
  let ?a = "suffix_names u (without_rule stored base i after) l"
  have ids: "\<forall>r \<in> set (composed_rules stored). sr_id r \<noteq> []"
    "\<forall>r \<in> set (composed_rules (map (changed_rule base i after) stored)). sr_id r \<noteq> []"
    using assms(2) by (auto simp: set_composed_rules changed_rule_def)
  have suffixes: "(\<Union>r \<in> set stored. set (st_suffixes (changed_rule base i after r))) = set (without_rule stored base i after)"
    unfolding set_without_rule by (intro SUP_cong refl) (simp add: changed_rule_def)
  have now: "?now x \<longleftrightarrow> (case sender_name u (ss_domain x) l of None \<Rightarrow> True
      | Some n \<Rightarrow> \<exists>s \<in> set (without_rule stored base i (rules_suffixes stored base i)). under n (suffix_name u s l))" for x
    unfolding class_of_restricts [OF ids(1)] set_without_nothing [OF assms(1)] by (simp add: set_composed_rules split: option.split)
  have after': "?then x \<longleftrightarrow> (case sender_name u (ss_domain x) l of None \<Rightarrow> True
      | Some n \<Rightarrow> \<exists>s \<in> set (without_rule stored base i after). under n (suffix_name u s l))" for x
    unfolding class_of_restricts [OF ids(2)] suffixes [symmetric] by (simp add: set_composed_rules split: option.split)
  have freed: "sender_under ?s k ?b \<and> \<not> sender_under ?s k ?a \<longleftrightarrow> ?now (read ! k) \<and> \<not> ?then (read ! k)"
    if "k < length read" for k
    using that by (auto simp: account_senders_def sender_under_new now after' split: option.split)
  let ?g = "\<lambda>x. \<lparr>sd_domain = ss_domain x, sd_messages = ss_messages x, sd_restricted = ?now x\<rparr>"
  have parts: "se_lookups ?s = l" "se_senders ?s = map ?g read"
    by (simp_all only: account_senders_def sd_restricted_class) (simp add: new_senders_def Let_def)
  have "rule_release u stored ?s base i after =
      foldl (\<lambda>c (k, x). if sender_under ?s k ?b \<and> \<not> sender_under ?s k ?a then count_one c x else c) no_matches
        (enumerate 0 (map ?g read))"
    by (simp only: rule_release_def released_senders_def Let_def parts)
  also have "\<dots> = foldl count_one no_matches (map ?g (filter (\<lambda>x. ?now x \<and> \<not> ?then x) read))"
    by (rule foldl_enumerate_if) (simp only: add_0 freed)
  finally have "rule_release u stored ?s base i after =
      foldl count_one no_matches (map ?g (filter (\<lambda>x. ?now x \<and> \<not> ?then x) read))" .
  then show ?thesis by (simp add: foldl_count_one no_matches_def o_def Let_def)
qed

theorem release_counts_what_the_change_frees_witness:
  "let stored = [\<lparr>st_base = True, st_id = ''b'', st_class = ''restricted'', st_suffixes = [''b.c'', ''d.c''], st_source = [],
         st_created_at = 5, st_created_by = []\<rparr>,
         \<lparr>st_base = False, st_id = ''b'', st_class = ''restricted'', st_suffixes = [''d.c''], st_source = [],
         st_created_at = 6, st_created_by = []\<rparr>];
     l = \<lparr>l_to_unicode = Some, l_to_ascii = Some, l_registrable = Some\<rparr>;
     read = [\<lparr>ss_domain = ''b.c'', ss_messages = 3\<rparr>, \<lparr>ss_domain = ''d.c'', ss_messages = 4\<rparr>];
     restricted_under = (\<lambda>rules x. fst (class_of ascii_tables (ss_domain x) (names_of ascii_tables (composed_rules rules) l) l));
     freed = filter (\<lambda>x. restricted_under stored x \<and> \<not> restricted_under (map (changed_rule True ''b'' []) stored) x) read in
     rule_release ascii_tables stored (account_senders ascii_tables read stored l) True ''b'' [] =
       \<lparr>mc_senders = of_nat (length freed), mc_messages = sum_list (map ss_messages freed)\<rparr>"
  unfolding Let_def by (rule release_counts_what_the_change_frees [unfolded Let_def]) simp_all

end
