(* ===== verification/Attention.thy ===== *)
theory Attention
  imports Lens RateLimits "HOL-Library.Multiset"
begin

text \<open>
  \<open>ui/internal/core/attention\<close>: Home's cards. Each rule reads its recorded state against its threshold,
  and the cards are put in one order. Counts are 64-bit, thresholds are float64 where the source's are,
  and instants are the texts the read API writes. The lemmas show which cards there are, how they are
  ordered, and what the texts of counts and spans say.
\<close>

subsection \<open>State and thresholds\<close>

definition backlog_rule :: string where "backlog_rule = ''backlog''"
definition masking_rule :: string where "masking_rule = ''masking''"
definition serves_rule :: string where "serves_rule = ''body_serves''"
definition gap_rule :: string where "gap_rule = ''sync_gap''"

definition attention_rules :: "string list" where
  "attention_rules = [backlog_rule, masking_rule, serves_rule, gap_rule]"

definition baseline_days :: nat where "baseline_days = 7"

record thresholds =
  th_backlog_share :: float64
  th_mask_count :: int64
  th_serve_factor :: float64
  th_gap_days :: int64

record mask_pair =
  mp_sender :: string
  mp_rule :: string
  mp_events :: int64
  mp_first_at :: string

record body_serves =
  bs_count :: int64
  bs_first_at :: string
  bs_day_counts :: "int64 list"

record recovery =
  rc_started_at :: string
  rc_finished_at :: string
  rc_window :: "int64 option"
  rc_reconciled :: "int64 option"

record attention_inputs =
  ai_pending :: int64
  ai_messages :: int64
  ai_pairs :: "mask_pair list"
  ai_serves :: body_serves
  ai_recoveries :: "recovery list"

record card =
  cd_rule :: string
  cd_what :: string
  cd_number :: int64
  cd_since :: string
  cd_sentence :: string
  cd_sender :: string
  cd_mask_rule :: string

definition zero_card :: card where
  "zero_card = \<lparr>cd_rule = [], cd_what = [], cd_number = 0, cd_since = [], cd_sentence = [], cd_sender = [], cd_mask_rule = []\<rparr>"

subsection \<open>Texts\<close>

text \<open>\<open>Count\<close>: a comma before every third digit from the right. The loop has the number of digits left.\<close>

fun group_digits :: "nat \<Rightarrow> string \<Rightarrow> string" where
  "group_digits i [] = []"
| "group_digits i (d # ds) =
     (if 0 < i \<and> (length (d # ds)) mod 3 = 0 then CHR '','' # d # group_digits (Suc i) ds
      else d # group_digits (Suc i) ds)"

definition count_text :: "int64 \<Rightarrow> string" where
  "count_text n =
     (let digits = format_int (sint n)
      in if has_prefix digits ''-'' then ''-'' @ group_digits 0 (drop 1 digits) else group_digits 0 digits)"

text \<open>\<open>strconv.FormatFloat\<close> with one decimal, rounding the exact value half to even.\<close>

definition one_decimal :: "float64 \<Rightarrow> string" where
  "one_decimal x = (case x of
      NaN \<Rightarrow> ''NaN'' | PInf \<Rightarrow> ''+Inf'' | NInf \<Rightarrow> ''-Inf''
    | Fin q \<Rightarrow> (let n = nat (rhe (\<bar>q\<bar> * 10))
                in (if q < 0 then ''-'' else []) @ digits_of (n div 10) @ ''.'' @ digits_of (n mod 10)))"

definition share_text :: "int64 \<Rightarrow> int64 \<Rightarrow> string" where
  "share_text part whole =
     (if whole = 0 then ''0.0''
      else one_decimal (fdiv (fmul (float_of_int64 part) (Fin 100)) (float_of_int64 whole)))"

definition duration_units :: "(string \<times> int) list" where
  "duration_units = [(''d'', 86400), (''h'', 3600), (''m'', 60), (''s'', 1)]"

fun duration_from :: "(string \<times> int) list \<Rightarrow> int \<Rightarrow> string" where
  "duration_from [] seconds = ''0s''"
| "duration_from ((name, len) # units) seconds =
     (if seconds < len then duration_from units seconds
      else (case units of
          [] \<Rightarrow> format_int (seconds div len) @ name
        | (next_name, next_len) # _ \<Rightarrow>
           (let rest = seconds mod len div next_len
            in format_int (seconds div len) @ name @
               (if 0 < rest then '' '' @ format_int rest @ next_name else []))))"

definition duration_text :: "int64 \<Rightarrow> string" where
  "duration_text seconds = duration_from duration_units (max 0 (sint seconds))"

definition minute_text :: "string \<Rightarrow> string" where
  "minute_text instant =
     (if length instant < 16 then instant
      else take 10 instant @ '' '' @ take 5 (drop 11 instant) @ ''Z'')"

subsection \<open>The rules\<close>

definition backlog_card :: "thresholds \<Rightarrow> attention_inputs \<Rightarrow> card option" where
  "backlog_card t i =
     (if fle (th_backlog_share t) (Fin 0) \<or> sint (ai_messages i) \<le> 0 \<or>
         fle (fmul (float_of_int64 (ai_pending i)) (Fin 100)) (fmul (th_backlog_share t) (float_of_int64 (ai_messages i)))
      then None
      else Some (zero_card\<lparr>cd_rule := backlog_rule, cd_what := ''Scan backlog'', cd_number := ai_pending i,
        cd_sentence := count_text (ai_pending i) @ '' messages are pending scan ('' @
          share_text (ai_pending i) (ai_messages i) @
          ''% of the corpus). Every pending message denies its body until scanned, which reads to the agent like a permission problem.''\<rparr>))"

definition masking_card :: "mask_pair \<Rightarrow> card" where
  "masking_card p = zero_card\<lparr>cd_rule := masking_rule, cd_what := ''Masking'', cd_number := mp_events p,
     cd_since := mp_first_at p, cd_sender := mp_sender p, cd_mask_rule := mp_rule p,
     cd_sentence := ''Masking fired '' @ count_text (mp_events p) @ '' times on '' @ mp_sender p @
       '' this week, all under '' @ mp_rule p @
       ''. A sender masked this often under one rule is worth checking for an over-mask.''\<rparr>"

definition median_serves :: "int64 list \<Rightarrow> int64" where
  "median_serves counts =
     (let days = counts @ replicate (max baseline_days (length counts) - length counts) 0
      in sort_key sint days ! (length days div 2))"

definition serves_card :: "thresholds \<Rightarrow> body_serves \<Rightarrow> card option" where
  "serves_card t s =
     (let median = median_serves (bs_day_counts s)
      in if fle (th_serve_factor t) (Fin 0) \<or> bs_count s = 0 \<or>
            fle (float_of_int64 (bs_count s)) (fmul (th_serve_factor t) (float_of_int64 median))
         then None
         else Some (zero_card\<lparr>cd_rule := serves_rule, cd_what := ''Body serves'', cd_number := bs_count s,
           cd_since := bs_first_at s,
           cd_sentence := count_text (bs_count s) @ '' bodies were served in 24 hours against a 7-day median of '' @
             count_text median @
             ''. Body-serve volume beyond triage plausibility is the anomaly the design watches for.''\<rparr>))"

definition gap_card :: "thresholds \<Rightarrow> recovery list \<Rightarrow> card option" where
  "gap_card t rs =
     (if sint (th_gap_days t) \<le> 0 \<or> rs = [] then None
      else
        let latest = last rs;
            at_text = (if rc_finished_at latest = [] then rc_started_at latest else rc_finished_at latest);
            sentence = ''Delta sync recovered from a cursor gap on '' @ minute_text at_text @
              (case (rc_window latest, rc_reconciled latest) of
                 (Some w, Some n) \<Rightarrow> '', re-enumerating a '' @ duration_text w @ '' window and reconciling '' @
                   count_text n @ '' messages''
               | _ \<Rightarrow> [])
        in Some (zero_card\<lparr>cd_rule := gap_rule, cd_what := ''Sync gap'', cd_number := of_nat (length rs),
             cd_since := rc_started_at (hd rs),
             cd_sentence := sentence @ ''. A repeated gap means the cadence or the cursor lifetime needs attention.''\<rparr>))"

subsection \<open>The order\<close>

definition compare_text :: "string \<Rightarrow> string \<Rightarrow> int" where
  "compare_text a b = (if a = b then 0 else if a < b then -1 else 1)"

definition rule_index :: "string \<Rightarrow> int" where
  "rule_index r = (case index_func (\<lambda>x. x = r) attention_rules of None \<Rightarrow> -1 | Some i \<Rightarrow> int i)"

definition card_order :: "card \<Rightarrow> card \<Rightarrow> int" where
  "card_order a b =
     (if cd_since a = [] \<and> cd_since b \<noteq> [] then -1
      else if cd_since a \<noteq> [] \<and> cd_since b = [] then 1
      else if cd_since a \<noteq> cd_since b then compare_text (cd_since b) (cd_since a)
      else let r = rule_index (cd_rule a) - rule_index (cd_rule b) in
           if r \<noteq> 0 then r
           else let s = compare_text (cd_sender a) (cd_sender b) in
                if s \<noteq> 0 then s else compare_text (cd_mask_rule a) (cd_mask_rule b))"

text \<open>\<open>slices.SortStableFunc\<close>: each element before the first it does not follow.\<close>

fun insert_by :: "('a \<Rightarrow> 'a \<Rightarrow> int) \<Rightarrow> 'a \<Rightarrow> 'a list \<Rightarrow> 'a list" where
  "insert_by cmp x [] = [x]"
| "insert_by cmp x (y # ys) = (if cmp x y \<le> 0 then x # y # ys else y # insert_by cmp x ys)"

definition stable_sort_by :: "('a \<Rightarrow> 'a \<Rightarrow> int) \<Rightarrow> 'a list \<Rightarrow> 'a list" where
  "stable_sort_by cmp xs = foldr (insert_by cmp) xs []"

definition fired_cards :: "thresholds \<Rightarrow> attention_inputs \<Rightarrow> card list" where
  "fired_cards t i =
     (case backlog_card t i of None \<Rightarrow> [] | Some c \<Rightarrow> [c]) @
     (if 0 < sint (th_mask_count t)
      then map masking_card (filter (\<lambda>p. sint (th_mask_count t) < sint (mp_events p)) (ai_pairs i)) else []) @
     (case serves_card t (ai_serves i) of None \<Rightarrow> [] | Some c \<Rightarrow> [c]) @
     (case gap_card t (ai_recoveries i) of None \<Rightarrow> [] | Some c \<Rightarrow> [c])"

definition attention_cards :: "thresholds \<Rightarrow> attention_inputs \<Rightarrow> card list" where
  "attention_cards t i = stable_sort_by card_order (fired_cards t i)"

subsection \<open>Which cards, in which order\<close>

lemma mset_insert_by: "mset (insert_by cmp x xs) = add_mset x (mset xs)"
  by (induction xs) (simp_all add: add_mset_commute)

lemma mset_stable_sort_by: "mset (stable_sort_by cmp xs) = mset xs"
  by (induction xs) (simp_all add: stable_sort_by_def mset_insert_by)

lemma set_stable_sort_by: "set (stable_sort_by cmp xs) = set xs"
  using mset_stable_sort_by [of cmp xs] by (metis set_mset_mset)

lemma sorted_insert_by:
  assumes trans: "\<And>a b c. cmp a b \<le> 0 \<Longrightarrow> cmp b c \<le> 0 \<Longrightarrow> cmp a c \<le> (0 :: int)"
    and total: "\<And>a b. cmp a b \<le> 0 \<or> cmp b a \<le> 0"
  shows "sorted_wrt (\<lambda>a b. cmp a b \<le> 0) xs \<Longrightarrow> sorted_wrt (\<lambda>a b. cmp a b \<le> 0) (insert_by cmp x xs)"
proof (induction xs)
  case (Cons y ys)
  have "set (insert_by cmp x ys) = insert x (set ys)"
    using mset_insert_by [of cmp x ys] by (metis set_mset_add_mset_insert set_mset_mset)
  then show ?case using Cons trans total [of x y] by auto
qed simp

lemma sorted_stable_sort_by:
  assumes "\<And>a b c. cmp a b \<le> 0 \<Longrightarrow> cmp b c \<le> 0 \<Longrightarrow> cmp a c \<le> (0 :: int)" "\<And>a b. cmp a b \<le> 0 \<or> cmp b a \<le> 0"
  shows "sorted_wrt (\<lambda>a b. cmp a b \<le> 0) (stable_sort_by cmp xs)"
  by (induction xs) (simp_all add: stable_sort_by_def sorted_insert_by [of cmp, OF assms])

text \<open>The order, as a condition.\<close>

definition before_or_same :: "card \<Rightarrow> card \<Rightarrow> bool" where
  "before_or_same a b \<longleftrightarrow>
     (if cd_since a = cd_since b
      then rule_index (cd_rule a) < rule_index (cd_rule b) \<or> rule_index (cd_rule a) = rule_index (cd_rule b) \<and>
        (cd_sender a < cd_sender b \<or> cd_sender a = cd_sender b \<and> cd_mask_rule a \<le> cd_mask_rule b)
      else cd_since a = [] \<or> cd_since b \<noteq> [] \<and> cd_since b < cd_since a)"

lemma card_order_le: "card_order a b \<le> 0 \<longleftrightarrow> before_or_same a b"
  by (auto simp: card_order_def before_or_same_def compare_text_def Let_def)

lemma before_trans: "before_or_same a b \<Longrightarrow> before_or_same b c \<Longrightarrow> before_or_same a c"
  unfolding before_or_same_def by (auto split: if_splits)

lemma before_total: "before_or_same a b \<or> before_or_same b a"
  unfolding before_or_same_def by (auto simp: not_less)

lemma attention_sorted: "sorted_wrt before_or_same (attention_cards t i)"
  using sorted_stable_sort_by [of card_order "fired_cards t i"] before_trans before_total
  by (simp add: attention_cards_def card_order_le)

definition card_count :: "string \<Rightarrow> card list \<Rightarrow> nat" where
  "card_count rule cards = length (filter (\<lambda>c. cd_rule c = rule) cards)"

lemma card_count_sorted: "card_count rule (attention_cards t i) = card_count rule (fired_cards t i)"
proof -
  have "mset (filter P (attention_cards t i)) = mset (filter P (fired_cards t i))" for P
    by (simp add: attention_cards_def mset_stable_sort_by)
  then show ?thesis unfolding card_count_def using mset_eq_length by blast
qed

lemma card_rules:
  "backlog_card t i = Some c \<Longrightarrow> cd_rule c = backlog_rule" "cd_rule (masking_card p) = masking_rule"
  "serves_card t s = Some c \<Longrightarrow> cd_rule c = serves_rule" "gap_card t rs = Some c \<Longrightarrow> cd_rule c = gap_rule"
  by (auto simp: backlog_card_def masking_card_def serves_card_def gap_card_def Let_def split: if_splits)

lemma rule_names [simp]:
  "backlog_rule \<noteq> masking_rule" "backlog_rule \<noteq> serves_rule" "backlog_rule \<noteq> gap_rule"
  "masking_rule \<noteq> backlog_rule" "masking_rule \<noteq> serves_rule" "masking_rule \<noteq> gap_rule"
  "serves_rule \<noteq> backlog_rule" "serves_rule \<noteq> masking_rule" "serves_rule \<noteq> gap_rule"
  "gap_rule \<noteq> backlog_rule" "gap_rule \<noteq> masking_rule" "gap_rule \<noteq> serves_rule"
  by (simp_all add: backlog_rule_def masking_rule_def serves_rule_def gap_rule_def)

lemma card_count_append [simp]:
  "card_count rule [] = 0" "card_count rule (xs @ ys) = card_count rule xs + card_count rule ys"
  "card_count rule [c] = (if cd_rule c = rule then 1 else 0)"
  "card_count rule (map masking_card ps) = (if rule = masking_rule then length ps else 0)"
  by (auto simp: card_count_def filter_map o_def card_rules(2))

lemma card_count_fired:
  "card_count backlog_rule (fired_cards t i) = (if backlog_card t i = None then 0 else 1)"
  "card_count masking_rule (fired_cards t i) =
     (if 0 < sint (th_mask_count t)
      then length (filter (\<lambda>p. sint (th_mask_count t) < sint (mp_events p)) (ai_pairs i)) else 0)"
  "card_count serves_rule (fired_cards t i) = (if serves_card t (ai_serves i) = None then 0 else 1)"
  "card_count gap_rule (fired_cards t i) = (if gap_card t (ai_recoveries i) = None then 0 else 1)"
  by (auto simp: fired_cards_def dest: card_rules(1,3,4) split: option.split)

text \<open>
  C39. Home shows a card exactly where a rule fires. There is one backlog card when messages are indexed and
  those pending are above the share, one masking card for each sender and rule above the count, one card
  of body serves when any were served and they are above the factor times the median, and one of gap
  recoveries when there was one; a threshold of zero fires nothing. The cards are in one order: those
  with no start first, then the newest start first, then the rules' order and the sender and rule.
\<close>

theorem cards_fire_exactly:
  "let cards = attention_cards t i; above = (\<lambda>x y. \<not> fle x y) in
     sorted_wrt before_or_same cards \<and> mset cards = mset (fired_cards t i) \<and>
     card_count backlog_rule cards =
       (if above (th_backlog_share t) (Fin 0) \<and> 0 < sint (ai_messages i) \<and>
           above (fmul (float_of_int64 (ai_pending i)) (Fin 100)) (fmul (th_backlog_share t) (float_of_int64 (ai_messages i)))
        then 1 else 0) \<and>
     card_count masking_rule cards =
       (if 0 < sint (th_mask_count t)
        then length (filter (\<lambda>p. sint (th_mask_count t) < sint (mp_events p)) (ai_pairs i)) else 0) \<and>
     card_count serves_rule cards =
       (if above (th_serve_factor t) (Fin 0) \<and> bs_count (ai_serves i) \<noteq> 0 \<and>
           above (float_of_int64 (bs_count (ai_serves i)))
             (fmul (th_serve_factor t) (float_of_int64 (median_serves (bs_day_counts (ai_serves i)))))
        then 1 else 0) \<and>
     card_count gap_rule cards = (if 0 < sint (th_gap_days t) \<and> ai_recoveries i \<noteq> [] then 1 else 0)"
  unfolding Let_def card_count_sorted card_count_fired
  by (intro conjI attention_sorted)
     (simp_all add: attention_cards_def mset_stable_sort_by backlog_card_def serves_card_def gap_card_def Let_def not_less not_le)

subsection \<open>What the texts say\<close>

lemma group_digits_commas: "CHR '','' \<notin> set ds \<Longrightarrow> filter (\<lambda>c. c \<noteq> CHR '','') (group_digits i ds) = ds"
  by (induction ds arbitrary: i) auto

lemma digit_no_comma: "k < 10 \<Longrightarrow> CHR '','' \<noteq> chr (48 + k)"
proof -
  assume "k < 10"
  then have "byte (chr (48 + k)) \<noteq> byte CHR '',''" by simp
  then show ?thesis by metis
qed

lemma digits_no_comma: "CHR '','' \<notin> set (digits_of n)"
proof (induction n rule: digits_of.induct)
  case (1 n)
  have "CHR '','' \<noteq> chr (48 + n mod 10)" by (rule digit_no_comma) simp
  then show ?case
    using 1 digit_no_comma [of n] by (cases "n < 10") (subst digits_of.simps, simp)+
qed

lemma count_text_digits: "filter (\<lambda>c. c \<noteq> CHR '','') (count_text n) = format_int (sint n)"
proof -
  have "CHR '','' \<notin> set (format_int (sint n))" by (simp add: format_int_def digits_no_comma)
  then show ?thesis
    by (cases "format_int (sint n)")
       (auto simp: count_text_def has_prefix_def group_digits_commas Let_def)
qed

lemma median_is_middle:
  fixes counts :: "int64 list"
  defines "days \<equiv> counts @ replicate (max baseline_days (length counts) - length counts) 0"
  shows "length days < 2 * length (filter (\<lambda>d. sint d \<le> sint (median_serves counts)) days)"
    and "length days \<le> 2 * length (filter (\<lambda>d. sint (median_serves counts) \<le> sint d) days)"
proof -
  let ?xs = "sort_key sint days" and ?k = "length days div 2"
  have k: "?k < length ?xs" by (simp add: days_def baseline_days_def) 
  have m: "median_serves counts = ?xs ! ?k" by (simp add: median_serves_def days_def Let_def)
  have len: "length (filter P days) = length (filter P ?xs)" for P
    by (metis mset_filter mset_sort size_mset)
  have s: "sorted (map sint ?xs)" by simp
  have "length (take (Suc ?k) ?xs) \<le> length (filter (\<lambda>d. sint d \<le> sint (?xs ! ?k)) ?xs)"
  proof -
    have "sint x \<le> sint (?xs ! ?k)" if x: "x \<in> set (take (Suc ?k) ?xs)" for x
    proof -
      obtain j where "j \<le> ?k" "x = ?xs ! j" using x k by (auto simp: in_set_conv_nth less_Suc_eq_le)
      then show ?thesis using sorted_nth_mono [OF s, of j ?k] k by simp
    qed
    then have "filter (\<lambda>d. sint d \<le> sint (?xs ! ?k)) (take (Suc ?k) ?xs) = take (Suc ?k) ?xs" by (simp add: filter_id_conv)
    moreover have "length (filter P (take j ?xs)) \<le> length (filter P ?xs)" for P j
      by (metis append_take_drop_id filter_append le_add1 length_append)
    ultimately show ?thesis by metis
  qed
  then show "length days < 2 * length (filter (\<lambda>d. sint d \<le> sint (median_serves counts)) days)"
    using k unfolding m len by simp
  have "length (drop ?k ?xs) \<le> length (filter (\<lambda>d. sint (?xs ! ?k) \<le> sint d) ?xs)"
  proof -
    have "sint (?xs ! ?k) \<le> sint x" if x: "x \<in> set (drop ?k ?xs)" for x
    proof -
      obtain n where n: "n < length days - ?k" "x = ?xs ! (?k + n)" using x by (auto simp: in_set_conv_nth)
      then have "?k + n < length (map sint ?xs)" by simp
      then show ?thesis using sorted_nth_mono [OF s, of ?k "?k + n"] n k by simp
    qed
    then have "filter (\<lambda>d. sint (?xs ! ?k) \<le> sint d) (drop ?k ?xs) = drop ?k ?xs" by (simp add: filter_id_conv)
    moreover have "length (filter P (drop j ?xs)) \<le> length (filter P ?xs)" for P j
      by (metis append_take_drop_id filter_append le_add2 length_append)
    ultimately show ?thesis by metis
  qed
  then show "length days \<le> 2 * length (filter (\<lambda>d. sint (median_serves counts) \<le> sint d) days)"
    unfolding m len by simp
qed

end
