(* ===== verification/UiConfig.thy ===== *)
theory UiConfig
  imports Datasets
begin

text \<open>
  \<open>ui/internal/core/serving\<close> and \<open>ui/internal/core/setup\<close>: which configurations the UI starts with, and which
  values its setup screens accept. Intervals are 64-bit nanoseconds and the thresholds and targets that
  are fractions are float64. The lemmas show what texts a consent redirect, an account's identifier and
  a client's name are.
\<close>

subsection \<open>The consent redirect\<close>

definition loopback_ipv4 :: "string \<Rightarrow> bool" where
  "loopback_ipv4 s =
     (let parts = split_byte CHR ''.'' s
      in if length parts \<noteq> 4 \<or> parts ! 0 \<noteq> ''127'' then False
         else list_all (\<lambda>p. case atoi p of None \<Rightarrow> False | Some n \<Rightarrow> \<not> (n < 0 \<or> n > 255 \<or> format_int n \<noteq> p)) parts)"

text \<open>What the host and port parts of an authority are read as.\<close>

definition split_authority :: "string \<Rightarrow> (string \<times> string) option" where
  "split_authority authority =
     (if has_prefix authority ''['' then
        (case cut_string authority '']:'' of (h, p, found) \<Rightarrow>
           if \<not> found \<or> h \<noteq> ''[::1'' then None else Some (''::1'', p))
      else
        (case last_index_byte authority CHR '':'' of
           None \<Rightarrow> None
         | Some i \<Rightarrow> if \<not> loopback_ipv4 (take i authority) then None
                     else Some (take i authority, drop (i + 1) authority)))"

text \<open>What follows the scheme.\<close>

definition loopback_rest :: "string \<Rightarrow> bool" where
  "loopback_rest rest \<longleftrightarrow>
     (if list_ex (\<lambda>c. c \<in> set ''?#@'') rest then False
      else let (authority, path, _) = cut_string rest ''/'' in
        if path \<noteq> [] then False
        else case split_authority authority of
            None \<Rightarrow> False
          | Some (host, port) \<Rightarrow>
              (case atoi port of None \<Rightarrow> False
               | Some n \<Rightarrow> host \<noteq> [] \<and> n \<ge> 1 \<and> n \<le> 65535 \<and> format_int n = port))"

definition loopback_redirect :: "string \<Rightarrow> bool" where
  "loopback_redirect s = (case cut_prefix s ''http://'' of None \<Rightarrow> False | Some rest \<Rightarrow> loopback_rest rest)"

subsection \<open>The UI's configuration\<close>

record ui_config =
  uc_sync_interval :: int64
  uc_heuristics_interval :: int64
  uc_stream_interval :: int64
  uc_default_theme :: string
  uc_stream_reconnect_max :: int64
  uc_stream_poll_interval :: int64
  uc_backlog_share :: float64
  uc_mask_count :: int64
  uc_serve_factor :: float64
  uc_gap_days :: int64
  uc_consent_redirect :: string

text \<open>None where the configuration is accepted, else the reason it is refused.\<close>

definition validate_config :: "ui_config \<Rightarrow> string option" where
  "validate_config c =
     (if sint (uc_sync_interval c) \<le> 0 then Some ''sync_interval is not positive''
      else if sint (uc_heuristics_interval c) \<le> 0 then Some ''heuristics_interval is not positive''
      else if sint (uc_stream_interval c) \<le> 0 then Some ''stream_interval is not positive''
      else if uc_default_theme c \<noteq> ''system'' \<and> uc_default_theme c \<noteq> ''dark'' \<and> uc_default_theme c \<noteq> ''light''
      then Some ''default_theme is not system, dark or light''
      else if sint (uc_stream_reconnect_max c) < 1000000 then Some ''stream_reconnect_max is under a millisecond''
      else if sint (uc_stream_poll_interval c) < 1000000 then Some ''stream_poll_interval is under a millisecond''
      else if flt (uc_backlog_share c) (Fin 0) then Some ''attention_backlog_share is negative''
      else if sint (uc_mask_count c) < 0 then Some ''attention_mask_count is negative''
      else if flt (uc_serve_factor c) (Fin 0) then Some ''attention_serve_factor is negative''
      else if sint (uc_gap_days c) < 0 then Some ''attention_gap_days is negative''
      else if \<not> loopback_redirect (uc_consent_redirect c)
      then Some ''consent_redirect is not an http address on a loopback IP literal with an explicit port''
      else None)"

subsection \<open>Setup\<close>

datatype setup_refusal =
    NoRefusal | NameRefused | ProjectRefused | IdentifierRefused | TargetRefused | MailboxRefused
  | ConsentDeclined | NoCode | WrongAttempt | AttemptExpired

definition lower_alnum_dash :: "nat \<Rightarrow> bool" where
  "lower_alnum_dash c \<longleftrightarrow> \<not> ((c < 97 \<or> c > 122) \<and> (c < 48 \<or> c > 57) \<and> c \<noteq> byte CHR ''-'')"

definition project_shaped :: "string \<Rightarrow> bool" where
  "project_shaped s =
     (if length s < 6 \<or> length s > 30 \<or> byte (s ! 0) < 97 \<or> byte (s ! 0) > 122 then False
      else list_all (\<lambda>(i, c, w). lower_alnum_dash c) (range_string s))"

definition client_name :: "string \<Rightarrow> setup_refusal" where
  "client_name name = (if \<not> project_shaped name then NameRefused else NoRefusal)"

definition project_id :: "string option \<Rightarrow> setup_refusal" where
  "project_id i = (case i of None \<Rightarrow> NoRefusal | Some s \<Rightarrow> if \<not> project_shaped s then ProjectRefused else NoRefusal)"

definition identifier_shaped :: "string \<Rightarrow> bool" where
  "identifier_shaped s =
     (if length s < 1 \<or> length s > 63 \<or> s ! 0 = CHR ''-'' \<or> s ! (length s - 1) = CHR ''-'' then False
      else list_all (\<lambda>c. lower_alnum_dash (byte c)) s)"

definition account_identifier :: "string \<Rightarrow> setup_refusal" where
  "account_identifier s = (if \<not> identifier_shaped s then IdentifierRefused else NoRefusal)"

definition mailbox_address :: "string \<Rightarrow> setup_refusal" where
  "mailbox_address address =
     (case last_index_byte address CHR ''@'' of
        None \<Rightarrow> MailboxRefused
      | Some at_sign \<Rightarrow>
          if at_sign = 0 \<or> at_sign = length address - 1 \<or> trim_space address \<noteq> address then MailboxRefused
          else NoRefusal)"

definition lowered_target :: "float64 option \<Rightarrow> setup_refusal" where
  "lowered_target fraction =
     (case fraction of
        None \<Rightarrow> NoRefusal
      | Some f \<Rightarrow> if \<not> flt (round64 (5 / 100)) f \<or> flt (Fin (1 / 2)) f then TargetRefused else NoRefusal)"

definition attempt_expired :: "int64 \<Rightarrow> int64 \<Rightarrow> setup_refusal" where
  "attempt_expired expires now = (if sint expires \<le> sint now then AttemptExpired else NoRefusal)"

record redirect =
  re_state :: string
  re_code :: string
  re_error :: string

definition check_redirect :: "redirect \<Rightarrow> string \<Rightarrow> setup_refusal" where
  "check_redirect r state =
     (if re_state r \<noteq> state \<and> (re_code r \<noteq> [] \<or> re_error r \<noteq> []) then WrongAttempt
      else if re_error r \<noteq> [] then ConsentDeclined
      else if re_code r = [] then NoCode
      else NoRefusal)"

subsection \<open>Numbers as the code prints them\<close>

lemma all_digits_of: "all_digits (digits_of n)"
proof (induction n rule: digits_of.induct)
  case (1 n)
  have "ascii_digit (byte (chr (48 + k)))" if "k < 10" for k
    using that by (simp add: ascii_digit_def)
  then show ?case using 1 by (subst digits_of.simps) (auto simp: all_digits_def)
qed

lemma digits_of_nonempty [simp]: "digits_of n \<noteq> []"
  by (subst digits_of.simps) simp

lemma value_digits_of [simp]: "digits_value (digits_of n) = n"
proof (induction n rule: digits_of.induct)
  case (1 n)
  have "byte (chr (48 + n mod 10)) = 48 + n mod 10" by simp
  then show ?case using 1 by (subst digits_of.simps) (auto simp: digits_value_def)
qed

lemma length_digits_of: "n < 10 ^ Suc k \<Longrightarrow> length (digits_of n) \<le> Suc k"
proof (induction k arbitrary: n)
  case (Suc k)
  then have "n div 10 < 10 ^ Suc k" by (simp add: less_mult_imp_div_less mult.commute)
  then show ?case using Suc.IH [of "n div 10"] by (subst digits_of.simps) simp
qed (simp add: digits_of.simps)

text \<open>A text is a number between bounds, printed as the code prints it.\<close>

lemma atoi_between:
  assumes "0 \<le> low" "high < 10 ^ 5"
  shows "(case atoi p of None \<Rightarrow> False | Some n \<Rightarrow> \<not> (n < low \<or> n > high \<or> format_int n \<noteq> p)) \<longleftrightarrow>
    (\<exists>k. low \<le> int k \<and> int k \<le> high \<and> p = digits_of k)"
proof
  assume "case atoi p of None \<Rightarrow> False | Some n \<Rightarrow> \<not> (n < low \<or> n > high \<or> format_int n \<noteq> p)"
  then obtain n where n: "atoi p = Some n" "low \<le> n" "n \<le> high" "format_int n = p" by (auto split: option.splits)
  then have "p = digits_of (nat n)" using assms(1) by (auto simp: format_int_def)
  then show "\<exists>k. low \<le> int k \<and> int k \<le> high \<and> p = digits_of k" using n assms(1) by (intro exI [of _ "nat n"]) auto
next
  assume "\<exists>k. low \<le> int k \<and> int k \<le> high \<and> p = digits_of k"
  then obtain k where k: "low \<le> int k" "int k \<le> high" "p = digits_of k" by blast
  then have "k < 10 ^ Suc 4" using assms(2) by simp
  from length_digits_of [OF this] have "atoi p = Some (int k)"
    using atoi_digits [OF all_digits_of [of k]] k(3) by simp
  then show "case atoi p of None \<Rightarrow> False | Some n \<Rightarrow> \<not> (n < low \<or> n > high \<or> format_int n \<noteq> p)"
    using k by (simp add: format_int_def)
qed

lemma digits_of_chars: "c \<in> set (digits_of n) \<Longrightarrow> ascii_digit (byte c)"
  using all_digits_of by (auto simp: all_digits_def)

subsection \<open>Which texts a consent redirect is\<close>

definition ipv4_text :: "nat \<Rightarrow> nat \<Rightarrow> nat \<Rightarrow> string" where
  "ipv4_text a b c = ''127.'' @ digits_of a @ ''.'' @ digits_of b @ ''.'' @ digits_of c"

lemma split_digits: "CHR ''.'' \<notin> set s \<Longrightarrow> split_byte CHR ''.'' s = [s]"
  by (induction s) auto

lemma digits_no_dot [simp]: "CHR ''.'' \<notin> set (digits_of n)" "CHR '':'' \<notin> set (digits_of n)"
    "CHR ''/'' \<notin> set (digits_of n)" "CHR ''['' \<notin> set (digits_of n)" "CHR ''?'' \<notin> set (digits_of n)"
    "CHR ''#'' \<notin> set (digits_of n)" "CHR ''@'' \<notin> set (digits_of n)" "CHR '']'' \<notin> set (digits_of n)"
  using digits_of_chars by (force simp: ascii_digit_def)+

lemma loopback_ipv4_texts:
  "loopback_ipv4 s \<longleftrightarrow> (\<exists>a b c. a \<le> 255 \<and> b \<le> 255 \<and> c \<le> 255 \<and> s = ipv4_text a b c)"
proof
  assume l: "loopback_ipv4 s"
  then obtain p a b c where parts: "split_byte CHR ''.'' s = [p, a, b, c]"
    unfolding loopback_ipv4_def Let_def by (auto simp: length_Suc_conv numeral_eq_Suc split: if_splits)
  have num: "\<exists>k. 0 \<le> int k \<and> int k \<le> 255 \<and> x = digits_of k" if "x \<in> {a, b, c}" for x
    using l parts that atoi_between [of 0 255 x]
    by (auto simp: loopback_ipv4_def Let_def list_all_iff split: if_splits)
  have "p = ''127''" using l parts by (auto simp: loopback_ipv4_def Let_def split: if_splits)
  then have "s = ''127'' @ ''.'' @ a @ ''.'' @ b @ ''.'' @ c"
    using split_byte_join [OF parts] by simp
  then show "\<exists>a b c. a \<le> 255 \<and> b \<le> 255 \<and> c \<le> 255 \<and> s = ipv4_text a b c"
    using num [of a] num [of b] num [of c] by (auto simp: ipv4_text_def)
next
  assume "\<exists>a b c. a \<le> 255 \<and> b \<le> 255 \<and> c \<le> 255 \<and> s = ipv4_text a b c"
  then obtain a b c where s: "a \<le> 255" "b \<le> 255" "c \<le> 255" "s = ipv4_text a b c" by blast
  have "split_byte CHR ''.'' s = [''127'', digits_of a, digits_of b, digits_of c]"
    using split_byte_append [of "CHR ''.''" "''127''" "digits_of a @ ''.'' @ digits_of b @ ''.'' @ digits_of c"]
      split_byte_append [of "CHR ''.''" "digits_of a" "digits_of b @ ''.'' @ digits_of c"]
      split_byte_append [of "CHR ''.''" "digits_of b" "digits_of c"]
    by (simp add: s(4) ipv4_text_def split_digits)
  moreover have octet: "case atoi x of None \<Rightarrow> False | Some n \<Rightarrow> \<not> (n < 0 \<or> n > 255 \<or> format_int n \<noteq> x)"
    if "x = digits_of k" "k \<le> 255" for x k
    using that by (subst atoi_between) auto
  moreover have "''127'' = digits_of 127" by code_simp
  note octet [OF this]
  ultimately show "loopback_ipv4 s"
    using octet [OF refl s(1)] octet [OF refl s(2)] octet [OF refl s(3)] unfolding loopback_ipv4_def Let_def s(4) by simp
qed

lemma index_string_Some: "index_string s p = Some i \<Longrightarrow> s = take i s @ p @ drop (i + length p) s"
proof (induction s p arbitrary: i rule: index_string.induct)
  case (2 c s p)
  show ?case
  proof (cases "has_prefix (c # s) p")
    case True
    then have "take (length p) (c # s) = p" "i = 0" using 2 by (simp_all add: has_prefix_def)
    then show ?thesis using append_take_drop_id [of "length p" "c # s"] by simp
  next
    case False
    then obtain j where "index_string s p = Some j" "i = Suc j" using 2 by auto
    then show ?thesis using 2(1) [OF False] by simp
  qed
qed (simp split: if_splits)

lemma cut_string_found: "cut_string s p = (a, b, True) \<Longrightarrow> s = a @ p @ b"
  using index_string_Some by (auto simp: cut_string_def split: option.splits)

lemma last_index_byte_at: "c \<notin> set b \<Longrightarrow> last_index_byte (a @ c # b) c = Some (length a)"
proof -
  assume "c \<notin> set b"
  then have "dropWhile (\<lambda>x. x \<noteq> c) (rev (a @ c # b)) = c # rev a"
    by (subst rev_append, simp) (subst dropWhile_append2, auto)
  then show ?thesis by (simp add: last_index_byte_def)
qed

lemma last_index_byte_Some: "last_index_byte s c = Some i \<Longrightarrow> s = take i s @ c # drop (i + 1) s"
proof (cases "c \<in> set s")
  case True
  then obtain a b where "s = a @ c # b" "c \<notin> set b" using split_list_last by metis
  then show "last_index_byte s c = Some i \<Longrightarrow> ?thesis" by (auto simp: last_index_byte_at)
next
  case False
  then have "dropWhile (\<lambda>x. x \<noteq> c) (rev s) = []" by (simp add: dropWhile_eq_Nil_conv) metis
  then show "last_index_byte s c = Some i \<Longrightarrow> ?thesis" by (simp add: last_index_byte_def)
qed

definition loopback_host :: "string \<Rightarrow> bool" where
  "loopback_host host \<longleftrightarrow> host = ''[::1]'' \<or> (\<exists>a b c. a \<le> 255 \<and> b \<le> 255 \<and> c \<le> 255 \<and> host = ipv4_text a b c)"

lemma split_authority_host:
  "split_authority authority = Some (h, p) \<Longrightarrow> h \<noteq> [] \<and> (\<exists>host. loopback_host host \<and> authority = host @ '':'' @ p)"
proof (cases "has_prefix authority ''[''")
  case True
  assume "split_authority authority = Some (h, p)"
  then have "cut_string authority '']:'' = (''[::1'', p, True)" "h = ''::1''"
    using True by (auto simp: split_authority_def split: prod.splits if_splits)
  then show ?thesis using cut_string_found by (fastforce simp: loopback_host_def)
next
  case False
  assume "split_authority authority = Some (h, p)"
  then obtain i where i: "last_index_byte authority CHR '':'' = Some i" "loopback_ipv4 h" "h = take i authority"
      "p = drop (i + 1) authority"
    using False by (auto simp: split_authority_def split: option.splits if_splits)
  then have "authority = h @ '':'' @ p" using last_index_byte_Some by fastforce
  moreover have "loopback_host h" using i(2) by (simp add: loopback_ipv4_texts loopback_host_def)
  ultimately show ?thesis by (auto simp: loopback_host_def ipv4_text_def)
qed

lemma split_authority_at:
  assumes "loopback_host host" "CHR '':'' \<notin> set p"
  shows "\<exists>h. h \<noteq> [] \<and> split_authority (host @ '':'' @ p) = Some (h, p)"
proof (cases "host = ''[::1]''")
  case True
  then show ?thesis by (simp add: split_authority_def cut_string_def has_prefix_def)
next
  case False
  then have ip: "loopback_ipv4 host" using assms(1) by (simp add: loopback_host_def loopback_ipv4_texts)
  moreover have "host \<noteq> []" "\<not> has_prefix (host @ '':'' @ p) ''[''"
    using False assms(1) by (auto simp: loopback_host_def ipv4_text_def has_prefix_def)
  ultimately show ?thesis
    using last_index_byte_at [OF assms(2), of host] by (simp add: split_authority_def)
qed

lemma host_chars: "loopback_host host \<Longrightarrow> set host \<inter> {CHR ''/'', CHR ''?'', CHR ''#'', CHR ''@''} = {}"
  by (auto simp: loopback_host_def ipv4_text_def)

lemma cut_prefix_Some: "cut_prefix s p = Some r \<longleftrightarrow> s = p @ r"
proof -
  have "s = p @ drop (length p) s" if "take (length p) s = p" using append_take_drop_id [of "length p" s] that by simp
  then show ?thesis by (auto simp: cut_prefix_def has_prefix_def)
qed

lemma loopback_redirect_rest: "loopback_redirect s \<longleftrightarrow> (\<exists>rest. s = ''http://'' @ rest \<and> loopback_rest rest)"
proof (cases "cut_prefix s ''http://''")
  case None
  then have "s \<noteq> ''http://'' @ rest" for rest using cut_prefix_Some [of s "''http://''" rest] by (metis option.distinct(1))
  then show ?thesis unfolding loopback_redirect_def None option.case by blast
next
  case (Some rest)
  then have "s = ''http://'' @ rest" by (simp only: cut_prefix_Some)
  then show ?thesis unfolding loopback_redirect_def Some by (metis option.simps(5) same_append_eq)
qed

lemma loopback_rest_iff:
  "loopback_rest rest \<longleftrightarrow> \<not> list_ex (\<lambda>c. c \<in> set ''?#@'') rest \<and>
     (\<exists>authority found h k. cut_string rest ''/'' = (authority, [], found) \<and>
        split_authority authority = Some (h, digits_of k) \<and> h \<noteq> [] \<and> 1 \<le> k \<and> k \<le> 65535)"
proof -
  have port: "(case atoi p of None \<Rightarrow> False | Some n \<Rightarrow> host \<noteq> [] \<and> n \<ge> 1 \<and> n \<le> 65535 \<and> format_int n = p) \<longleftrightarrow>
      host \<noteq> [] \<and> (\<exists>k. 1 \<le> k \<and> k \<le> 65535 \<and> p = digits_of k)" for p and host :: string
  proof -
    have "(case atoi p of None \<Rightarrow> False | Some n \<Rightarrow> \<not> (n < 1 \<or> n > 65535 \<or> format_int n \<noteq> p)) \<longleftrightarrow>
        (\<exists>k. 1 \<le> k \<and> k \<le> 65535 \<and> p = digits_of k)"
      using atoi_between [of 1 65535 p] by simp
    then show ?thesis by (cases "atoi p") (simp_all add: not_less not_le)
  qed
  obtain authority path found where c: "cut_string rest ''/'' = (authority, path, found)" by (metis prod_cases3)
  show ?thesis
    unfolding loopback_rest_def c Let_def prod.case port
    by (cases "split_authority authority") auto
qed

text \<open>
  A consent redirect is an http address on the local machine and nothing else: a loopback literal of
  either family, a port from 1 to 65535 written in plain decimal, and at most a slash after it. No name,
  no other address, no user, path, query or fragment is accepted.
\<close>

lemma consent_redirect_is_loopback:
  "loopback_redirect s \<longleftrightarrow>
     (\<exists>host port tail. s = ''http://'' @ host @ '':'' @ digits_of port @ tail \<and> loopback_host host \<and>
        1 \<le> port \<and> port \<le> 65535 \<and> tail \<in> {[], ''/''})"
proof
  assume "loopback_redirect s"
  then obtain rest authority found h k where r: "s = ''http://'' @ rest" "cut_string rest ''/'' = (authority, [], found)"
    "split_authority authority = Some (h, digits_of k)" "1 \<le> k" "k \<le> 65535"
    unfolding loopback_redirect_rest loopback_rest_iff by blast
  obtain host where host: "loopback_host host" "authority = host @ '':'' @ digits_of k"
    using split_authority_host [OF r(3)] by blast
  have "rest = authority \<or> rest = authority @ ''/''"
    using r(2) cut_found [of rest "CHR ''/''" authority "[]"] cut_none [of "CHR ''/''" rest]
    by (cases found; cases "CHR ''/'' \<in> set rest") (auto dest: split_list_first)
  then show "\<exists>host port tail. s = ''http://'' @ host @ '':'' @ digits_of port @ tail \<and> loopback_host host \<and>
      1 \<le> port \<and> port \<le> 65535 \<and> tail \<in> {[], ''/''}"
    using r host by (intro exI [of _ host] exI [of _ k] exI [of _ "if rest = authority then [] else ''/''"]) auto
next
  assume "\<exists>host port tail. s = ''http://'' @ host @ '':'' @ digits_of port @ tail \<and> loopback_host host \<and>
      1 \<le> port \<and> port \<le> 65535 \<and> tail \<in> {[], ''/''}"
  then obtain host k tail where h: "s = ''http://'' @ host @ '':'' @ digits_of k @ tail" "loopback_host host"
    "1 \<le> k" "k \<le> 65535" "tail \<in> {[], ''/''}" by blast
  let ?authority = "host @ '':'' @ digits_of k"
  have clean: "CHR ''/'' \<notin> set ?authority" using host_chars [OF h(2)] by auto
  have "cut_string (?authority @ tail) ''/'' = (?authority, [], tail \<noteq> [])"
    using h(5) cut_none [OF clean] cut_at [OF clean, of "[]"] by auto
  moreover obtain x where "x \<noteq> []" "split_authority ?authority = Some (x, digits_of k)"
    using split_authority_at [OF h(2), of "digits_of k"] by auto
  moreover have "\<not> list_ex (\<lambda>c. c \<in> set ''?#@'') (?authority @ tail)"
    using host_chars [OF h(2)] h(5) by (auto simp: list_ex_iff)
  ultimately have "loopback_rest (?authority @ tail)" unfolding loopback_rest_iff using h(3,4) by blast
  then show "loopback_redirect s" unfolding loopback_redirect_rest using h(1) by auto
qed

end
