(* ===== verification/Transactions.thy ===== *)
theory Transactions
  imports Prelude
begin

text \<open>
  \<open>db/tx\<close>: the transaction every unit of data access runs in. A unit is the writes it asks for, in order,
  and the error it ends in. The locale is what a caller relies on: all of the writes, or none of them. A caller
  told of an error is not told which where the error is the COMMIT's own.
\<close>

subsection \<open>What a unit of data access promises\<close>

locale unit_of_work =
  fixes run :: "'w list \<times> 'e option \<Rightarrow> 'w list \<times> 'f option"
  assumes commits_all: "run body = (ws, None) \<Longrightarrow> body = (ws, None)"
    and tells_of_error: "run body = (ws, Some e) \<Longrightarrow> ws = [] \<or> body = (ws, None)"
begin

lemma all_or_nothing: "fst (run body) = [] \<or> body = (fst (run body), None)"
  by (cases "run body"; cases "snd (run body)") (auto dest: commits_all tells_of_error)

text \<open>A unit that ends in an error of its own writes nothing.\<close>

lemma failed_writes_nothing: "snd body \<noteq> None \<Longrightarrow> fst (run body) = []"
  using all_or_nothing [of body] by (cases body) auto

text \<open>A property of the stored state that the unit's own writes keep is kept whatever happens.\<close>

lemma keeps:
  assumes "P s" "\<And>ws. body = (ws, None) \<Longrightarrow> P (fold w ws s)"
  shows "P (fold w (fst (run body)) s)"
  using all_or_nothing [of body] assms by auto

end

subsection \<open>A transaction for an account\<close>

text \<open>
  What a function that runs in a transaction returns, with the writes stored. A COMMIT that ends in an error
  may have taken effect, as when the connection goes before its answer comes: \<open>CommitErrs\<close> says whether it did.
\<close>

datatype 'e commit_end = CommitTakes | CommitErrs (commit_error: 'e) (commit_stored: bool)

datatype 'e tx_error = NestedTransaction | BeginFailed | AccountNotSet | CommitFailed 'e | Failed 'e

record 'e tx_env =
  tx_nested :: bool
  tx_begins :: bool
  tx_sets :: "string \<Rightarrow> string option"   \<comment> \<open>the account as it reads back, None on an error\<close>
  tx_commits :: "'e commit_end"

definition run_tx :: "'e tx_env \<Rightarrow> string \<Rightarrow> 'w list \<times> 'e option \<Rightarrow> 'w list \<times> 'e tx_error option" where
  "run_tx env account body =
     (if tx_nested env then ([], Some NestedTransaction)
      else if \<not> tx_begins env then ([], Some BeginFailed)
      else case tx_sets env account of
          None \<Rightarrow> ([], Some BeginFailed)
        | Some got \<Rightarrow>
            if got = [] \<or> got \<noteq> account then ([], Some AccountNotSet)
            else (case body of
                (writes, Some e) \<Rightarrow> ([], Some (Failed e))
              | (writes, None) \<Rightarrow> (case tx_commits env of
                    CommitErrs e stored \<Rightarrow> (if stored then writes else [], Some (CommitFailed e))
                  | CommitTakes \<Rightarrow> (writes, None))))"

text \<open>
  \<open>RunBase\<close>: the base policy's transaction, whose account is the empty text; \<open>tx_sets\<close> is asked for it.
\<close>

definition run_base :: "'e tx_env \<Rightarrow> 'w list \<times> 'e option \<Rightarrow> 'w list \<times> 'e tx_error option" where
  "run_base env body =
     (if tx_nested env then ([], Some NestedTransaction)
      else if \<not> tx_begins env then ([], Some BeginFailed)
      else case tx_sets env [] of
          None \<Rightarrow> ([], Some BeginFailed)
        | Some got \<Rightarrow>
            if got \<noteq> [] then ([], Some AccountNotSet)
            else (case body of
                (writes, Some e) \<Rightarrow> ([], Some (Failed e))
              | (writes, None) \<Rightarrow> (case tx_commits env of
                    CommitErrs e stored \<Rightarrow> (if stored then writes else [], Some (CommitFailed e))
                  | CommitTakes \<Rightarrow> (writes, None))))"

lemma run_tx_commits:
  "run_tx env account body = (ws, None) \<longleftrightarrow>
     \<not> tx_nested env \<and> tx_begins env \<and> tx_sets env account = Some account \<and> account \<noteq> [] \<and>
     body = (ws, None) \<and> tx_commits env = CommitTakes"
  by (auto simp: run_tx_def split: option.splits prod.splits if_splits commit_end.splits)

lemma run_base_commits:
  "run_base env body = (ws, None) \<longleftrightarrow>
     \<not> tx_nested env \<and> tx_begins env \<and> tx_sets env [] = Some [] \<and> body = (ws, None) \<and> tx_commits env = CommitTakes"
  by (auto simp: run_base_def split: option.splits prod.splits if_splits commit_end.splits)

text \<open>An error told with anything stored is the COMMIT's, and everything asked for is.\<close>

lemma run_tx_stored:
  "run_tx env account body = (ws, Some e) \<Longrightarrow> ws \<noteq> [] \<Longrightarrow>
     tx_sets env account = Some account \<and> body = (ws, None) \<and> (\<exists>x. tx_commits env = CommitErrs x True \<and> e = CommitFailed x)"
  by (auto simp: run_tx_def split: option.splits prod.splits if_splits commit_end.splits)

interpretation account_tx: unit_of_work "run_tx env account"
  by unfold_locales (auto simp: run_tx_def split: option.splits prod.splits if_splits commit_end.splits)

interpretation base_tx: unit_of_work "run_base env"
  by unfold_locales (auto simp: run_base_def split: option.splits prod.splits if_splits commit_end.splits)

end
