(* ===== verification/Connect.thy ===== *)
theory Connect
  imports UiConfig Transactions
begin

text \<open>
  \<open>ui/internal/api/connect.go\<close>: starting and finishing a session's consent attempt, which connects an
  account, re-authorizes it or moves it to another client. The provider's consent, the database's
  answers, the seal and the client's secret are the fields of a record the definitions read. A finish is
  the events it causes, in order, and its answer, a refusal's code or what it stored. The lemmas show
  what a start keeps in the session and what a finish may store, and that a refusal stores nothing.
\<close>

subsection \<open>An attempt\<close>

datatype attempt_kind = AttemptConnect | AttemptReauthorize | AttemptMove

record attempt =
  at_kind :: attempt_kind
  at_state :: string
  at_verifier :: string
  at_account :: string
  at_provider :: string
  at_mailbox :: string
  at_remembered :: bool
  at_client :: string
  at_client_id :: string
  at_target :: "float64 option"
  at_expires :: int64
  at_consent :: string

record grant =
  gr_credential :: string
  gr_mailbox :: string

datatype consent_error = CodeRefused | ScopeMissing | ScopeRefused | APIDisabled | OtherConsentError

datatype store_error = ClientChanged | IdentifierTaken | IdentifierChecked | NotListed | OtherDatabaseError

record client_row =
  cl_name :: string
  cl_provider :: string
  cl_client_id :: string

text \<open>What account setup reads of an account; a null column is no value.\<close>

record held_account =
  ha_provider :: string
  ha_client :: "string option"
  ha_mailbox :: "string option"

datatype account_write =
    AddAccount string string                       \<comment> \<open>provider, client\<close>
  | AddState string string "float64 option"        \<comment> \<open>sealed credential, mailbox, lowered target\<close>
  | MoveAccount string string                      \<comment> \<open>client, provider\<close>
  | Reauthorize string string                      \<comment> \<open>sealed credential, mailbox\<close>
  | RecordAuthentication int64                     \<comment> \<open>when the attempt that succeeded started\<close>

record connect_env =
  ce_attempt :: "attempt option"
  ce_known :: "string \<Rightarrow> bool"
  ce_read_redirect :: "string \<Rightarrow> redirect option"
  ce_accounts :: "string list option"
  ce_clients :: "client_row list option"
  ce_secret :: "string \<Rightarrow> string option"
  ce_finish :: "string \<Rightarrow> string \<Rightarrow> string \<Rightarrow> string \<Rightarrow> consent_error + grant"
  ce_same_mailbox :: "string \<Rightarrow> string \<Rightarrow> bool"
  ce_seal :: "string \<Rightarrow> string \<Rightarrow> string option"
  ce_identity :: "string \<Rightarrow> store_error + (string \<times> string) list"
  ce_write :: "account_write \<Rightarrow> store_error + nat"   \<comment> \<open>how many rows it wrote\<close>
  ce_tx :: "store_error tx_env"
  ce_setup :: "string \<Rightarrow> store_error + held_account list"
  ce_state :: string                              \<comment> \<open>random texts, of a new attempt\<close>
  ce_verifier :: string
  ce_consent_address :: "string \<Rightarrow> string \<Rightarrow> string \<Rightarrow> string \<Rightarrow> string \<Rightarrow> string"
  ce_sealed_attempt :: "attempt \<Rightarrow> bool"          \<comment> \<open>whether the cookie's seal succeeds\<close>

datatype connect_event =
    OpenSecret string
  | ExchangeCode string string string string      \<comment> \<open>client identifier, secret, code, verifier\<close>
  | SealCredential string string                   \<comment> \<open>credential, account\<close>
  | Committed "account_write list"
  | EndAttempt

fun refusal_code :: "setup_refusal \<Rightarrow> string" where
  "refusal_code NoRefusal = []"
| "refusal_code NameRefused = ''name_refused''"
| "refusal_code ProjectRefused = ''project_refused''"
| "refusal_code IdentifierRefused = ''identifier_refused''"
| "refusal_code TargetRefused = ''target_refused''"
| "refusal_code MailboxRefused = ''mailbox_refused''"
| "refusal_code ConsentDeclined = ''consent_declined''"
| "refusal_code NoCode = ''no_code''"
| "refusal_code WrongAttempt = ''wrong_attempt''"
| "refusal_code AttemptExpired = ''attempt_expired''"

definition database_failure :: string where "database_failure = ''database''"
definition ui_failure :: string where "ui_failure = ''internal''"
definition provider_failure :: string where "provider_failure = ''provider_unreachable''"

subsection \<open>Starting\<close>

text \<open>\<open>attemptLifetime\<close> in the milliseconds the attempt's expiry is kept in.\<close>

definition attempt_lifetime :: int64 where "attempt_lifetime = 15 * 60 * 1000"

record connect_request =
  cr_account :: string
  cr_client :: string
  cr_mailbox :: string
  cr_target :: "float64 option"

record reauthorize_request =
  rr_mailbox :: "string option"
  rr_client :: "string option"

definition valid_start :: "string \<Rightarrow> float64 option \<Rightarrow> string option" where
  "valid_start mailbox target =
     (if mailbox_address mailbox \<noteq> NoRefusal then Some (refusal_code MailboxRefused)
      else if lowered_target target \<noteq> NoRefusal then Some (refusal_code TargetRefused)
      else None)"

definition named_client :: "connect_env \<Rightarrow> string \<Rightarrow> string + client_row" where
  "named_client env name =
     (case ce_clients env of
        None \<Rightarrow> Inl database_failure
      | Some cs \<Rightarrow> (case find (\<lambda>c. cl_name c = name \<and> ce_known env (cl_provider c)) cs of
            None \<Rightarrow> Inl ''unknown_client''
          | Some c \<Rightarrow> Inr c))"

definition account_setup :: "connect_env \<Rightarrow> string \<Rightarrow> held_account option" where
  "account_setup env account =
     (let body = (case ce_setup env account of
          Inl e \<Rightarrow> ([], Some e)
        | Inr rows \<Rightarrow> if length rows \<noteq> 1 then ([], Some NotListed) else (rows, None))
      in case run_tx (ce_tx env) account body of
          (_, Some e) \<Rightarrow> None
        | (rows, None) \<Rightarrow> Some (rows ! 0))"

text \<open>The new attempt the session's cookie keeps, or the refusal, which leaves the cookie as it is.\<close>

definition start_attempt :: "connect_env \<Rightarrow> int64 \<Rightarrow> attempt \<Rightarrow> string + attempt" where
  "start_attempt env now a =
     (let b = a\<lparr>at_state := ce_state env, at_verifier := ce_verifier env, at_expires := now + attempt_lifetime\<rparr>;
          c = b\<lparr>at_consent := ce_consent_address env (at_provider b) (at_client_id b) (at_state b)
                (at_verifier b) (at_mailbox b)\<rparr>
      in if \<not> ce_sealed_attempt env c then Inl ui_failure else Inr c)"

definition start_connect :: "connect_env \<Rightarrow> int64 \<Rightarrow> connect_request \<Rightarrow> string + attempt" where
  "start_connect env now body =
     (if account_identifier (cr_account body) \<noteq> NoRefusal
      then Inl (refusal_code (account_identifier (cr_account body)))
      else case valid_start (cr_mailbox body) (cr_target body) of
          Some code \<Rightarrow> Inl code
        | None \<Rightarrow> (case ce_accounts env of
              None \<Rightarrow> Inl database_failure
            | Some taken \<Rightarrow>
                if cr_account body \<in> set taken then Inl ''identifier_taken''
                else (case named_client env (cr_client body) of
                    Inl code \<Rightarrow> Inl code
                  | Inr c \<Rightarrow> start_attempt env now
                      \<lparr>at_kind = AttemptConnect, at_state = [], at_verifier = [], at_account = cr_account body,
                       at_provider = cl_provider c, at_mailbox = cr_mailbox body, at_remembered = False,
                       at_client = cl_name c, at_client_id = cl_client_id c, at_target = cr_target body,
                       at_expires = 0, at_consent = []\<rparr>)))"

definition text_or_empty :: "string option \<Rightarrow> string" where
  "text_or_empty s = (case s of None \<Rightarrow> [] | Some t \<Rightarrow> t)"

definition reauthorize_mailbox :: "held_account \<Rightarrow> reauthorize_request \<Rightarrow> string + string" where
  "reauthorize_mailbox held body =
     (case (ha_mailbox held, rr_mailbox body) of
        (Some _, Some _) \<Rightarrow> Inl ''mailbox_remembered''
      | (None, None) \<Rightarrow> Inl ''mailbox_required''
      | (None, Some m) \<Rightarrow> (case valid_start m None of Some code \<Rightarrow> Inl code | None \<Rightarrow> Inr m)
      | (Some m, None) \<Rightarrow> Inr m)"

definition start_reauthorize ::
  "connect_env \<Rightarrow> int64 \<Rightarrow> string \<Rightarrow> reauthorize_request \<Rightarrow> string + attempt" where
  "start_reauthorize env now account body =
     (case account_setup env account of
        None \<Rightarrow> Inl database_failure
      | Some held \<Rightarrow>
          let name = (case rr_client body of Some c \<Rightarrow> c | None \<Rightarrow> text_or_empty (ha_client held)) in
          if name = [] then Inl ''unknown_client''
          else (case named_client env name of
              Inl code \<Rightarrow> Inl code
            | Inr c \<Rightarrow>
                if cl_provider c \<noteq> ha_provider held then Inl ''client_wrong_provider''
                else (case reauthorize_mailbox held body of
                    Inl code \<Rightarrow> Inl code
                  | Inr mailbox \<Rightarrow> start_attempt env now
                      \<lparr>at_kind = (if cl_name c \<noteq> text_or_empty (ha_client held) then AttemptMove else AttemptReauthorize),
                       at_state = [], at_verifier = [], at_account = account, at_provider = ha_provider held,
                       at_mailbox = mailbox, at_remembered = (ha_mailbox held \<noteq> None),
                       at_client = cl_name c, at_client_id = cl_client_id c, at_target = None,
                       at_expires = 0, at_consent = []\<rparr>)))"

text \<open>Which attempt a request of the session shows or finishes.\<close>

definition connect_mine :: "attempt \<Rightarrow> bool" where
  "connect_mine a \<longleftrightarrow> at_kind a = AttemptConnect"

definition reauthorize_mine :: "string \<Rightarrow> attempt \<Rightarrow> bool" where
  "reauthorize_mine account a \<longleftrightarrow> at_kind a \<noteq> AttemptConnect \<and> at_account a = account"

definition show_attempt :: "connect_env \<Rightarrow> (attempt \<Rightarrow> bool) \<Rightarrow> attempt option" where
  "show_attempt env mine =
     (case ce_attempt env of None \<Rightarrow> None | Some a \<Rightarrow> if \<not> mine a then None else Some a)"

subsection \<open>Storing\<close>

text \<open>
  The statements of the transaction: each runs only when those before it succeeded, and the first that
  fails ends it.
\<close>

definition store_attempt ::
  "connect_env \<Rightarrow> attempt \<Rightarrow> string \<Rightarrow> int64 \<Rightarrow> account_write list \<times> store_error option" where
  "store_attempt env a sealed started =
     (case ce_identity env (at_client a) of
        Inl e \<Rightarrow> ([], Some e)
      | Inr identity \<Rightarrow>
          if identity \<noteq> [(at_provider a, at_client_id a)] then ([], Some ClientChanged)
          else
            let record = RecordAuthentication started;
                recorded = (\<lambda>ws. case ce_write env record of
                   Inl e \<Rightarrow> (ws, Some e) | Inr _ \<Rightarrow> (ws @ [record], None))
            in if at_kind a = AttemptConnect
               then
                 let add = AddAccount (at_provider a) (at_client a);
                     st = AddState sealed (at_mailbox a) (map_option to_float32 (at_target a))
                 in (case ce_write env add of
                      Inl e \<Rightarrow> ([], Some e)
                    | Inr _ \<Rightarrow> (case ce_write env st of
                        Inl e \<Rightarrow> ([add], Some e)
                      | Inr _ \<Rightarrow> recorded [add, st]))
               else
                 let move = MoveAccount (at_client a) (at_provider a);
                     re = Reauthorize sealed (at_mailbox a);
                     st = AddState sealed (at_mailbox a) None;
                     rest = (\<lambda>ws. case ce_write env re of
                         Inl e \<Rightarrow> (ws, Some e)
                       | Inr n \<Rightarrow>
                           if n \<noteq> 0 then recorded (ws @ [re])
                           else (case ce_write env st of
                               Inl e \<Rightarrow> (ws @ [re], Some e)
                             | Inr _ \<Rightarrow> recorded (ws @ [re, st])))
                 in if at_kind a = AttemptMove
                    then (case ce_write env move of
                        Inl e \<Rightarrow> ([], Some e)
                      | Inr n \<Rightarrow> if n \<noteq> 1 then ([move], Some NotListed) else rest [move])
                    else rest [])"

fun store_failure :: "store_error tx_error \<Rightarrow> string" where
  "store_failure (Failed ClientChanged) = ''client_changed''"
| "store_failure (Failed IdentifierTaken) = ''identifier_taken''"
| "store_failure (Failed IdentifierChecked) = ''identifier_refused''"
| "store_failure (CommitFailed IdentifierTaken) = ''identifier_taken''"
| "store_failure (CommitFailed IdentifierChecked) = ''identifier_refused''"
| "store_failure (CommitFailed ClientChanged) = ''client_changed''"
| "store_failure _ = database_failure"

fun consent_failure :: "consent_error \<Rightarrow> string" where
  "consent_failure CodeRefused = ''code_refused''"
| "consent_failure ScopeMissing = ''scope_missing''"
| "consent_failure ScopeRefused = ''scope_refused''"
| "consent_failure APIDisabled = ''api_disabled''"
| "consent_failure OtherConsentError = provider_failure"

subsection \<open>Finishing\<close>

definition still_free :: "connect_env \<Rightarrow> attempt \<Rightarrow> string option" where
  "still_free env a =
     (let clients = (case ce_clients env of
          None \<Rightarrow> Some database_failure
        | Some cs \<Rightarrow>
            if \<not> list_ex (\<lambda>c. cl_name c = at_client a \<and> cl_provider c = at_provider a \<and> cl_client_id c = at_client_id a) cs
            then Some ''client_changed'' else None)
      in if at_kind a = AttemptConnect
         then (case ce_accounts env of
             None \<Rightarrow> Some database_failure
           | Some taken \<Rightarrow> if at_account a \<in> set taken then Some ''identifier_taken'' else clients)
         else clients)"

text \<open>The checks before the code is exchanged: the attempt and the redirect's code, or the refusal.\<close>

definition admit_finish :: "connect_env \<Rightarrow> (attempt \<Rightarrow> bool) \<Rightarrow> int64 \<Rightarrow> string \<Rightarrow> string + (attempt \<times> string)" where
  "admit_finish env mine now address =
     (case ce_attempt env of
        None \<Rightarrow> Inl ''no_attempt''
      | Some a \<Rightarrow>
          if \<not> mine a \<or> \<not> ce_known env (at_provider a) then Inl ''no_attempt''
          else if attempt_expired (at_expires a) now \<noteq> NoRefusal
          then Inl (refusal_code (attempt_expired (at_expires a) now))
          else case ce_read_redirect env address of
              None \<Rightarrow> Inl ''wrong_address''
            | Some r \<Rightarrow>
                if check_redirect r (at_state a) \<noteq> NoRefusal then Inl (refusal_code (check_redirect r (at_state a)))
                else (case still_free env a of Some code \<Rightarrow> Inl code | None \<Rightarrow> Inr (a, re_code r)))"

record finish_answer =
  fa_kind :: attempt_kind
  fa_account :: string
  fa_mailbox :: string
  fa_client :: string

definition finish_attempt ::
  "connect_env \<Rightarrow> (attempt \<Rightarrow> bool) \<Rightarrow> int64 \<Rightarrow> int64 \<Rightarrow> string \<Rightarrow> connect_event list \<times> (string + finish_answer)" where
  "finish_attempt env mine now started address =
     (case admit_finish env mine now address of
        Inl code \<Rightarrow> ([], Inl code)
      | Inr (a, redirect_code) \<Rightarrow>
         (case ce_secret env (at_client a) of
            None \<Rightarrow> ([OpenSecret (at_client a)], Inl ui_failure)
          | Some secret \<Rightarrow>
             (let asked = [OpenSecret (at_client a),
                  ExchangeCode (at_client_id a) secret redirect_code (at_verifier a)] in
              case ce_finish env (at_client_id a) secret redirect_code (at_verifier a) of
                Inl e \<Rightarrow> (asked, Inl (consent_failure e))
              | Inr g \<Rightarrow>
                  if \<not> ce_same_mailbox env (gr_mailbox g) (at_mailbox a) then (asked, Inl ''wrong_mailbox'')
                  else
                    let b = (if \<not> at_remembered a then a\<lparr>at_mailbox := gr_mailbox g\<rparr> else a);
                        sealing = SealCredential (gr_credential g) (at_account b)
                    in (case ce_seal env (gr_credential g) (at_account b) of
                        None \<Rightarrow> (asked @ [sealing], Inl ui_failure)
                      | Some sealed \<Rightarrow>
                         (case run_tx (ce_tx env) (at_account b) (store_attempt env b sealed started) of
                            (writes, Some e) \<Rightarrow>
                              (asked @ sealing # (if writes = [] then [] else [Committed writes]), Inl (store_failure e))
                          | (writes, None) \<Rightarrow>
                              (asked @ [sealing, Committed writes, EndAttempt],
                               Inr \<lparr>fa_kind = at_kind b, fa_account = at_account b, fa_mailbox = at_mailbox b,
                                    fa_client = at_client b\<rparr>))))))"

subsection \<open>What a start leaves in the session\<close>

lemma start_attempt_keeps:
  "start_attempt env now a = Inr b \<longleftrightarrow>
     (let c = a\<lparr>at_state := ce_state env, at_verifier := ce_verifier env, at_expires := now + attempt_lifetime,
        at_consent := ce_consent_address env (at_provider a) (at_client_id a) (ce_state env) (ce_verifier env)
          (at_mailbox a)\<rparr>
      in ce_sealed_attempt env c \<and> b = c)"
  by (auto simp: start_attempt_def Let_def)

lemma named_client_holds:
  "named_client env name = Inr c \<Longrightarrow>
     \<exists>cs. ce_clients env = Some cs \<and> c \<in> set cs \<and> cl_name c = name \<and> ce_known env (cl_provider c)"
  by (auto simp: named_client_def find_Some_iff split: option.splits)

lemma reauthorize_mailbox_is:
  "reauthorize_mailbox held body = Inr m \<longleftrightarrow>
     ha_mailbox held = Some m \<and> rr_mailbox body = None \<or>
     ha_mailbox held = None \<and> rr_mailbox body = Some m \<and> valid_start m None = None"
  by (auto simp: reauthorize_mailbox_def split: option.splits)

text \<open>
  An account is re-authorized only as itself: the attempt kept is the path's account under its own
  provider, checked against the mailbox it remembers, or the one named where it remembers none; its client
  is a stored client of that provider, and the attempt is a move exactly when that client is not the
  account's own. The account is read in a transaction set to it, and the attempt lasts fifteen minutes.
\<close>

lemma reauthorize_starts_for_the_account:
  "case start_reauthorize env now account body of
     Inl code \<Rightarrow> code \<noteq> []
   | Inr a \<Rightarrow>
       \<exists>held cs c. ce_setup env account = Inr [held] \<and> tx_sets (ce_tx env) account = Some account \<and>
         ce_clients env = Some cs \<and> c \<in> set cs \<and> cl_provider c = ha_provider held \<and>
         ce_known env (ha_provider held) \<and> reauthorize_mine account a \<and> at_provider a = ha_provider held \<and>
         at_client a = cl_name c \<and> at_client_id a = cl_client_id c \<and>
         (at_kind a = AttemptMove \<longleftrightarrow> text_or_empty (ha_client held) \<noteq> cl_name c) \<and>
         (if at_remembered a then ha_mailbox held = Some (at_mailbox a) \<and> rr_mailbox body = None
          else ha_mailbox held = None \<and> rr_mailbox body = Some (at_mailbox a) \<and>
            mailbox_address (at_mailbox a) = NoRefusal) \<and>
         at_state a = ce_state env \<and> at_expires a = now + attempt_lifetime"
proof (cases "start_reauthorize env now account body")
  case (Inl code)
  then show ?thesis
    by (auto simp: start_reauthorize_def named_client_def reauthorize_mailbox_def valid_start_def start_attempt_def
      database_failure_def ui_failure_def Let_def split: option.splits sum.splits if_splits)
next
  case (Inr a)
  then obtain held c mailbox name where got: "account_setup env account = Some held"
      "named_client env name = Inr c" "cl_provider c = ha_provider held"
      "reauthorize_mailbox held body = Inr mailbox"
    and a: "start_attempt env now
        \<lparr>at_kind = (if cl_name c \<noteq> text_or_empty (ha_client held) then AttemptMove else AttemptReauthorize),
         at_state = [], at_verifier = [], at_account = account, at_provider = ha_provider held,
         at_mailbox = mailbox, at_remembered = (ha_mailbox held \<noteq> None),
         at_client = cl_name c, at_client_id = cl_client_id c, at_target = None,
         at_expires = 0, at_consent = []\<rparr> = Inr a"
    by (auto simp: start_reauthorize_def Let_def split: option.splits sum.splits if_splits)
  have held: "ce_setup env account = Inr [held]" "tx_sets (ce_tx env) account = Some account"
    using got(1) run_tx_commits [of "ce_tx env" account]
    by (auto simp: account_setup_def length_Suc_conv split: sum.splits if_splits option.splits prod.splits)
  from named_client_holds [OF got(2)] obtain cs where cs: "ce_clients env = Some cs" "c \<in> set cs"
    "ce_known env (cl_provider c)" by blast
  from a got(4) held cs got(3) show ?thesis unfolding Inr sum.case
    by (intro exI [of _ held] exI [of _ cs] exI [of _ c])
      (auto simp: start_attempt_keeps reauthorize_mailbox_is reauthorize_mine_def valid_start_def Let_def
        split: if_splits)
qed

subsection \<open>What a finish stores\<close>

text \<open>What the transaction may write for an attempt of each kind.\<close>

definition may_store :: "attempt \<Rightarrow> string \<Rightarrow> int64 \<Rightarrow> account_write list \<Rightarrow> bool" where
  "may_store a sealed started ws \<longleftrightarrow>
     (let moved = (if at_kind a = AttemptMove then [MoveAccount (at_client a) (at_provider a)] else []);
          replaced = Reauthorize sealed (at_mailbox a);
          recorded = RecordAuthentication started
      in if at_kind a = AttemptConnect
         then ws = [AddAccount (at_provider a) (at_client a),
                    AddState sealed (at_mailbox a) (map_option to_float32 (at_target a)), recorded]
         else ws \<in> {moved @ [replaced, recorded],
                    moved @ [replaced, AddState sealed (at_mailbox a) None, recorded]})"

lemma store_attempt_writes:
  "store_attempt env a sealed started = (ws, None) \<Longrightarrow>
     ce_identity env (at_client a) = Inr [(at_provider a, at_client_id a)] \<and> may_store a sealed started ws"
  by (cases "at_kind a")
    (auto simp: store_attempt_def may_store_def Let_def split: sum.splits if_splits)

lemma admit_finish_admits:
  "admit_finish env mine now address = Inr (a, redirect_code) \<longleftrightarrow>
     ce_attempt env = Some a \<and> mine a \<and> ce_known env (at_provider a) \<and> sint now < sint (at_expires a) \<and>
     (\<exists>r. ce_read_redirect env address = Some r \<and> re_state r = at_state a \<and> re_error r = [] \<and>
        re_code r = redirect_code) \<and> redirect_code \<noteq> [] \<and> still_free env a = None"
  by (auto simp: admit_finish_def attempt_expired_def check_redirect_def split: option.splits if_splits)

text \<open>
  What a finish for the session's attempt \<open>a\<close> does before it stores \<open>ws\<close>, and what it may store. The attempt is the
  session's and has not expired; its redirect carries its own state and a code; the code is exchanged once,
  with the client the attempt named and its verifier; the mailbox granted is the attempt's; the credential is
  sealed for the attempt's account; the client is read again unchanged in the transaction, which is set to
  that account; and the rows are those the attempt's kind is for.
\<close>

definition consented ::
  "connect_env \<Rightarrow> (attempt \<Rightarrow> bool) \<Rightarrow> int64 \<Rightarrow> int64 \<Rightarrow> string \<Rightarrow> attempt \<Rightarrow> string \<Rightarrow> connect_event list \<Rightarrow> account_write list \<Rightarrow> bool" where
  "consented env mine now started address a mailbox asked ws \<longleftrightarrow>
     (\<exists>r secret g sealed.
        ce_attempt env = Some a \<and> mine a \<and> sint now < sint (at_expires a) \<and>
        ce_read_redirect env address = Some r \<and> re_state r = at_state a \<and> re_code r \<noteq> [] \<and>
        ce_finish env (at_client_id a) secret (re_code r) (at_verifier a) = Inr g \<and>
        ce_same_mailbox env (gr_mailbox g) (at_mailbox a) \<and>
        mailbox = (if at_remembered a then at_mailbox a else gr_mailbox g) \<and>
        ce_seal env (gr_credential g) (at_account a) = Some sealed \<and>
        ce_identity env (at_client a) = Inr [(at_provider a, at_client_id a)] \<and>
        tx_sets (ce_tx env) (at_account a) = Some (at_account a) \<and>
        may_store (a\<lparr>at_mailbox := mailbox\<rparr>) sealed started ws \<and>
        asked = [OpenSecret (at_client a), ExchangeCode (at_client_id a) secret (re_code r) (at_verifier a),
          SealCredential (gr_credential g) (at_account a)])"

definition committed :: "connect_event list \<Rightarrow> account_write list list" where
  "committed events = List.map_filter (\<lambda>e. case e of Committed ws \<Rightarrow> Some ws | _ \<Rightarrow> None) events"

lemma committed_simps [simp]: "committed [] = []" "committed (Committed ws # es) = ws # committed es"
  "committed (OpenSecret a # es) = committed es" "committed (ExchangeCode a b c d # es) = committed es"
  "committed (SealCredential a b # es) = committed es" "committed (EndAttempt # es) = committed es"
  by (simp_all add: committed_def map_filter_simps)

text \<open>A finish once its attempt is admitted and its transaction has run.\<close>

lemma finish_attempt_ran:
  assumes "admit_finish env mine now address = Inr (a, redirect_code)"
    and "finish_attempt env mine now started address = (events, answer)" "committed events \<noteq> [] \<or> (\<exists>x. answer = Inr x)"
  shows "\<exists>secret g sealed ws e.
    ce_finish env (at_client_id a) secret redirect_code (at_verifier a) = Inr g \<and>
    ce_same_mailbox env (gr_mailbox g) (at_mailbox a) \<and> ce_seal env (gr_credential g) (at_account a) = Some sealed \<and>
    run_tx (ce_tx env) (at_account a)
      (store_attempt env (a\<lparr>at_mailbox := if at_remembered a then at_mailbox a else gr_mailbox g\<rparr>) sealed started) = (ws, e) \<and>
    (let asked = [OpenSecret (at_client a), ExchangeCode (at_client_id a) secret redirect_code (at_verifier a),
         SealCredential (gr_credential g) (at_account a)]
     in case e of
        None \<Rightarrow> events = asked @ [Committed ws, EndAttempt] \<and>
          answer = Inr \<lparr>fa_kind = at_kind a, fa_account = at_account a,
            fa_mailbox = (if at_remembered a then at_mailbox a else gr_mailbox g), fa_client = at_client a\<rparr>
      | Some x \<Rightarrow> ws \<noteq> [] \<and> events = asked @ [Committed ws] \<and> answer = Inl (store_failure x))"
proof -
  have fin: "finish_attempt env mine now started address = (events, answer)" by (rule assms(2))
  note fin = fin [unfolded finish_attempt_def assms(1) Let_def sum.case prod.case]
  obtain secret where secret: "ce_secret env (at_client a) = Some secret"
    using fin assms(3) by (cases "ce_secret env (at_client a)") auto
  note fin = fin [unfolded secret option.case]
  obtain g where g: "ce_finish env (at_client_id a) secret redirect_code (at_verifier a) = Inr g"
    using fin assms(3) by (cases "ce_finish env (at_client_id a) secret redirect_code (at_verifier a)") auto
  note fin = fin [unfolded g sum.case]
  have mailbox: "ce_same_mailbox env (gr_mailbox g) (at_mailbox a)" using fin assms(3) by (auto split: if_splits)
  define b where "b = (if \<not> at_remembered a then a\<lparr>at_mailbox := gr_mailbox g\<rparr> else a)"
  have b: "b = a\<lparr>at_mailbox := if at_remembered a then at_mailbox a else gr_mailbox g\<rparr>" by (simp add: b_def)
  have same: "at_account b = at_account a" "at_kind b = at_kind a" "at_client b = at_client a"
      "at_mailbox b = (if at_remembered a then at_mailbox a else gr_mailbox g)"
    by (simp_all add: b)
  note fin = fin [folded b_def]
  obtain sealed where sealed: "ce_seal env (gr_credential g) (at_account a) = Some sealed"
    using fin assms(3) mailbox by (cases "ce_seal env (gr_credential g) (at_account a)") (auto simp: same(1))
  obtain ws e where ran: "run_tx (ce_tx env) (at_account b) (store_attempt env b sealed started) = (ws, e)"
    by (cases "run_tx (ce_tx env) (at_account b) (store_attempt env b sealed started)")
  show ?thesis
    by (intro exI [of _ secret] exI [of _ g] exI [of _ sealed] exI [of _ ws] exI [of _ e] conjI g mailbox sealed
        ran [unfolded same(1), unfolded b])
      (use fin assms(3) mailbox sealed ran in \<open>auto simp: same Let_def split: option.splits if_splits\<close>)
qed

lemma ran_consented:
  assumes "admit_finish env mine now address = Inr (a, redirect_code)"
    and "ce_finish env (at_client_id a) secret redirect_code (at_verifier a) = Inr g"
    and "ce_same_mailbox env (gr_mailbox g) (at_mailbox a)" "ce_seal env (gr_credential g) (at_account a) = Some sealed"
    and "tx_sets (ce_tx env) (at_account a) = Some (at_account a)" "mailbox = (if at_remembered a then at_mailbox a else gr_mailbox g)"
    and "store_attempt env (a\<lparr>at_mailbox := mailbox\<rparr>) sealed started = (ws, None)"
  shows "consented env mine now started address a mailbox [OpenSecret (at_client a),
    ExchangeCode (at_client_id a) secret redirect_code (at_verifier a), SealCredential (gr_credential g) (at_account a)] ws"
proof -
  obtain r where r: "ce_read_redirect env address = Some r" "re_state r = at_state a" "re_code r = redirect_code" "redirect_code \<noteq> []"
      "ce_attempt env = Some a" "mine a" "sint now < sint (at_expires a)"
    using assms(1) unfolding admit_finish_admits by blast
  show ?thesis unfolding consented_def using r assms(2-6) store_attempt_writes [OF assms(7)]
    by (intro exI [of _ r] exI [of _ secret] exI [of _ g] exI [of _ sealed]) simp
qed

text \<open>
  C40. A finish that answers did all a consent asks for before it stored anything, in one transaction stored
  exactly what the attempt is for, and then ended the attempt. One that is refused leaves the attempt, and
  leaves nothing stored but where the COMMIT itself ended in an error after it took effect: then what is
  stored is exactly what the consent was for all the same, and the refusal is the failed COMMIT's.
\<close>

theorem finish_stores_what_was_consented:
  "case finish_attempt env mine now started address of
     (events, Inl code) \<Rightarrow> EndAttempt \<notin> set events \<and>
       (case committed events of
          [] \<Rightarrow> True
        | ws # others \<Rightarrow> others = [] \<and> (\<exists>a mailbox asked e. consented env mine now started address a mailbox asked ws \<and>
            events = asked @ [Committed ws] \<and> tx_commits (ce_tx env) = CommitErrs e True \<and> code = store_failure (CommitFailed e)))
   | (events, Inr answer) \<Rightarrow>
       \<exists>a mailbox asked ws. consented env mine now started address a mailbox asked ws \<and>
         events = asked @ [Committed ws, EndAttempt] \<and>
         answer = \<lparr>fa_kind = at_kind a, fa_account = at_account a, fa_mailbox = mailbox, fa_client = at_client a\<rparr>"
proof (cases "admit_finish env mine now address")
  case (Inl code)
  then show ?thesis by (simp add: finish_attempt_def)
next
  case (Inr admitted)
  obtain a redirect_code where adm: "admit_finish env mine now address = Inr (a, redirect_code)" using Inr by (cases admitted) auto
  obtain events answer where fin: "finish_attempt env mine now started address = (events, answer)"
    by (cases "finish_attempt env mine now started address")
  show ?thesis
  proof (cases "committed events \<noteq> [] \<or> (\<exists>x. answer = Inr x)")
    case False
    then obtain code where "answer = Inl code" by (cases answer) auto
    moreover have "EndAttempt \<notin> set events" using fin False
      by (auto simp: finish_attempt_def adm Let_def split: option.splits sum.splits if_splits prod.splits)
    ultimately show ?thesis using False by (simp add: fin)
  next
    case True
    then obtain secret g sealed ws e where ran: "ce_finish env (at_client_id a) secret redirect_code (at_verifier a) = Inr g"
        "ce_same_mailbox env (gr_mailbox g) (at_mailbox a)" "ce_seal env (gr_credential g) (at_account a) = Some sealed"
        "run_tx (ce_tx env) (at_account a)
          (store_attempt env (a\<lparr>at_mailbox := if at_remembered a then at_mailbox a else gr_mailbox g\<rparr>) sealed started) = (ws, e)"
      and ended: "let asked = [OpenSecret (at_client a), ExchangeCode (at_client_id a) secret redirect_code (at_verifier a),
           SealCredential (gr_credential g) (at_account a)]
       in case e of
          None \<Rightarrow> events = asked @ [Committed ws, EndAttempt] \<and>
            answer = Inr \<lparr>fa_kind = at_kind a, fa_account = at_account a,
              fa_mailbox = (if at_remembered a then at_mailbox a else gr_mailbox g), fa_client = at_client a\<rparr>
        | Some x \<Rightarrow> ws \<noteq> [] \<and> events = asked @ [Committed ws] \<and> answer = Inl (store_failure x)"
      using finish_attempt_ran [OF adm fin] by blast
    let ?m = "if at_remembered a then at_mailbox a else gr_mailbox g"
    let ?asked = "[OpenSecret (at_client a), ExchangeCode (at_client_id a) secret redirect_code (at_verifier a),
      SealCredential (gr_credential g) (at_account a)]"
    note by_consent = ran_consented [OF adm ran(1-3) _ refl]
    show ?thesis
    proof (cases e)
      case None
      then have "consented env mine now started address a ?m ?asked ws" using by_consent ran(4) by (simp only: run_tx_commits)
      moreover have "events = ?asked @ [Committed ws, EndAttempt]" "answer = Inr \<lparr>fa_kind = at_kind a, fa_account = at_account a,
          fa_mailbox = ?m, fa_client = at_client a\<rparr>"
        using ended None by (simp_all add: Let_def)
      ultimately show ?thesis unfolding fin by (simp only: prod.case sum.case) blast
    next
      case (Some x)
      then have "ws \<noteq> []" and ev: "events = ?asked @ [Committed ws]" "answer = Inl (store_failure x)" using ended by (simp_all add: Let_def)
      then obtain y where y: "tx_commits (ce_tx env) = CommitErrs y True" "x = CommitFailed y"
          "consented env mine now started address a ?m ?asked ws"
        using by_consent run_tx_stored [OF ran(4) [unfolded Some]] by blast
      then have "\<exists>a mailbox asked e. consented env mine now started address a mailbox asked ws \<and>
            events = asked @ [Committed ws] \<and> tx_commits (ce_tx env) = CommitErrs e True \<and> store_failure x = store_failure (CommitFailed e)"
        unfolding ev by blast
      then show ?thesis unfolding fin by (simp add: ev)
    qed
  qed
qed

end
