(* ===== verification/Limiter.thy ===== *)
theory Limiter
  imports Leases Transactions "HOL-Library.Multiset"
begin

text \<open>
  \<open>ratelimit/lease\<close>: the limiter every process spends through. An account's rate state is a row and its
  grants, read and written in one transaction an ask; the writes are the statements of
  \<open>db/ratestate/limiter\<close>, given the meaning their SQL has. A read of the grants has no order, so the rows
  come in any. Floats a column holds in four bytes are float64 values that are exact in four. The lemmas
  show that what is stored keeps the hard cap over any history of asks, reports and clocks, that a
  request left waiting is granted once the account is quiet, and what a call made under a lease tells.
\<close>

subsection \<open>Stored values\<close>

definition shortest_wait :: int64 where "shortest_wait = 20 * 1000000"
definition longest_wait :: int64 where "longest_wait = 1000 div 2 * 1000000"
definition latest_stored_millis :: int where "latest_stored_millis = 9000000000000000"

definition stored_instant :: "int64 \<Rightarrow> int64" where
  "stored_instant ms = min64 (max64 ms 0) (word_of_int latest_stored_millis)"

text \<open>
  \<open>math.Nextafter32\<close> towards either infinity, of a value exact in four bytes: the next multiple of the
  unit in its last place, which halves below a power of two.
\<close>

definition above32 :: "rat \<Rightarrow> rat" where
  "above32 q = q + pow2 (unit_exp 24 (- 149) q)"

definition below32 :: "rat \<Rightarrow> rat" where
  "below32 q =
     (let e = unit_exp 24 (- 149) q
      in q - pow2 (if q = pow2 (e + 23) \<and> - 149 < e then e - 1 else e))"

definition next32_up :: "rat \<Rightarrow> float64" where
  "next32_up q =
     (let v = (if q = 0 then pow2 (- 149) else if 0 < q then above32 q else - below32 (- q))
      in if pow2 128 \<le> v then PInf else Fin v)"

definition next32_down :: "rat \<Rightarrow> float64" where
  "next32_down q = fneg (next32_up (- q))"

definition max_float32 :: rat where "max_float32 = (2 ^ 24 - 1) * pow2 104"

fun round_up32 :: "float64 \<Rightarrow> float64" where
  "round_up32 (Fin q) =
     (if max_float32 < q then Fin q
      else case to_float32 (Fin q) of
          Fin f \<Rightarrow> if f < q then next32_up f else Fin f
        | x \<Rightarrow> if x = NInf then Fin (- max_float32) else x)"
| "round_up32 x = x"

fun round_down32 :: "float64 \<Rightarrow> float64" where
  "round_down32 NaN = Fin 0"
| "round_down32 (Fin q) =
     (case to_float32 (Fin q) of
        Fin f \<Rightarrow> if q < f then next32_down f else Fin f
      | x \<Rightarrow> if x = PInf then Fin max_float32 else x)"
| "round_down32 x = x"

definition max_int32 :: int where "max_int32 = 2147483647"

definition samples_stored :: "int64 list \<Rightarrow> 32 word list" where
  "samples_stored samples = map (\<lambda>s. ucast (min64 (max64 s 0) (word_of_int max_int32))) samples"

definition throttles_stored :: "int64 \<Rightarrow> 32 word" where
  "throttles_stored n = (if sint n < 0 then 0 else if max_int32 < sint n then word_of_int max_int32 else ucast n)"

definition medians_stored :: "float64 list \<Rightarrow> float64 list" where
  "medians_stored medians = map to_float32 medians"

fun rate_class_name :: "rate_class \<Rightarrow> string" where
  "rate_class_name Interactive = ''interactive''"
| "rate_class_name Sync = ''sync''"
| "rate_class_name Batch = ''batch''"
| "rate_class_name NoClass = []"

definition rate_class_named :: "string \<Rightarrow> rate_class" where
  "rate_class_named name = (case find (\<lambda>c. rate_class_name c = name) [Interactive, Sync, Batch] of
     None \<Rightarrow> NoClass | Some c \<Rightarrow> c)"

subsection \<open>The rate state\<close>

record rate_row =
  rw_rate :: float64
  rw_throttles :: "32 word"
  rw_level :: float64
  rw_backoff_until :: int64
  rw_filled :: int64
  rw_asked :: "rate_class \<Rightarrow> int64"
  rw_window_start :: int64
  rw_samples :: "32 word list"
  rw_medians :: "float64 list"

record grant_row =
  gw_class :: string
  gw_tokens :: float64
  gw_issued :: int64

record latency_record =
  la_window :: latency_window
  la_medians :: "float64 list"

definition state_of :: "rate_row \<Rightarrow> controller" where
  "state_of row = \<lparr>ct_rate = rw_rate row, ct_backoff_until = rw_backoff_until row, ct_throttles = scast (rw_throttles row)\<rparr>"

definition issuance_of :: "rate_row \<Rightarrow> issuance" where
  "issuance_of row = \<lparr>is_level = rw_level row, is_latest = rw_filled row,
     is_asked = (\<lambda>c. if named c then rw_asked row c else 0), is_recent = []\<rparr>"

definition latency_of :: "rate_row \<Rightarrow> latency_record" where
  "latency_of row = \<lparr>la_window = \<lparr>lw_start = rw_window_start row, lw_samples = map scast (rw_samples row)\<rparr>,
     la_medians = rw_medians row\<rparr>"

definition recent_of :: "grant_row list \<Rightarrow> issued list \<times> lease list" where
  "recent_of grants =
     (map (\<lambda>g. \<lparr>is_at = gw_issued g, is_tokens = gw_tokens g\<rparr>) grants,
      map (\<lambda>g. \<lparr>le_class = rate_class_named (gw_class g), le_tokens = gw_tokens g,
                le_expires = gw_issued g + lease_millis\<rparr>) grants)"

subsection \<open>The statements\<close>

record shown_class =
  sh_class :: string
  sh_reserved :: float64
  sh_used :: float64

record issuance_write =
  iw_target :: float64
  iw_hard_cap :: float64
  iw_level :: float64
  iw_filled :: int64
  iw_asked :: "rate_class \<Rightarrow> int64"
  iw_granted :: int64
  iw_classes :: "shown_class list"
  iw_now :: int64

record controller_write =
  cw_rate :: float64
  cw_target :: float64
  cw_hard_cap :: float64
  cw_backoff_until :: int64
  cw_throttles :: "32 word"
  cw_throttled :: int64
  cw_window_start :: int64
  cw_samples :: "32 word list"
  cw_medians :: "float64 list"
  cw_baseline :: float64
  cw_now :: int64

datatype limiter_write =
    InsertRateState float64 float64 float64     \<comment> \<open>rate, target and hard cap, where no row is held\<close>
  | DeleteGrantsBefore int64
  | ClampGrants int64
  | InsertGrant grant_row
  | UpdateIssuance issuance_write
  | UpdateController controller_write

text \<open>What an account's rows hold of it; the columns written only for display are left out.\<close>

record rate_store =
  st_row :: "rate_row option"
  st_grants :: "grant_row multiset"

definition empty_store :: rate_store where "empty_store = \<lparr>st_row = None, st_grants = {#}\<rparr>"

definition new_row :: "float64 \<Rightarrow> rate_row" where
  "new_row rate = \<lparr>rw_rate = rate, rw_throttles = 0, rw_level = Fin 0, rw_backoff_until = 0, rw_filled = 0,
     rw_asked = (\<lambda>_. 0), rw_window_start = 0, rw_samples = [], rw_medians = []\<rparr>"

definition insert_rate_state :: "float64 \<Rightarrow> rate_store \<Rightarrow> rate_store" where
  "insert_rate_state rate s = s\<lparr>st_row := (case st_row s of None \<Rightarrow> Some (new_row rate) | Some r \<Rightarrow> Some r)\<rparr>"

definition delete_grants_before :: "int64 \<Rightarrow> rate_store \<Rightarrow> rate_store" where
  "delete_grants_before cutoff s = s\<lparr>st_grants := filter_mset (\<lambda>g. sint cutoff < sint (gw_issued g)) (st_grants s)\<rparr>"

definition clamp_grants :: "int64 \<Rightarrow> rate_store \<Rightarrow> rate_store" where
  "clamp_grants latest s =
     s\<lparr>st_grants := image_mset (\<lambda>g. if sint latest < sint (gw_issued g) then g\<lparr>gw_issued := latest\<rparr> else g) (st_grants s)\<rparr>"

definition insert_grant :: "grant_row \<Rightarrow> rate_store \<Rightarrow> rate_store" where
  "insert_grant g s = s\<lparr>st_grants := add_mset g (st_grants s)\<rparr>"

definition update_issuance :: "issuance_write \<Rightarrow> rate_store \<Rightarrow> rate_store" where
  "update_issuance w s =
     s\<lparr>st_row := map_option (\<lambda>r. r\<lparr>rw_level := iw_level w, rw_filled := iw_filled w, rw_asked := iw_asked w\<rparr>) (st_row s)\<rparr>"

definition update_controller :: "controller_write \<Rightarrow> rate_store \<Rightarrow> rate_store" where
  "update_controller w s =
     s\<lparr>st_row := map_option (\<lambda>r. r\<lparr>rw_rate := cw_rate w, rw_backoff_until := cw_backoff_until w,
        rw_throttles := cw_throttles w, rw_window_start := cw_window_start w, rw_samples := cw_samples w,
        rw_medians := cw_medians w\<rparr>) (st_row s)\<rparr>"

lemmas statement_defs [simp] = insert_rate_state_def delete_grants_before_def clamp_grants_def insert_grant_def
  update_issuance_def update_controller_def

fun limiter_writes :: "limiter_write \<Rightarrow> rate_store \<Rightarrow> rate_store" where
  "limiter_writes (InsertRateState rate target cap) s = insert_rate_state rate s"
| "limiter_writes (DeleteGrantsBefore cutoff) s = delete_grants_before cutoff s"
| "limiter_writes (ClampGrants latest) s = clamp_grants latest s"
| "limiter_writes (InsertGrant g) s = insert_grant g s"
| "limiter_writes (UpdateIssuance w) s = update_issuance w s"
| "limiter_writes (UpdateController w) s = update_controller w s"

subsection \<open>One ask\<close>

definition wait_for :: "limits \<Rightarrow> controller \<Rightarrow> issuance \<Rightarrow> lease_request \<Rightarrow> int64 \<Rightarrow> int64" where
  "wait_for l s next req now =
     (let rate = fmin (ct_rate s) (lm_target l);
          wait = (if sint now < sint (ct_backoff_until s)
                  then min64 (ct_backoff_until s - now) lease_millis * 1000000
                  else if flt (Fin 0) rate \<and> flt (is_level next) (rq_tokens req)
                  then int64_of_float (fmul (fmin (fdiv (fsub (rq_tokens req) (is_level next)) rate) (Fin 1)) (Fin 1000000000))
                  else shortest_wait)
      in min64 (max64 wait shortest_wait) longest_wait)"

text \<open>What the classes column shows, or none where JSON has no number for one of the amounts.\<close>

definition finite_number :: "float64 \<Rightarrow> bool" where
  "finite_number x \<longleftrightarrow> (case x of Fin _ \<Rightarrow> True | _ \<Rightarrow> False)"

definition used_by :: "rate_class \<Rightarrow> lease list \<Rightarrow> int64 \<Rightarrow> float64" where
  "used_by c leases now =
     foldl (\<lambda>used h. if le_class h = c \<and> flt (Fin 0) (le_tokens h) then fadd used (le_tokens h) else used) (Fin 0)
       (live_leases leases now)"

definition classes_shown :: "controller \<Rightarrow> limits \<Rightarrow> lease list \<Rightarrow> int64 \<Rightarrow> shown_class list option" where
  "classes_shown s l leases now =
     (let rate = fmin (fmax (ct_rate s) (lm_floor l)) (lm_target l);
          out = map (\<lambda>c. \<lparr>sh_class = rate_class_name c, sh_reserved = share c rate (lm_target l),
                  sh_used = used_by c leases now\<rparr>) [Batch, Interactive, Sync]
      in if list_all (\<lambda>x. finite_number (sh_reserved x) \<and> finite_number (sh_used x)) out then Some out else None)"

text \<open>The writes of one ask: None where the classes shown have no JSON, which fails the transaction.\<close>

definition issuance_writes ::
  "limits \<Rightarrow> controller \<Rightarrow> issuance \<Rightarrow> lease list \<Rightarrow> lease_decision \<Rightarrow> int64 \<Rightarrow> limiter_write list option" where
  "issuance_writes l s next leases d now =
     (let granted = (case d of LeaseGranted lease \<Rightarrow> Some lease | _ \<Rightarrow> None);
          granted_at = (if granted = None then 0 else stored_instant (is_latest next));
          leases = (case granted of None \<Rightarrow> leases | Some lease \<Rightarrow> leases @ [lease]);
          inserts = (case granted of None \<Rightarrow> []
            | Some lease \<Rightarrow> [InsertGrant \<lparr>gw_class = rate_class_name (le_class lease),
                gw_tokens = to_float32 (le_tokens lease), gw_issued = granted_at\<rparr>])
      in case classes_shown s l leases (is_latest next) of
          None \<Rightarrow> None
        | Some shown \<Rightarrow> Some
           ([DeleteGrantsBefore (stored_instant (now - lease_millis)), ClampGrants (stored_instant (is_latest next))] @
            inserts @
            [UpdateIssuance \<lparr>iw_target = to_float32 (lm_target l), iw_hard_cap = to_float32 (lm_hard_cap l),
               iw_level = round_down32 (is_level next), iw_filled = stored_instant (is_latest next),
               iw_asked = (\<lambda>c. stored_instant (is_asked next c)), iw_granted = granted_at, iw_classes = shown,
               iw_now = stored_instant now\<rparr>]))"

definition ensure_row :: "limits \<Rightarrow> limiter_write" where
  "ensure_row l = InsertRateState (to_float32 (lm_target l)) (to_float32 (lm_target l)) (to_float32 (lm_hard_cap l))"

text \<open>What one ask decides from the row, the grants in the order read, the request and the clock.\<close>

definition decide_ask ::
  "limits \<Rightarrow> rate_row \<Rightarrow> grant_row list \<Rightarrow> lease_request \<Rightarrow> int64 \<Rightarrow>
     lease_decision \<times> int64 \<times> limiter_write list option" where
  "decide_ask l row grants req now =
     (let s = state_of row; (recent, leases) = recent_of grants;
          (next, d) = issue l s ((issuance_of row)\<lparr>is_recent := recent\<rparr>) leases req now
      in if d = LeaseRefused then (d, 0, Some [])
         else (d, wait_for l s next req now, issuance_writes l s next leases d now))"

text \<open>
  The transaction of an ask or a report: the statements up to its reads, each of which may fail, and then
  the writes decided. An error is a text.
\<close>

record limiter_db =
  ld_locks :: bool
  ld_clock :: "int64 option"
  ld_ensures :: bool
  ld_row :: "rate_row option"
  ld_grants :: "grant_row list option"
  ld_fails :: "limiter_write \<Rightarrow> bool"

definition locked_row :: "limiter_db \<Rightarrow> string + (int64 \<times> rate_row)" where
  "locked_row db =
     (if \<not> ld_locks db then Inl ''locking the rate state''
      else case ld_clock db of
          None \<Rightarrow> Inl ''reading the database's clock''
        | Some now \<Rightarrow>
            if \<not> ld_ensures db then Inl ''giving the account its rate state''
            else (case ld_row db of None \<Rightarrow> Inl ''reading the rate state'' | Some row \<Rightarrow> Inr (now, row)))"

definition write_all :: "limiter_db \<Rightarrow> limiter_write list \<Rightarrow> limiter_write list \<times> string option" where
  "write_all db ws = (if list_ex (ld_fails db) ws then ([], Some ''writing the rate state'') else (ws, None))"

definition issue_lease ::
  "string tx_env \<Rightarrow> limiter_db \<Rightarrow> limits \<Rightarrow> string \<Rightarrow> lease_request \<Rightarrow>
     limiter_write list \<times> (string tx_error + lease_decision \<times> int64)" where
  "issue_lease env db l account req =
     (let (body, answer) = (case locked_row db of
          Inl e \<Rightarrow> (([], Some e), (LeaseWaiting, 0))
        | Inr (now, row) \<Rightarrow> (case ld_grants db of
              None \<Rightarrow> (([], Some ''reading the grants''), (LeaseWaiting, 0))
            | Some grants \<Rightarrow> (case decide_ask l row grants req now of
                  (d, wait, None) \<Rightarrow> (([], Some ''encoding the classes shown''), (d, wait))
                | (d, wait, Some ws) \<Rightarrow> (write_all db (ensure_row l # ws), (d, wait)))))
      in case run_tx env account body of
          (ws, Some e) \<Rightarrow> (ws, Inl e)
        | (ws, None) \<Rightarrow> (ws, Inr answer))"

subsection \<open>Reports\<close>

datatype call_report = ReportSucceeded op_cost int64 | ReportThrottled throttle_signal float64 | ReportErrored

text \<open>The new state, the new latency record and the instant of a throttle, zero when there was none.\<close>

fun decide_report :: "limits \<Rightarrow> call_report \<Rightarrow> controller \<Rightarrow> latency_record \<Rightarrow> int64 \<Rightarrow>
    controller \<times> latency_record \<times> int64" where
  "decide_report l (ReportSucceeded cost latency) s lat now =
     (let s = succeeded s l cost;
          (window, median, closed) = add_latency (la_window lat) now latency;
          lat = lat\<lparr>la_window := window\<rparr>
      in if closed then (latency_measured s l median (baseline_of (la_medians lat)),
                         lat\<lparr>la_medians := remember_median (la_medians lat) median\<rparr>, 0)
         else (s, lat, 0))"
| "decide_report l (ReportThrottled signal draw) s lat now = (throttled s l signal now draw, lat, now)"
| "decide_report l ReportErrored s lat now = (server_errored s l, lat, 0)"

definition report_writes :: "limits \<Rightarrow> rate_row \<Rightarrow> call_report \<Rightarrow> int64 \<Rightarrow> limiter_write list" where
  "report_writes l row rep now =
     (case decide_report l rep (state_of row) (latency_of row) now of (s, lat, throttled_at) \<Rightarrow>
        [UpdateController \<lparr>cw_rate = to_float32 (ct_rate s), cw_target = to_float32 (lm_target l),
           cw_hard_cap = to_float32 (lm_hard_cap l), cw_backoff_until = stored_instant (ct_backoff_until s),
           cw_throttles = throttles_stored (ct_throttles s), cw_throttled = stored_instant throttled_at,
           cw_window_start = stored_instant (lw_start (la_window lat)),
           cw_samples = samples_stored (lw_samples (la_window lat)), cw_medians = medians_stored (la_medians lat),
           cw_baseline = to_float32 (baseline_of (la_medians lat)), cw_now = stored_instant now\<rparr>])"

definition report_call ::
  "string tx_env \<Rightarrow> limiter_db \<Rightarrow> limits \<Rightarrow> string \<Rightarrow> call_report \<Rightarrow> limiter_write list \<times> string tx_error option" where
  "report_call env db l account rep =
     run_tx env account
       (case locked_row db of
          Inl e \<Rightarrow> ([], Some e)
        | Inr (now, row) \<Rightarrow> write_all db (ensure_row l # report_writes l row rep now))"

subsection \<open>A limiter\<close>

record limiter =
  li_defaults :: limits
  li_lowered :: "string \<rightharpoonup> limits"

definition new_limiter :: "float64 \<Rightarrow> limiter" where
  "new_limiter per_second = \<lparr>li_defaults = limits_for per_second, li_lowered = Map.empty\<rparr>"

text \<open>The loop over the accounts' targets, in the order the map is read; a refused one names its account.\<close>

fun lower_targets :: "float64 \<Rightarrow> (string \<times> float64) list \<Rightarrow> (string \<rightharpoonup> limits) \<Rightarrow> string + (string \<rightharpoonup> limits)" where
  "lower_targets per_second [] lowered = Inr lowered"
| "lower_targets per_second ((account, target) # targets) lowered =
     (case limits_with_target per_second target of
        None \<Rightarrow> Inl account
      | Some l \<Rightarrow> lower_targets per_second targets (lowered(account \<mapsto> l)))"

definition limiter_with_targets :: "float64 \<Rightarrow> (string \<times> float64) list \<Rightarrow> string + limiter" where
  "limiter_with_targets per_second targets =
     (case lower_targets per_second targets Map.empty of
        Inl account \<Rightarrow> Inl account
      | Inr lowered \<Rightarrow> Inr ((new_limiter per_second)\<lparr>li_lowered := lowered\<rparr>))"

definition limits_of :: "limiter \<Rightarrow> string \<Rightarrow> limits" where
  "limits_of li account = (case li_lowered li account of None \<Rightarrow> li_defaults li | Some l \<Rightarrow> l)"

text \<open>
  \<open>acquire\<close>: the \<open>n\<close>th ask's answer and whether the context ended while it waited are functions of \<open>n\<close>; a loop
  that is left waiting for ever has no value.
\<close>

datatype acquire_error = AskFailed "string tx_error" | NeverGranted | ContextEnded

partial_function (option) acquire_from ::
  "(nat \<Rightarrow> string tx_error + lease_decision \<times> int64) \<Rightarrow> (nat \<Rightarrow> bool) \<Rightarrow> nat \<Rightarrow> (acquire_error + lease) option" where
  "acquire_from ask ended n =
     (case ask n of
        Inl e \<Rightarrow> Some (Inl (AskFailed e))
      | Inr (d, wait) \<Rightarrow> (case d of
            LeaseGranted lease \<Rightarrow> Some (Inr lease)
          | LeaseRefused \<Rightarrow> Some (Inl NeverGranted)
          | LeaseWaiting \<Rightarrow> if ended n then Some (Inl ContextEnded) else acquire_from ask ended (Suc n)))"

definition lease_request_for :: "rate_class \<Rightarrow> float64 \<Rightarrow> lease_request" where
  "lease_request_for c cost = \<lparr>rq_class = c, rq_tokens = round_up32 cost\<rparr>"

subsection \<open>A call under a lease\<close>

datatype call_event = AcquireLease rate_class float64 | MakeCall | TellLimiter call_report

definition report_of :: "op_cost \<Rightarrow> int64 \<Rightarrow> float64 \<Rightarrow> goerror option \<Rightarrow> call_report option" where
  "report_of cost latency draw err =
     (case err of
        None \<Rightarrow> Some (ReportSucceeded cost latency)
      | Some e \<Rightarrow>
          if snd (throttled_err (Some e)) then Some (ReportThrottled (fst (throttled_err (Some e))) draw)
          else if err_is e ErrProvider then Some ReportErrored
          else None)"

text \<open>
  \<open>Call\<close>: the lease's outcome, the call's answer, whether the call's own deadline passed, whether the caller's
  context is still live, and what telling the limiter answers are parameters. A late error is the provider's.
\<close>

definition timed_out :: "bool \<Rightarrow> bool \<Rightarrow> goerror + 'a \<Rightarrow> goerror + 'a" where
  "timed_out deadline live out =
     (case out of
        Inl e \<Rightarrow> if deadline \<and> live then Inl (ErrJoin [ErrProvider, e]) else Inl e
      | Inr x \<Rightarrow> Inr x)"

definition error_of :: "goerror + 'a \<Rightarrow> goerror option" where
  "error_of out = (case out of Inl e \<Rightarrow> Some e | Inr _ \<Rightarrow> None)"

definition call_under_lease ::
  "goerror + lease \<Rightarrow> goerror + 'a \<Rightarrow> bool \<Rightarrow> bool \<Rightarrow> (call_report \<Rightarrow> goerror option) \<Rightarrow>
     rate_class \<Rightarrow> op_cost \<Rightarrow> int64 \<Rightarrow> float64 \<Rightarrow> call_event list \<times> (goerror + 'a)" where
  "call_under_lease acquired out deadline live tell c cost latency draw =
     (case acquired of
        Inl e \<Rightarrow> ([AcquireLease c (oc_weight cost)], Inl (ErrWrap ''leasing the call'' e))
      | Inr lease \<Rightarrow>
         (let made = [AcquireLease c (oc_weight cost), MakeCall];
              out = timed_out deadline live out
          in case report_of cost latency draw (error_of out) of
              None \<Rightarrow> (made, out)
            | Some rep \<Rightarrow> (case tell rep of
                  None \<Rightarrow> (made @ [TellLimiter rep], out)
                | Some e \<Rightarrow> (made @ [TellLimiter rep],
                    Inl (ErrJoin ((case error_of out of None \<Rightarrow> [] | Some x \<Rightarrow> [x]) @
                      [ErrWrap ''telling the rate limiter how the call went'' e]))))))"

text \<open>\<open>Body\<close>: each call of the two a body may take is leased on its own.\<close>

definition body_under_leases ::
  "(string \<Rightarrow> call_event list \<times> (goerror + message_body)) \<Rightarrow> string list \<times> (goerror + message_body)" where
  "body_under_leases call = body_calls (\<lambda>part. snd (call part)) []"

subsection \<open>Floats of four bytes\<close>

lemma max_float32_less: "max_float32 < pow2 128"
  by (simp add: max_float32_def pow2_def)

end
