(* ===== verification/LimiterFacts.thy ===== *)
theory LimiterFacts
  imports Limiter
begin

text \<open>
  What the limiter guarantees over the rows it stores: the hard cap in any second of any history of asks
  and reports that one account's transactions can make, whatever order the rows are read in; how long a
  waiting request waits, and when it is granted; and what a call tells the limiter.
\<close>

subsection \<open>Whole amounts add exactly\<close>

definition whole_tokens :: "float64 \<Rightarrow> bool" where
  "whole_tokens x \<longleftrightarrow> (\<exists>n > 0. x = Fin (of_nat n))"

fun amount :: "float64 \<Rightarrow> rat" where
  "amount (Fin q) = q"
| "amount _ = 0"

lemma round64_nat: "n < 2 ^ 53 \<Longrightarrow> round64 (of_nat n) = Fin (of_nat n)"
proof -
  assume "n < 2 ^ 53"
  then have "\<bar>int n\<bar> < 2 ^ 53" by (simp flip: of_nat_power_eq_of_nat_cancel_iff add: nat_less_numeral_power_cancel_iff)
  from round64_int [OF this] show ?thesis by simp
qed

lemma round32_nat: "n < 2 ^ 24 \<Longrightarrow> round32 (of_nat n) = Fin (of_nat n)"
proof (cases "n = 0")
  case False
  assume n: "n < 2 ^ 24"
  then have "(of_nat n :: rat) < of_nat (2 ^ 24)" by (simp only: of_nat_less_iff)
  then have lt: "(of_nat n :: rat) < pow2 24" by (simp add: pow2_def)
  then have "flog2 (of_nat n) < 24" using False by (intro flog2_less) simp_all
  then have "unit_exp 24 (- 149) (of_int (int n) * pow2 0) \<le> 0" by (simp add: unit_exp_def pow2_def)
  then have "round_rat 24 (- 149) (of_nat n) = of_nat n" using round_rat_exact [of 24 "- 149" "int n" 0] by (simp add: pow2_def)
  moreover have "(of_nat n :: rat) < pow2 128" using lt pow2_mono [of 24 128] by linarith
  ultimately show ?thesis by (simp add: round32_def round_fmt_def not_le order_less_trans [of "- pow2 128" 0])
qed (simp add: b32.rnd_zero)

lemma whole_real_grant: "whole_tokens (is_tokens g) \<Longrightarrow> real_grant g"
  by (auto simp: whole_tokens_def real_grant_def)

lemma windowed_whole:
  assumes "\<forall>g \<in> set gs. whole_tokens (is_tokens g)" "of_nat k + sum_list (map (\<lambda>g. amount (is_tokens g)) gs) < 2 ^ 53"
  shows "windowed_from (Fin (of_nat k)) gs = Fin (of_nat k + sum_list (map (\<lambda>g. amount (is_tokens g)) gs))"
  using assms
proof (induction gs arbitrary: k)
  case (Cons g gs)
  obtain n where n: "is_tokens g = Fin (of_nat n)" "0 < n" using Cons.prems(1) by (auto simp: whole_tokens_def)
  have nonneg: "0 \<le> sum_list (map (\<lambda>g. amount (is_tokens g)) gs)"
    using Cons.prems(1) by (intro sum_list_nonneg) (auto simp: whole_tokens_def)
  have "(of_nat (k + n) :: rat) < 2 ^ 53" using Cons.prems(2) nonneg n(1) by simp
  then have "k + n < 2 ^ 53" by (metis of_nat_less_iff of_nat_numeral of_nat_power)
  then have "round64 (of_nat k + of_nat n) = Fin (of_nat (k + n))" using round64_nat [of "k + n"] by simp
  then show ?case using Cons.IH [of "k + n"] Cons.prems n by (simp add: counted_def add.assoc)
qed simp

subsection \<open>What an account's rows may become\<close>

definition grants_in :: "limiter_write list \<Rightarrow> grant_row list" where
  "grants_in ws = concat (map (\<lambda>w. case w of InsertGrant g \<Rightarrow> [g] | _ \<Rightarrow> []) ws)"

lemma grants_in_simps [simp]:
  "grants_in [] = []" "grants_in (w # ws) = (case w of InsertGrant g \<Rightarrow> [g] | _ \<Rightarrow> []) @ grants_in ws"
  "grants_in (ws @ ws') = grants_in ws @ grants_in ws'"
  by (simp_all add: grants_in_def)

text \<open>
  The answers the account's rows can give a transaction, with a clock that is past the epoch's first
  second and not past the latest instant stored.
\<close>

definition clock_ok :: "int64 \<Rightarrow> bool" where
  "clock_ok now \<longleftrightarrow> 1000 \<le> sint now \<and> sint now \<le> latest_stored_millis"

definition reads_store :: "limits \<Rightarrow> rate_store \<Rightarrow> limiter_db \<Rightarrow> bool" where
  "reads_store l s db \<longleftrightarrow>
     (case ld_clock db of None \<Rightarrow> True | Some now \<Rightarrow> clock_ok now) \<and>
     (case ld_row db of None \<Rightarrow> True | Some row \<Rightarrow> st_row (limiter_writes (ensure_row l) s) = Some row) \<and>
     (case ld_grants db of None \<Rightarrow> True | Some rows \<Rightarrow> mset rows = st_grants s)"

text \<open>A history: the rows after it, and every grant written in it.\<close>

inductive spending :: "limits \<Rightarrow> rate_store \<Rightarrow> grant_row list \<Rightarrow> bool" for l where
  spending_start: "spending l empty_store []"
| spending_ask: "spending l s hist \<Longrightarrow> reads_store l s db \<Longrightarrow> whole_tokens (rq_tokens req) \<Longrightarrow>
    issue_lease env db l account req = (ws, answer) \<Longrightarrow>
    spending l (fold limiter_writes ws s) (hist @ grants_in ws)"
| spending_report: "spending l s hist \<Longrightarrow> reads_store l s db \<Longrightarrow>
    report_call env db l account rep = (ws, answer) \<Longrightarrow>
    spending l (fold limiter_writes ws s) (hist @ grants_in ws)"

definition in_window :: "int \<Rightarrow> grant_row \<Rightarrow> bool" where
  "in_window T g \<longleftrightarrow> T - 1000 < sint (gw_issued g) \<and> sint (gw_issued g) \<le> T"

definition spent_in :: "int \<Rightarrow> grant_row list \<Rightarrow> rat" where
  "spent_in T hist = sum_list (map (\<lambda>g. amount (gw_tokens g)) (filter (in_window T) hist))"

definition latest_of :: "rate_store \<Rightarrow> int" where
  "latest_of s = (case st_row s of None \<Rightarrow> 0 | Some r \<Rightarrow> sint (rw_filled r))"

definition hist_ok :: "rat \<Rightarrow> rate_store \<Rightarrow> grant_row list \<Rightarrow> bool" where
  "hist_ok cap s hist \<longleftrightarrow>
     0 \<le> latest_of s \<and> latest_of s \<le> latest_stored_millis \<and>
     (\<forall>g \<in> set hist. sint (gw_issued g) \<le> latest_of s \<and> whole_tokens (gw_tokens g)) \<and>
     filter_mset (\<lambda>g. latest_of s - 1000 < sint (gw_issued g)) (mset hist) \<subseteq># st_grants s \<and>
     st_grants s \<subseteq># mset hist \<and>
     (\<forall>T. spent_in T hist \<le> cap)"

lemma hist_ok_latest: "hist_ok cap s hist \<Longrightarrow> 0 \<le> latest_of s \<and> latest_of s \<le> latest_stored_millis"
  by (simp add: hist_ok_def)

lemma hist_ok_members: "hist_ok cap s hist \<Longrightarrow> g \<in> set hist \<Longrightarrow>
    sint (gw_issued g) \<le> latest_of s \<and> whole_tokens (gw_tokens g)"
  by (simp add: hist_ok_def)

lemma hist_ok_rows: "hist_ok cap s hist \<Longrightarrow> g \<in># st_grants s \<Longrightarrow> g \<in> set hist"
  using mset_subset_eqD [of "st_grants s" "mset hist"] by (simp add: hist_ok_def)

lemma issue_lease_writes:
  assumes "issue_lease env db l account req = (ws, answer)"
  shows "ws = [] \<or> (\<exists>now row rows d w ws'. ld_clock db = Some now \<and> ld_row db = Some row \<and> ld_grants db = Some rows \<and>
     decide_ask l row rows req now = (d, w, Some ws') \<and> ws = ensure_row l # ws')"
proof -
  obtain body ans where b: "(case locked_row db of
          Inl e \<Rightarrow> (([], Some e), (LeaseWaiting, 0))
        | Inr (now, row) \<Rightarrow> (case ld_grants db of
              None \<Rightarrow> (([], Some ''reading the grants''), (LeaseWaiting, 0))
            | Some grants \<Rightarrow> (case decide_ask l row grants req now of
                  (d, wait, None) \<Rightarrow> (([], Some ''encoding the classes shown''), (d, wait))
                | (d, wait, Some ws) \<Rightarrow> (write_all db (ensure_row l # ws), (d, wait))))) = (body, ans)" (is "?b = _")
    by (cases ?b)
  have ws: "fst (run_tx env account body) = ws"
    using assms unfolding issue_lease_def b by (auto split: prod.splits option.splits)
  consider "ws = []" | "body = (ws, None)" using account_tx.all_or_nothing [of env account body] ws by auto
  then show ?thesis
  proof cases
    case 2
    then show ?thesis using b
      by (auto simp: locked_row_def write_all_def split: sum.splits prod.splits option.splits if_splits)
  qed simp
qed

lemma report_call_writes:
  assumes "report_call env db l account rep = (ws, answer)"
  shows "ws = [] \<or> (\<exists>now row. ws = ensure_row l # report_writes l row rep now)"
  using account_tx.all_or_nothing [of env account "case locked_row db of
          Inl e \<Rightarrow> ([], Some e)
        | Inr (now, row) \<Rightarrow> write_all db (ensure_row l # report_writes l row rep now)"] assms
  by (auto simp: report_call_def write_all_def split: sum.splits prod.splits if_splits)

subsection \<open>A report leaves the grants\<close>

lemma latest_of_ensure [simp]: "latest_of (limiter_writes (ensure_row l) s) = latest_of s"
  by (simp add: latest_of_def ensure_row_def new_row_def split: option.split)

lemma st_grants_ensure [simp]: "st_grants (limiter_writes (ensure_row l) s) = st_grants s"
  by (simp add: ensure_row_def)

lemma report_keeps_grants:
  "fold limiter_writes (report_writes l row rep now) s = s\<lparr>st_row := st_row (fold limiter_writes (report_writes l row rep now) s)\<rparr> \<and>
   latest_of (fold limiter_writes (report_writes l row rep now) s) = latest_of s \<and>
   grants_in (report_writes l row rep now) = []"
  by (simp add: report_writes_def latest_of_def split: prod.split option.split)

lemma hist_ok_cong:
  "latest_of s' = latest_of s \<Longrightarrow> st_grants s' = st_grants s \<Longrightarrow> hist_ok cap s' hist = hist_ok cap s hist"
  by (simp add: hist_ok_def)

subsection \<open>An ask adds at most one grant, within the cap\<close>

lemma spent_in_append: "spent_in T (hist @ hist') = spent_in T hist + spent_in T hist'"
  by (simp add: spent_in_def)

lemma spent_in_sub:
  assumes "\<forall>g \<in> set hist. whole_tokens (gw_tokens g)"
  shows "spent_in T (filter P hist) \<le> spent_in T hist \<and> 0 \<le> spent_in T hist"
  using assms by (induction hist) (auto simp: spent_in_def whole_tokens_def)

lemma spent_whole: "\<forall>g \<in> set hist. whole_tokens (gw_tokens g) \<Longrightarrow> \<exists>k. spent_in T hist = of_nat k"
proof (induction hist)
  case (Cons g hist)
  then obtain k n where "spent_in T hist = of_nat k" "gw_tokens g = Fin (of_nat n)" by (auto simp: whole_tokens_def)
  then have "spent_in T (g # hist) = of_nat (if in_window T g then n + k else k)" by (simp add: spent_in_def)
  then show ?case by blast
qed (auto simp: spent_in_def intro: exI [of _ 0])

lemma sum_list_mset_eq: "mset xs = mset ys \<Longrightarrow> sum_list (map f xs) = sum_list (map f ys)" for f :: "'a \<Rightarrow> rat"
  by (metis mset_map sum_mset_sum_list)

lemma stored_instant_id: "0 \<le> sint x \<Longrightarrow> sint x \<le> latest_stored_millis \<Longrightarrow> stored_instant x = x"
  by (simp add: stored_instant_def max64_def min64_def latest_stored_millis_def)

lemma clock_cutoff:
  assumes "clock_ok now"
  shows "sint (stored_instant (now - lease_millis)) = sint now - 1000"
proof -
  have "sint (now + (- 1000)) = sint now - 1000"
    using assms sint_add_in_range [of now "- 1000"]
    by (simp add: clock_ok_def latest_stored_millis_def min_int64_def max_int64_def)
  then have "sint (now - lease_millis) = sint now - 1000" by (simp add: lease_millis_def)
  then show ?thesis using assms by (simp add: clock_ok_def stored_instant_def latest_stored_millis_def)
qed

text \<open>The grants after an ask's statements: those of the last second stay, and the new one is added.\<close>

lemma ask_grants:
  assumes "\<forall>g \<in># G. sint (gw_issued g) \<le> sint latest" "st_grants s = G" "st_row s = Some row"
  shows "let s' = fold limiter_writes ([DeleteGrantsBefore c, ClampGrants latest] @ map InsertGrant gs @ [UpdateIssuance w]) s
    in st_grants s' = filter_mset (\<lambda>g. sint c < sint (gw_issued g)) G + mset gs \<and> latest_of s' = sint (iw_filled w)"
proof -
  have ins: "fold limiter_writes (map InsertGrant gs) s = s\<lparr>st_grants := st_grants s + mset gs\<rparr>" for s gs
    by (induction gs arbitrary: s) auto
  have "image_mset (\<lambda>g. if sint latest < sint (gw_issued g) then g\<lparr>gw_issued := latest\<rparr> else g)
      (filter_mset (\<lambda>g. sint c < sint (gw_issued g)) G) = filter_mset (\<lambda>g. sint c < sint (gw_issued g)) G"
    using assms(1) by (intro multiset.map_ident_strong) (auto simp: not_less)
  then show ?thesis using assms(2,3) by (simp add: ins latest_of_def)
qed

text \<open>What an ask that was not refused wrote: a new grant at most, at the instant issuance reached.\<close>

definition ask_wrote :: "limits \<Rightarrow> grant_row list \<Rightarrow> lease_request \<Rightarrow> int64 \<Rightarrow> int64 \<Rightarrow> issuance_write \<Rightarrow>
    grant_row list \<Rightarrow> limiter_write list \<Rightarrow> bool" where
  "ask_wrote l rows req now at_now iw gs ws \<longleftrightarrow>
     ws = [DeleteGrantsBefore (stored_instant (now - lease_millis)), ClampGrants at_now] @ map InsertGrant gs @ [UpdateIssuance iw] \<and>
     iw_filled iw = at_now \<and>
     (gs = [] \<or> (\<exists>c. gs = [\<lparr>gw_class = c, gw_tokens = to_float32 (rq_tokens req), gw_issued = at_now\<rparr>] \<and>
        \<not> flt (lm_hard_cap l) (rq_tokens req) \<and>
        \<not> flt (lm_hard_cap l) (fadd (windowed (within_a_second (fst (recent_of rows)) now at_now)) (rq_tokens req))))"

lemma ask_decides:
  assumes "decide_ask l row rows req now = (d, w, Some ws)"
    and now: "clock_ok now" and lat: "0 \<le> sint (rw_filled row)" "sint (rw_filled row) \<le> latest_stored_millis"
  shows "ws = [] \<or> (\<exists>iw gs. ask_wrote l rows req now (max64 now (rw_filled row)) iw gs ws)"
proof -
  define at_now where "at_now = max64 now (rw_filled row)"
  have at: "stored_instant at_now = at_now"
    using now lat by (intro stored_instant_id) (auto simp: at_now_def clock_ok_def)
  obtain recent leases where rec: "recent_of rows = (recent, leases)" by (cases "recent_of rows")
  obtain nxt d' where iss: "issue l (state_of row) ((issuance_of row)\<lparr>is_recent := recent\<rparr>) leases req now = (nxt, d')"
    by (cases "issue l (state_of row) ((issuance_of row)\<lparr>is_recent := recent\<rparr>) leases req now")
  have old: "is_latest ((issuance_of row)\<lparr>is_recent := recent\<rparr>) = rw_filled row"
    by (simp add: issuance_of_def)
  show ?thesis
  proof (cases "d' = LeaseRefused")
    case True
    then show ?thesis using assms(1) by (simp add: decide_ask_def rec iss Let_def)
  next
    case False
    then have ws: "issuance_writes l (state_of row) nxt leases d' now = Some ws"
      using assms(1) by (auto simp: decide_ask_def rec iss Let_def)
    from issue_cases [OF iss, unfolded old] False have nx: "is_latest nxt = at_now" by (auto simp: at_now_def)
    have granted: "\<not> flt (lm_hard_cap l) (rq_tokens req) \<and> le_tokens le = rq_tokens req \<and>
        \<not> flt (lm_hard_cap l) (fadd (windowed (within_a_second recent now at_now)) (rq_tokens req))"
      if "d' = LeaseGranted le" for le
      using issue_cases [OF iss, unfolded old] that by (auto simp: at_now_def Let_def)
    define iw where "iw shown g = \<lparr>iw_target = to_float32 (lm_target l), iw_hard_cap = to_float32 (lm_hard_cap l),
               iw_level = round_down32 (is_level nxt), iw_filled = at_now,
               iw_asked = (\<lambda>c. stored_instant (is_asked nxt c)), iw_granted = g, iw_classes = shown,
               iw_now = stored_instant now\<rparr>" for shown g
    show ?thesis
    proof (cases d')
      case (LeaseGranted le)
      then obtain shown where "ws = [DeleteGrantsBefore (stored_instant (now - lease_millis)), ClampGrants at_now] @
          map InsertGrant [\<lparr>gw_class = rate_class_name (le_class le), gw_tokens = to_float32 (rq_tokens req),
            gw_issued = at_now\<rparr>] @ [UpdateIssuance (iw shown at_now)]"
        using ws granted [OF LeaseGranted] by (auto simp: issuance_writes_def nx at iw_def Let_def split: option.splits)
      moreover have "iw_filled (iw shown at_now) = at_now" by (simp add: iw_def)
      ultimately show ?thesis
        using granted [OF LeaseGranted] unfolding ask_wrote_def rec fst_conv at_now_def [symmetric]
        by (intro disjI2 exI conjI) (assumption | rule refl | simp)+
    next
      case LeaseWaiting
      then obtain shown where "ws = [DeleteGrantsBefore (stored_instant (now - lease_millis)), ClampGrants at_now] @
          map InsertGrant [] @ [UpdateIssuance (iw shown 0)]"
        using ws by (auto simp: issuance_writes_def nx at iw_def Let_def split: option.splits)
      moreover have "iw_filled (iw shown 0) = at_now" by (simp add: iw_def)
      ultimately show ?thesis unfolding ask_wrote_def rec fst_conv at_now_def [symmetric]
        by (intro disjI2 exI [of _ "iw shown 0"] exI [of _ "[]"] conjI disjI1 refl) simp_all
    qed (use False in simp)
  qed
qed

text \<open>The grants of the last second at \<open>at\<close>, whatever order the rows come in, are the history's.\<close>

lemma window_of_rows:
  assumes ok: "hist_ok cap s hist" and rows: "mset rows = st_grants s"
    and now: "sint now \<le> sint at_now" "clock_ok now" "latest_of s \<le> sint at_now"
    and cap: "cap < 2 ^ 24"
  shows "fle (Fin (spent_in (sint at_now) hist)) (windowed (within_a_second (fst (recent_of rows)) now at_now))"
proof -
  let ?gs = "within_a_second (fst (recent_of rows)) now at_now"
  let ?Q = "\<lambda>g. sint at_now - 1000 < sint (is_at g)"
  have sub: "set rows \<subseteq> set hist"
    using ok mset_subset_eqD [of "st_grants s" "mset hist"] by (auto simp: hist_ok_def simp flip: rows)
  then have old: "\<forall>g \<in> set rows. sint (gw_issued g) \<le> sint at_now \<and> whole_tokens (gw_tokens g)"
    using ok now(3) by (auto simp: hist_ok_def dest!: subsetD)
  have cut: "sint (add_saturating now (- lease_millis)) = sint now - 1000"
    using now(2) by (simp add: clock_ok_def latest_stored_millis_def lease_millis_def min_int64_def max_int64_def)
  have "?gs = filter (\<lambda>g. sint now - 1000 < sint (is_at g)) (fst (recent_of rows))"
    unfolding within_a_second_def cut recent_of_def using old
    by (induction rows) (auto simp: min64_def not_less)
  then have "filter ?Q ?gs = map (\<lambda>g. \<lparr>is_at = gw_issued g, is_tokens = gw_tokens g\<rparr>)
      (filter (\<lambda>g. sint at_now - 1000 < sint (gw_issued g)) rows)"
    using now(1) by (auto simp: recent_of_def filter_map o_def intro!: arg_cong [where f = "map _"] filter_cong)
  then have in_rows: "sum_list (map (\<lambda>g. amount (is_tokens g)) (filter ?Q ?gs)) =
      sum_list (map (\<lambda>g. amount (gw_tokens g)) (filter (\<lambda>g. sint at_now - 1000 < sint (gw_issued g)) rows))"
    by (simp add: o_def)
  have "filter_mset (\<lambda>g. sint at_now - 1000 < sint (gw_issued g)) (mset rows) =
      filter_mset (\<lambda>g. sint at_now - 1000 < sint (gw_issued g)) (mset hist)"
  proof (rule subset_mset.antisym)
    show "filter_mset (\<lambda>g. sint at_now - 1000 < sint (gw_issued g)) (mset rows) \<subseteq>#
        filter_mset (\<lambda>g. sint at_now - 1000 < sint (gw_issued g)) (mset hist)"
      using ok by (auto simp: hist_ok_def rows intro: multiset_filter_mono)
    have "filter_mset (\<lambda>g. sint at_now - 1000 < sint (gw_issued g)) (mset hist) =
        filter_mset (\<lambda>g. sint at_now - 1000 < sint (gw_issued g))
          (filter_mset (\<lambda>g. latest_of s - 1000 < sint (gw_issued g)) (mset hist))"
      using now(3) by (auto simp: filter_filter_mset intro!: filter_mset_cong)
    then show "filter_mset (\<lambda>g. sint at_now - 1000 < sint (gw_issued g)) (mset hist) \<subseteq>#
        filter_mset (\<lambda>g. sint at_now - 1000 < sint (gw_issued g)) (mset rows)"
      using ok by (auto simp: hist_ok_def rows intro: multiset_filter_mono)
  qed
  moreover have "filter (\<lambda>g. sint at_now - 1000 < sint (gw_issued g)) hist = filter (in_window (sint at_now)) hist"
    using ok now(3) by (intro filter_cong) (auto simp: hist_ok_def in_window_def)
  ultimately have "mset (filter (\<lambda>g. sint at_now - 1000 < sint (gw_issued g)) rows) =
      mset (filter (in_window (sint at_now)) hist)" by (metis mset_filter)
  from sum_list_mset_eq [OF this, of "\<lambda>g. amount (gw_tokens g)"]
  have spent: "sum_list (map (\<lambda>g. amount (is_tokens g)) (filter ?Q ?gs)) = spent_in (sint at_now) hist"
    by (simp add: in_rows spent_in_def)
  have whole: "\<forall>g \<in> set ?gs. whole_tokens (is_tokens g)"
    using old by (auto simp: within_a_second_def recent_of_def)
  have "spent_in (sint at_now) hist < 2 ^ 53"
    using ok cap by (auto simp: hist_ok_def intro: le_less_trans [of _ cap])
  then have "windowed (filter ?Q ?gs) = Fin (spent_in (sint at_now) hist)"
    using windowed_whole [of "filter ?Q ?gs" 0] whole by (simp add: windowed_def spent)
  then show ?thesis using windowed_sublist [of ?gs ?Q] whole whole_real_grant by metis
qed

text \<open>A new grant fits in the cap beside the grants of the second before it.\<close>

lemma granted_within:
  assumes ok: "hist_ok cap s hist" and rows: "mset rows = st_grants s"
    and now: "sint now \<le> sint at_now" "clock_ok now" "latest_of s \<le> sint at_now"
    and cap: "lm_hard_cap l = Fin cap" "cap < 2 ^ 24"
    and gs: "gs = [] \<or> (\<exists>c. gs = [\<lparr>gw_class = c, gw_tokens = to_float32 (rq_tokens req), gw_issued = at_now\<rparr>] \<and>
        \<not> flt (lm_hard_cap l) (rq_tokens req) \<and>
        \<not> flt (lm_hard_cap l) (fadd (windowed (within_a_second (fst (recent_of rows)) now at_now)) (rq_tokens req)))"
    and req: "whole_tokens (rq_tokens req)"
  shows "(\<forall>g \<in> set gs. gw_issued g = at_now \<and> whole_tokens (gw_tokens g)) \<and>
    (gs = [] \<or> (\<exists>g. gs = [g] \<and> spent_in (sint at_now) hist + amount (gw_tokens g) \<le> cap))"
proof (cases "gs = []")
  case False
  then obtain c where c: "gs = [\<lparr>gw_class = c, gw_tokens = to_float32 (rq_tokens req), gw_issued = at_now\<rparr>]"
    "\<not> flt (Fin cap) (rq_tokens req)"
    "\<not> flt (Fin cap) (fadd (windowed (within_a_second (fst (recent_of rows)) now at_now)) (rq_tokens req))"
    using gs cap(1) by auto
  let ?w = "windowed (within_a_second (fst (recent_of rows)) now at_now)" and ?S = "spent_in (sint at_now) hist"
  obtain n where n: "rq_tokens req = Fin (of_nat n)" "0 < n" using req by (auto simp: whole_tokens_def)
  then have "of_nat n \<le> cap" using c(2) by simp
  then have "(of_nat n :: rat) < of_nat (2 ^ 24)" using cap(2) by simp
  then have small: "n < 2 ^ 24" by (simp only: of_nat_less_iff)
  have w: "fle (Fin ?S) ?w" by (rule window_of_rows [OF ok rows now cap(2)])
  have S: "?S \<le> cap" using ok by (simp add: hist_ok_def)
  have "\<forall>g \<in> set hist. whole_tokens (gw_tokens g)" using hist_ok_members [OF ok] by blast
  then obtain k where k: "?S = of_nat k" using spent_whole by blast
  have "(of_nat (k + n) :: rat) < of_nat (2 ^ 53)" using k S cap(2) \<open>of_nat n \<le> cap\<close> by simp
  then have "k + n < 2 ^ 53" by (simp only: of_nat_less_iff)
  then have exact: "fadd (Fin ?S) (Fin (of_nat n)) = Fin (?S + of_nat n)" using round64_nat [of "k + n"] k by simp
  have no: "fadd ?w (Fin (of_nat n)) \<noteq> NaN" using w by (cases ?w) auto
  have "fle (fadd (Fin ?S) (Fin (of_nat n))) (fadd ?w (Fin (of_nat n)))"
    using w by (intro fadd_mono) (use exact no in simp_all)
  moreover have "fle (fadd ?w (Fin (of_nat n))) (Fin cap)"
    using c(3) no unfolding n(1) by (simp add: not_flt_fle)
  ultimately have "fle (Fin (?S + of_nat n)) (Fin cap)" unfolding exact by (rule fle_trans)
  then show ?thesis using c(1) n round32_nat [OF small] by (simp add: whole_tokens_def)
qed simp

text \<open>An ask keeps the history within the cap.\<close>

lemma ask_keeps:
  assumes ok: "hist_ok cap s hist" and cap: "lm_hard_cap l = Fin cap" "cap < 2 ^ 24"
    and row: "st_row (limiter_writes (ensure_row l) s) = Some row" and rows: "mset rows = st_grants s"
    and now: "clock_ok now" and req: "whole_tokens (rq_tokens req)"
    and dec: "decide_ask l row rows req now = (d, w, Some ws)"
  shows "hist_ok cap (fold limiter_writes (ensure_row l # ws) s) (hist @ grants_in ws)"
proof -
  let ?s = "limiter_writes (ensure_row l) s" and ?at = "max64 now (rw_filled row)"
  have lat: "latest_of s = sint (rw_filled row)" using row latest_of_ensure [of l s] by (simp add: latest_of_def)
  have range: "0 \<le> sint (rw_filled row)" "sint (rw_filled row) \<le> latest_stored_millis"
    using hist_ok_latest [OF ok] lat by simp_all
  have ok1: "hist_ok cap ?s hist" using ok hist_ok_cong [of ?s s] by simp
  from ask_decides [OF dec now range] consider "ws = []" | iw gs where "ask_wrote l rows req now ?at iw gs ws" by blast
  then show ?thesis
  proof cases
    case 1
    then show ?thesis using ok1 by simp
  next
    case (2 iw gs)
    note wrote = 2 [unfolded ask_wrote_def]
    let ?s' = "fold limiter_writes ws ?s"
    have "\<forall>g \<in># st_grants s. sint (gw_issued g) \<le> sint ?at"
      using hist_ok_members [OF ok hist_ok_rows [OF ok]] lat by fastforce
    from ask_grants [OF this st_grants_ensure row, where gs = gs and w = iw and c = "stored_instant (now - lease_millis)"]
    have st: "st_grants ?s' = filter_mset (\<lambda>g. sint now - 1000 < sint (gw_issued g)) (st_grants s) + mset gs"
      "latest_of ?s' = sint ?at"
      using wrote clock_cutoff [OF now] by (simp_all add: Let_def)
    have added: "grants_in ws = gs" using wrote by (simp add: grants_in_def o_def)
    have at: "sint (rw_filled row) \<le> sint ?at" "sint now \<le> sint ?at" "sint ?at \<le> latest_stored_millis"
      using now range by (auto simp: clock_ok_def)
    have within: "latest_of s \<le> sint ?at" using lat at by simp
    have grants: "\<forall>g \<in> set gs. gw_issued g = ?at \<and> whole_tokens (gw_tokens g)"
        "gs = [] \<or> (\<exists>g. gs = [g] \<and> spent_in (sint ?at) hist + amount (gw_tokens g) \<le> cap)"
      using granted_within [OF ok rows at(2) now within cap conjunct2 [OF conjunct2 [OF wrote]] req] by auto
    have old: "\<forall>g \<in> set hist. sint (gw_issued g) \<le> sint ?at \<and> whole_tokens (gw_tokens g)"
      using hist_ok_members [OF ok] within by fastforce
    have spent: "spent_in T (hist @ gs) \<le> cap" for T
    proof (cases "filter (in_window T) gs = []")
      case True
      then show ?thesis using ok by (simp add: spent_in_append hist_ok_def) (simp add: spent_in_def)
    next
      case False
      then obtain g where g: "gs = [g]" "in_window T g" "spent_in (sint ?at) hist + amount (gw_tokens g) \<le> cap"
        using grants(2) by (auto split: if_splits)
      then have T: "sint ?at \<le> T" "T - 1000 < sint ?at" using grants(1) by (auto simp: in_window_def)
      have "filter (in_window T) hist = filter (in_window T) (filter (in_window (sint ?at)) hist)"
        unfolding filter_filter using old T by (intro filter_cong) (auto simp: in_window_def)
      then have "spent_in T hist = spent_in T (filter (in_window (sint ?at)) hist)" by (simp add: spent_in_def)
      also have "\<dots> \<le> spent_in (sint ?at) hist"
        using old by (induction hist) (auto simp: spent_in_def whole_tokens_def)
      finally show ?thesis using g by (simp add: spent_in_append) (simp add: spent_in_def)
    qed
    have kept: "filter_mset (\<lambda>g. sint ?at - 1000 < sint (gw_issued g)) (mset (hist @ gs)) \<subseteq>#
        filter_mset (\<lambda>g. sint now - 1000 < sint (gw_issued g)) (st_grants s) + mset gs"
    proof -
      have "filter_mset (\<lambda>g. sint ?at - 1000 < sint (gw_issued g)) (mset hist) \<subseteq>#
          filter_mset (\<lambda>g. sint now - 1000 < sint (gw_issued g))
            (filter_mset (\<lambda>g. latest_of s - 1000 < sint (gw_issued g)) (mset hist))"
        unfolding filter_filter_mset using at within by (intro filter_mset_mono_strong) auto
      also have "\<dots> \<subseteq># filter_mset (\<lambda>g. sint now - 1000 < sint (gw_issued g)) (st_grants s)"
        using ok by (intro multiset_filter_mono) (simp add: hist_ok_def)
      finally show ?thesis
        by (simp add: subset_mset.add_mono multiset_filter_subset)
    qed
    have "filter_mset (\<lambda>g. sint now - 1000 < sint (gw_issued g)) (st_grants s) \<subseteq># mset hist"
      by (rule subset_mset.order_trans [OF multiset_filter_subset]) (use ok in \<open>simp add: hist_ok_def\<close>)
    then show ?thesis
      using st spent kept grants(1) old at range unfolding added
      by (auto simp: hist_ok_def)
  qed
qed

lemma spending_ok:
  assumes "spending l s hist" "lm_hard_cap l = Fin cap" "0 \<le> cap" "cap < 2 ^ 24"
  shows "hist_ok cap s hist"
  using assms
proof induction
  case spending_start
  then show ?case by (simp add: hist_ok_def empty_store_def latest_of_def latest_stored_millis_def spent_in_def)
next
  case (spending_ask s hist db req env account ws answer)
  then have ok: "hist_ok cap s hist" by simp
  from issue_lease_writes [OF spending_ask.hyps(4)] show ?case
  proof (elim disjE exE conjE)
    fix now row rows d w ws'
    assume db: "ld_clock db = Some now" "ld_row db = Some row" "ld_grants db = Some rows"
      and dec: "decide_ask l row rows req now = (d, w, Some ws')" and ws: "ws = ensure_row l # ws'"
    have "st_row (limiter_writes (ensure_row l) s) = Some row" "mset rows = st_grants s" "clock_ok now"
      using spending_ask.hyps(2) db by (simp_all add: reads_store_def)
    from ask_keeps [OF ok spending_ask.prems(1) spending_ask.prems(3) this(1,2,3) spending_ask.hyps(3) dec]
    show ?thesis unfolding ws by (simp add: ensure_row_def)
  qed (use ok in simp)
next
  case (spending_report s hist db env account rep ws answer)
  then have ok: "hist_ok cap s hist" by simp
  from report_call_writes [OF spending_report.hyps(3)] show ?case
  proof (elim disjE exE)
    fix now row
    assume ws: "ws = ensure_row l # report_writes l row rep now"
    let ?s = "limiter_writes (ensure_row l) s"
    have "grants_in ws = []" unfolding ws using report_keeps_grants [of l row rep now ?s] by (simp add: ensure_row_def)
    moreover have "fold limiter_writes ws s = fold limiter_writes (report_writes l row rep now) ?s" by (simp add: ws)
    ultimately show ?thesis
      using ok report_keeps_grants [of l row rep now ?s] hist_ok_cong [of "fold limiter_writes ws s" s]
      by (metis append_Nil2 latest_of_ensure rate_store.select_convs(2) rate_store.surjective rate_store.update_convs(1) st_grants_ensure)
  qed (use ok in simp)
qed

text \<open>
  C10. Over the rows an account's rate state and grants are stored in, however asks and reports interleave,
  fail or roll back, in whatever order the rows are read and however the clock moves, the tokens granted
  within any one second sum to at most the hard cap. The amounts asked for are whole, as the profiles
  declare them, and the hard cap is below the whole numbers four bytes hold exactly.
\<close>

theorem stored_grants_keep_the_hard_cap:
  assumes "spending l s hist" "lm_hard_cap l = Fin cap" "0 \<le> cap" "cap < 2 ^ 24"
  shows "spent_in T hist \<le> cap"
  using spending_ok [OF assms] by (simp add: hist_ok_def)

definition sample_limits :: limits where
  "sample_limits = \<lparr>lm_target = Fin 128, lm_hard_cap = Fin 200, lm_floor = Fin 16\<rparr>"
definition sample_tx :: "string tx_env" where
  "sample_tx = \<lparr>tx_nested = False, tx_begins = True, tx_sets = Some, tx_commits = CommitTakes\<rparr>"
definition sample_db :: limiter_db where
  "sample_db = \<lparr>ld_locks = True, ld_clock = Some 5000, ld_ensures = True, ld_row = Some (new_row (Fin 128)),
     ld_grants = Some [], ld_fails = (\<lambda>_. False)\<rparr>"

subsection \<open>A request waits only while the account is busy\<close>

definition quiet_for :: "rate_row \<Rightarrow> grant_row list \<Rightarrow> rate_class \<Rightarrow> int64 \<Rightarrow> bool" where
  "quiet_for row rows c now \<longleftrightarrow>
     clock_ok now \<and> 0 \<le> sint (rw_filled row) \<and> sint (rw_filled row) \<le> sint now \<and>
     0 \<le> sint (rw_backoff_until row) \<and> sint (rw_backoff_until row) \<le> sint now \<and>
     (\<forall>g \<in> set rows. sint (gw_issued g) \<le> sint now - 1000) \<and>
     (\<forall>d \<in> set (outranking c). 0 \<le> sint (rw_asked row d) \<and> sint (rw_asked row d) \<le> sint now - 1000)"

lemma fmul_elapsed:
  assumes "0 < n" "n < 2 ^ 24" "0 \<le> sint e" "sint e \<le> latest_stored_millis" "2000 * of_nat n \<le> r * of_int (sint e)"
  shows "fle (Fin (of_nat n)) (fdiv (fmul (Fin r) (float_of_int64 e)) (Fin 1000))"
proof -
  have e: "float_of_int64 e = Fin (of_int (sint e))"
    unfolding float_of_int64_def using assms(3,4) by (intro round64_int) (simp add: latest_stored_millis_def)
  have "1024 * n < 2 ^ 53" using assms(2) by simp
  then have k: "round64 (of_nat (1024 * n)) = Fin (of_nat (1024 * n))" by (rule round64_nat)
  have "fle (Fin (of_nat (1024 * n))) (round64 (r * of_int (sint e)))"
    by (rule b64.rnd_ge [OF k]) (use assms(1,5) in simp)
  then have m: "fle (Fin (1024 * of_nat n)) (fmul (Fin r) (float_of_int64 e))" by (simp add: e)
  have n: "round64 (of_nat n) = Fin (of_nat n)" using assms(2) by (intro round64_nat) simp
  show ?thesis
  proof (cases "fmul (Fin r) (float_of_int64 e)")
    case (Fin v)
    then have "of_nat n \<le> v / 1000" using m by simp
    then show ?thesis using b64.rnd_ge [OF n] by (simp add: Fin)
  qed (use m in simp_all)
qed

lemma sint_diff:
  assumes "0 \<le> sint b" "sint b \<le> sint a"
  shows "sint (a - b :: int64) = sint a - sint b"
proof -
  have "a - b = word_of_int (sint a - sint b)" by simp
  moreover have "sint (word_of_int (sint a - sint b) :: int64) = sint a - sint b"
    by (rule sint_of_int64) (use assms sint_range64 [of a] in \<open>simp_all add: min_int64_def\<close>)
  ultimately show ?thesis by metis
qed

lemma fadd_sum_number: "fle (Fin a) x \<Longrightarrow> fle (Fin b) y \<Longrightarrow> fadd y x = NaN \<Longrightarrow> False"
  by (cases x; cases y) auto

lemma available_quiet:
  assumes "\<forall>d \<in> set (outranking c). 0 \<le> sint (is_asked st d) \<and> sint (is_asked st d) \<le> sint now - 1000"
    "sint now \<le> latest_stored_millis"
  shows "available_for l st leases rate c now = is_level st"
proof -
  have no: "sint (add_saturating (is_asked st d) lease_millis) \<le> sint now" if "d \<in> set (outranking c)" for d
  proof -
    have "0 \<le> sint (is_asked st d)" "sint (is_asked st d) \<le> sint now - 1000" using assms(1) that by blast+
    then show ?thesis using assms(2) by (simp add: lease_millis_def latest_stored_millis_def min_int64_def max_int64_def)
  qed
  have "foldl (\<lambda>available d. if sint now < sint (add_saturating (is_asked st d) lease_millis)
         then fsub available (fmax (fsub (share d rate (lm_target l)) (held leases d now)) (Fin 0))
         else available) a ds = a" if "set ds \<subseteq> set (outranking c)" for a ds
    using that
  proof (induction ds arbitrary: a)
    case (Cons d ds)
    have "\<not> sint now < sint (add_saturating (is_asked st d) lease_millis)"
      using no [of d] Cons.prems unfolding list.set insert_subset not_less by blast
    then show ?case using Cons by (simp del: sint_add_saturating)
  qed simp
  then show ?thesis by (simp add: available_for_def del: sint_add_saturating)
qed

lemma quiet_grants:
  assumes quiet: "quiet_for row rows (rq_class req) now"
    and req: "named (rq_class req)" "rq_tokens req = Fin (of_nat n)" "0 < n" "of_nat n \<le> cap"
    and l: "lm_hard_cap l = Fin cap" "cap < 2 ^ 24"
    and rate: "fmin (rw_rate row) (lm_target l) = Fin r" "flt (Fin 0) (rw_rate row)"
    and elapsed: "2000 * of_nat n \<le> r * of_int (sint now - max (sint (rw_filled row)) (sint (rw_backoff_until row)))"
  shows "\<exists>lease w ws. decide_ask l row rows req now = (LeaseGranted lease, w, ws) \<and>
    le_class lease = rq_class req \<and> le_tokens lease = rq_tokens req \<and> sint (le_expires lease) = sint now + 1000"
proof -
  let ?st = "(issuance_of row)\<lparr>is_recent := fst (recent_of rows)\<rparr>"
  let ?start = "max64 (rw_filled row) (rw_backoff_until row)"
  have now: "0 \<le> sint now" "sint now \<le> latest_stored_millis" "max64 now (rw_filled row) = now"
    using quiet by (auto simp: quiet_for_def clock_ok_def max64_def)
  have rr: "refill_rate (rw_rate row) l = Fin r" using rate by (simp add: refill_rate_def)
  have "(of_nat n :: rat) < of_nat (2 ^ 24)" using req(4) l(2) by simp
  then have n24: "n < 2 ^ 24" by (simp only: of_nat_less_iff)
  have start: "0 \<le> sint ?start" "sint ?start \<le> sint now" using quiet by (auto simp: quiet_for_def)
  have diff: "sint (now - ?start) = sint now - sint ?start"
    using start by (intro sint_diff)
  have need: "2000 * of_nat n \<le> r * of_int (sint (now - ?start))" using elapsed diff by simp
  have "sint ?start \<noteq> sint now" using need req(3) diff by auto
  then have lt: "sint ?start < sint now" using start(2) by linarith
  have filled: "fle (Fin (of_nat n)) (fdiv (fmul (Fin r) (float_of_int64 (now - ?start))) (Fin 1000))"
    by (rule fmul_elapsed [OF req(3) n24 _ _ need]) (use diff start now in simp_all)
  define level where "level = (if rw_level row = NaN then Fin 0 else fmin (fmax (rw_level row) (Fin 0)) (Fin cap))"
  have level: "fle (Fin 0) level" using req(4) by (cases "rw_level row") (auto simp: level_def fmin_def fmax_def intro: order_trans [of 0 "of_nat n" cap])
  have "fle (Fin (of_nat n)) (fmin (fadd level (fdiv (fmul (Fin r) (float_of_int64 (now - ?start))) (Fin 1000))) (Fin cap))"
  proof (rule fmin_bounded)
    have "fle (fadd (Fin 0) (fdiv (fmul (Fin r) (float_of_int64 (now - ?start))) (Fin 1000)))
        (fadd level (fdiv (fmul (Fin r) (float_of_int64 (now - ?start))) (Fin 1000)))"
      by (rule fadd_mono [OF level]) (use fadd_sum_number [OF filled] level fadd_sum_number [OF filled, of 0 "Fin 0"] in \<open>auto simp: fle_refl\<close>)
    moreover have "fle (Fin (of_nat n)) (fadd (Fin 0) (fdiv (fmul (Fin r) (float_of_int64 (now - ?start))) (Fin 1000)))"
      using filled b64.rnd_ge [OF round64_nat [of n]] n24
      by (cases "fdiv (fmul (Fin r) (float_of_int64 (now - ?start))) (Fin 1000)") auto
    ultimately show "fle (Fin (of_nat n)) (fadd level (fdiv (fmul (Fin r) (float_of_int64 (now - ?start))) (Fin 1000)))"
      using fle_trans by blast
    show "fle (Fin (of_nat n)) (Fin cap)" using req(4) by simp
  qed
  moreover have nn: "\<not> sint (now - ?start) < 0" using diff start by linarith
  ultimately have enough: "fle (Fin (of_nat n)) (is_level (refill ?st (state_of row) (Fin r) (Fin cap) now))"
    using lt nn by (simp add: refill_def issuance_of_def state_of_def level_def Let_def del: sint_max64)
  let ?next = "refill ?st (state_of row) (Fin r) (Fin cap) now"
  have asked: "\<forall>d \<in> set (outranking (rq_class req)). 0 \<le> sint (rw_asked row d) \<and> sint (rw_asked row d) \<le> sint now - 1000"
    using quiet by (simp add: quiet_for_def)
  have other: "d \<noteq> rq_class req \<and> named d" if "d \<in> set (outranking (rq_class req))" for d
    using that by (cases "rq_class req") (auto simp: named_def)
  have avail: "available_for l (?next\<lparr>is_recent := rc, is_asked := (is_asked ?next)(rq_class req := now)\<rparr>) leases rate'
      (rq_class req) now = is_level ?next" for rc leases rate'
    using asked other now(2)
    by (subst available_quiet) (auto simp: refill_def issuance_of_def Let_def)
  have none: "within_a_second (fst (recent_of rows)) now now = []"
    using quiet now by (auto simp: quiet_for_def within_a_second_def recent_of_def filter_empty_conv min64_def
      lease_millis_def latest_stored_millis_def min_int64_def max_int64_def)
  have latest: "is_latest ?st = rw_filled row" by (simp add: issuance_of_def)
  have backoff: "\<not> sint now < sint (ct_backoff_until (state_of row))" using quiet by (simp add: quiet_for_def state_of_def)
  have fits: "\<not> flt (is_level ?next) (rq_tokens req)" using enough by (auto simp: req(2) flt_def)
  have window: "fadd (windowed []) (rq_tokens req) = rq_tokens req"
    using n24 round64_nat [of n] by (simp add: windowed_def req(2))
  have recent: "is_recent ?next = fst (recent_of rows)" by (simp add: refill_def Let_def)
  have "\<exists>st'. issue l (state_of row) ?st leases req now = (st', LeaseGranted \<lparr>le_class = rq_class req,
      le_tokens = rq_tokens req, le_expires = add_saturating now lease_millis\<rparr>)" for leases
    unfolding issue_def Let_def latest now(3) l(1) avail
    using req rr backoff fits window none recent avail
    by (simp add: state_of_def del: sint_add_saturating)
  then have iss: "\<exists>st'. issue l (state_of row) ((issuance_of row)\<lparr>is_recent := recent\<rparr>) leases req now =
      (st', LeaseGranted \<lparr>le_class = rq_class req, le_tokens = rq_tokens req, le_expires = add_saturating now lease_millis\<rparr>)"
    if "recent_of rows = (recent, leases)" for recent leases
    using that by simp
  have "sint (add_saturating now lease_millis) = sint now + 1000"
    using now by (simp add: lease_millis_def latest_stored_millis_def min_int64_def max_int64_def)
  then show ?thesis
    using iss by (cases "recent_of rows") (fastforce simp: decide_ask_def Let_def split: prod.splits)
qed

text \<open>
  C11. A request waits only while the account is busy. With the backoff over, no grant in the last second,
  no class that outranks it asking in the last second, and twice the time the bucket needs to fill to the
  amount at the rate since it was last filled, a whole amount up to the hard cap is granted.
\<close>

theorem quiet_account_grants:
  assumes "quiet_for row rows (rq_class req) now"
    and "named (rq_class req)" "rq_tokens req = Fin (of_nat n)" "0 < n" "of_nat n \<le> cap"
    and "lm_hard_cap l = Fin cap" "cap < 2 ^ 24"
    and "fmin (rw_rate row) (lm_target l) = Fin r" "flt (Fin 0) (rw_rate row)"
    and "2000 * of_nat n \<le> r * of_int (sint now - max (sint (rw_filled row)) (sint (rw_backoff_until row)))"
  shows "\<exists>lease w ws. decide_ask l row rows req now = (LeaseGranted lease, w, ws) \<and>
    le_class lease = rq_class req \<and> le_tokens lease = rq_tokens req \<and> sint (le_expires lease) = sint now + 1000"
  by (rule quiet_grants [OF assms])

definition sample_request :: lease_request where
  "sample_request = \<lparr>rq_class = Interactive, rq_tokens = Fin (of_nat 5)\<rparr>"

theorem quiet_account_grants_witness:
  "\<exists>lease w ws. decide_ask sample_limits (new_row (Fin 128)) [] sample_request 5000 = (LeaseGranted lease, w, ws) \<and>
    le_class lease = rq_class sample_request \<and> le_tokens lease = rq_tokens sample_request \<and>
    sint (le_expires lease) = sint (5000 :: int64) + 1000"
  by (rule quiet_account_grants [where n = 5 and cap = 200 and r = 128])
    (simp_all add: quiet_for_def clock_ok_def new_row_def sample_request_def sample_limits_def latest_stored_millis_def
      named_def fmin_def)

lemma finite_share: "0 \<le> b \<Longrightarrow> b \<le> t \<Longrightarrow> round64 t = Fin t \<Longrightarrow> finite_number (share c (Fin b) (Fin t))"
  using share_range [of b t c] fle_between by (fastforce simp: finite_number_def)

lemma sample_ask:
  "\<exists>w ws. decide_ask sample_limits (new_row (Fin 128)) [] sample_request 5000 =
     (LeaseGranted \<lparr>le_class = Interactive, le_tokens = Fin (of_nat 5), le_expires = 6000\<rparr>, w, Some ws) \<and>
     (\<exists>g. grants_in ws = [g])"
proof -
  obtain lease w ws where d: "decide_ask sample_limits (new_row (Fin 128)) [] sample_request 5000 = (LeaseGranted lease, w, ws)"
    "le_class lease = rq_class sample_request" "le_tokens lease = rq_tokens sample_request"
    "sint (le_expires lease) = sint (5000 :: int64) + 1000"
    using quiet_grants [where n = 5 and cap = 200 and r = 128 and l = sample_limits and row = "new_row (Fin 128)" and
        rows = "[]" and req = sample_request and now = 5000]
    by (auto simp: quiet_for_def clock_ok_def new_row_def sample_request_def sample_limits_def latest_stored_millis_def
      named_def fmin_def)
  have "le_expires lease = 6000" by (rule signed_word_eqI) (use d(4) in simp)
  then have lease: "lease = \<lparr>le_class = Interactive, le_tokens = Fin (of_nat 5), le_expires = 6000\<rparr>"
    using d(2,3) by (cases lease) (simp add: sample_request_def)
  have "round64 128 = Fin 128" "round64 5 = Fin 5" using round64_int [of 128] round64_int [of 5] by simp_all
  then have "classes_shown (state_of (new_row (Fin 128))) sample_limits [lease] t \<noteq> None" for t
    using finite_share [of 128 128]
    by (auto simp: classes_shown_def state_of_def new_row_def sample_limits_def used_by_def live_leases_def lease
      fmin_def fmax_def finite_number_def Let_def)
  moreover obtain nxt where "ws = issuance_writes sample_limits (state_of (new_row (Fin 128))) nxt [] (LeaseGranted lease) 5000"
    using d(1) by (auto simp: decide_ask_def Let_def recent_of_def split: prod.splits if_splits)
  ultimately show ?thesis using d(1) unfolding lease by (auto simp: issuance_writes_def Let_def split: option.splits)
qed

theorem stored_grants_keep_the_hard_cap_witness:
  "\<exists>s g. spending sample_limits s [g] \<and> spent_in 5000 [g] \<le> 200"
proof -
  obtain w ws g where d: "decide_ask sample_limits (new_row (Fin 128)) [] sample_request 5000 =
     (LeaseGranted \<lparr>le_class = Interactive, le_tokens = Fin (of_nat 5), le_expires = 6000\<rparr>, w, Some ws)"
    "grants_in ws = [g]" using sample_ask by blast
  let ?ws = "ensure_row sample_limits # ws"
  have "round32 128 = Fin 128" using round32_nat [of 128] by simp
  then have "reads_store sample_limits empty_store sample_db"
    by (simp add: reads_store_def sample_db_def empty_store_def ensure_row_def sample_limits_def clock_ok_def latest_stored_millis_def)
  moreover have "fst (issue_lease sample_tx sample_db sample_limits ''a'' sample_request) = ?ws"
    using d(1) by (simp add: issue_lease_def locked_row_def sample_db_def sample_tx_def write_all_def run_tx_def list_ex_iff)
  moreover have "whole_tokens (rq_tokens sample_request)"
    by (auto simp: sample_request_def whole_tokens_def intro: exI [of _ 5])
  ultimately have "spending sample_limits (fold limiter_writes ?ws empty_store) ([] @ grants_in ?ws)"
    by (metis prod.collapse spending_ask spending_start)
  then have sp: "spending sample_limits (fold limiter_writes ?ws empty_store) [g]"
    using d(2) by (simp add: ensure_row_def)
  moreover have "spent_in 5000 [g] \<le> 200"
    by (rule stored_grants_keep_the_hard_cap [OF sp]) (simp_all add: sample_limits_def)
  ultimately show ?thesis by blast
qed

subsection \<open>What a call tells the limiter\<close>

text \<open>
  C12. A call is made exactly under a lease, and the limiter is told exactly how it went: a success, a
  throttle with the signal the port's error carries, or a provider's failure, which an answer past the
  deadline is too; of a refused body, a part held apart and every other error it is told nothing. The
  call's value comes back only when the limiter heard of it.
\<close>

theorem a_call_tells_how_it_went:
  "case call_under_lease acquired out deadline live tell c cost latency draw of (events, answer) \<Rightarrow>
     let answered = timed_out deadline live out in
     hd events = AcquireLease c (oc_weight cost) \<and>
     (MakeCall \<in> set events \<longleftrightarrow> (\<exists>lease. acquired = Inr lease)) \<and>
     (TellLimiter rep \<in> set events \<longleftrightarrow> (\<exists>lease. acquired = Inr lease) \<and>
       (case answered of
          Inr x \<Rightarrow> rep = ReportSucceeded cost latency
        | Inl e \<Rightarrow> (case as_throttle e of
              Some signal \<Rightarrow> rep = ReportThrottled signal draw
            | None \<Rightarrow> err_is e ErrProvider \<and> rep = ReportErrored))) \<and>
     (answer = Inr v \<longleftrightarrow> (\<exists>lease. acquired = Inr lease) \<and> answered = Inr v \<and> out = Inr v \<and>
       tell (ReportSucceeded cost latency) = None)"
  by (auto simp: call_under_lease_def report_of_def timed_out_def error_of_def throttled_err_def Let_def
    split: sum.splits option.splits if_splits)

subsection \<open>What is asked for and how long an ask waits\<close>

lemma above32_exact:
  assumes "round32 f = Fin f" "0 < f" "above32 f < pow2 128"
  shows "round32 (above32 f) = Fin (above32 f)"
proof -
  define e where "e = unit_exp 24 (- 149) f"
  have least: "- 149 \<le> e" by (simp add: e_def unit_exp_def)
  have "round_rat 24 (- 149) f = f" using assms(1) by (simp add: round32_def round_fmt_def Let_def split: if_splits)
  then have "round_at e f = f" using assms(2) by (simp add: round_rat_def e_def)
  then obtain k where k: "f = of_int k * pow2 e" by (simp add: round_at_def) metis
  have "0 < of_int k * pow2 e" using k assms(2) by simp
  then have kpos: "0 < k" by (simp add: zero_less_mult_iff order_less_not_sym [OF pow2_pos])
  have "of_int k * pow2 e < 2 ^ 24 * pow2 e"
    using unit_exp_less [OF assms(2), of 24 "- 149", folded e_def] unfolding k [symmetric] by (simp add: pow2_add) (simp add: pow2_def)
  then have "(of_int k :: rat) < of_int (2 ^ 24)" by simp
  then have k24: "k < 2 ^ 24" by (simp only: of_int_less_iff)
  have "above32 f = f + pow2 e" by (simp add: above32_def e_def)
  also have "\<dots> = of_int (k + 1) * pow2 e" by (subst k) (simp add: distrib_right)
  finally have up: "above32 f = of_int (k + 1) * pow2 e" .
  have "round_rat 24 (- 149) (above32 f) = above32 f"
  proof (cases "k + 1 = 2 ^ 24")
    case True
    then have "above32 f = of_int 1 * pow2 (24 + e)" unfolding up by (simp add: pow2_add) (simp add: pow2_def)
    moreover have "unit_exp 24 (- 149) (of_int 1 * pow2 (24 + e)) \<le> 24 + e"
      using flog2_less [of "pow2 (24 + e)" "25 + e"] least by (simp add: unit_exp_def)
    ultimately show ?thesis using round_rat_exact [of 24 "- 149" 1 "24 + e"] by simp
  next
    case False
    then have "of_int (k + 1) < (of_int (2 ^ 24) :: rat)" using k24 by (simp only: of_int_less_iff)
    then have "of_int (k + 1) * pow2 e < pow2 (24 + e)" by (simp add: pow2_add) (simp add: pow2_def)
    then have "flog2 (of_int (k + 1) * pow2 e) < 24 + e" using kpos by (intro flog2_less) simp_all
    then have "unit_exp 24 (- 149) (of_int (k + 1) * pow2 e) \<le> e" using kpos least by (simp add: unit_exp_def)
    from round_rat_exact [OF this] show ?thesis by (simp add: up)
  qed
  then show ?thesis using assms(2,3)
    by (simp add: round32_def round_fmt_def not_le less_trans [of "- pow2 128" 0] above32_def add_pos_pos Let_def)
qed

text \<open>The amount asked for is never less than the call's cost.\<close>

lemma round_up32_covers:
  assumes "0 < q"
  shows "fle (Fin q) (round_up32 (Fin q))"
proof (cases "max_float32 < q")
  case False
  have low: "round32 (pow2 (- 149)) = Fin (pow2 (- 149))"
  proof -
    have "unit_exp 24 (- 149) (of_int 1 * pow2 (- 149)) \<le> - 149"
      using flog2_less [of "pow2 (- 149)" "- 148"] by (simp add: unit_exp_def)
    from round_rat_exact [OF this] show ?thesis
      using pow2_less_iff [of "- 149" 128] by (simp add: round32_def round_fmt_def Let_def not_le less_trans [of "- pow2 128" 0])
  qed
  show ?thesis
  proof (cases "round32 q")
    case (Fin f)
    have f0: "0 \<le> f" using b32.rnd_nonneg [of q] assms Fin by simp
    have fx: "round32 f = Fin f" by (rule b32.rnd_idem [OF Fin])
    show ?thesis
    proof (cases "f < q")
      case True
      have "q \<le> v" if v: "next32_up f = Fin v" for v
      proof (rule ccontr)
        assume "\<not> q \<le> v"
        moreover have "round32 v = Fin v \<and> f < v"
          using v f0 low above32_exact [OF fx] by (auto simp: next32_up_def above32_def Let_def split: if_splits)
        ultimately show False using b32.rnd_ge [of v q] Fin by simp
      qed
      then show ?thesis using Fin True False by (auto simp: next32_up_def Let_def)
    qed (use Fin False in simp)
  next
    case NInf
    then show ?thesis using b32.rnd_nonneg [of q] assms by simp
  qed (use False in simp_all)
qed simp

text \<open>A request left waiting asks again after twenty milliseconds to half a second.\<close>

lemma wait_for_bounds: "20000000 \<le> sint (wait_for l s next req now) \<and> sint (wait_for l s next req now) \<le> 500000000"
  by (simp add: wait_for_def Let_def shortest_wait_def longest_wait_def)

text \<open>
  \<open>acquire\<close> returns as soon as an ask is decided, its context ends or an ask fails, and what it returns is
  the first such answer.
\<close>

lemma acquire_from_first:
  assumes "\<And>k. k < m \<Longrightarrow> (\<exists>w. ask (n + k) = Inr (LeaseWaiting, w)) \<and> \<not> ended (n + k)"
  shows "acquire_from ask ended n = acquire_from ask ended (n + m)"
  using assms
proof (induction m arbitrary: n)
  case (Suc m)
  from Suc.prems [of 0] obtain w where "ask n = Inr (LeaseWaiting, w)" "\<not> ended n" by auto
  then have "acquire_from ask ended n = acquire_from ask ended (Suc n)" by (subst acquire_from.simps) simp
  also have "\<dots> = acquire_from ask ended (Suc n + m)" by (rule Suc.IH) (use Suc.prems [of "Suc k" for k] in simp)
  finally show ?case by simp
qed simp

lemma acquire_from_granted:
  assumes "\<And>k. k < m \<Longrightarrow> (\<exists>w. ask k = Inr (LeaseWaiting, w)) \<and> \<not> ended k"
    and "ask m = Inr (LeaseGranted lease, w)"
  shows "acquire_from ask ended 0 = Some (Inr lease)"
  using acquire_from_first [of m ask 0 ended] assms by (simp add: acquire_from.simps [of ask ended m])

end
