(* ===== verification/Scheduler.thy ===== *)
theory Scheduler
  imports Prelude
begin

text \<open>
  \<open>worker/internal/schedule\<close>: the worker's scheduler. The first half is one job's loop, from an ask to
  the ask after its run, over instants in nanoseconds; the second half is the scheduler, whose jobs are
  ensured, removed, woken and stopped while their loops wait, take slots and run, as a step relation. What
  a loop's \<open>select\<close> picks, when a run ends and how are not determined. The observer, which is told what
  happens for the worker's series, is left out. The lemmas show that a key never has two loops at work, that
  a limit bounds the runs that hold it, and when a job is asked again.
\<close>

subsection \<open>Backoff\<close>

record backoff =
  bo_base :: int64
  bo_max :: int64

text \<open>The loop of \<open>after\<close>, with the count from which it starts.\<close>

fun backoff_loop :: "nat \<Rightarrow> int64 \<Rightarrow> int64 \<Rightarrow> int64" where
  "backoff_loop 0 d most = d"
| "backoff_loop (Suc n) d most = (if sint d < sint most then backoff_loop n (d * 2) most else d)"

definition backoff_after :: "backoff \<Rightarrow> nat \<Rightarrow> int64" where
  "backoff_after b failures = min64 (backoff_loop (failures - 1) (bo_base b) (bo_max b)) (bo_max b)"

subsection \<open>One job's loop\<close>

record job =
  jb_interval :: int
  jb_limit :: "nat option"
  jb_backoff :: backoff

datatype run_outcome = RunSucceeded | RunFailed | RunPanicked | RunNotDue | RunCancelled

text \<open>What a run is asked with: the instant, and the ticker's instant at or before it, for a job with an interval.\<close>

record ask =
  ak_at :: int
  ak_phase :: "int option"

record job_loop =
  jl_anchor :: int
  jl_point :: int
  jl_due :: int
  jl_timed :: bool
  jl_failures :: nat
  jl_backing_off :: bool

definition new_loop :: "int \<Rightarrow> job_loop" where
  "new_loop now = \<lparr>jl_anchor = now, jl_point = now, jl_due = now, jl_timed = True, jl_failures = 0, jl_backing_off = False\<rparr>"

text \<open>What the \<open>select\<close> took: the timer, or a wake.\<close>

datatype asked_by = ByTimer | ByWake

definition can_ask :: "job_loop \<Rightarrow> asked_by \<Rightarrow> bool \<Rightarrow> int \<Rightarrow> bool" where
  "can_ask st by_what woken now \<longleftrightarrow>
     (case by_what of ByTimer \<Rightarrow> jl_timed st \<and> jl_due st \<le> now | ByWake \<Rightarrow> woken \<and> \<not> jl_backing_off st)"

definition phase_at :: "job \<Rightarrow> job_loop \<Rightarrow> int \<Rightarrow> int" where
  "phase_at j st t = jl_anchor st + (t - jl_anchor st) div jb_interval j * jb_interval j"

definition begin_run :: "job \<Rightarrow> job_loop \<Rightarrow> asked_by \<Rightarrow> int \<Rightarrow> job_loop \<times> ask" where
  "begin_run j st by_what now =
     (let (at_now, phase) = (case by_what of ByTimer \<Rightarrow> (jl_due st, \<not> jl_backing_off st) | ByWake \<Rightarrow> (now, False));
          point = (if phase \<and> 0 < jb_interval j then phase_at j st now else jl_point st)
      in (st\<lparr>jl_backing_off := False, jl_point := point\<rparr>,
          \<lparr>ak_at = at_now, ak_phase = (if 0 < jb_interval j then Some (phase_at j st at_now) else None)\<rparr>))"

definition wait_on :: "job \<Rightarrow> job_loop \<Rightarrow> job_loop" where
  "wait_on j st = st\<lparr>jl_due := jl_point st + jb_interval j, jl_timed := 0 < jb_interval j\<rparr>"

text \<open>The loop after a run, or none when it ended.\<close>

definition end_run :: "job \<Rightarrow> job_loop \<Rightarrow> run_outcome \<Rightarrow> int \<Rightarrow> job_loop option" where
  "end_run j st outcome now =
     (case outcome of
        RunCancelled \<Rightarrow> None
      | RunSucceeded \<Rightarrow> Some (wait_on j (st\<lparr>jl_failures := 0\<rparr>))
      | RunNotDue \<Rightarrow> Some (wait_on j st)
      | _ \<Rightarrow> (let failures = Suc (jl_failures st) in
          Some (st\<lparr>jl_failures := failures, jl_backing_off := True, jl_timed := True,
            jl_due := now + sint (backoff_after (jb_backoff j) failures)\<rparr>)))"

text \<open>How a run ended, from whether its context ended, whether it panicked, and its error.\<close>

datatype run_error = NoError | NotDueError | PanicError | OtherError

definition run_outcome_of :: "bool \<Rightarrow> bool \<Rightarrow> run_error \<Rightarrow> run_outcome" where
  "run_outcome_of cancelled panicked err =
     (if cancelled then RunCancelled
      else if panicked \<or> err = PanicError then RunPanicked
      else if err = NotDueError then RunNotDue
      else if err \<noteq> NoError then RunFailed
      else RunSucceeded)"

subsection \<open>The scheduler\<close>

type_synonym job_key = "string \<times> string"

text \<open>
  A loop of a key: it first waits for the key's removed loop, then it selects, waits for a slot of its
  limit, and runs; it is done when it has returned.
\<close>

datatype loop_status = Blocked nat | Selecting | WaitingSlot ask | Running ask | Done

record loop_state =
  lo_key :: job_key
  lo_job :: job
  lo_status :: loop_status
  lo_core :: job_loop
  lo_woken :: bool
  lo_cancelled :: bool

text \<open>
  The scheduler holds a key's current loop and whether it is being removed. A loop is named by the
  number of the ensure that made it.
\<close>

record scheduler =
  sc_loops :: "loop_state list"
  sc_jobs :: "job_key \<rightharpoonup> nat \<times> bool"
  sc_stopped :: bool

definition new_scheduler :: scheduler where
  "new_scheduler = \<lparr>sc_loops = [], sc_jobs = Map.empty, sc_stopped = False\<rparr>"

definition new_loop_state :: "job_key \<Rightarrow> job \<Rightarrow> loop_status \<Rightarrow> int \<Rightarrow> loop_state" where
  "new_loop_state k j status now = \<lparr>lo_key = k, lo_job = j, lo_status = status, lo_core = new_loop now,
     lo_woken = False, lo_cancelled = False\<rparr>"

definition ensure_job :: "scheduler \<Rightarrow> job_key \<Rightarrow> job \<Rightarrow> int \<Rightarrow> scheduler" where
  "ensure_job s k j now =
     (if sc_stopped s then s
      else case sc_jobs s k of
          Some (i, False) \<Rightarrow> s
        | previous \<Rightarrow>
            (let status = (case previous of None \<Rightarrow> Selecting | Some (i, _) \<Rightarrow> Blocked i)
             in s\<lparr>sc_loops := sc_loops s @ [new_loop_state k j status now],
                  sc_jobs := (sc_jobs s)(k \<mapsto> (length (sc_loops s), False))\<rparr>))"

definition upd_loop :: "scheduler \<Rightarrow> nat \<Rightarrow> (loop_state \<Rightarrow> loop_state) \<Rightarrow> scheduler" where
  "upd_loop s i f = s\<lparr>sc_loops := (sc_loops s)[i := f (sc_loops s ! i)]\<rparr>"

text \<open>\<open>Remove\<close> up to its wait, and after it.\<close>

definition remove_start :: "scheduler \<Rightarrow> job_key \<Rightarrow> scheduler" where
  "remove_start s k =
     (case sc_jobs s k of
        None \<Rightarrow> s
      | Some (i, _) \<Rightarrow> (upd_loop s i (\<lambda>x. x\<lparr>lo_cancelled := True\<rparr>))\<lparr>sc_jobs := (sc_jobs s)(k \<mapsto> (i, True))\<rparr>)"

definition remove_end :: "scheduler \<Rightarrow> job_key \<Rightarrow> nat \<Rightarrow> scheduler" where
  "remove_end s k i =
     (case sc_jobs s k of
        Some (i', _) \<Rightarrow> if i' = i then s\<lparr>sc_jobs := (sc_jobs s)(k := None)\<rparr> else s
      | None \<Rightarrow> s)"

definition wake_job :: "scheduler \<Rightarrow> job_key \<Rightarrow> scheduler" where
  "wake_job s k =
     (case sc_jobs s k of
        Some (i, False) \<Rightarrow> upd_loop s i (\<lambda>x. x\<lparr>lo_woken := True\<rparr>)
      | _ \<Rightarrow> s)"

definition stop_all :: "scheduler \<Rightarrow> scheduler" where
  "stop_all s = s\<lparr>sc_loops := map (\<lambda>x. x\<lparr>lo_cancelled := True\<rparr>) (sc_loops s), sc_stopped := True\<rparr>"

definition holds_slot :: "nat \<Rightarrow> loop_state \<Rightarrow> bool" where
  "holds_slot m x \<longleftrightarrow> jb_limit (lo_job x) = Some m \<and> (case lo_status x of Running _ \<Rightarrow> True | _ \<Rightarrow> False)"

definition slots_held :: "scheduler \<Rightarrow> nat \<Rightarrow> nat" where
  "slots_held s m = length (filter (holds_slot m) (sc_loops s))"

text \<open>\<open>NewLimit\<close>: a limit is at least one run.\<close>

definition limit_size :: "(nat \<Rightarrow> int) \<Rightarrow> nat \<Rightarrow> nat" where
  "limit_size limits m = nat (max (limits m) 1)"

text \<open>Whether a run may start now: a job under a limit needs a free slot.\<close>

definition slot_free :: "(nat \<Rightarrow> int) \<Rightarrow> scheduler \<Rightarrow> job \<Rightarrow> bool" where
  "slot_free limits s j =
     (case jb_limit j of None \<Rightarrow> True | Some m \<Rightarrow> slots_held s m < limit_size limits m)"

inductive sched_step :: "(nat \<Rightarrow> int) \<Rightarrow> scheduler \<Rightarrow> scheduler \<Rightarrow> bool" for limits where
  step_ensure: "sched_step limits s (ensure_job s k j now)"
| step_remove: "sched_step limits s (remove_start s k)"
| step_removed: "i < length (sc_loops s) \<Longrightarrow> lo_key (sc_loops s ! i) = k \<Longrightarrow> lo_status (sc_loops s ! i) = Done \<Longrightarrow>
    sc_jobs s k \<noteq> Some (i, False) \<Longrightarrow> sched_step limits s (remove_end s k i)"
| step_wake: "sched_step limits s (wake_job s k)"
| step_stop: "sched_step limits s (stop_all s)"
| step_unblock: "i < length (sc_loops s) \<Longrightarrow> lo_status (sc_loops s ! i) = Blocked p \<Longrightarrow>
    lo_status (sc_loops s ! p) = Done \<Longrightarrow>
    sched_step limits s (upd_loop s i (\<lambda>x. x\<lparr>lo_status := Selecting, lo_core := new_loop now\<rparr>))"
| step_return: "i < length (sc_loops s) \<Longrightarrow> lo_status (sc_loops s ! i) = Selecting \<or>
      (\<exists>a. lo_status (sc_loops s ! i) = WaitingSlot a \<and> jb_limit (lo_job (sc_loops s ! i)) \<noteq> None) \<Longrightarrow>
    lo_cancelled (sc_loops s ! i) \<Longrightarrow> sched_step limits s (upd_loop s i (\<lambda>x. x\<lparr>lo_status := Done\<rparr>))"
| step_ask: "i < length (sc_loops s) \<Longrightarrow> lo_status (sc_loops s ! i) = Selecting \<Longrightarrow>
    can_ask (lo_core (sc_loops s ! i)) by_what (lo_woken (sc_loops s ! i)) now \<Longrightarrow>
    begin_run (lo_job (sc_loops s ! i)) (lo_core (sc_loops s ! i)) by_what now = (core, a) \<Longrightarrow>
    sched_step limits s (upd_loop s i (\<lambda>x. x\<lparr>lo_status := WaitingSlot a, lo_core := core, lo_woken := False\<rparr>))"
| step_take: "i < length (sc_loops s) \<Longrightarrow> lo_status (sc_loops s ! i) = WaitingSlot a \<Longrightarrow>
    slot_free limits s (lo_job (sc_loops s ! i)) \<Longrightarrow>
    sched_step limits s (upd_loop s i (\<lambda>x. x\<lparr>lo_status := Running a\<rparr>))"
| step_finish: "i < length (sc_loops s) \<Longrightarrow> lo_status (sc_loops s ! i) = Running a \<Longrightarrow>
    outcome = run_outcome_of (lo_cancelled (sc_loops s ! i)) panicked err \<Longrightarrow>
    sched_step limits s (upd_loop s i (\<lambda>x. case end_run (lo_job x) (lo_core x) outcome now of
        None \<Rightarrow> x\<lparr>lo_status := Done\<rparr> | Some core \<Rightarrow> x\<lparr>lo_status := Selecting, lo_core := core\<rparr>))"

inductive sched_reachable :: "(nat \<Rightarrow> int) \<Rightarrow> scheduler \<Rightarrow> bool" for limits where
  reachable_new: "sched_reachable limits new_scheduler"
| reachable_step: "sched_reachable limits s \<Longrightarrow> sched_step limits s s' \<Longrightarrow> sched_reachable limits s'"

subsection \<open>One loop of a key at work, and no more runs than a limit\<close>

definition at_work :: "loop_state \<Rightarrow> bool" where
  "at_work x \<longleftrightarrow> (case lo_status x of Blocked _ \<Rightarrow> False | Done \<Rightarrow> False | _ \<Rightarrow> True)"

definition waits_for :: "scheduler \<Rightarrow> nat \<Rightarrow> nat \<Rightarrow> bool" where
  "waits_for s i j \<longleftrightarrow> (\<exists>p. lo_status (sc_loops s ! j) = Blocked p \<and> i \<le> p \<and> p < j)"

definition loops_ok :: "scheduler \<Rightarrow> bool" where
  "loops_ok s \<longleftrightarrow>
     (\<forall>i j. i < j \<and> j < length (sc_loops s) \<and> lo_key (sc_loops s ! i) = lo_key (sc_loops s ! j) \<and>
        lo_status (sc_loops s ! i) \<noteq> Done \<longrightarrow> waits_for s i j) \<and>
     (\<forall>j p. j < length (sc_loops s) \<and> lo_status (sc_loops s ! j) = Blocked p \<longrightarrow>
        p < j \<and> lo_key (sc_loops s ! p) = lo_key (sc_loops s ! j))"

definition jobs_ok :: "scheduler \<Rightarrow> bool" where
  "jobs_ok s \<longleftrightarrow>
     (\<forall>k i r. sc_jobs s k = Some (i, r) \<longrightarrow> i < length (sc_loops s) \<and> lo_key (sc_loops s ! i) = k \<and>
        (\<forall>j < length (sc_loops s). lo_key (sc_loops s ! j) = k \<longrightarrow> j \<le> i)) \<and>
     (\<forall>k j. sc_jobs s k = None \<and> j < length (sc_loops s) \<and> lo_key (sc_loops s ! j) = k \<longrightarrow> lo_status (sc_loops s ! j) = Done)"

definition slots_ok :: "(nat \<Rightarrow> int) \<Rightarrow> scheduler \<Rightarrow> bool" where
  "slots_ok limits s \<longleftrightarrow> (\<forall>m. slots_held s m \<le> limit_size limits m)"

lemma length_filter_update:
  assumes "i < length xs"
  shows "length (filter P (xs[i := x])) + (if P (xs ! i) then 1 else 0) = length (filter P xs) + (if P x then 1 else 0)"
proof -
  have "length (filter P xs) = length (filter P (take i xs @ xs ! i # drop (Suc i) xs))"
    using assms by (simp only: id_take_nth_drop [symmetric])
  then show ?thesis using assms by (simp add: upd_conv_take_nth_drop)
qed

lemma jobs_okD:
  assumes "jobs_ok s"
  shows "sc_jobs s k = Some (i, r) \<Longrightarrow> i < length (sc_loops s)"
    and "sc_jobs s k = Some (i, r) \<Longrightarrow> lo_key (sc_loops s ! i) = k"
    and "sc_jobs s k = Some (i, r) \<Longrightarrow> j < length (sc_loops s) \<Longrightarrow> lo_key (sc_loops s ! j) = k \<Longrightarrow> j \<le> i"
    and "sc_jobs s k = None \<Longrightarrow> j < length (sc_loops s) \<Longrightarrow> lo_key (sc_loops s ! j) = k \<Longrightarrow> lo_status (sc_loops s ! j) = Done"
  using assms unfolding jobs_ok_def by blast+

text \<open>A loop that works on, or returns.\<close>

lemma upd_loops_ok:
  assumes ok: "loops_ok s" "jobs_ok s" "slots_ok limits s" and i: "i < length (sc_loops s)"
    and keep: "lo_key (f (sc_loops s ! i)) = lo_key (sc_loops s ! i)" "lo_job (f (sc_loops s ! i)) = lo_job (sc_loops s ! i)"
    and live: "lo_status (sc_loops s ! i) \<noteq> Done" "\<And>p. lo_status (f (sc_loops s ! i)) \<noteq> Blocked p"
    and free: "\<And>p. lo_status (sc_loops s ! i) = Blocked p \<Longrightarrow> lo_status (sc_loops s ! p) = Done"
    and slot: "\<And>m. holds_slot m (f (sc_loops s ! i)) \<Longrightarrow> \<not> holds_slot m (sc_loops s ! i) \<Longrightarrow> slots_held s m < limit_size limits m"
  shows "loops_ok (upd_loop s i f) \<and> jobs_ok (upd_loop s i f) \<and> slots_ok limits (upd_loop s i f)"
proof (intro conjI)
  let ?s = "upd_loop s i f"
  have st: "sc_loops ?s = (sc_loops s)[i := f (sc_loops s ! i)]" "sc_jobs ?s = sc_jobs s"
    by (simp_all add: upd_loop_def)
  have key: "lo_key (sc_loops ?s ! j) = lo_key (sc_loops s ! j)" for j
    using i keep(1) by (cases "j = i") (simp_all add: st)
  have gone: "lo_status (sc_loops ?s ! j) \<noteq> Done \<Longrightarrow> lo_status (sc_loops s ! j) \<noteq> Done" for j
    using i live(1) by (cases "j = i") (simp_all add: st)
  have blocked: "lo_status (sc_loops ?s ! j) = Blocked p \<longleftrightarrow> j \<noteq> i \<and> lo_status (sc_loops s ! j) = Blocked p" for j p
    using i live(2) by (cases "j = i") (simp_all add: st)
  have len: "length (sc_loops ?s) = length (sc_loops s)" by (simp add: st(1))
  show "jobs_ok ?s"
    using ok(2) gone unfolding jobs_ok_def key st(2) len by blast
  show "slots_ok limits ?s"
  proof -
    have "slots_held ?s m \<le> limit_size limits m" for m
    proof -
      have "slots_held ?s m + (if holds_slot m (sc_loops s ! i) then 1 else 0) =
          slots_held s m + (if holds_slot m (f (sc_loops s ! i)) then 1 else 0)"
        unfolding slots_held_def st(1) by (rule length_filter_update [OF i])
      moreover have "slots_held s m \<le> limit_size limits m" using ok(3) by (simp add: slots_ok_def)
      ultimately show ?thesis using slot [of m] by (simp split: if_splits)
    qed
    then show ?thesis by (simp add: slots_ok_def)
  qed
  have waits: "waits_for ?s a b" if "waits_for s a b" "b \<noteq> i" for a b
    using that blocked unfolding waits_for_def by blast
  have none_before: "lo_status (sc_loops s ! a) = Done" if "a < i" "lo_key (sc_loops s ! a) = lo_key (sc_loops s ! i)" for a
  proof (rule ccontr)
    assume na: "lo_status (sc_loops s ! a) \<noteq> Done"
    then have "waits_for s a i" using ok(1) that i unfolding loops_ok_def by blast
    then obtain p where p: "lo_status (sc_loops s ! i) = Blocked p" "a \<le> p" "p < i" unfolding waits_for_def by blast
    then have d: "lo_status (sc_loops s ! p) = Done" by (intro free)
    have "lo_key (sc_loops s ! p) = lo_key (sc_loops s ! i)" using ok(1) p(1) i unfolding loops_ok_def by blast
    moreover have "a \<noteq> p" using d na by blast
    ultimately have "waits_for s a p" using ok(1) p(2,3) i that(2) na unfolding loops_ok_def
      by (metis le_neq_implies_less less_trans)
    then show False using d unfolding waits_for_def by simp
  qed
  show "loops_ok ?s"
    unfolding loops_ok_def
  proof (intro conjI allI impI)
    fix a b
    assume ab: "a < b \<and> b < length (sc_loops ?s) \<and> lo_key (sc_loops ?s ! a) = lo_key (sc_loops ?s ! b) \<and>
      lo_status (sc_loops ?s ! a) \<noteq> Done"
    then have "lo_status (sc_loops s ! a) \<noteq> Done" using gone by blast
    then have "b \<noteq> i" using none_before ab by (metis key)
    moreover have "waits_for s a b" using ok(1) ab gone unfolding loops_ok_def key len by blast
    ultimately show "waits_for ?s a b" by (rule waits [rotated])
  next
    fix b p
    assume "b < length (sc_loops ?s) \<and> lo_status (sc_loops ?s ! b) = Blocked p"
    then show "p < b" "lo_key (sc_loops ?s ! p) = lo_key (sc_loops ?s ! b)"
      using ok(1) unfolding loops_ok_def key len blocked by blast+
  qed
qed

text \<open>What changes no loop's status, key or job changes none of it.\<close>

definition same_loops :: "scheduler \<Rightarrow> scheduler \<Rightarrow> bool" where
  "same_loops s s' \<longleftrightarrow> length (sc_loops s') = length (sc_loops s) \<and>
     (\<forall>i < length (sc_loops s). lo_key (sc_loops s' ! i) = lo_key (sc_loops s ! i) \<and>
        lo_status (sc_loops s' ! i) = lo_status (sc_loops s ! i) \<and> lo_job (sc_loops s' ! i) = lo_job (sc_loops s ! i))"

lemma same_loops_ok:
  assumes "same_loops s s'"
  shows "loops_ok s \<Longrightarrow> loops_ok s'" "slots_ok limits s \<Longrightarrow> slots_ok limits s'"
    "sc_jobs s' = sc_jobs s \<Longrightarrow> jobs_ok s \<Longrightarrow> jobs_ok s'"
proof -
  have len: "length (sc_loops s') = length (sc_loops s)" using assms by (simp add: same_loops_def)
  have nth: "lo_key (sc_loops s' ! i) = lo_key (sc_loops s ! i)" "lo_status (sc_loops s' ! i) = lo_status (sc_loops s ! i)"
    if "i < length (sc_loops s)" for i
    using assms that by (simp_all add: same_loops_def)
  have count: "length (filter P xs) = length (filter id (map P xs))" for P and xs :: "loop_state list"
    by (induction xs) auto
  have marks: "map (holds_slot m) (sc_loops s') = map (holds_slot m) (sc_loops s)" for m
    using assms by (intro nth_equalityI) (simp_all add: same_loops_def holds_slot_def)
  have "slots_held s' m = slots_held s m" for m
    unfolding slots_held_def count [of "holds_slot m"] marks by simp
  then show "slots_ok limits s \<Longrightarrow> slots_ok limits s'" by (simp add: slots_ok_def)
  show "jobs_ok s'" if "sc_jobs s' = sc_jobs s" "jobs_ok s"
    unfolding jobs_ok_def len that(1)
  proof (intro conjI allI impI)
    fix k i r
    assume "sc_jobs s k = Some (i, r)"
    then have "i < length (sc_loops s) \<and> lo_key (sc_loops s ! i) = k \<and>
        (\<forall>j < length (sc_loops s). lo_key (sc_loops s ! j) = k \<longrightarrow> j \<le> i)"
      using that(2) unfolding jobs_ok_def by blast
    then show "i < length (sc_loops s)" "lo_key (sc_loops s' ! i) = k"
      "\<And>j. j < length (sc_loops s) \<Longrightarrow> lo_key (sc_loops s' ! j) = k \<Longrightarrow> j \<le> i"
      using nth(1) by auto
  next
    fix k j
    assume a: "sc_jobs s k = None \<and> j < length (sc_loops s) \<and> lo_key (sc_loops s' ! j) = k"
    then have "lo_key (sc_loops s ! j) = k" using nth(1) [of j] by simp
    then have "lo_status (sc_loops s ! j) = Done" using that(2) a unfolding jobs_ok_def by blast
    then show "lo_status (sc_loops s' ! j) = Done" using nth(2) [of j] a by simp
  qed
  show "loops_ok s'" if ok: "loops_ok s"
    unfolding loops_ok_def
  proof (intro conjI allI impI)
    fix a b
    assume "a < b \<and> b < length (sc_loops s') \<and> lo_key (sc_loops s' ! a) = lo_key (sc_loops s' ! b) \<and>
      lo_status (sc_loops s' ! a) \<noteq> Done"
    then have "waits_for s a b" and "b < length (sc_loops s)" using ok nth len unfolding loops_ok_def by auto
    then show "waits_for s' a b" using nth(2) by (simp add: waits_for_def)
  next
    fix b p
    assume "b < length (sc_loops s') \<and> lo_status (sc_loops s' ! b) = Blocked p"
    then show "p < b" "lo_key (sc_loops s' ! p) = lo_key (sc_loops s' ! b)"
      using ok nth len unfolding loops_ok_def by (metis order.strict_trans)+
  qed
qed

lemma same_loops_upd:
  assumes "i < length (sc_loops s)" "\<And>x. lo_key (f x) = lo_key x \<and> lo_status (f x) = lo_status x \<and> lo_job (f x) = lo_job x"
  shows "same_loops s (upd_loop s i f)"
  using assms by (auto simp: same_loops_def upd_loop_def nth_list_update)

text \<open>A job ensured: its loop waits for the key's removed one, or the key had none at work.\<close>

lemma new_loop_ok:
  assumes ok: "loops_ok s" "jobs_ok s" "slots_ok limits s"
    and status: "status = (case sc_jobs s k of None \<Rightarrow> Selecting | Some (i, _) \<Rightarrow> Blocked i)"
    and s': "s' = s\<lparr>sc_loops := sc_loops s @ [new_loop_state k j status now], sc_jobs := (sc_jobs s)(k \<mapsto> (length (sc_loops s), False))\<rparr>"
  shows "loops_ok s' \<and> jobs_ok s' \<and> slots_ok limits s'"
proof (intro conjI)
  let ?n = "length (sc_loops s)"
  have old: "sc_loops s' ! i = sc_loops s ! i" if "i < ?n" for i using that by (simp add: s' nth_append)
  have new: "lo_key (sc_loops s' ! ?n) = k" "lo_status (sc_loops s' ! ?n) = status" by (simp_all add: s' new_loop_state_def)
  have len: "length (sc_loops s') = Suc ?n" by (simp add: s')
  have current: "p < ?n \<and> lo_key (sc_loops s ! p) = k \<and> (\<forall>a < ?n. lo_key (sc_loops s ! a) = k \<longrightarrow> a \<le> p)"
    if blocked: "status = Blocked p" for p
  proof -
    obtain r where "sc_jobs s k = Some (p, r)" using blocked unfolding status by (cases "sc_jobs s k") auto
    then show ?thesis using ok(2) unfolding jobs_ok_def by blast
  qed
  have absent: "lo_status (sc_loops s ! a) = Done" if "\<nexists>p. status = Blocked p" "a < ?n" "lo_key (sc_loops s ! a) = k" for a
  proof -
    have "sc_jobs s k = None" using that(1) unfolding status by (cases "sc_jobs s k") auto
    then show ?thesis using that(2,3) ok(2) unfolding jobs_ok_def by blast
  qed
  show "slots_ok limits s'"
  proof -
    have "\<not> holds_slot m (new_loop_state k j status now)" for m
      by (simp add: holds_slot_def new_loop_state_def status split: option.split)
    then show ?thesis using ok(3) by (simp add: slots_ok_def slots_held_def s')
  qed
  show "jobs_ok s'"
    unfolding jobs_ok_def
  proof (intro conjI allI impI)
    fix k' i r
    assume e: "sc_jobs s' k' = Some (i, r)"
    have "i < length (sc_loops s') \<and> lo_key (sc_loops s' ! i) = k' \<and>
        (\<forall>a < length (sc_loops s'). lo_key (sc_loops s' ! a) = k' \<longrightarrow> a \<le> i)"
    proof (cases "k' = k")
      case True
      then have "i = ?n" using e by (simp add: s')
      then show ?thesis using True new(1) len by auto
    next
      case False
      then have js: "sc_jobs s k' = Some (i, r)" using e by (simp add: s')
      note d = jobs_okD(1,2,3) [OF ok(2) js]
      have "a \<le> i" if a: "a < length (sc_loops s')" "lo_key (sc_loops s' ! a) = k'" for a
      proof (cases "a = ?n")
        case True
        then show ?thesis using a(2) new(1) False by simp
      next
        case False
        then have "a < ?n" using a(1) len by simp
        then show ?thesis using d(3) a(2) old [of a] by simp
      qed
      then show ?thesis using d(1,2) old [of i] len by simp
    qed
    then show "i < length (sc_loops s')" "lo_key (sc_loops s' ! i) = k'"
      "\<And>a. a < length (sc_loops s') \<Longrightarrow> lo_key (sc_loops s' ! a) = k' \<Longrightarrow> a \<le> i" by blast+
  next
    fix k' a
    assume "sc_jobs s' k' = None \<and> a < length (sc_loops s') \<and> lo_key (sc_loops s' ! a) = k'"
    then have "k' \<noteq> k" "sc_jobs s k' = None" "a < length (sc_loops s')" "lo_key (sc_loops s' ! a) = k'"
      by (auto simp: s' split: if_splits)
    then have "a < ?n" using new(1) len by (cases "a = ?n") auto
    then show "lo_status (sc_loops s' ! a) = Done"
      using jobs_okD(4) [OF ok(2) \<open>sc_jobs s k' = None\<close>] \<open>lo_key (sc_loops s' ! a) = k'\<close> old by simp
  qed
  show "loops_ok s'"
    unfolding loops_ok_def
  proof (intro conjI allI impI)
    fix a b
    assume ab: "a < b \<and> b < length (sc_loops s') \<and> lo_key (sc_loops s' ! a) = lo_key (sc_loops s' ! b) \<and>
      lo_status (sc_loops s' ! a) \<noteq> Done"
    show "waits_for s' a b"
    proof (cases "b = ?n")
      case True
      then have a: "a < ?n" "lo_key (sc_loops s ! a) = k" "lo_status (sc_loops s ! a) \<noteq> Done" using ab new old by auto
      then obtain p where p: "status = Blocked p" using absent by blast
      with current [OF p] a True new show ?thesis unfolding waits_for_def by blast
    next
      case False
      then have b: "b < ?n" using ab len by simp
      then have "waits_for s a b" using ok(1) ab old [of a] old [of b] unfolding loops_ok_def by auto
      then show ?thesis using old [OF b] by (simp add: waits_for_def)
    qed
  next
    fix b p
    assume b: "b < length (sc_loops s') \<and> lo_status (sc_loops s' ! b) = Blocked p"
    have "p < b \<and> lo_key (sc_loops s' ! p) = lo_key (sc_loops s' ! b)"
    proof (cases "b = ?n")
      case True
      then show ?thesis using current [of p] b new old [of p] by simp
    next
      case False
      then have "b < ?n" using b len by simp
      moreover from this have "lo_status (sc_loops s ! b) = Blocked p" using b old by simp
      ultimately have "p < b \<and> lo_key (sc_loops s ! p) = lo_key (sc_loops s ! b)"
        using ok(1) unfolding loops_ok_def by blast
      then show ?thesis using \<open>b < ?n\<close> old [of p] old [of b] by simp
    qed
    then show "p < b" "lo_key (sc_loops s' ! p) = lo_key (sc_loops s' ! b)" by blast+
  qed
qed

lemma sched_step_ok:
  assumes "sched_step limits s s'" "loops_ok s" "jobs_ok s" "slots_ok limits s"
  shows "loops_ok s' \<and> jobs_ok s' \<and> slots_ok limits s'"
  using assms
proof (cases rule: sched_step.cases)
  case (step_ensure k j now)
  show ?thesis
  proof (cases "sc_stopped s \<or> (\<exists>i. sc_jobs s k = Some (i, False))")
    case True
    then have "s' = s" using step_ensure by (auto simp: ensure_job_def)
    then show ?thesis using assms by simp
  next
    case False
    then have "s' = s\<lparr>sc_loops := sc_loops s @ [new_loop_state k j
        (case sc_jobs s k of None \<Rightarrow> Selecting | Some (i, _) \<Rightarrow> Blocked i) now],
        sc_jobs := (sc_jobs s)(k \<mapsto> (length (sc_loops s), False))\<rparr>"
      using step_ensure by (auto simp: ensure_job_def Let_def split: option.split bool.split)
    from new_loop_ok [OF assms(2,3,4) refl this] show ?thesis .
  qed
next
  case (step_remove k)
  show ?thesis
  proof (cases "sc_jobs s k")
    case None
    then show ?thesis using assms step_remove by (simp add: remove_start_def)
  next
    case (Some ir)
    obtain i r where ir: "sc_jobs s k = Some (i, r)" using Some by (cases ir) simp
    then have i: "i < length (sc_loops s)" using assms(3) unfolding jobs_ok_def by blast
    let ?t = "upd_loop s i (\<lambda>x. x\<lparr>lo_cancelled := True\<rparr>)"
    have same: "same_loops s ?t" by (rule same_loops_upd [OF i]) simp
    have s': "s' = ?t\<lparr>sc_jobs := (sc_jobs s)(k \<mapsto> (i, True))\<rparr>" using step_remove ir by (simp add: remove_start_def)
    then have same': "same_loops s s'" using same by (simp add: same_loops_def)
    have "jobs_ok ?t" using same_loops_ok(3) [OF same] assms(3) by (simp add: upd_loop_def)
    then have "jobs_ok s'" using ir unfolding s' jobs_ok_def
      by (auto simp: upd_loop_def split: if_splits)
    then show ?thesis using same_loops_ok(1,2) [OF same'] assms by simp
  qed
next
  case (step_removed i k)
  show ?thesis
  proof (cases "\<exists>r. sc_jobs s k = Some (i, r)")
    case False
    then have "s' = s" using step_removed by (auto simp: remove_end_def split: option.split)
    then show ?thesis using assms by simp
  next
    case True
    then have s': "s' = s\<lparr>sc_jobs := (sc_jobs s)(k := None)\<rparr>" using step_removed by (auto simp: remove_end_def)
    have "lo_status (sc_loops s ! a) = Done" if a: "a < length (sc_loops s)" "lo_key (sc_loops s ! a) = k" for a
    proof (rule ccontr)
      assume "lo_status (sc_loops s ! a) \<noteq> Done"
      moreover have "a \<le> i" using True assms(3) a unfolding jobs_ok_def by blast
      ultimately have "waits_for s a i"
        using assms(2) step_removed a unfolding loops_ok_def by (metis le_neq_implies_less)
      then show False using step_removed by (simp add: waits_for_def)
    qed
    then have "jobs_ok s'" using assms(3) unfolding jobs_ok_def s' by (auto split: if_splits)
    moreover have "same_loops s s'" by (simp add: s' same_loops_def)
    ultimately show ?thesis using same_loops_ok(1,2) assms by blast
  qed
next
  case (step_wake k)
  show ?thesis
  proof (cases "\<exists>i. sc_jobs s k = Some (i, False)")
    case False
    then have "s' = s" using step_wake by (auto simp: wake_job_def split: option.split bool.split)
    then show ?thesis using assms by simp
  next
    case True
    then obtain i where i: "sc_jobs s k = Some (i, False)" by blast
    then have "i < length (sc_loops s)" using assms(3) unfolding jobs_ok_def by blast
    then have "same_loops s s'" using step_wake i by (auto simp: wake_job_def intro!: same_loops_upd)
    then show ?thesis using same_loops_ok [of s s'] assms step_wake i by (simp add: wake_job_def upd_loop_def)
  qed
next
  case step_stop
  have "same_loops s s'" using step_stop by (simp add: stop_all_def same_loops_def)
  then show ?thesis using same_loops_ok [of s s'] assms step_stop by (simp add: stop_all_def)
next
  case (step_unblock i p now)
  show ?thesis unfolding step_unblock(1)
    by (rule upd_loops_ok [OF assms(2,3,4) step_unblock(2)])
      (use step_unblock in \<open>auto simp: holds_slot_def\<close>)
next
  case (step_return i)
  show ?thesis unfolding step_return(1)
    by (rule upd_loops_ok [OF assms(2,3,4) step_return(2)])
      (use step_return in \<open>auto simp: holds_slot_def\<close>)
next
  case (step_ask i by_what now core a)
  show ?thesis unfolding step_ask(1)
    by (rule upd_loops_ok [OF assms(2,3,4) step_ask(2)])
      (use step_ask in \<open>auto simp: holds_slot_def\<close>)
next
  case (step_take i a)
  show ?thesis unfolding step_take(1)
    by (rule upd_loops_ok [OF assms(2,3,4) step_take(2)])
      (use step_take in \<open>auto simp: holds_slot_def slot_free_def\<close>)
next
  case (step_finish i a outcome panicked err now)
  show ?thesis unfolding step_finish(1)
    by (rule upd_loops_ok [OF assms(2,3,4) step_finish(2)])
      (use step_finish in \<open>auto simp: holds_slot_def split: option.splits\<close>)
qed

lemma sched_reachable_ok:
  "sched_reachable limits s \<Longrightarrow> loops_ok s \<and> jobs_ok s \<and> slots_ok limits s"
proof (induction rule: sched_reachable.induct)
  case reachable_new
  then show ?case by (simp add: new_scheduler_def loops_ok_def jobs_ok_def slots_ok_def slots_held_def)
next
  case (reachable_step s s')
  then show ?case using sched_step_ok by blast
qed

lemma one_at_work:
  assumes "loops_ok s" "i < j" "j < length (sc_loops s)" "lo_key (sc_loops s ! i) = lo_key (sc_loops s ! j)"
    and "at_work (sc_loops s ! i)"
  shows "\<not> at_work (sc_loops s ! j)"
proof -
  have "lo_status (sc_loops s ! i) \<noteq> Done" using assms(5) by (auto simp: at_work_def)
  then have "waits_for s i j" using assms(1-4) unfolding loops_ok_def by blast
  then show ?thesis unfolding waits_for_def at_work_def by auto
qed

lemma no_two_length:
  assumes "\<And>i j. i < j \<Longrightarrow> j < length xs \<Longrightarrow> P (xs ! i) \<Longrightarrow> \<not> P (xs ! j)"
  shows "length (filter P xs) \<le> 1"
  using assms
proof (induction xs)
  case (Cons x xs)
  have "length (filter P xs) \<le> 1" by (rule Cons.IH) (use Cons.prems [of "Suc _" "Suc _"] in auto)
  moreover have "filter P xs = []" if "P x"
    using Cons.prems [of 0 "Suc _"] that by (auto simp: filter_empty_conv in_set_conv_nth)
  ultimately show ?case by auto
qed simp

text \<open>
  C13. However jobs are ensured, removed, woken and stopped while their loops wait, take slots and run, a
  key has at most one loop that selects, waits for a slot or runs, one that has been removed has none, and
  no more runs hold a limit than it allows.
\<close>

theorem one_loop_of_a_key_at_work:
  assumes "sched_reachable limits s"
  shows "length (filter (\<lambda>x. lo_key x = k \<and> at_work x) (sc_loops s)) \<le> 1 \<and>
    (sc_jobs s k = None \<longrightarrow> filter (\<lambda>x. lo_key x = k \<and> at_work x) (sc_loops s) = []) \<and>
    slots_held s m \<le> limit_size limits m"
proof -
  note ok = sched_reachable_ok [OF assms]
  have "length (filter (\<lambda>x. lo_key x = k \<and> at_work x) (sc_loops s)) \<le> 1"
    by (rule no_two_length) (use ok one_at_work in auto)
  moreover have "filter (\<lambda>x. lo_key x = k \<and> at_work x) (sc_loops s) = []" if "sc_jobs s k = None"
    using ok that jobs_okD(4) [of s k] by (auto simp: filter_empty_conv in_set_conv_nth at_work_def)
  ultimately show ?thesis using ok by (simp add: slots_ok_def)
qed

text \<open>A job ensured under a limit of none, which is one, that is asked and takes its slot, and is removed while it runs and ensured again.\<close>

theorem one_loop_of_a_key_at_work_witness:
  "\<exists>s. length (sc_loops s) = 2 \<and> sc_jobs s (''delta_sync'', ''a'') = Some (1, False) \<and> slots_held s 0 = 1 \<and>
    length (filter (\<lambda>x. lo_key x = (''delta_sync'', ''a'') \<and> at_work x) (sc_loops s)) \<le> 1 \<and>
    slots_held s 0 \<le> limit_size (\<lambda>_. 0) 0"
proof -
  let ?k = "(''delta_sync'', ''a'')"
  let ?j = "\<lparr>jb_interval = 5, jb_limit = Some 0, jb_backoff = \<lparr>bo_base = 1, bo_max = 8\<rparr>\<rparr>"
  let ?core = "fst (begin_run ?j (new_loop 100) ByTimer 100)" and ?ask = "snd (begin_run ?j (new_loop 100) ByTimer 100)"
  let ?s1 = "ensure_job new_scheduler ?k ?j 100"
  let ?s2 = "upd_loop ?s1 0 (\<lambda>x. x\<lparr>lo_status := WaitingSlot ?ask, lo_core := ?core, lo_woken := False\<rparr>)"
  let ?s3 = "upd_loop ?s2 0 (\<lambda>x. x\<lparr>lo_status := Running ?ask\<rparr>)"
  let ?s4 = "remove_start ?s3 ?k" and ?s5 = "ensure_job (remove_start ?s3 ?k) ?k ?j 101"
  note d = ensure_job_def new_scheduler_def new_loop_state_def upd_loop_def remove_start_def slot_free_def slots_held_def
    holds_slot_def limit_size_def can_ask_def new_loop_def
  have "sched_reachable (\<lambda>_. 0) ?s1" by (intro reachable_step [OF reachable_new] step_ensure)
  then have "sched_reachable (\<lambda>_. 0) ?s2"
    by (rule reachable_step [OF _ step_ask [where by_what = ByTimer and now = 100]]) (simp_all add: d)
  then have "sched_reachable (\<lambda>_. 0) ?s3"
    by (rule reachable_step [OF _ step_take]) (simp_all add: d)
  then have "sched_reachable (\<lambda>_. 0) ?s4" by (rule reachable_step [OF _ step_remove])
  then have r: "sched_reachable (\<lambda>_. 0) ?s5" by (rule reachable_step [OF _ step_ensure])
  have "length (sc_loops ?s5) = 2 \<and> sc_jobs ?s5 ?k = Some (1, False) \<and> slots_held ?s5 0 = 1" by (simp add: d)
  then show ?thesis using one_loop_of_a_key_at_work [OF r, of ?k 0] by blast
qed

subsection \<open>The backoff\<close>

lemma sint_double:
  "0 \<le> sint (d :: int64) \<Longrightarrow> sint d \<le> 2 ^ 62 - 1 \<Longrightarrow> sint (d * 2) = 2 * sint d"
  using sint_of_int64 [of "2 * sint d"] by (simp add: min_int64_def max_int64_def mult.commute)

lemma backoff_loop_doubles:
  assumes "0 < sint d" "sint most \<le> 2 ^ 62"
  shows "min (sint (backoff_loop n d most)) (sint most) = min (sint d * 2 ^ n) (sint most)"
  using assms(1)
proof (induction n arbitrary: d)
  case (Suc n)
  show ?case
  proof (cases "sint d < sint most")
    case True
    then have "sint (d * 2) = 2 * sint d" using Suc.prems assms(2) by (intro sint_double) auto
    then show ?thesis using Suc.IH [of "d * 2"] Suc.prems True by (simp add: ac_simps)
  next
    case False
    moreover have "sint d * 1 \<le> sint d * 2 ^ Suc n"
      using Suc.prems one_le_power [of "2 :: int" "Suc n"] by (intro mult_left_mono) simp_all
    ultimately show ?thesis by simp
  qed
qed simp

text \<open>
  C14. The backoff after a run that failed or panicked is its base doubled once for each earlier failure in
  a row, up to its maximum, with no overflow for a maximum of up to 146 years; until it ends the job takes
  no wake.
\<close>

theorem failed_run_backs_off:
  assumes "0 < sint (bo_base (jb_backoff j))" "sint (bo_max (jb_backoff j)) \<le> 2 ^ 62"
    and "outcome = RunFailed \<or> outcome = RunPanicked"
  shows "\<exists>st'. end_run j st outcome now = Some st' \<and> jl_failures st' = jl_failures st + 1 \<and>
    jl_due st' = now + min (sint (bo_base (jb_backoff j)) * 2 ^ jl_failures st) (sint (bo_max (jb_backoff j))) \<and>
    (\<forall>by_what woken t. can_ask st' by_what woken t = (by_what = ByTimer \<and> jl_due st' \<le> t))"
proof -
  have "sint (backoff_after (jb_backoff j) (Suc (jl_failures st))) =
      min (sint (bo_base (jb_backoff j)) * 2 ^ jl_failures st) (sint (bo_max (jb_backoff j)))"
    using backoff_loop_doubles [OF assms(1,2)] by (simp add: backoff_after_def)
  then show ?thesis using assms(3) by (auto simp: end_run_def can_ask_def split: asked_by.split)
qed

text \<open>A job that failed three times in a row waits eight seconds, and the sixteen of the next one are capped at ten.\<close>

theorem failed_run_backs_off_witness:
  "\<exists>st'. end_run \<lparr>jb_interval = 5, jb_limit = None, jb_backoff = \<lparr>bo_base = 1000000000, bo_max = 10000000000\<rparr>\<rparr>
      ((new_loop 0)\<lparr>jl_failures := 4\<rparr>) RunPanicked 7 = Some st' \<and> jl_due st' = 10000000007"
  using failed_run_backs_off [of "\<lparr>jb_interval = 5, jb_limit = None, jb_backoff = \<lparr>bo_base = 1000000000, bo_max = 10000000000\<rparr>\<rparr>"
      RunPanicked "(new_loop 0)\<lparr>jl_failures := 4\<rparr>" 7]
  by (auto simp: new_loop_def)

subsection \<open>The phase of the timer\<close>

text \<open>A loop's point is a tick of its timer, and while it does not back off it is asked at the tick after it, or at once when it starts.\<close>

definition on_phase :: "job \<Rightarrow> job_loop \<Rightarrow> bool" where
  "on_phase j st \<longleftrightarrow> jl_anchor st \<le> jl_point st \<and> jb_interval j dvd jl_point st - jl_anchor st \<and>
     (jl_backing_off st \<or> jl_due st = jl_point st + jb_interval j \<or> jl_due st = jl_point st)"

lemma phase_at_tick:
  assumes "0 < jb_interval j"
  shows "phase_at j st t \<le> t" "t < phase_at j st t + jb_interval j" "jb_interval j dvd phase_at j st t - jl_anchor st"
    and "jl_anchor st \<le> t \<Longrightarrow> jl_anchor st \<le> phase_at j st t"
proof -
  have m: "phase_at j st t = t - (t - jl_anchor st) mod jb_interval j"
    using minus_mod_eq_div_mult [of "t - jl_anchor st" "jb_interval j"] by (simp add: phase_at_def)
  show "phase_at j st t \<le> t" "t < phase_at j st t + jb_interval j"
    using m assms pos_mod_sign [of "jb_interval j" "t - jl_anchor st"] pos_mod_bound [of "jb_interval j" "t - jl_anchor st"] by auto
  show "jb_interval j dvd phase_at j st t - jl_anchor st" by (simp add: phase_at_def)
  show "jl_anchor st \<le> phase_at j st t" if "jl_anchor st \<le> t"
    using that assms by (simp add: phase_at_def pos_imp_zdiv_nonneg_iff)
qed

text \<open>
  A job with an interval stays on its phase, whatever its runs do: the ask after a run on the timer comes
  at the first tick after that run was asked, however long it took, so runs that outlast the interval
  are followed by one more and ticks are never made up for one by one.
\<close>

lemma loop_keeps_its_phase:
  assumes "0 < jb_interval j" "on_phase j st" "can_ask st by_what woken now" "jl_anchor st \<le> now"
    and "begin_run j st by_what now = (core, a)" "end_run j core outcome later = Some st'"
  shows "on_phase j st' \<and>
    (by_what = ByTimer \<and> \<not> jl_backing_off st \<and> \<not> jl_backing_off st' \<longrightarrow>
       now < jl_due st' \<and> jl_due st' \<le> now + jb_interval j)"
proof -
  have core: "jl_anchor core = jl_anchor st" "\<not> jl_backing_off core"
    "jl_point core = (if by_what = ByTimer \<and> \<not> jl_backing_off st then phase_at j st now else jl_point st)"
    using assms(1,5) by (cases by_what; auto simp: begin_run_def Let_def)+
  then have point: "jl_anchor st \<le> jl_point core" "jb_interval j dvd jl_point core - jl_anchor st"
    using assms(1,2,4) phase_at_tick(3,4) [OF assms(1), of st now] by (simp_all add: on_phase_def)
  have "jl_anchor st' = jl_anchor st \<and> jl_point st' = jl_point core \<and>
      (\<not> jl_backing_off st' \<longrightarrow> jl_due st' = jl_point core + jb_interval j)"
    using assms(6) core by (cases outcome) (auto simp: end_run_def wait_on_def Let_def)
  then show ?thesis using point core(3) phase_at_tick(1,2) [OF assms(1), where st = st and t = now] by (auto simp: on_phase_def)
qed

end
