(* ===== verification/MailIndex.thy ===== *)
theory MailIndex
  imports Backfill "HOL-Library.Product_Lexorder"
begin

text \<open>
  What an account's rows hold for backfill, and the statements of \<open>db/messages/scan\<close>, \<open>db/messages/ingest\<close>,
  \<open>db/maskingevents/record\<close>, \<open>db/scangatedecisions/record\<close>, \<open>db/senders/statistics\<close>, \<open>db/jobruns/record\<close> and
  \<open>db/accountstate\<close> both passes run, as functions of those rows. A statement that reports how many rows it
  changed returns the number. Columns neither pass reads are left out. Identifiers and domains compare by
  their bytes, and \<open>started_at\<close> orders runs as they were inserted.
\<close>

subsection \<open>Rows\<close>

definition int32_of :: "int64 \<Rightarrow> 32 word" where
  "int32_of n = ucast (min64 n 2147483647)"

text \<open>\<open>version\<close> of both passes.\<close>

definition stored_version :: "int64 \<Rightarrow> 32 word" where
  "stored_version v = ucast (min64 (max64 v 0) 2147483647)"

definition big_int :: "32 word \<Rightarrow> int64" where
  "big_int x = scast x"

record message_row =
  sm_id :: string
  sm_from :: string
  sm_domain :: string
  sm_subject :: "string option"
  sm_subject_masked :: bool
  sm_subject_version :: "32 word option"
  sm_subject_revision :: "string option"
  sm_sent_at :: unix_milli
  sm_list_id :: "string option"
  sm_size :: "32 word option"
  sm_state :: scan_state
  sm_flags :: "string list"
  sm_rules :: "string list"
  sm_version :: "32 word option"
  sm_revision :: "string option"
  sm_bound :: "32 word option"
  sm_labels :: "string list"
  sm_mail_flags :: mail_flags

text \<open>The two checks of the table on a row's scan.\<close>

definition row_checks :: "message_row \<Rightarrow> bool" where
  "row_checks m \<longleftrightarrow> (sm_state m = Refused \<longleftrightarrow> sm_bound m \<noteq> None) \<and> (sm_flags m = [] \<or> sm_state m = Scanned)"

record sender_row =
  se_count :: int64
  se_hits :: int64

record masking_row =
  mk_id :: string
  mk_rule :: string
  mk_tier :: nat
  mk_version :: "32 word"
  mk_revision :: string

record 'p run_row =
  ru_id :: string
  ru_state :: string
  ru_resumed_from :: string
  ru_progress :: 'p
  ru_error :: string

record run_event =
  ev_run :: string
  ev_kind :: string
  ev_page :: "32 word option"
  ev_detail :: string

record failure_row =
  fr_run :: string
  fr_kind :: string
  fr_item :: string
  fr_page :: "32 word option"
  fr_class :: string
  fr_summary :: string
  fr_attempts :: "32 word"
  fr_first :: unix_milli
  fr_last :: unix_milli
  fr_disposition :: string

text \<open>An account's rows, with each pass's runs, the latest first.\<close>

record mail_index =
  mi_messages :: "message_row list"
  mi_senders :: "string \<rightharpoonup> sender_row"
  mi_decisions :: "string \<rightharpoonup> string \<times> string"
  mi_maskings :: "masking_row list"
  mi_first_ended :: bool
  mi_second_ended :: bool
  mi_restart :: bool
  mi_runs1 :: "progress run_row list"
  mi_runs2 :: "progress2 run_row list"
  mi_events :: "run_event list"
  mi_failures :: "failure_row list"

subsection \<open>Runs\<close>

definition run_state_named :: "string \<Rightarrow> run_state option" where
  "run_state_named name =
     (if name = ''running'' then Some RunRunning
      else if name = ''succeeded'' then Some RunSucceeded
      else if name = ''failed'' then Some RunFailed
      else None)"

text \<open>\<open>LatestRun\<close> with \<open>Latest\<close>'s fields; None is a state no run has.\<close>

definition latest_run_of :: "'p \<Rightarrow> 'p run_row list \<Rightarrow> 'p latest_run option" where
  "latest_run_of z runs =
     (case runs of
        [] \<Rightarrow> Some \<lparr>lr_found = False, lr_run_id = [], lr_state = NoRunState, lr_progress = z\<rparr>
      | r # _ \<Rightarrow> map_option (\<lambda>st. \<lparr>lr_found = True, lr_run_id = ru_id r, lr_state = st, lr_progress = ru_progress r\<rparr>)
                  (run_state_named (ru_state r)))"

definition end_run_row :: "string \<Rightarrow> string \<Rightarrow> string \<Rightarrow> 'p run_row list \<Rightarrow> 'p run_row list" where
  "end_run_row run st err = map (\<lambda>r. if ru_id r = run \<and> ru_state r = ''running''
     then r\<lparr>ru_state := st, ru_error := err\<rparr> else r)"

definition progress_row :: "string \<Rightarrow> 'p \<Rightarrow> 'p run_row list \<Rightarrow> 'p run_row list" where
  "progress_row run p = map (\<lambda>r. if ru_id r = run then r\<lparr>ru_progress := p\<rparr> else r)"

definition record_event :: "string \<Rightarrow> string \<Rightarrow> int64 option \<Rightarrow> string \<Rightarrow> mail_index \<Rightarrow> mail_index" where
  "record_event run kind page detail s =
     s\<lparr>mi_events := mi_events s @ [\<lparr>ev_run = run, ev_kind = kind, ev_page = map_option int32_of page, ev_detail = detail\<rparr>]\<rparr>"

text \<open>\<open>Item\<close>: one item a run failed on.\<close>

record run_item =
  it_kind :: string
  it_id :: string
  it_page :: int64
  it_class :: string
  it_summary :: string
  it_attempts :: int64
  it_first :: unix_milli
  it_last :: unix_milli
  it_disposition :: string

definition record_item :: "string \<Rightarrow> run_item \<Rightarrow> mail_index \<Rightarrow> mail_index" where
  "record_item run i s = s\<lparr>mi_failures := mi_failures s @
     [\<lparr>fr_run = run, fr_kind = it_kind i, fr_item = it_id i, fr_page = Some (int32_of (it_page i)), fr_class = it_class i,
       fr_summary = it_summary i, fr_attempts = int32_of (it_attempts i), fr_first = it_first i, fr_last = it_last i,
       fr_disposition = it_disposition i\<rparr>]\<rparr>"

text \<open>A run identifier is the key of the runs of both passes.\<close>

definition run_held :: "string \<Rightarrow> mail_index \<Rightarrow> bool" where
  "run_held run s \<longleftrightarrow> run \<in> ru_id ` set (mi_runs1 s) \<or> run \<in> ru_id ` set (mi_runs2 s)"

text \<open>\<open>StartRun\<close> of \<open>runs.go\<close> for each pass: the abandoned run recorded as failed, the run, and its first event.\<close>

definition started_runs :: "string \<Rightarrow> 'p pass_start \<Rightarrow> 'p run_row list \<Rightarrow> 'p run_row list" where
  "started_runs run st runs =
     \<lparr>ru_id = run, ru_state = ''running'', ru_resumed_from = ps_resumed_from st, ru_progress = ps_from st, ru_error = []\<rparr> #
       (if ps_abandon st
        then end_run_row (ps_resumed_from st) ''failed'' ''the run stopped before it recorded its end'' runs
        else runs)"

definition start_kind :: "'p pass_start \<Rightarrow> string" where
  "start_kind st = (if ps_resumed_from st \<noteq> [] then ''resume'' else ''start'')"

subsection \<open>Reading the waiting messages\<close>

definition waiting_of :: "mail_index \<Rightarrow> message_row \<Rightarrow> waiting" where
  "waiting_of s m =
     \<lparr>wt_id = sm_id m, wt_from = sm_from m, wt_domain = sm_domain m, wt_subject_masked = sm_subject_masked m,
      wt_list_id = (sm_list_id m \<noteq> None), wt_size = (case sm_size m of None \<Rightarrow> 0 | Some n \<Rightarrow> big_int n),
      wt_sent_at = sm_sent_at m,
      wt_volume = (case mi_senders s (sm_domain m) of None \<Rightarrow> 0 | Some r \<Rightarrow> se_count r),
      wt_hits = (case mi_senders s (sm_domain m) of None \<Rightarrow> 0 | Some r \<Rightarrow> se_hits r)\<rparr>"

definition walk_key :: "message_row \<Rightarrow> int \<times> string" where
  "walk_key m = (sint (sm_sent_at m), sm_id m)"

text \<open>Whether a message comes after a position of the walk; the zero position comes before every message.\<close>

definition walked_before :: "walk_position \<Rightarrow> message_row \<Rightarrow> bool" where
  "walked_before pos m \<longleftrightarrow> wp_id pos = [] \<or> walk_key m < (sint (wp_sent_at pos), wp_id pos)"

definition page_limit :: "int64 \<Rightarrow> nat" where
  "page_limit n = nat (sint (min64 (max64 n 1) 2147483647))"

definition pending_page :: "walk_position \<Rightarrow> int64 \<Rightarrow> mail_index \<Rightarrow> waiting list" where
  "pending_page after n s = map (waiting_of s)
     (take (page_limit n) (rev (sort_key walk_key (filter (\<lambda>m. sm_state m = Pending \<and> walked_before after m) (mi_messages s)))))"

definition backlog :: "mail_index \<Rightarrow> nat" where
  "backlog s = length (filter (\<lambda>m. sm_state m = Pending) (mi_messages s))"

definition gate_skips :: "mail_index \<Rightarrow> waiting list" where
  "gate_skips s = map (waiting_of s) (sort_key sm_id (filter (\<lambda>m. sm_state m = SkippedGate) (mi_messages s)))"

definition restricted_domains :: "mail_index \<Rightarrow> string list" where
  "restricted_domains s = sort_compact (map sm_domain (filter (\<lambda>m. sm_state m = SkippedRestricted) (mi_messages s)))"

subsection \<open>Changing messages\<close>

text \<open>An update of the messages a condition names, with the number of rows it changed.\<close>

definition update_where ::
  "(message_row \<Rightarrow> bool) \<Rightarrow> (message_row \<Rightarrow> message_row) \<Rightarrow> mail_index \<Rightarrow> mail_index \<times> nat" where
  "update_where p f s = (s\<lparr>mi_messages := map (\<lambda>m. if p m then f m else m) (mi_messages s)\<rparr>,
     length (filter p (mi_messages s)))"

definition waits_again :: "message_row \<Rightarrow> message_row" where
  "waits_again m = m\<lparr>sm_state := Pending\<rparr>"

definition mark_delisted :: "string \<Rightarrow> mail_index \<Rightarrow> mail_index \<times> nat" where
  "mark_delisted domain = update_where (\<lambda>m. sm_domain m = domain \<and> sm_state m = SkippedRestricted) waits_again"

definition requeue_signalled_skips :: "mail_index \<Rightarrow> mail_index \<times> nat" where
  "requeue_signalled_skips = update_where (\<lambda>m. sm_state m = SkippedGate \<and> sm_subject_masked m) waits_again"

definition requeue_gate_skips :: "string list \<Rightarrow> mail_index \<Rightarrow> mail_index \<times> nat" where
  "requeue_gate_skips ids = update_where (\<lambda>m. sm_state m = SkippedGate \<and> sm_id m \<in> set ids) waits_again"

definition requeue_refusals :: "32 word \<Rightarrow> mail_index \<Rightarrow> mail_index \<times> nat" where
  "requeue_refusals bound = update_where (\<lambda>m. sm_state m = Refused \<and> sm_bound m \<noteq> Some bound)
     (\<lambda>m. (waits_again m)\<lparr>sm_bound := None\<rparr>)"

definition stale_verdict :: "32 word \<Rightarrow> string \<Rightarrow> message_row \<Rightarrow> bool" where
  "stale_verdict v r m \<longleftrightarrow> sm_state m = Scanned \<and> (sm_version m \<noteq> Some v \<or> sm_revision m \<noteq> Some r)"

text \<open>\<open>RequeueStaleVerdicts\<close>, with the domains it returns, one for each message.\<close>

definition requeue_stale_verdicts :: "32 word \<Rightarrow> string \<Rightarrow> mail_index \<Rightarrow> mail_index \<times> string list" where
  "requeue_stale_verdicts v r s =
     (fst (update_where (stale_verdict v r)
        (\<lambda>m. (waits_again m)\<lparr>sm_flags := [], sm_rules := [], sm_version := None, sm_revision := None\<rparr>) s),
      map sm_domain (filter (stale_verdict v r) (mi_messages s)))"

definition waiting_named :: "string \<Rightarrow> message_row \<Rightarrow> bool" where
  "waiting_named i m \<longleftrightarrow> sm_id m = i \<and> sm_state m = Pending"

definition record_verdict ::
  "string list \<Rightarrow> string list \<Rightarrow> 32 word \<Rightarrow> string \<Rightarrow> string \<Rightarrow> mail_index \<Rightarrow> mail_index \<times> nat" where
  "record_verdict flags rules v r i = update_where (waiting_named i)
     (\<lambda>m. m\<lparr>sm_state := Scanned, sm_flags := flags, sm_rules := rules, sm_version := Some v, sm_revision := Some r\<rparr>)"

definition record_refusal :: "32 word \<Rightarrow> string \<Rightarrow> mail_index \<Rightarrow> mail_index \<times> nat" where
  "record_refusal bound i = update_where (waiting_named i) (\<lambda>m. m\<lparr>sm_state := Refused, sm_bound := Some bound\<rparr>)"

definition record_skip :: "scan_state \<Rightarrow> string \<Rightarrow> mail_index \<Rightarrow> mail_index \<times> nat" where
  "record_skip st i = update_where (waiting_named i) (\<lambda>m. m\<lparr>sm_state := st\<rparr>)"

definition record_decision :: "string \<Rightarrow> string \<Rightarrow> string \<Rightarrow> mail_index \<Rightarrow> mail_index" where
  "record_decision i decision reason s = s\<lparr>mi_decisions := (mi_decisions s)(i \<mapsto> (decision, reason))\<rparr>"

subsection \<open>Senders\<close>

definition update_sender :: "string \<Rightarrow> (sender_row \<Rightarrow> sender_row) \<Rightarrow> mail_index \<Rightarrow> mail_index \<times> nat" where
  "update_sender d f s =
     (case mi_senders s d of
        None \<Rightarrow> (s, 0)
      | Some r \<Rightarrow> (s\<lparr>mi_senders := (mi_senders s)(d \<mapsto> f r)\<rparr>, 1))"

definition add_scan_hits :: "int64 \<Rightarrow> string \<Rightarrow> mail_index \<Rightarrow> mail_index \<times> nat" where
  "add_scan_hits n d = update_sender d (\<lambda>r. r\<lparr>se_hits := se_hits r + n\<rparr>)"

definition recount_scan_hits :: "string \<Rightarrow> mail_index \<Rightarrow> mail_index \<times> nat" where
  "recount_scan_hits d s = update_sender d (\<lambda>r. r\<lparr>se_hits := of_nat (length
     (filter (\<lambda>m. sm_domain m = d \<and> sm_state m = Scanned \<and> sm_flags m \<noteq> []) (mi_messages s)))\<rparr>) s"

definition rebuild_sender :: "string \<Rightarrow> mail_index \<Rightarrow> mail_index" where
  "rebuild_sender d s =
     (let n = length (filter (\<lambda>m. sm_domain m = d) (mi_messages s))
      in if n = 0 then s
         else s\<lparr>mi_senders := (mi_senders s)(d \<mapsto>
           (case mi_senders s d of
              None \<Rightarrow> \<lparr>se_count = of_nat n, se_hits = 0\<rparr>
            | Some r \<Rightarrow> r\<lparr>se_count := of_nat n\<rparr>))\<rparr>)"

subsection \<open>Subjects\<close>

definition stale_subject_row :: "32 word \<Rightarrow> string \<Rightarrow> message_row \<Rightarrow> bool" where
  "stale_subject_row v r m \<longleftrightarrow> sm_subject_version m \<noteq> Some v \<or> sm_subject_revision m \<noteq> Some r"

definition stale_subject :: "32 word \<Rightarrow> string \<Rightarrow> mail_index \<Rightarrow> bool" where
  "stale_subject v r s \<longleftrightarrow> list_ex (stale_subject_row v r) (mi_messages s)"

text \<open>A count of rows; no table has more than the largest bigint.\<close>

definition row_count :: "nat \<Rightarrow> int64" where
  "row_count n = word_of_int (min (int n) max_int64)"

lemma sint_row_count: "sint (row_count n) = min (int n) max_int64"
  unfolding row_count_def by (rule sint_of_int64) (simp_all add: min_int64_def max_int64_def)

definition count_stale_subjects :: "32 word \<Rightarrow> string \<Rightarrow> mail_index \<Rightarrow> int64" where
  "count_stale_subjects v r s = row_count (length (filter (stale_subject_row v r) (mi_messages s)))"

definition subject_row :: "message_row \<Rightarrow> stored_subject" where
  "subject_row m = \<lparr>ss_id = sm_id m, ss_subject = (case sm_subject m of None \<Rightarrow> [] | Some x \<Rightarrow> x)\<rparr>"

definition stale_subjects :: "32 word \<Rightarrow> string \<Rightarrow> nat \<Rightarrow> mail_index \<Rightarrow> stored_subject list" where
  "stale_subjects v r n s = map subject_row (take n (sort_key sm_id (filter (stale_subject_row v r) (mi_messages s))))"

definition stale_unmasked_subjects :: "32 word \<Rightarrow> string \<Rightarrow> string \<Rightarrow> nat \<Rightarrow> mail_index \<Rightarrow> stored_subject list" where
  "stale_unmasked_subjects v r after n s = map subject_row (take n (sort_key sm_id
     (filter (\<lambda>m. \<not> sm_subject_masked m \<and> stale_subject_row v r m \<and> after < sm_id m) (mi_messages s))))"

definition set_subject :: "32 word \<Rightarrow> string \<Rightarrow> string \<Rightarrow> bool \<Rightarrow> message_row \<Rightarrow> message_row" where
  "set_subject v r subject masked m = m\<lparr>sm_subject := Some subject, sm_subject_masked := masked,
     sm_subject_version := Some v, sm_subject_revision := Some r\<rparr>"

definition remask_subject :: "string \<Rightarrow> bool \<Rightarrow> 32 word \<Rightarrow> string \<Rightarrow> string \<Rightarrow> mail_index \<Rightarrow> mail_index \<times> nat" where
  "remask_subject subject masked v r i =
     update_where (\<lambda>m. sm_id m = i \<and> stale_subject_row v r m) (set_subject v r subject masked)"

text \<open>The batch's update, of the rows whose subject is stored unmasked and stale; each is set from the first entry that names it.\<close>

definition remask_stored_subjects ::
  "(string \<times> string \<times> bool) list \<Rightarrow> 32 word \<Rightarrow> string \<Rightarrow> mail_index \<Rightarrow> mail_index \<times> nat" where
  "remask_stored_subjects batch v r =
     update_where (\<lambda>m. sm_id m \<in> fst ` set batch \<and> \<not> sm_subject_masked m \<and> stale_subject_row v r m)
       (\<lambda>m. case map_of batch (sm_id m) of None \<Rightarrow> m | Some (subject, masked) \<Rightarrow> set_subject v r subject masked m)"

definition masking_rows :: "32 word \<Rightarrow> index_message \<Rightarrow> masking_row list" where
  "masking_rows v m = map (\<lambda>e. \<lparr>mk_id = im_id m, mk_rule = me_rule e, mk_tier = me_tier e, mk_version = v,
     mk_revision = st_revision (im_stamp m)\<rparr>) (im_masks m)"

definition record_maskings :: "masking_row list \<Rightarrow> mail_index \<Rightarrow> mail_index" where
  "record_maskings rows s = s\<lparr>mi_maskings := mi_maskings s @ rows\<rparr>"

text \<open>The row a message is inserted as.\<close>

definition inserted_row :: "index_message \<Rightarrow> message_row" where
  "inserted_row m =
     \<lparr>sm_id = im_id m, sm_from = a_email (im_from m), sm_domain = im_domain m, sm_subject = Some (im_subject m),
      sm_subject_masked = im_subject_masked m, sm_subject_version = Some (stored_version (st_version (im_stamp m))),
      sm_subject_revision = Some (st_revision (im_stamp m)), sm_sent_at = im_date m,
      sm_list_id = (if im_list m = [] then None else Some (im_list m)),
      sm_size = Some (ucast (min64 (max64 (im_size m) 0) 2147483647)), sm_state = Pending, sm_flags = [], sm_rules = [],
      sm_version = None, sm_revision = None, sm_bound = None, sm_labels = im_labels m, sm_mail_flags = im_flags m\<rparr>"

definition insert_message :: "index_message \<Rightarrow> mail_index \<Rightarrow> mail_index \<times> bool" where
  "insert_message m s =
     (if im_id m \<in> sm_id ` set (mi_messages s) then (s, False)
      else (s\<lparr>mi_messages := mi_messages s @ [inserted_row m]\<rparr>, True))"

end
