(* ===== verification/PassWorld.thy ===== *)
theory PassWorld
  imports MailIndex BackfillFacts
begin

text \<open>
  What backfill's two passes run in: what the database answers to each transaction, what the provider answers
  to each call, the clock, the identifiers of runs and the policy in force are the environment's, by the
  moment they are asked at, so a pass can fail or be stopped anywhere. Then the transactions and the failed
  items both passes have.
\<close>

subsection \<open>The environment\<close>

datatype pass_error =
    StoreFailed
  | Stopped                      \<comment> \<open>the context ended\<close>
  | RowsDiffer                   \<comment> \<open>a statement changed other rows than it had to\<close>
  | UnknownRunState
  | ProviderFailed string goerror      \<comment> \<open>asking for a message's body\<close>
  | PageFailed int64 goerror
  | CallFailed nat goerror             \<comment> \<open>fetching subjects again\<close>
  | StillStale nat
  | AskFailed string goerror           \<comment> \<open>what delta sync asks of the provider\<close>

text \<open>What a transaction that fails left behind: whether it took effect and whether the context ended.\<close>

datatype tx_answer = TxTakes | TxErrs (tx_applied: bool) (tx_stops: bool)

text \<open>What a call of the provider answers; the context can end in it.\<close>

datatype 'a call_answer = CallIs 'a | CallErr goerror | CallStopped

text \<open>\<open>Page\<close> of \<open>core/mail\<close>.\<close>

record metadata_page =
  mp_items :: "message_metadata list"
  mp_next :: string
  mp_total :: "total option"

record pass_env =
  bx_unicode :: unicode
  bx_log2 :: "float64 \<Rightarrow> float64"
  bx_policy :: "nat \<Rightarrow> policy"
  bx_gate :: gate_config
  bx_scanner :: scanner
  bx_page_size :: int64
  bx_run_id :: "nat \<Rightarrow> string"
  bx_now :: "nat \<Rightarrow> unix_milli"
  bx_page :: "nat \<Rightarrow> string \<Rightarrow> metadata_page call_answer"
  bx_metadata :: "nat \<Rightarrow> string list \<Rightarrow> message_metadata list call_answer"
  bx_per_call :: int64
  bx_opens :: "nat \<Rightarrow> bool"                  \<comment> \<open>whether a unit of work gets the account's session, and\<close>
  bx_hands_over :: "nat \<Rightarrow> bool"             \<comment> \<open>whether it ends with no error\<close>
  bx_body :: "nat \<Rightarrow> string \<Rightarrow> message_body call_answer"
  bx_render :: "message_body \<Rightarrow> string + string"
  bx_text :: "goerror \<Rightarrow> string"
  bx_cause :: "pass_error list \<Rightarrow> string"
  bx_delisted :: "nat \<Rightarrow> nat \<Rightarrow> string"     \<comment> \<open>the words of an event, from the numbers in them\<close>
  bx_requeued :: "nat \<Rightarrow> string"
  bx_tx :: "nat \<Rightarrow> tx_answer"

text \<open>The rows \<open>'i\<close> a transaction changes, with the moment and whether the context has ended.\<close>

record 'i tx_world =
  wd_index :: 'i
  wd_asked :: "string list"
  wd_moment :: nat
  wd_stopped :: bool

type_synonym world = "mail_index tx_world"

definition tick :: "('i, 'z) tx_world_scheme \<Rightarrow> ('i, 'z) tx_world_scheme" where
  "tick w = w\<lparr>wd_moment := Suc (wd_moment w)\<rparr>"

text \<open>One transaction: what it returns, with the rows as it left them.\<close>

definition in_tx ::
  "'e pass_env_scheme \<Rightarrow> ('i \<Rightarrow> pass_error + 'i \<times> 'a) \<Rightarrow> ('i, 'z) tx_world_scheme \<Rightarrow> (pass_error + 'a) \<times> ('i, 'z) tx_world_scheme" where
  "in_tx env f w =
     (if wd_stopped w then (Inl Stopped, w)
      else case f (wd_index w) of
          Inl e \<Rightarrow> (Inl e, tick w)
        | Inr (s, x) \<Rightarrow>
            (case bx_tx env (wd_moment w) of
               TxTakes \<Rightarrow> (Inr x, (tick w)\<lparr>wd_index := s\<rparr>)
             | TxErrs applied stops \<Rightarrow>
                 (Inl (if stops then Stopped else StoreFailed),
                  (tick w)\<lparr>wd_index := (if applied then s else wd_index w), wd_stopped := stops\<rparr>)))"

subsection \<open>What both stores do\<close>

fun each_ok :: "('a \<Rightarrow> 's \<Rightarrow> 'e + 's) \<Rightarrow> 'a list \<Rightarrow> 's \<Rightarrow> 'e + 's" where
  "each_ok f [] s = Inr s"
| "each_ok f (x # xs) s = (case f x s of Inl e \<Rightarrow> Inl e | Inr s' \<Rightarrow> each_ok f xs s')"

definition event_tx :: "string \<Rightarrow> string \<Rightarrow> int64 \<Rightarrow> string \<Rightarrow> mail_index \<Rightarrow> pass_error + mail_index \<times> unit" where
  "event_tx run kind page detail s = Inr (record_event run kind (Some page) detail s, ())"

definition failure_tx :: "string \<Rightarrow> run_item \<Rightarrow> mail_index \<Rightarrow> pass_error + mail_index \<times> unit" where
  "failure_tx run i s = Inr (record_item run i s, ())"

subsection \<open>Failed items\<close>

definition now_of :: "'e pass_env_scheme \<Rightarrow> ('i, 'z) tx_world_scheme \<Rightarrow> unix_milli" where
  "now_of env w = bx_now env (wd_moment w)"

definition new_item :: "string \<Rightarrow> int64 \<Rightarrow> unix_milli \<Rightarrow> run_item" where
  "new_item i number now = \<lparr>it_kind = ''message'', it_id = i, it_page = number, it_class = [], it_summary = [],
     it_attempts = 0, it_first = now, it_last = 0, it_disposition = []\<rparr>"

text \<open>The item after one more failed attempt.\<close>

definition failed_item :: "pass_env \<Rightarrow> run_item \<Rightarrow> goerror \<Rightarrow> unix_milli \<Rightarrow> run_item" where
  "failed_item env i e now = i\<lparr>it_class := error_class_string (class_of (Some e)), it_summary := bx_text env e,
     it_last := now, it_attempts := it_attempts i + 1\<rparr>"

definition attempts_of :: "run_item option \<Rightarrow> int64" where
  "attempts_of item = (case item of None \<Rightarrow> 0 | Some i \<Rightarrow> it_attempts i)"

definition recovered :: "unix_milli \<Rightarrow> run_item \<Rightarrow> run_item" where
  "recovered now x = x\<lparr>it_attempts := it_attempts x + 1, it_last := now, it_disposition := ''recovered''\<rparr>"

lemma fewer_left:
  assumes "sint (a + 1 :: int64) < 5"
  shows "unat (5 - (a + 1)) < unat (5 - a :: int64)"
proof -
  have "5 - a \<noteq> 0" using assms by auto
  then have "unat (5 - a - 1) < unat (5 - a)" by (rule measure_unat)
  then show ?thesis by (simp only: diff_diff_eq)
qed

subsection \<open>What a transaction leaves\<close>

lemma in_tx_index:
  assumes "P (wd_index w)" "\<And>s x. f (wd_index w) = Inr (s, x) \<Longrightarrow> P s"
  shows "P (wd_index (snd (in_tx env f w)))"
  using assms by (auto simp: in_tx_def tick_def split: sum.split tx_answer.split prod.split)

lemma in_tx_took:
  assumes "in_tx env f w = (Inr x, w')"
  shows "f (wd_index w) = Inr (wd_index w', x)" "\<not> wd_stopped w" "\<not> wd_stopped w'" "wd_asked w' = wd_asked w"
  using assms by (auto simp: in_tx_def tick_def split: sum.splits tx_answer.splits prod.splits if_splits)

lemma in_tx_asked: "in_tx env f w = (r, w') \<Longrightarrow> wd_asked w' = wd_asked w"
  by (auto simp: in_tx_def tick_def split: sum.splits tx_answer.splits prod.splits if_splits)

lemma in_tx_errs:
  assumes "in_tx env f w = (Inl e, w')" "P (wd_index w)" "\<And>s x. f (wd_index w) = Inr (s, x) \<Longrightarrow> P s"
  shows "P (wd_index w')" "wd_asked w' = wd_asked w" "wd_stopped w \<Longrightarrow> wd_stopped w'"
  using in_tx_index [of P w f env] in_tx_asked [OF assms(1)] assms by (auto simp: in_tx_def)

end
