(* ===== verification/FirstPass.thy ===== *)
theory FirstPass
  imports PassWorld
begin

text \<open>
  \<open>worker/internal/backfill/pass1\<close>: backfill's first pass over one account, with its store in the index's
  database. A pass is opened and asked for its next step until it is done: a page of the enumeration made
  durable, a call that fetches stale subjects again, or the pass's end. The recovery of a panic is left out.
\<close>

subsection \<open>The store\<close>

definition count_stale :: "stamp \<Rightarrow> mail_index \<Rightarrow> int64" where
  "count_stale st s = count_stale_subjects (stored_version (st_version st)) (st_revision st) s"

definition state1_tx :: "stamp \<Rightarrow> mail_index \<Rightarrow> pass_error + mail_index \<times> (bool \<times> int64 \<times> progress latest_run)" where
  "state1_tx st s = (case latest_run_of zero_progress (mi_runs1 s) of
     None \<Rightarrow> Inl UnknownRunState
   | Some l \<Rightarrow> Inr (s, (mi_first_ended s, count_stale st s, l)))"

definition start1_tx :: "string \<Rightarrow> progress pass_start \<Rightarrow> mail_index \<Rightarrow> pass_error + mail_index \<times> unit" where
  "start1_tx run st s =
     (if run_held run s then Inl RowsDiffer
      else Inr (record_event run (start_kind st) (Some (ck_page (pg_checkpoint (ps_from st)))) []
        (s\<lparr>mi_first_ended := (mi_first_ended s \<and> \<not> ps_reopen st), mi_runs1 := started_runs run st (mi_runs1 s)\<rparr>), ()))"

definition record_progress1 :: "string \<Rightarrow> progress \<Rightarrow> mail_index \<Rightarrow> mail_index" where
  "record_progress1 run p s =
     record_event run ''progress'' (Some (ck_page (pg_checkpoint p))) [] (s\<lparr>mi_runs1 := progress_row run p (mi_runs1 s)\<rparr>)"

text \<open>A subject masked again, with its masking events, and whether it was stored.\<close>

definition store_remasked :: "index_message \<Rightarrow> mail_index \<Rightarrow> mail_index \<times> bool" where
  "store_remasked m s =
     (let v = stored_version (st_version (im_stamp m));
          (s', n) = remask_subject (im_subject m) (im_subject_masked m) v (st_revision (im_stamp m)) (im_id m) s
      in if n = 1 then (record_maskings (masking_rows v m) s', True) else (s', False))"

record commit_count =
  cc_added :: int64
  cc_remasked :: int64
  cc_unclassified :: int64

definition commit_message :: "index_message \<Rightarrow> mail_index \<times> commit_count \<Rightarrow> mail_index \<times> commit_count" where
  "commit_message m x =
     (case x of (s, c) \<Rightarrow>
        (case insert_message m s of
           (s', True) \<Rightarrow>
             (record_maskings (masking_rows (stored_version (st_version (im_stamp m))) m) s',
              c\<lparr>cc_added := cc_added c + 1, cc_unclassified := cc_unclassified c + (if im_unclassified m then 1 else 0)\<rparr>)
         | (_, False) \<Rightarrow>
             (case store_remasked m s of
                (s', True) \<Rightarrow> (s', c\<lparr>cc_remasked := cc_remasked c + 1\<rparr>)
              | (s', False) \<Rightarrow> (s', c))))"

text \<open>\<open>Failure\<close>: one page the provider failed.\<close>

record page_failure =
  pf_page :: int64
  pf_class :: string
  pf_summary :: string
  pf_attempts :: int64
  pf_first :: unix_milli
  pf_last :: unix_milli
  pf_disposition :: string

definition page_item :: "page_failure \<Rightarrow> run_item" where
  "page_item f = \<lparr>it_kind = ''page'', it_id = format_int (sint (pf_page f)), it_page = pf_page f, it_class = pf_class f,
     it_summary = pf_summary f, it_attempts = pf_attempts f, it_first = pf_first f, it_last = pf_last f,
     it_disposition = pf_disposition f\<rparr>"

definition commit1_tx ::
  "string \<Rightarrow> index_page \<Rightarrow> page_failure option \<Rightarrow> (int64 \<Rightarrow> int64 \<Rightarrow> progress) \<Rightarrow> mail_index \<Rightarrow>
     pass_error + mail_index \<times> (progress \<times> int64)" where
  "commit1_tx run page failure advance s =
     (let (s, c) = fold commit_message (ip_messages page) (s, \<lparr>cc_added = 0, cc_remasked = 0, cc_unclassified = 0\<rparr>);
          s = fold rebuild_sender (ip_domains page) s;
          s = (case failure of None \<Rightarrow> s | Some f \<Rightarrow> record_item run (page_item f) s);
          p = advance (cc_added c) (cc_remasked c);
          p = (if ck_ended (pg_checkpoint p)
               then p\<lparr>pg_checkpoint := (pg_checkpoint p)\<lparr>ck_stale := count_stale (ck_stamp (pg_checkpoint p)) s\<rparr>\<rparr>
               else p)
      in Inr (record_progress1 run p s, (p, cc_unclassified c)))"

definition stale_tx :: "stamp \<Rightarrow> int64 \<Rightarrow> mail_index \<Rightarrow> pass_error + mail_index \<times> stored_subject list" where
  "stale_tx st n s = Inr (s, stale_subjects (stored_version (st_version st)) (st_revision st)
     (nat (sint (min64 (max64 n 0) 2147483647))) s)"

definition gone_item :: "unix_milli \<Rightarrow> index_message \<Rightarrow> run_item" where
  "gone_item now m = \<lparr>it_kind = ''message'', it_id = im_id m, it_page = 0, it_class = error_class_string Gone,
     it_summary = ''the provider no longer has the message, so its subject was masked whole under the scanner in force'',
     it_attempts = 1, it_first = now, it_last = now, it_disposition = ''gone''\<rparr>"

definition store_found :: "index_message \<Rightarrow> mail_index \<times> int64 \<Rightarrow> mail_index \<times> int64" where
  "store_found m x = (case x of (s, k) \<Rightarrow> case store_remasked m s of (s', b) \<Rightarrow> (s', if b then k + 1 else k))"

definition store_gone :: "string \<Rightarrow> unix_milli \<Rightarrow> index_message \<Rightarrow> mail_index \<times> int64 \<Rightarrow> mail_index \<times> int64" where
  "store_gone run now m x =
     (case x of (s, k) \<Rightarrow> case store_remasked m s of (s', b) \<Rightarrow>
        if b then (record_item run (gone_item now m) s', k + 1) else (s', k))"

definition refetch_tx ::
  "string \<Rightarrow> stamp \<Rightarrow> index_message list \<Rightarrow> index_message list \<Rightarrow> run_item list \<Rightarrow> unix_milli \<Rightarrow> (int64 \<Rightarrow> int64 \<Rightarrow> progress) \<Rightarrow>
     mail_index \<Rightarrow> pass_error + mail_index \<times> progress" where
  "refetch_tx run st remasked gone items now advance s =
     (let (s, k) = fold (store_gone run now) gone (fold store_found remasked (s, 0));
          s = fold (record_item run) items s;
          p = advance k (count_stale st s)
      in Inr (record_progress1 run p s, p))"

definition finish1_tx :: "string \<Rightarrow> stamp \<Rightarrow> mail_index \<Rightarrow> pass_error + mail_index \<times> bool" where
  "finish1_tx run st s =
     (if stale_subjects (stored_version (st_version st)) (st_revision st) 1 s \<noteq> [] then Inr (s, False)
      else Inr (record_event run ''finish'' None []
        (s\<lparr>mi_first_ended := True, mi_runs1 := end_run_row run ''succeeded'' [] (mi_runs1 s)\<rparr>), True))"

definition items_tx :: "string \<Rightarrow> run_item list \<Rightarrow> mail_index \<Rightarrow> pass_error + mail_index \<times> unit" where
  "items_tx run items s = Inr (fold (record_item run) items s, ())"

definition fail1_tx :: "string \<Rightarrow> string \<Rightarrow> mail_index \<Rightarrow> pass_error + mail_index \<times> unit" where
  "fail1_tx run cause s = Inr (record_event run ''failure'' None cause
     (s\<lparr>mi_runs1 := end_run_row run ''failed'' cause (mi_runs1 s)\<rparr>), ())"

subsection \<open>The pass\<close>

record first_pass =
  fp_run :: string
  fp_at :: progress
  fp_done :: bool
  fp_resumed :: string
  fp_restarted :: bool

record first_step =
  ft_done :: bool
  ft_unclassified :: int64
  ft_added :: int64

definition first_failed ::
  "pass_env \<Rightarrow> first_pass \<Rightarrow> pass_error list \<Rightarrow> world \<Rightarrow> pass_error list \<times> first_pass \<times> world" where
  "first_failed env p cause w =
     (if wd_stopped w then (Stopped # cause, p, w)
      else case in_tx env (fail1_tx (fp_run p) (bx_cause env cause)) w of
          (Inl e, w') \<Rightarrow> (cause @ [e], p\<lparr>fp_done := True\<rparr>, w')
        | (Inr _, w') \<Rightarrow> (cause, p\<lparr>fp_done := True\<rparr>, w'))"

text \<open>What an attempt left: the answer with what its commit records as recovered, or the errors that end the run.\<close>

datatype 'a got = Got 'a | GotBroke "pass_error list"

definition got_broke :: "pass_error list \<times> first_pass \<times> world \<Rightarrow> ('a got + 'b) \<times> first_pass \<times> world" where
  "got_broke r = (case r of (es, p, w) \<Rightarrow> (Inl (GotBroke es), p, w))"

subsubsection \<open>One page's fetch\<close>

definition page_number :: "first_pass \<Rightarrow> int64" where
  "page_number p = ck_page (pg_checkpoint (fp_at p)) + 1"

definition failed_page :: "pass_env \<Rightarrow> int64 \<Rightarrow> page_failure option \<Rightarrow> goerror \<Rightarrow> unix_milli \<Rightarrow> page_failure" where
  "failed_page env number failure e now =
     (let new = \<lparr>pf_page = number, pf_class = [], pf_summary = [], pf_attempts = 0, pf_first = now, pf_last = 0, pf_disposition = []\<rparr>;
          f = (case failure of None \<Rightarrow> new | Some f \<Rightarrow> if pf_page f \<noteq> number then new else f)
      in f\<lparr>pf_class := error_class_string (class_of (Some e)), pf_summary := bx_text env e, pf_last := now,
           pf_attempts := pf_attempts f + 1\<rparr>)"

definition page_recovered :: "unix_milli \<Rightarrow> page_failure \<Rightarrow> page_failure" where
  "page_recovered now f = f\<lparr>pf_attempts := pf_attempts f + 1, pf_last := now, pf_disposition := ''recovered''\<rparr>"

definition refused_token_words :: string where
  "refused_token_words = ''the provider refused the page token the run resumed from, so the pass starts over from the first page: ''"

type_synonym got_page = "(metadata_page \<times> page_failure option) got"
type_synonym got_subjects = "(message_metadata list \<times> run_item list) got"

text \<open>What a run does after a failed attempt at a page; a run that goes on keeps the failure so far, if any.\<close>

definition after_page_failure ::
  "pass_env \<Rightarrow> first_pass \<Rightarrow> int64 \<Rightarrow> goerror \<Rightarrow> page_failure \<Rightarrow> next1 \<Rightarrow> world \<Rightarrow>
     (got_page + page_failure option) \<times> first_pass \<times> world" where
  "after_page_failure env p number e f nx w =
     (let cause = [PageFailed number e];
          again = (\<lambda>p' kind detail f' w. case in_tx env (event_tx (fp_run p) kind number detail) w of
             (Inl r, w') \<Rightarrow> got_broke (first_failed env p' [r] w')
           | (Inr _, w') \<Rightarrow> (Inr f', p', w'))
      in case nx of
          FailRun1 \<Rightarrow> got_broke (first_failed env p cause w)
        | StartOver1 \<Rightarrow> again (p\<lparr>fp_restarted := True, fp_at := restart_pass1 (fp_at p)\<rparr>) ''retry''
            (refused_token_words @ bx_text env e) None w
        | Backoff1 \<Rightarrow> again p ''backoff'' (bx_text env e) (Some f) w
        | Retry1 \<Rightarrow> again p ''retry'' (bx_text env e) (Some f) w
        | Abandon1 \<Rightarrow>
            (case in_tx env (failure_tx (fp_run p) (page_item (f\<lparr>pf_disposition := ''abandoned''\<rparr>))) w of
               (Inl r, w') \<Rightarrow> got_broke (first_failed env p (cause @ [r]) w')
             | (Inr _, w') \<Rightarrow> got_broke (first_failed env p cause w')))"

definition page_attempt ::
  "pass_env \<Rightarrow> first_pass \<Rightarrow> page_failure option \<Rightarrow> world \<Rightarrow>
     (got_page + page_failure option) \<times> first_pass \<times> world" where
  "page_attempt env p failure w =
     (if wd_stopped w then (Inl (GotBroke [Stopped]), p, w)
      else (let number = page_number p; token = ck_token (pg_checkpoint (fp_at p))
            in case bx_page env (wd_moment w) token of
                CallStopped \<Rightarrow> (Inl (GotBroke [Stopped]), p, (tick w)\<lparr>wd_stopped := True\<rparr>)
              | CallIs page \<Rightarrow> (Inl (Got (page, map_option (page_recovered (now_of env (tick w))) failure)), p, tick w)
              | CallErr e \<Rightarrow>
                  (let f = failed_page env number failure e (now_of env (tick w))
                   in after_page_failure env p number e f
                        (on_failure1 \<lparr>at_class = class_of (Some e), at_attempts = pf_attempts f,
                           at_resumed_token = (fp_resumed p \<noteq> [] \<and> token = fp_resumed p), at_restarted = fp_restarted p\<rparr>)
                        (tick w))))"


text \<open>The failed attempts at the page the run asks for.\<close>

definition page_attempts :: "first_pass \<Rightarrow> page_failure option \<Rightarrow> int64" where
  "page_attempts p failure =
     (case failure of None \<Rightarrow> 0 | Some f \<Rightarrow> if pf_page f \<noteq> page_number p then 0 else pf_attempts f)"

lemma after_page_failure_again:
  assumes "after_page_failure env p number e f nx w = (Inr f', p', w')"
  shows "f' = None \<and> nx = StartOver1 \<and> fp_restarted p' \<or> f' = Some f \<and> p' = p \<and> nx \<in> {Backoff1, Retry1}"
  using assms by (auto simp: after_page_failure_def got_broke_def Let_def split: next1.splits prod.splits sum.splits)

lemma on_failure1_again:
  "on_failure1 f \<in> {Backoff1, Retry1} \<Longrightarrow> sint (at_attempts f) < 5" "on_failure1 f = StartOver1 \<Longrightarrow> \<not> at_restarted f"
  by (auto simp: on_failure1_def split: if_splits)

lemma page_attempt_again:
  assumes "page_attempt env p failure w = (Inr f', p', w')"
  shows "\<not> fp_restarted p \<and> fp_restarted p' \<or>
    p' = p \<and> page_attempts p' f' = page_attempts p failure + 1 \<and> sint (page_attempts p' f') < 5"
proof -
  obtain e where e: "after_page_failure env p (page_number p) e (failed_page env (page_number p) failure e (now_of env (tick w)))
      (on_failure1 \<lparr>at_class = class_of (Some e), at_attempts = pf_attempts (failed_page env (page_number p) failure e (now_of env (tick w))),
         at_resumed_token = (fp_resumed p \<noteq> [] \<and> ck_token (pg_checkpoint (fp_at p)) = fp_resumed p), at_restarted = fp_restarted p\<rparr>)
      (tick w) = (Inr f', p', w')"
    using assms by (auto simp: page_attempt_def Let_def split: if_splits call_answer.splits)
  define f where "f = failed_page env (page_number p) failure e (now_of env (tick w))"
  have f: "pf_page f = page_number p" "pf_attempts f = page_attempts p failure + 1"
    by (auto simp: f_def failed_page_def page_attempts_def Let_def split: option.split)
  from after_page_failure_again [OF e] show ?thesis
    using on_failure1_again f by (fastforce simp: f_def [symmetric] page_attempts_def)
qed

function fetch_page ::
  "pass_env \<Rightarrow> first_pass \<Rightarrow> page_failure option \<Rightarrow> world \<Rightarrow> got_page \<times> first_pass \<times> world" where
  "fetch_page env p failure w =
     (case page_attempt env p failure w of
        (Inl r, p', w') \<Rightarrow> (r, p', w')
      | (Inr f, p', w') \<Rightarrow> fetch_page env p' f w')"
  by pat_completeness auto

termination fetch_page
proof (relation "measures [\<lambda>(env, p, f, w). if fp_restarted p then 0 else 1, \<lambda>(env, p, f, w). unat (5 - page_attempts p f)]", goal_cases)
  case 1
  then show ?case by simp
next
  case (2 env p failure w res r f p' w')
  then have a: "page_attempt env p failure w = (Inr f, p', w')" by simp
  show ?case using page_attempt_again [OF a] fewer_left by auto
qed

declare fetch_page.simps [simp del]

subsubsection \<open>One call for subjects\<close>

definition items_of :: "run_item \<Rightarrow> string list \<Rightarrow> run_item list" where
  "items_of x ids = map (\<lambda>i. x\<lparr>it_id := i\<rparr>) ids"

definition failed_call :: "pass_env \<Rightarrow> run_item option \<Rightarrow> goerror \<Rightarrow> unix_milli \<Rightarrow> run_item" where
  "failed_call env item e now = failed_item env (case item of None \<Rightarrow> new_item [] 0 now | Some x \<Rightarrow> x) e now"

definition after_call_failure ::
  "pass_env \<Rightarrow> first_pass \<Rightarrow> string list \<Rightarrow> goerror \<Rightarrow> run_item \<Rightarrow> next1 \<Rightarrow> world \<Rightarrow> (got_subjects + run_item) \<times> first_pass \<times> world" where
  "after_call_failure env p ids e x nx w =
     (let cause = [CallFailed (length ids) e]
      in case nx of
          Abandon1 \<Rightarrow>
            (case in_tx env (items_tx (fp_run p) (items_of (x\<lparr>it_disposition := ''abandoned''\<rparr>) ids)) w of
               (Inl r, w') \<Rightarrow> got_broke (first_failed env p (cause @ [r]) w')
             | (Inr _, w') \<Rightarrow> got_broke (first_failed env p cause w'))
        | _ \<Rightarrow>
            if nx \<in> {FailRun1, StartOver1} then got_broke (first_failed env p cause w)
            else case in_tx env (event_tx (fp_run p) (if nx = Backoff1 then ''backoff'' else ''retry'') 0 (bx_text env e)) w of
               (Inl r, w') \<Rightarrow> got_broke (first_failed env p [r] w')
             | (Inr _, w') \<Rightarrow> (Inr x, p, w'))"

definition call_attempt ::
  "pass_env \<Rightarrow> first_pass \<Rightarrow> string list \<Rightarrow> run_item option \<Rightarrow> world \<Rightarrow>
     (got_subjects + run_item) \<times> first_pass \<times> world" where
  "call_attempt env p ids item w =
     (if wd_stopped w then (Inl (GotBroke [Stopped]), p, w)
      else case bx_metadata env (wd_moment w) ids of
          CallStopped \<Rightarrow> (Inl (GotBroke [Stopped]), p, (tick w)\<lparr>wd_stopped := True\<rparr>)
        | CallIs ms \<Rightarrow>
            (Inl (Got (ms, case item of None \<Rightarrow> [] | Some x \<Rightarrow> items_of (recovered (now_of env (tick w)) x) ids)), p, tick w)
        | CallErr e \<Rightarrow>
            (let x = failed_call env item e (now_of env (tick w))
             in after_call_failure env p ids e x
                  (on_failure1 \<lparr>at_class = class_of (Some e), at_attempts = it_attempts x, at_resumed_token = False,
                     at_restarted = False\<rparr>) (tick w)))"

lemma after_call_failure_again:
  "after_call_failure env p ids e x nx w = (Inr y, p', w') \<Longrightarrow> y = x \<and> p' = p \<and> nx \<in> {Backoff1, Retry1}"
  by (cases nx) (auto simp: after_call_failure_def got_broke_def Let_def split: prod.splits sum.splits)

lemma call_attempt_again:
  assumes "call_attempt env p ids item w = (Inr y, p', w')"
  shows "it_attempts y = attempts_of item + 1" "sint (it_attempts y) < 5"
proof -
  obtain e where "after_call_failure env p ids e (failed_call env item e (now_of env (tick w)))
      (on_failure1 \<lparr>at_class = class_of (Some e), at_attempts = it_attempts (failed_call env item e (now_of env (tick w))),
         at_resumed_token = False, at_restarted = False\<rparr>) (tick w) = (Inr y, p', w')"
    using assms by (auto simp: call_attempt_def Let_def split: if_splits call_answer.splits)
  note again = after_call_failure_again [OF this]
  show "it_attempts y = attempts_of item + 1"
    using again by (auto simp: failed_call_def failed_item_def new_item_def attempts_of_def split: option.split)
  show "sint (it_attempts y) < 5" using on_failure1_again(1) again by fastforce
qed

function fetch_metadata ::
  "pass_env \<Rightarrow> first_pass \<Rightarrow> string list \<Rightarrow> run_item option \<Rightarrow> world \<Rightarrow>
     got_subjects \<times> first_pass \<times> world" where
  "fetch_metadata env p ids item w =
     (case call_attempt env p ids item w of
        (Inl r, p', w') \<Rightarrow> (r, p', w')
      | (Inr x, p', w') \<Rightarrow> fetch_metadata env p' ids (Some x) w')"
  by pat_completeness auto

termination fetch_metadata
proof (relation "measure (\<lambda>(env, p, ids, item, w). unat (5 - attempts_of item))", goal_cases)
  case 1
  then show ?case by simp
next
  case (2 env p ids item w res r x p' w')
  then have a: "call_attempt env p ids item w = (Inr x, p', w')" by simp
  show ?case
    using fewer_left [of "attempts_of item"] call_attempt_again [OF a] by (simp add: attempts_of_def)
qed

declare fetch_metadata.simps [simp del]

subsubsection \<open>Opening and going on\<close>

definition first_open :: "pass_env \<Rightarrow> world \<Rightarrow> (pass_error list + first_pass) \<times> world" where
  "first_open env w =
     (let st = stamp_of (bx_scanner env)
      in case in_tx env (state1_tx st) w of
          (Inl e, w1) \<Rightarrow> (Inl [e], w1)
        | (Inr (ended, stale, latest), w1) \<Rightarrow>
            (let start = under_scanner (begin_pass zero_progress ended (0 < sint stale) latest) latest st stale;
                 run = bx_run_id env (wd_moment w1)
             in if ps_skip start
                then (Inr \<lparr>fp_run = [], fp_at = zero_progress, fp_done = True, fp_resumed = [], fp_restarted = False\<rparr>, w1)
                else case in_tx env (start1_tx run start) w1 of
                    (Inl e, w2) \<Rightarrow> (Inl [e], w2)
                  | (Inr _, w2) \<Rightarrow>
                      (Inr \<lparr>fp_run = run, fp_at = ps_from start, fp_done = False,
                         fp_resumed = (if ps_resumed_from start \<noteq> [] then ck_token (pg_checkpoint (ps_from start)) else []),
                         fp_restarted = False\<rparr>, w2)))"

definition first_finish :: "pass_env \<Rightarrow> first_pass \<Rightarrow> world \<Rightarrow> (pass_error list + first_step) \<times> first_pass \<times> world" where
  "first_finish env p w =
     (case in_tx env (finish1_tx (fp_run p) (ck_stamp (pg_checkpoint (fp_at p)))) w of
        (Inl e, w1) \<Rightarrow> (case first_failed env p [e] w1 of (es, p', w') \<Rightarrow> (Inl es, p', w'))
      | (Inr ended, w1) \<Rightarrow>
          (Inr \<lparr>ft_done = ended, ft_unclassified = 0, ft_added = 0\<rparr>, if ended then p\<lparr>fp_done := True\<rparr> else p, w1))"

text \<open>A page that arrived, made durable; the page that ends the enumeration ends the pass too.\<close>

definition commit_page ::
  "pass_env \<Rightarrow> first_pass \<Rightarrow> metadata_page \<Rightarrow> page_failure option \<Rightarrow> world \<Rightarrow> (pass_error list + first_step) \<times> first_pass \<times> world" where
  "commit_page env p page failure w =
     (let decided = index_decide (bx_unicode env) (bx_log2 env) (mp_items page) (bx_policy env (wd_moment w)) (bx_scanner env);
          from_at = fp_at p
      in case in_tx env (commit1_tx (fp_run p) decided failure (advance_pass1 from_at (mp_next page) (mp_total page))) w of
          (Inl e, w1) \<Rightarrow> (case first_failed env p [e] w1 of (es, p', w') \<Rightarrow> (Inl es, p', w'))
        | (Inr (at', unclassified), w1) \<Rightarrow>
            (let p = p\<lparr>fp_at := at', fp_resumed := []\<rparr>;
                 added = cn_messages (pg_counters at') - cn_messages (pg_counters from_at)
             in if ck_ended (pg_checkpoint at')
                then case first_finish env p w1 of
                    (Inl es, p', w') \<Rightarrow> (Inl es, p', w')
                  | (Inr st, p', w') \<Rightarrow> (Inr (st\<lparr>ft_unclassified := unclassified, ft_added := added\<rparr>), p', w')
                else (Inr \<lparr>ft_done = False, ft_unclassified = unclassified, ft_added = added\<rparr>, p, w1)))"

definition first_page :: "pass_env \<Rightarrow> first_pass \<Rightarrow> world \<Rightarrow> (pass_error list + first_step) \<times> first_pass \<times> world" where
  "first_page env p w =
     (case fetch_page env p None w of
        (GotBroke es, p', w') \<Rightarrow> (Inl es, p', w')
      | (Got (page, failure), p', w') \<Rightarrow> commit_page env p' page failure w')"

definition first_moved :: "progress \<Rightarrow> progress \<Rightarrow> bool" where
  "first_moved a b \<longleftrightarrow> sint (cn_refetched (pg_counters a)) < sint (cn_refetched (pg_counters b)) \<or>
     sint (ck_stale (pg_checkpoint b)) < sint (ck_stale (pg_checkpoint a))"

text \<open>An answer's subjects, masked again and made durable.\<close>

definition commit_refetched ::
  "pass_env \<Rightarrow> first_pass \<Rightarrow> stored_subject list \<Rightarrow> message_metadata list \<Rightarrow> run_item list \<Rightarrow> world \<Rightarrow>
     (pass_error list + first_step) \<times> first_pass \<times> world" where
  "commit_refetched env p stored got items w =
     (let (remasked, gone) = refetch (bx_unicode env) (bx_log2 env) stored got (bx_scanner env);
          from_at = fp_at p
      in case in_tx env (refetch_tx (fp_run p) (ck_stamp (pg_checkpoint from_at)) remasked gone items (now_of env w)
                (fetched_pass1 from_at)) w of
          (Inl e, w1) \<Rightarrow> (case first_failed env p [e] w1 of (es, p', w') \<Rightarrow> (Inl es, p', w'))
        | (Inr at', w1) \<Rightarrow>
            if first_moved from_at at'
            then (Inr \<lparr>ft_done = False, ft_unclassified = 0, ft_added = 0\<rparr>, p\<lparr>fp_at := at'\<rparr>, w1)
            else (case first_failed env (p\<lparr>fp_at := at'\<rparr>) [StillStale (length stored)] w1 of (es, p', w') \<Rightarrow> (Inl es, p', w')))"

definition first_refetch :: "pass_env \<Rightarrow> first_pass \<Rightarrow> world \<Rightarrow> (pass_error list + first_step) \<times> first_pass \<times> world" where
  "first_refetch env p w =
     (case in_tx env (stale_tx (ck_stamp (pg_checkpoint (fp_at p))) (max64 (bx_per_call env) 1)) w of
        (Inl e, w1) \<Rightarrow> (case first_failed env p [e] w1 of (es, p', w') \<Rightarrow> (Inl es, p', w'))
      | (Inr stored, w1) \<Rightarrow>
          if stored = [] then (if ck_ended (pg_checkpoint (fp_at p)) then first_finish env p w1 else first_page env p w1)
          else case fetch_metadata env p (map ss_id stored) None w1 of
              (GotBroke es, p', w') \<Rightarrow> (Inl es, p', w')
            | (Got (got, items), p', w') \<Rightarrow> commit_refetched env p' stored got items w')"

definition first_next :: "pass_env \<Rightarrow> first_pass \<Rightarrow> world \<Rightarrow> (pass_error list + first_step) \<times> first_pass \<times> world" where
  "first_next env p w =
     (if fp_done p then (Inr \<lparr>ft_done = True, ft_unclassified = 0, ft_added = 0\<rparr>, p, w)
      else if ck_ended (pg_checkpoint (fp_at p)) \<or> 0 < sint (ck_stale (pg_checkpoint (fp_at p))) then first_refetch env p w
      else first_page env p w)"

text \<open>
  \<open>passAccount\<close> of \<open>backfill.go\<close> without its series: the pass opened and asked for its next step, in a unit of
  work that opens the account's session first and hands it over after, until it is done or the process has
  run \<open>n\<close> steps. It tells whether it returned no error.
\<close>

fun first_steps :: "pass_env \<Rightarrow> nat \<Rightarrow> bool \<Rightarrow> first_pass \<Rightarrow> world \<Rightarrow> bool \<times> world" where
  "first_steps env 0 ok p w = (False, w)"
| "first_steps env (Suc n) ok p w =
     (if wd_stopped w \<or> \<not> bx_opens env (wd_moment w) then (False, w)
      else case first_next env p w of
          (Inl es, p', w') \<Rightarrow> (False, w')
        | (Inr st, p', w') \<Rightarrow>
            (let ok = (ok \<and> bx_hands_over env (wd_moment w'))
             in if ft_done st then (ok, w') else first_steps env n ok p' w'))"

definition first_account :: "pass_env \<Rightarrow> nat \<Rightarrow> world \<Rightarrow> bool \<times> world" where
  "first_account env n w =
     (case first_open env w of
        (Inl es, w') \<Rightarrow> (False, w')
      | (Inr p, w') \<Rightarrow> if fp_run p = [] then (True, w') else first_steps env n True p w')"

end
