(* ===== verification/SecondPass.thy ===== *)
theory SecondPass
  imports PassWorld
begin

text \<open>
  \<open>worker/internal/backfill/pass2\<close>: backfill's second pass over one account, with its store in the index's
  database. A pass is opened and asked for its next page until it is done. A panic, which no modelled function
  raises, and the timing of the steps are left out.
\<close>

subsection \<open>The store\<close>

definition state_tx :: "mail_index \<Rightarrow> pass_error + mail_index \<times> (bool \<times> bool \<times> bool \<times> progress2 latest_run)" where
  "state_tx s = (case latest_run_of zero_progress2 (mi_runs2 s) of
     None \<Rightarrow> Inl UnknownRunState
   | Some l \<Rightarrow> Inr (s, (mi_first_ended s, mi_second_ended s, mi_restart s, l)))"

definition start_tx :: "string \<Rightarrow> progress2 pass_start \<Rightarrow> mail_index \<Rightarrow> pass_error + mail_index \<times> unit" where
  "start_tx run st s =
     (if run_held run s then Inl RowsDiffer
      else Inr (record_event run (start_kind st) (Some (ck2_page (p2_checkpoint (ps_from st)))) []
        (s\<lparr>mi_restart := False, mi_runs2 := started_runs run st (mi_runs2 s)\<rparr>), ()))"

definition record_progress2 :: "string \<Rightarrow> progress2 \<Rightarrow> mail_index \<Rightarrow> mail_index" where
  "record_progress2 run p s =
     record_event run ''progress'' (Some (ck2_page (p2_checkpoint p))) [] (s\<lparr>mi_runs2 := progress_row run p (mi_runs2 s)\<rparr>)"

text \<open>The delisting transition; \<open>words\<close> gives the detail its event carries.\<close>

fun delist_rows :: "string list \<Rightarrow> mail_index \<Rightarrow> mail_index \<times> nat" where
  "delist_rows [] s = (s, 0)"
| "delist_rows (d # ds) s =
     (case mark_delisted d s of (s1, k) \<Rightarrow> case delist_rows ds s1 of (s2, n) \<Rightarrow> (s2, k + n))"

definition delist_tx ::
  "(string list \<Rightarrow> string list) \<Rightarrow> string \<Rightarrow> progress2 \<Rightarrow> (nat \<Rightarrow> nat \<Rightarrow> string) \<Rightarrow> mail_index \<Rightarrow> pass_error + mail_index \<times> nat" where
  "delist_tx released run restart words s =
     (let domains = released (restricted_domains s); (s', marked) = delist_rows domains s
      in if marked = 0 then Inr (s', 0)
         else Inr (record_event run ''retry'' (Some 0) (words marked (length domains)) (record_progress2 run restart s'), marked))"

definition requeue_skips_tx :: "string \<Rightarrow> (nat \<Rightarrow> string) \<Rightarrow> mail_index \<Rightarrow> pass_error + mail_index \<times> nat" where
  "requeue_skips_tx run words s =
     (let (s', marked) = requeue_signalled_skips s
      in if marked = 0 then Inr (s', 0) else Inr (record_event run ''retry'' (Some 0) (words marked) s', marked))"

definition refused_bound :: "32 word" where
  "refused_bound = of_nat max_body_bytes"

definition flag_texts :: "content_flags \<Rightarrow> string list" where
  "flag_texts f = (if mfa_code f then [''mfa_code''] else []) @ (if login_link f then [''login_link''] else [])"

text \<open>The rows of one message of a page: what changed, with the number of rows.\<close>

definition outcome_update :: "outcome_row \<Rightarrow> mail_index \<Rightarrow> (mail_index \<times> nat) option" where
  "outcome_update r s =
     (case or_scanned r of
        Some sc \<Rightarrow> Some (record_verdict (flag_texts (sd_flags sc)) (sd_rules sc) (stored_version (sd_version sc))
            (sd_revision sc) (or_id r) s)
      | None \<Rightarrow>
          if or_refused r then Some (record_refusal refused_bound (or_id r) s)
          else if \<not> gate_scans (or_verdict r) then Some (record_skip (gate_state (or_verdict r)) (or_id r) s)
          else None)"

definition commit_outcome :: "outcome_row \<Rightarrow> mail_index \<Rightarrow> pass_error + mail_index" where
  "commit_outcome r s =
     (if \<not> gate_decided (or_verdict r) then Inr s
      else
        (let s = record_decision (or_id r) (if gate_scans (or_verdict r) then ''SCAN'' else ''SKIP'')
                   (gate_reason_string (or_verdict r)) s
         in case outcome_update r s of
             None \<Rightarrow> Inr s
           | Some (s', n) \<Rightarrow> if n = 1 then Inr s' else Inl RowsDiffer))"

definition commit_hits :: "(string \<rightharpoonup> int64) \<Rightarrow> string \<Rightarrow> mail_index \<Rightarrow> pass_error + mail_index" where
  "commit_hits hits d s =
     (case add_scan_hits (case hits d of None \<Rightarrow> 0 | Some n \<Rightarrow> n) d s of
        (s', n) \<Rightarrow> if n = 1 then Inr s' else Inl RowsDiffer)"

definition commit_tx :: "string \<Rightarrow> page2 \<Rightarrow> run_item list \<Rightarrow> progress2 \<Rightarrow> mail_index \<Rightarrow> pass_error + mail_index \<times> unit" where
  "commit_tx run page items p s =
     (let hits = page_hits (pa_outcomes page);
          domains = sort_compact (filter (\<lambda>d. hits d \<noteq> None) (map or_domain (pa_outcomes page)))
      in case each_ok commit_outcome (pa_outcomes page) s of
          Inl e \<Rightarrow> Inl e
        | Inr s \<Rightarrow>
            (case each_ok (commit_hits hits) domains s of
               Inl e \<Rightarrow> Inl e
             | Inr s \<Rightarrow> Inr (record_progress2 run p (fold (record_item run) items s), ())))"

definition finish_tx :: "string \<Rightarrow> mail_index \<Rightarrow> pass_error + mail_index \<times> unit" where
  "finish_tx run s = Inr (record_event run ''finish'' None []
     (s\<lparr>mi_second_ended := True, mi_runs2 := end_run_row run ''succeeded'' [] (mi_runs2 s)\<rparr>), ())"

definition fail_tx :: "string \<Rightarrow> string \<Rightarrow> mail_index \<Rightarrow> pass_error + mail_index \<times> unit" where
  "fail_tx run cause s = Inr (record_event run ''failure'' None cause
     (s\<lparr>mi_runs2 := end_run_row run ''failed'' cause (mi_runs2 s)\<rparr>), ())"

subsection \<open>The pass\<close>

record second_pass =
  bp_run :: string
  bp_at :: progress2
  bp_done :: bool
  bp_compared :: composed

record pass_step =
  pt_done :: bool
  pt_scanned :: int64

definition second_failed ::
  "pass_env \<Rightarrow> second_pass \<Rightarrow> pass_error list \<Rightarrow> world \<Rightarrow> pass_error list \<times> second_pass \<times> world" where
  "second_failed env p cause w =
     (if wd_stopped w then (Stopped # cause, p, w)
      else case in_tx env (fail_tx (bp_run p) (bx_cause env cause)) w of
          (Inl e, w') \<Rightarrow> (cause @ [e], p\<lparr>bp_done := True\<rparr>, w')
        | (Inr _, w') \<Rightarrow> (cause, p\<lparr>bp_done := True\<rparr>, w'))"

subsubsection \<open>One body\<close>

datatype fetched = Arrived message_body "run_item option" | GivenUp run_item | FetchBroke "pass_error list"

lemma again_within_five:
  "on_failure2 f \<in> {Backoff2, Retry2} \<Longrightarrow> sint (at2_attempts f) < 5"
  by (auto simp: on_failure2_def split: if_splits)

text \<open>What a run does after a failed attempt: the body given up, the run ended, or another attempt with the item so far.\<close>

definition broke :: "pass_error list \<times> second_pass \<times> world \<Rightarrow> (fetched + run_item) \<times> second_pass \<times> world" where
  "broke r = (case r of (es, p, w) \<Rightarrow> (Inl (FetchBroke es), p, w))"

definition after_failure ::
  "pass_env \<Rightarrow> second_pass \<Rightarrow> string \<Rightarrow> int64 \<Rightarrow> goerror \<Rightarrow> run_item \<Rightarrow> next2 \<Rightarrow> world \<Rightarrow> (fetched + run_item) \<times> second_pass \<times> world" where
  "after_failure env p i number e x nx w =
     (let cause = [ProviderFailed i e]
      in case nx of
          FailRun2 \<Rightarrow> broke (second_failed env p cause w)
        | Gone2 \<Rightarrow> (Inl (GivenUp (x\<lparr>it_disposition := ''gone''\<rparr>)), p, w)
        | Abandon2 \<Rightarrow> (Inl (GivenUp (x\<lparr>it_disposition := ''abandoned''\<rparr>)), p, w)
        | Refuse2 \<Rightarrow> (Inl (GivenUp (x\<lparr>it_disposition := ''refused''\<rparr>)), p, w)
        | Stop2 \<Rightarrow>
            (case in_tx env (failure_tx (bp_run p) (x\<lparr>it_disposition := ''abandoned''\<rparr>)) w of
               (Inl r, w') \<Rightarrow> broke (second_failed env p (cause @ [r]) w')
             | (Inr _, w') \<Rightarrow> broke (second_failed env p cause w'))
        | _ \<Rightarrow>
            (case in_tx env (event_tx (bp_run p) (if nx = Backoff2 then ''backoff'' else ''retry'') number (bx_text env e)) w of
               (Inl r, w') \<Rightarrow> broke (second_failed env p [r] w')
             | (Inr _, w') \<Rightarrow> (Inr x, p, w')))"

definition asks_for :: "string \<Rightarrow> world \<Rightarrow> world" where
  "asks_for i w = (tick w)\<lparr>wd_asked := wd_asked w @ [i]\<rparr>"

definition fetch_attempt ::
  "pass_env \<Rightarrow> second_pass \<Rightarrow> string \<Rightarrow> int64 \<Rightarrow> run_item option \<Rightarrow> world \<Rightarrow> (fetched + run_item) \<times> second_pass \<times> world" where
  "fetch_attempt env p i number item w =
     (if wd_stopped w then (Inl (FetchBroke [Stopped]), p, w)
      else case bx_body env (wd_moment w) i of
          CallStopped \<Rightarrow> (Inl (FetchBroke [Stopped]), p, (asks_for i w)\<lparr>wd_stopped := True\<rparr>)
        | CallIs b \<Rightarrow> (Inl (Arrived b (map_option (recovered (now_of env (asks_for i w))) item)), p, asks_for i w)
        | CallErr e \<Rightarrow>
            (let now = now_of env (asks_for i w);
                 x = failed_item env (case item of None \<Rightarrow> new_item i number now | Some x \<Rightarrow> x) e now
             in after_failure env p i number e x (on_failure2 \<lparr>at2_class = class_of (Some e), at2_attempts = it_attempts x\<rparr>)
                  (asks_for i w)))"

function fetch_body ::
  "pass_env \<Rightarrow> second_pass \<Rightarrow> string \<Rightarrow> int64 \<Rightarrow> run_item option \<Rightarrow> world \<Rightarrow> fetched \<times> second_pass \<times> world" where
  "fetch_body env p i number item w =
     (case fetch_attempt env p i number item w of
        (Inl r, p', w') \<Rightarrow> (r, p', w')
      | (Inr x, p', w') \<Rightarrow> fetch_body env p' i number (Some x) w')"
  by pat_completeness auto

lemma after_failure_again:
  "after_failure env p i number e x nx w = (Inr y, p', w') \<Longrightarrow> y = x \<and> nx \<in> {Backoff2, Retry2}"
  by (auto simp: after_failure_def broke_def Let_def split: next2.splits prod.splits sum.splits)

lemma fetch_attempt_again:
  assumes "fetch_attempt env p i number item w = (Inr y, p', w')"
  shows "it_attempts y = attempts_of item + 1" "sint (it_attempts y) < 5"
proof -
  obtain e x where "after_failure env p i number e x (on_failure2 \<lparr>at2_class = class_of (Some e), at2_attempts = it_attempts x\<rparr>)
      (asks_for i w) = (Inr y, p', w')" and x: "it_attempts x = attempts_of item + 1"
  proof -
    fix e
    show thesis if "\<And>e x. after_failure env p i number e x (on_failure2 \<lparr>at2_class = class_of (Some e), at2_attempts = it_attempts x\<rparr>)
        (asks_for i w) = (Inr y, p', w') \<Longrightarrow> it_attempts x = attempts_of item + 1 \<Longrightarrow> thesis"
      using assms that
      by (auto simp: fetch_attempt_def Let_def failed_item_def new_item_def attempts_of_def split: if_splits call_answer.splits option.splits)
  qed
  note again = after_failure_again [OF this(1)]
  show "it_attempts y = attempts_of item + 1" using again x by simp
  show "sint (it_attempts y) < 5" using again_within_five [OF conjunct2 [OF again]] again by simp
qed

termination fetch_body
proof (relation "measure (\<lambda>(env, p, i, number, item, w). unat (5 - attempts_of item))", goal_cases)
  case 1
  then show ?case by simp
next
  case (2 env p i number item w res r x p' w')
  then have a: "fetch_attempt env p i number item w = (Inr x, p', w')" by simp
  show ?case
    using fewer_left [of "attempts_of item"] fetch_attempt_again [OF a] by (simp add: attempts_of_def)
qed

subsubsection \<open>One page\<close>

datatype scan_result = ScanDone "scanned option" "run_item option" bool | ScanBroke "pass_error list"

text \<open>\<open>scan\<close>: the body fetched, rendered and scanned, or the item that says why not.\<close>

definition refused_render :: "string \<Rightarrow> int64 \<Rightarrow> run_item option \<Rightarrow> string \<Rightarrow> unix_milli \<Rightarrow> run_item" where
  "refused_render i number item why now =
     \<lparr>it_kind = ''message'', it_id = i, it_page = number, it_class = error_class_string RefusedClass,
      it_summary = ''the conversion refused the body: '' @ why,
      it_attempts = (case item of None \<Rightarrow> 1 | Some x \<Rightarrow> it_attempts x),
      it_first = (case item of None \<Rightarrow> now | Some x \<Rightarrow> it_first x), it_last = now, it_disposition = ''refused''\<rparr>"

definition scan_body :: "pass_env \<Rightarrow> second_pass \<Rightarrow> string \<Rightarrow> int64 \<Rightarrow> world \<Rightarrow> scan_result \<times> second_pass \<times> world" where
  "scan_body env p i number w =
     (case fetch_body env p i number None w of
        (FetchBroke es, p', w') \<Rightarrow> (ScanBroke es, p', w')
      | (GivenUp x, p', w') \<Rightarrow> (ScanDone None (Some x) (it_disposition x = ''refused''), p', w')
      | (Arrived b item, p', w') \<Rightarrow>
          (case bx_render env b of
             Inl why \<Rightarrow> (ScanDone None (Some (refused_render i number item why (now_of env w'))) True, p', w')
           | Inr text \<Rightarrow> (ScanDone (Some (index_scan (bx_unicode env) (bx_log2 env) (bx_scanner env) text)) item False, p', w')))"

definition hits_at :: "(string \<rightharpoonup> int64) \<Rightarrow> string \<Rightarrow> int64" where
  "hits_at hits d = (case hits d of None \<Rightarrow> 0 | Some n \<Rightarrow> n)"

definition hits_after :: "(string \<rightharpoonup> int64) \<Rightarrow> outcome_row \<Rightarrow> string \<rightharpoonup> int64" where
  "hits_after hits r = (if flagged_outcome r then hits(or_domain r \<mapsto> hits_at hits (or_domain r) + 1) else hits)"

definition gated :: "'e pass_env_scheme \<Rightarrow> policy \<Rightarrow> unix_milli \<Rightarrow> (string \<rightharpoonup> int64) \<Rightarrow> waiting \<Rightarrow> outcome_row" where
  "gated env composed now hits m =
     \<lparr>or_id = wt_id m, or_domain = wt_domain m,
      or_verdict = index_gate (bx_unicode env) composed (bx_gate env) now m (hits_at hits (wt_domain m)),
      or_scanned = None, or_refused = False\<rparr>"

text \<open>The messages of a page, each decided after the scan of the one before it.\<close>

fun decide_page ::
  "pass_env \<Rightarrow> policy \<Rightarrow> unix_milli \<Rightarrow> int64 \<Rightarrow> (string \<rightharpoonup> int64) \<Rightarrow> second_pass \<Rightarrow> waiting list \<Rightarrow> world \<Rightarrow>
     (pass_error list + outcome_row list \<times> run_item list) \<times> second_pass \<times> world" where
  "decide_page env composed now number hits p [] w = (Inr ([], []), p, w)"
| "decide_page env composed now number hits p (m # ms) w =
     (let r = gated env composed now hits m
      in case (if gate_scans (or_verdict r) then scan_body env p (wt_id m) number w else (ScanDone None None False, p, w)) of
          (ScanBroke es, p', w') \<Rightarrow> (Inl es, p', w')
        | (ScanDone sc item refused, p', w') \<Rightarrow>
            (let r = r\<lparr>or_scanned := sc, or_refused := refused\<rparr>
             in case decide_page env composed now number (hits_after hits r) p' ms w' of
                 (Inl es, p'', w'') \<Rightarrow> (Inl es, p'', w'')
               | (Inr (rs, items), p'', w'') \<Rightarrow>
                   (Inr (r # rs, (case item of None \<Rightarrow> items | Some x \<Rightarrow> x # items)), p'', w'')))"

subsubsection \<open>Opening and going on\<close>

definition compare_policy :: "pass_env \<Rightarrow> second_pass \<Rightarrow> policy \<Rightarrow> world \<Rightarrow> pass_error list option \<times> second_pass \<times> world" where
  "compare_policy env p composed w =
     (let restart = restart_pass2 (bp_at p)
      in case in_tx env (delist_tx (delisted (bx_unicode env) composed) (bp_run p) restart (bx_delisted env)) w of
          (Inl e, w') \<Rightarrow> (case second_failed env p [e] w' of (es, p', w'') \<Rightarrow> (Some es, p', w''))
        | (Inr marked, w') \<Rightarrow> (None, p\<lparr>bp_at := (if 0 < marked then restart else bp_at p), bp_compared := pol_composed composed\<rparr>, w'))"

text \<open>What a run does once it is recorded: the comparison under the policy in force, and the signalled skips.\<close>

definition open_compared :: "pass_env \<Rightarrow> second_pass \<Rightarrow> world \<Rightarrow> (pass_error list + second_pass) \<times> world" where
  "open_compared env p w =
     (case compare_policy env p (bx_policy env (wd_moment w)) w of
        (Some es, _, w1) \<Rightarrow> (Inl es, w1)
      | (None, p', w1) \<Rightarrow>
          (case in_tx env (requeue_skips_tx (bp_run p) (bx_requeued env)) w1 of
             (Inl e, w2) \<Rightarrow> (case second_failed env p' [e] w2 of (es, _, w3) \<Rightarrow> (Inl es, w3))
           | (Inr _, w2) \<Rightarrow> (Inr p', w2)))"

definition over_words :: string where
  "over_words = ''a backfill run returned work to pending since the run it resumes stopped, so the pass starts over from the first message waiting for a scan''"

definition second_open :: "pass_env \<Rightarrow> world \<Rightarrow> (pass_error list + second_pass) \<times> world" where
  "second_open env w =
     (case in_tx env state_tx w of
        (Inl e, w1) \<Rightarrow> (Inl [e], w1)
      | (Inr (first_ended, ended, over, latest), w1) \<Rightarrow>
          (let (start, over) = start_over2 (begin_pass2 first_ended ended latest) over;
               run = bx_run_id env (wd_moment w1);
               p = \<lparr>bp_run = run, bp_at = ps_from start, bp_done = False, bp_compared = zero_composed\<rparr>
           in if ps_skip start
              then (Inr \<lparr>bp_run = [], bp_at = zero_progress2, bp_done = True, bp_compared = zero_composed\<rparr>, w1)
              else case in_tx env (start_tx run start) w1 of
                  (Inl e, w2) \<Rightarrow> (Inl [e], w2)
                | (Inr _, w2) \<Rightarrow>
                    (case (if over then in_tx env (event_tx run ''retry'' 0 over_words) w2 else (Inr (), w2)) of
                       (Inl e, w3) \<Rightarrow> (case second_failed env p [e] w3 of (es, _, w4) \<Rightarrow> (Inl es, w4))
                     | (Inr _, w3) \<Rightarrow> open_compared env p w3)))"

definition pending_tx :: "walk_position \<Rightarrow> int64 \<Rightarrow> mail_index \<Rightarrow> pass_error + mail_index \<times> waiting list" where
  "pending_tx after n s = Inr (s, pending_page after n s)"

text \<open>The page after the checkpoint, under the policy its run last compared.\<close>

definition next_page :: "pass_env \<Rightarrow> policy \<Rightarrow> second_pass \<Rightarrow> world \<Rightarrow> (pass_error list + pass_step) \<times> second_pass \<times> world" where
  "next_page env composed p w =
     (case in_tx env (pending_tx (ck2_after (p2_checkpoint (bp_at p))) (bx_page_size env)) w of
        (Inl e, w1) \<Rightarrow> (case second_failed env p [e] w1 of (es, p', w') \<Rightarrow> (Inl es, p', w'))
      | (Inr ms, w1) \<Rightarrow>
          if ms = [] then
            (case in_tx env (finish_tx (bp_run p)) w1 of
               (Inl e, w2) \<Rightarrow> (case second_failed env p [e] w2 of (es, p', w') \<Rightarrow> (Inl es, p', w'))
             | (Inr _, w2) \<Rightarrow> (Inr \<lparr>pt_done = True, pt_scanned = 0\<rparr>, p\<lparr>bp_done := True\<rparr>, w2))
          else
            (case decide_page env composed (now_of env w1) (ck2_page (p2_checkpoint (bp_at p)) + 1) Map.empty p ms w1 of
               (Inl es, p', w2) \<Rightarrow> (Inl es, p', w2)
             | (Inr (rs, items), p', w2) \<Rightarrow>
                 (let page = \<lparr>pa_outcomes = rs, pa_last = \<lparr>wp_sent_at = wt_sent_at (last ms), wp_id = wt_id (last ms)\<rparr>\<rparr>;
                      at' = advance_pass2 (bp_at p) page
                  in case in_tx env (commit_tx (bp_run p) page items at') w2 of
                      (Inl e, w3) \<Rightarrow> (case second_failed env p' [e] w3 of (es, p'', w') \<Rightarrow> (Inl es, p'', w'))
                    | (Inr _, w3) \<Rightarrow>
                        (Inr \<lparr>pt_done = False, pt_scanned = c2_scanned (p2_counters at') - c2_scanned (p2_counters (bp_at p))\<rparr>,
                         p'\<lparr>bp_at := at'\<rparr>, w3))))"

definition second_next :: "pass_env \<Rightarrow> second_pass \<Rightarrow> world \<Rightarrow> (pass_error list + pass_step) \<times> second_pass \<times> world" where
  "second_next env p w =
     (if bp_done p then (Inr \<lparr>pt_done = True, pt_scanned = 0\<rparr>, p, w)
      else let composed = bx_policy env (wd_moment w)
           in if composed_equal (bx_unicode env) (pol_composed composed) (bp_compared p)
              then next_page env composed p w
              else case compare_policy env p composed w of
                  (Some es, p', w') \<Rightarrow> (Inl es, p', w')
                | (None, p', w') \<Rightarrow> next_page env composed p' w')"

subsection \<open>The run-start step\<close>

record reopened =
  ro_verdicts :: nat
  ro_refusals :: nat
  ro_skips :: nat
  ro_subjects :: nat

definition remask_batch :: nat where
  "remask_batch = 5000"

text \<open>
  \<open>remaskStored\<close>: a batch of subjects read, masked again and written back, until none is left. Each batch
  starts after the last identifier of the one before it.
\<close>

definition write_batch :: "stamp \<Rightarrow> index_message list \<Rightarrow> mail_index \<Rightarrow> pass_error + mail_index" where
  "write_batch st ms s =
     (let v = stored_version (st_version st);
          (s', n) = remask_stored_subjects (map (\<lambda>m. (im_id m, im_subject m, im_subject_masked m)) ms) v (st_revision st) s
      in if n \<noteq> length ms then Inl RowsDiffer
         else Inr (record_maskings (concat (map (\<lambda>m. map (\<lambda>e. \<lparr>mk_id = im_id m, mk_rule = me_rule e, mk_tier = me_tier e,
                mk_version = v, mk_revision = st_revision st\<rparr>) (im_masks m)) ms)) s'))"

lemma write_batch_ids: "write_batch st ms s = Inr s' \<Longrightarrow> map sm_id (mi_messages s') = map sm_id (mi_messages s)"
  by (auto simp: write_batch_def Let_def remask_stored_subjects_def update_where_def record_maskings_def set_subject_def
      split: if_splits option.split)

lemma stale_unmasked_after:
  assumes "stale_unmasked_subjects v r after n s \<noteq> []"
  shows "\<exists>m \<in> set (mi_messages s). sm_id m = ss_id (last (stale_unmasked_subjects v r after n s)) \<and> after < sm_id m"
proof -
  have "last (stale_unmasked_subjects v r after n s) \<in> set (stale_unmasked_subjects v r after n s)"
    using assms by (rule last_in_set)
  then show ?thesis by (auto simp: stale_unmasked_subjects_def subject_row_def dest!: in_set_takeD)
qed

function remask_stored ::
  "(stored_subject list \<Rightarrow> index_message list) \<Rightarrow> stamp \<Rightarrow> string \<Rightarrow> nat \<Rightarrow> mail_index \<Rightarrow> pass_error + mail_index \<times> nat" where
  "remask_stored remasked st after made s =
     (let rows = stale_unmasked_subjects (stored_version (st_version st)) (st_revision st) after remask_batch s
      in if rows = [] then Inr (s, made)
         else case write_batch st (remasked rows) s of
             Inl e \<Rightarrow> Inl e
           | Inr s' \<Rightarrow>
               if length rows < remask_batch then Inr (s', made + length (remasked rows))
               else remask_stored remasked st (ss_id (last rows)) (made + length (remasked rows)) s')"
  by pat_completeness auto

termination remask_stored
proof (relation "measure (\<lambda>(f, st, after, made, s). length (filter (\<lambda>i. after < i) (map sm_id (mi_messages s))))", goal_cases)
  case 1
  then show ?case by simp
next
  case (2 remasked st after made s rows s')
  have ids: "map sm_id (mi_messages s') = map sm_id (mi_messages s)" using 2(3) by (rule write_batch_ids)
  obtain m where m: "m \<in> set (mi_messages s)" "sm_id m = ss_id (last rows)" "after < sm_id m"
    using stale_unmasked_after 2(1,2) by blast
  have "filter (\<lambda>i. ss_id (last rows) < i) xs = filter (\<lambda>i. ss_id (last rows) < i) (filter (\<lambda>i. after < i) xs)" for xs
    unfolding filter_filter by (rule filter_cong) (use m in auto)
  moreover have "length (filter (\<lambda>i. ss_id (last rows) < i) (filter (\<lambda>i. after < i) (map sm_id (mi_messages s)))) <
      length (filter (\<lambda>i. after < i) (map sm_id (mi_messages s)))"
    by (rule length_filter_less [of "sm_id m"]) (use m in \<open>auto simp flip: m(2)\<close>)
  ultimately show ?case unfolding in_measure split_conv ids by simp
qed

declare fetch_body.simps [simp del] remask_stored.simps [simp del]

definition requeue_overturned :: "(waiting list \<Rightarrow> string list) \<Rightarrow> mail_index \<Rightarrow> pass_error + mail_index \<times> nat" where
  "requeue_overturned over s =
     (let ids = over (gate_skips s)
      in if ids = [] then Inr (s, 0)
         else case requeue_gate_skips ids s of (s', n) \<Rightarrow> if n \<noteq> length ids then Inl RowsDiffer else Inr (s', length ids))"

definition recount_one :: "string \<Rightarrow> mail_index \<Rightarrow> pass_error + mail_index" where
  "recount_one d s = (case recount_scan_hits d s of (s', n) \<Rightarrow> if n = 1 then Inr s' else Inl RowsDiffer)"

definition reopen_tx ::
  "stamp \<Rightarrow> (stored_subject list \<Rightarrow> index_message list) \<Rightarrow> (waiting list \<Rightarrow> string list) \<Rightarrow> mail_index \<Rightarrow>
     pass_error + mail_index \<times> reopened" where
  "reopen_tx st remasked over s =
     (let v = stored_version (st_version st);
          (s, domains) = requeue_stale_verdicts v (st_revision st) s
      in case each_ok recount_one (sort_compact domains) s of
          Inl e \<Rightarrow> Inl e
        | Inr s \<Rightarrow>
            (case requeue_refusals refused_bound s of
               (s, refusals) \<Rightarrow>
                 (case remask_stored remasked st [] 0 s of
                    Inl e \<Rightarrow> Inl e
                  | Inr (s, subjects) \<Rightarrow>
                      (case requeue_overturned over s of
                         Inl e \<Rightarrow> Inl e
                       | Inr (s, skips) \<Rightarrow>
                           (let marked = \<lparr>ro_verdicts = length domains, ro_refusals = refusals, ro_skips = skips, ro_subjects = subjects\<rparr>
                            in Inr (if domains = [] \<and> refusals = 0 \<and> skips = 0 \<and> subjects = 0 \<and>
                                       \<not> stale_subject v (st_revision st) s
                                    then s
                                    else s\<lparr>mi_second_ended := False, mi_restart := True\<rparr>, marked))))))"

definition second_reopen :: "pass_env \<Rightarrow> world \<Rightarrow> (pass_error + reopened) \<times> world" where
  "second_reopen env w =
     (let now = now_of env w; composed = bx_policy env (wd_moment w)
      in in_tx env (reopen_tx (stamp_of (bx_scanner env))
           (\<lambda>stored. remasked_stored (bx_unicode env) (bx_log2 env) stored (bx_scanner env))
           (overturned (bx_unicode env) composed (bx_gate env) now)) w)"

subsection \<open>A run's pages\<close>

text \<open>
  \<open>secondPassAccount\<close> of \<open>backfill.go\<close> without the account's session and its series: the pass opened and asked
  for its next page until it is done, or the context has ended after \<open>n\<close> pages.
\<close>

fun second_pages :: "pass_env \<Rightarrow> nat \<Rightarrow> second_pass \<Rightarrow> world \<Rightarrow> world" where
  "second_pages env 0 p w = w"
| "second_pages env (Suc n) p w =
     (if wd_stopped w then w
      else case second_next env p w of
          (Inl es, p', w') \<Rightarrow> w'
        | (Inr st, p', w') \<Rightarrow> if pt_done st then w' else second_pages env n p' w')"

definition second_account :: "pass_env \<Rightarrow> nat \<Rightarrow> world \<Rightarrow> world" where
  "second_account env n w =
     (case second_open env w of
        (Inl es, w') \<Rightarrow> w'
      | (Inr p, w') \<Rightarrow> if bp_run p = [] then w' else second_pages env n p w')"

text \<open>What backfill does to the second pass of an account over time, each time in a process of its own.\<close>

datatype second_act = Reopens | RunsPages nat

definition second_does :: "pass_env \<times> second_act \<Rightarrow> world \<Rightarrow> world" where
  "second_does x w = (let w = w\<lparr>wd_stopped := False\<rparr> in case x of
     (env, Reopens) \<Rightarrow> snd (second_reopen env w)
   | (env, RunsPages n) \<Rightarrow> second_account env n w)"

end
