(* ===== verification/SecondPassFacts.thy ===== *)
theory SecondPassFacts
  imports SecondPass
begin

text \<open>
  What the second pass promises, however its transactions and calls fail and wherever it is stopped: its
  run can be resumed from what is stored without passing over a waiting message, it ends only when every
  message still waiting has a failed item on record, and it asks for no body of a restricted sender.
\<close>

subsection \<open>Where a pass stands\<close>

definition excused :: "mail_index \<Rightarrow> string \<Rightarrow> bool" where
  "excused s i \<longleftrightarrow> (\<exists>f \<in> set (mi_failures s). fr_kind f = ''message'' \<and> fr_item f = i)"

definition ids_ok :: "mail_index \<Rightarrow> bool" where
  "ids_ok s \<longleftrightarrow> distinct (map sm_id (mi_messages s)) \<and> [] \<notin> sm_id ` set (mi_messages s)"

text \<open>Every message that waits and has no failed item is after the position.\<close>

definition waits_ahead :: "walk_position \<Rightarrow> mail_index \<Rightarrow> bool" where
  "waits_ahead pos s \<longleftrightarrow>
     (\<forall>m \<in> set (mi_messages s). sm_state m = Pending \<longrightarrow> excused s (sm_id m) \<or> walked_before pos m)"

definition all_excused :: "mail_index \<Rightarrow> bool" where
  "all_excused s \<longleftrightarrow> (\<forall>m \<in> set (mi_messages s). sm_state m = Pending \<longrightarrow> excused s (sm_id m))"

text \<open>A gate skip of a message whose subject is masked, which a pass returns to waiting when it opens.\<close>

definition signalled :: "mail_index \<Rightarrow> bool" where
  "signalled s \<longleftrightarrow> (\<exists>m \<in> set (mi_messages s). sm_state m = SkippedGate \<and> sm_subject_masked m)"

definition position_of :: "progress2 \<Rightarrow> walk_position" where
  "position_of p = ck2_after (p2_checkpoint p)"

definition next_start :: "mail_index \<Rightarrow> progress2 latest_run \<Rightarrow> progress2 pass_start" where
  "next_start s l = fst (start_over2 (begin_pass2 True (mi_second_ended s) l) (mi_restart s))"

text \<open>
  What is stored between the transactions: the next run would read on from a position no waiting message
  is behind, and would start over while a signalled skip is stored; an ended pass has neither.
\<close>

definition stands :: "mail_index \<Rightarrow> bool" where
  "stands s \<longleftrightarrow> ids_ok s \<and> (\<exists>l. latest_run_of zero_progress2 (mi_runs2 s) = Some l \<and>
     (lr_found l \<longrightarrow> lr_run_id l \<noteq> []) \<and>
     (if ps_skip (next_start s l) then all_excused s \<and> \<not> signalled s
      else waits_ahead (position_of (ps_from (next_start s l))) s \<and>
           (signalled s \<longrightarrow> wp_id (position_of (ps_from (next_start s l))) = [])))"

definition runs_on :: "second_pass \<Rightarrow> mail_index \<Rightarrow> bool" where
  "runs_on p s \<longleftrightarrow> ids_ok s \<and> \<not> mi_second_ended s \<and> \<not> mi_restart s \<and> bp_run p \<noteq> [] \<and>
     (\<exists>r rs. mi_runs2 s = r # rs \<and> ru_id r = bp_run p \<and> ru_state r = ''running'' \<and> ru_progress r = bp_at p) \<and>
     waits_ahead (position_of (bp_at p)) s \<and> (signalled s \<longrightarrow> wp_id (position_of (bp_at p)) = [])"

lemma runs_on_stands: "runs_on p s \<Longrightarrow> stands s"
  by (auto simp: runs_on_def stands_def latest_run_of_def run_state_named_def next_start_def begin_pass2_def begin_pass_def
      start_over2_def)

subsection \<open>What changes neither messages nor runs\<close>

definition only_more_failures :: "mail_index \<Rightarrow> mail_index \<Rightarrow> bool" where
  "only_more_failures s s' \<longleftrightarrow> mi_messages s' = mi_messages s \<and> mi_runs2 s' = mi_runs2 s \<and>
     mi_second_ended s' = mi_second_ended s \<and> mi_restart s' = mi_restart s \<and> mi_first_ended s' = mi_first_ended s \<and>
     set (mi_failures s) \<subseteq> set (mi_failures s')"

lemma only_more_failures_refl [simp]: "only_more_failures s s"
  by (simp add: only_more_failures_def)

lemma only_more_failures_trans [trans]:
  "only_more_failures a b \<Longrightarrow> only_more_failures b c \<Longrightarrow> only_more_failures a c"
  by (auto simp: only_more_failures_def)

lemma excused_mono: "set (mi_failures s) \<subseteq> set (mi_failures s') \<Longrightarrow> excused s i \<Longrightarrow> excused s' i"
  by (auto simp: excused_def)

lemma only_more_failures_keeps:
  assumes "only_more_failures s s'"
  shows "stands s \<Longrightarrow> stands s'" "runs_on p s \<Longrightarrow> runs_on p s'" "signalled s' = signalled s"
proof -
  have m: "mi_messages s' = mi_messages s" "mi_runs2 s' = mi_runs2 s" "mi_second_ended s' = mi_second_ended s"
      "mi_restart s' = mi_restart s" and f: "set (mi_failures s) \<subseteq> set (mi_failures s')"
    using assms by (simp_all add: only_more_failures_def)
  have ids: "ids_ok s' = ids_ok s" by (simp add: ids_ok_def m)
  have ahead: "waits_ahead pos s \<Longrightarrow> waits_ahead pos s'" for pos
    using excused_mono [OF f] by (auto simp: waits_ahead_def m)
  have ex: "all_excused s \<Longrightarrow> all_excused s'" using excused_mono [OF f] by (auto simp: all_excused_def m)
  show sig: "signalled s' = signalled s" by (simp add: signalled_def m)
  show "stands s'" if st: "stands s"
  proof -
    obtain l where l: "latest_run_of zero_progress2 (mi_runs2 s) = Some l" using st by (auto simp: stands_def)
    then show ?thesis using st ahead ex by (auto simp: stands_def m ids sig next_start_def split: if_splits)
  qed
  show "runs_on p s'" if "runs_on p s" using that ahead by (auto simp: runs_on_def m ids sig)
qed

lemma event_tx_more: "event_tx run kind page detail s = Inr (s', x) \<Longrightarrow> only_more_failures s s'"
  by (auto simp: event_tx_def record_event_def only_more_failures_def)

lemma failure_tx_more: "failure_tx run i s = Inr (s', x) \<Longrightarrow> only_more_failures s s'"
  by (auto simp: failure_tx_def record_item_def only_more_failures_def)

lemma ended_row_latest:
  "latest_run_of z (end_run_row run ''failed'' cause runs) =
     map_option (\<lambda>l. if lr_found l \<and> lr_run_id l = run \<and> lr_state l = RunRunning then l\<lparr>lr_state := RunFailed\<rparr> else l)
       (latest_run_of z runs)"
  by (cases runs) (auto simp: latest_run_of_def end_run_row_def run_state_named_def option.map_comp)

lemma next_start_failed:
  assumes "lr_found l" "lr_state l = RunRunning"
  shows "ps_skip (next_start s (l\<lparr>lr_state := RunFailed\<rparr>)) = ps_skip (next_start s l)"
    "ps_from (next_start s (l\<lparr>lr_state := RunFailed\<rparr>)) = ps_from (next_start s l)"
  using assms by (simp_all add: next_start_def begin_pass2_def begin_pass_def start_over2_def)

lemma fail_tx_stands:
  assumes "stands s" "fail_tx run cause s = Inr (s', x)"
  shows "stands s'"
proof -
  have s': "mi_messages s' = mi_messages s" "mi_failures s' = mi_failures s" "mi_second_ended s' = mi_second_ended s"
      "mi_restart s' = mi_restart s" "mi_runs2 s' = end_run_row run ''failed'' cause (mi_runs2 s)"
    using assms(2) by (auto simp: fail_tx_def record_event_def)
  have same: "ids_ok s' = ids_ok s" "waits_ahead pos s' = waits_ahead pos s" "all_excused s' = all_excused s"
      "signalled s' = signalled s" for pos
    by (simp_all add: ids_ok_def waits_ahead_def all_excused_def signalled_def excused_def s')
  obtain l where l: "latest_run_of zero_progress2 (mi_runs2 s) = Some l" using assms(1) by (auto simp: stands_def)
  define l' where "l' = (if lr_found l \<and> lr_run_id l = run \<and> lr_state l = RunRunning then l\<lparr>lr_state := RunFailed\<rparr> else l)"
  have "latest_run_of zero_progress2 (mi_runs2 s') = Some l'" by (simp add: s' ended_row_latest l l'_def)
  moreover have "lr_found l' = lr_found l" "lr_run_id l' = lr_run_id l" by (simp_all add: l'_def)
  moreover have next_start: "next_start s' = next_start s" by (simp add: next_start_def s' fun_eq_iff)
  moreover have "ps_skip (next_start s' l') = ps_skip (next_start s l)" "ps_from (next_start s' l') = ps_from (next_start s l)"
    using next_start_failed [of l s] by (auto simp: l'_def next_start)
  ultimately show ?thesis using assms(1) l by (simp add: stands_def same)
qed

lemma second_failed_keeps:
  assumes "second_failed env p cause w = (es, p', w')" "stands (wd_index w)"
  shows "stands (wd_index w')" "wd_stopped w' \<or> bp_done p'" "wd_asked w' = wd_asked w"
proof -
  have "stands (wd_index (snd (in_tx env (fail_tx (bp_run p) (bx_cause env cause)) w)))"
    by (rule in_tx_index) (use assms(2) fail_tx_stands in blast)+
  then show "stands (wd_index w')" using assms by (auto simp: second_failed_def split: if_splits sum.splits prod.splits)
  show "wd_stopped w' \<or> bp_done p'" using assms by (auto simp: second_failed_def split: if_splits sum.splits prod.splits)
  show "wd_asked w' = wd_asked w"
    using assms(1) in_tx_asked by (auto simp: second_failed_def split: if_splits sum.splits prod.splits)
qed

subsection \<open>One body\<close>

definition item_of :: "string \<Rightarrow> run_item \<Rightarrow> bool" where
  "item_of i x \<longleftrightarrow> it_kind x = ''message'' \<and> it_id x = i"

definition fetch_keeps :: "second_pass \<Rightarrow> string \<Rightarrow> world \<Rightarrow> fetched \<Rightarrow> second_pass \<Rightarrow> world \<Rightarrow> bool" where
  "fetch_keeps p i w r p' w' \<longleftrightarrow>
     stands (wd_index w') \<and> (\<exists>k. wd_asked w' = wd_asked w @ replicate k i) \<and>
     (case r of
        FetchBroke es \<Rightarrow> wd_stopped w' \<or> bp_done p'
      | GivenUp x \<Rightarrow> p' = p \<and> \<not> wd_stopped w' \<and> only_more_failures (wd_index w) (wd_index w') \<and> item_of i x
      | Arrived b x \<Rightarrow> p' = p \<and> \<not> wd_stopped w' \<and> only_more_failures (wd_index w) (wd_index w'))"

lemma one_replicate: "\<exists>k. [i] = replicate k i"
  by (rule exI [of _ 1]) simp

lemma asked_parts [simp]:
  "wd_index (asks_for i w) = wd_index w" "wd_asked (asks_for i w) = wd_asked w @ [i]" "wd_stopped (asks_for i w) = wd_stopped w"
  by (simp_all add: asks_for_def tick_def)

lemma fetch_keeps_broke:
  assumes "second_failed env p cause w1 = (es, p', w')" "stands (wd_index w1)" "wd_asked w1 = wd_asked w @ replicate k i"
  shows "fetch_keeps p i w (FetchBroke es) p' w'"
  using second_failed_keeps [OF assms(1,2)] assms(3) by (auto simp: fetch_keeps_def)

lemma fetch_keeps_later:
  assumes "fetch_keeps p i w2 r p' w'" "only_more_failures (wd_index w) (wd_index w2)" "wd_asked w2 = wd_asked w @ [i]"
  shows "fetch_keeps p i w r p' w'"
proof -
  obtain k where k: "wd_asked w' = wd_asked w2 @ replicate k i" using assms(1) by (auto simp: fetch_keeps_def)
  have "wd_asked w' = wd_asked w @ replicate (Suc k) i" using k assms(3) by simp
  then have "\<exists>k. wd_asked w' = wd_asked w @ replicate k i" by blast
  moreover have "only_more_failures (wd_index w2) s \<Longrightarrow> only_more_failures (wd_index w) s" for s
    using assms(2) only_more_failures_trans by blast
  ultimately show ?thesis using assms(1) unfolding fetch_keeps_def by (cases r) simp_all
qed

text \<open>A transaction of a fetch, which only adds to the timeline and the failures.\<close>

lemma small_tx:
  assumes "in_tx env f w = (res, w')" "stands (wd_index w)" "\<And>s s' x. f s = Inr (s', x) \<Longrightarrow> only_more_failures s s'"
  shows "stands (wd_index w')" "wd_asked w' = wd_asked w"
    "res = Inr x \<Longrightarrow> \<not> wd_stopped w' \<and> only_more_failures (wd_index w) (wd_index w')"
proof -
  have "stands (wd_index (snd (in_tx env f w)))"
    by (rule in_tx_index) (use assms(2,3) only_more_failures_keeps(1) in blast)+
  then show "stands (wd_index w')" using assms(1) by simp
  show "wd_asked w' = wd_asked w" by (rule in_tx_asked [OF assms(1)])
  show "\<not> wd_stopped w' \<and> only_more_failures (wd_index w) (wd_index w')" if "res = Inr x"
    using in_tx_took [OF assms(1) [unfolded that]] assms(3) by blast
qed

lemma after_failure_keeps:
  assumes "after_failure env p i number e x nx w = (r, p', w')" "stands (wd_index w)" "\<not> wd_stopped w"
    and "item_of i x" "wd_asked w = wd_asked v @ [i]" "wd_index w = wd_index v"
  shows "case r of Inl r' \<Rightarrow> fetch_keeps p i v r' p' w'
    | Inr y \<Rightarrow> item_of i y \<and> p' = p \<and> stands (wd_index w') \<and> \<not> wd_stopped w' \<and> wd_asked w' = wd_asked v @ [i] \<and>
          only_more_failures (wd_index v) (wd_index w')"
proof -
  have one: "wd_asked w = wd_asked v @ replicate 1 i" using assms(5) by simp
  have gave: "fetch_keeps p i v (GivenUp (x\<lparr>it_disposition := d\<rparr>)) p w" for d
    using assms(2-6) one unfolding fetch_keeps_def by (auto simp: item_of_def intro: exI [of _ 1])
  have broke: "\<exists>r'. r = Inl r' \<and> fetch_keeps p i v r' p' w'"
    if "broke (second_failed env p cause w1) = (r, p', w')" "stands (wd_index w1)" "wd_asked w1 = wd_asked w" for cause w1
    using fetch_keeps_broke [of env p cause w1 _ _ _ v 1 i] that one
    by (auto simp: broke_def split: prod.splits)
  have again: "nx \<in> {Backoff2, Retry2} \<Longrightarrow> ?thesis"
  proof -
    assume nx: "nx \<in> {Backoff2, Retry2}"
    let ?f = "event_tx (bp_run p) (if nx = Backoff2 then ''backoff'' else ''retry'') number (bx_text env e)"
    show ?thesis
    proof (cases "in_tx env ?f w")
      case (Pair res w2)
      have more: "\<And>s s' x. ?f s = Inr (s', x) \<Longrightarrow> only_more_failures s s'" by (rule event_tx_more)
      note t = small_tx(1,2) [where f = ?f, OF Pair assms(2) more]
        and took = small_tx(3) [where f = ?f and x = "()", OF Pair assms(2) more]
      show ?thesis
      proof (cases res)
        case (Inl e1)
        then have "broke (second_failed env p [e1] w2) = (r, p', w')"
          using assms(1) nx Pair by (auto simp: after_failure_def split: next2.splits)
        from broke [OF this t] show ?thesis by auto
      next
        case (Inr u)
        then have "r = Inr x" "p' = p" "w' = w2" using assms(1) nx Pair by (auto simp: after_failure_def split: next2.splits)
        then show ?thesis using t took Inr assms(4-6) by simp
      qed
    qed
  qed
  show ?thesis
  proof (cases nx)
    case FailRun2
    then have "broke (second_failed env p [ProviderFailed i e] w) = (r, p', w')" using assms(1) by (simp add: after_failure_def)
    from broke [OF this assms(2) refl] show ?thesis by auto
  next
    case Stop2
    show ?thesis
    proof (cases "in_tx env (failure_tx (bp_run p) (x\<lparr>it_disposition := ''abandoned''\<rparr>)) w")
      case (Pair res w2)
      have more: "\<And>s s' y. failure_tx (bp_run p) (x\<lparr>it_disposition := ''abandoned''\<rparr>) s = Inr (s', y) \<Longrightarrow> only_more_failures s s'"
        by (rule failure_tx_more)
      note t = small_tx(1,2) [where f = "failure_tx (bp_run p) (x\<lparr>it_disposition := ''abandoned''\<rparr>)", OF Pair assms(2) more]
      show ?thesis
      proof (cases res)
        case (Inl e1)
        then have "broke (second_failed env p ([ProviderFailed i e] @ [e1]) w2) = (r, p', w')"
          using assms(1) Stop2 Pair by (simp add: after_failure_def)
        from broke [OF this t] show ?thesis by auto
      next
        case (Inr u)
        then have "broke (second_failed env p [ProviderFailed i e] w2) = (r, p', w')"
          using assms(1) Stop2 Pair by (simp add: after_failure_def)
        from broke [OF this t] show ?thesis by auto
      qed
    qed
  next
    case Backoff2
    then show ?thesis by (intro again) simp
  next
    case Retry2
    then show ?thesis by (intro again) simp
  next
    case Gone2
    then have "r = Inl (GivenUp (x\<lparr>it_disposition := ''gone''\<rparr>)) \<and> p' = p \<and> w' = w" using assms(1) by (simp add: after_failure_def)
    then show ?thesis using gave by simp
  next
    case Abandon2
    then have "r = Inl (GivenUp (x\<lparr>it_disposition := ''abandoned''\<rparr>)) \<and> p' = p \<and> w' = w" using assms(1) by (simp add: after_failure_def)
    then show ?thesis using gave by simp
  next
    case Refuse2
    then have "r = Inl (GivenUp (x\<lparr>it_disposition := ''refused''\<rparr>)) \<and> p' = p \<and> w' = w" using assms(1) by (simp add: after_failure_def)
    then show ?thesis using gave by simp
  qed
qed

lemma fetch_attempt_keeps:
  assumes "fetch_attempt env p i number item w = (r, p', w')" "stands (wd_index w)" "\<not> wd_stopped w"
    and "\<And>x. item = Some x \<Longrightarrow> item_of i x"
  shows "case r of Inl r' \<Rightarrow> fetch_keeps p i w r' p' w'
    | Inr y \<Rightarrow> item_of i y \<and> p' = p \<and> stands (wd_index w') \<and> \<not> wd_stopped w' \<and> wd_asked w' = wd_asked w @ [i] \<and>
        only_more_failures (wd_index w) (wd_index w')"
proof (cases "bx_body env (wd_moment w) i")
  case (CallErr e)
  define x where "x = failed_item env (case item of None \<Rightarrow> new_item i number (now_of env (asks_for i w)) | Some x \<Rightarrow> x) e (now_of env (asks_for i w))"
  have x: "item_of i x"
    by (cases item) (use assms(4) in \<open>simp_all add: x_def failed_item_def new_item_def item_of_def\<close>)
  have "after_failure env p i number e x (on_failure2 \<lparr>at2_class = class_of (Some e), at2_attempts = it_attempts x\<rparr>) (asks_for i w) = (r, p', w')"
    using assms(1) unfolding fetch_attempt_def x_def Let_def by (simp only: assms(3) CallErr if_False call_answer.case)
  from after_failure_keeps [OF this, where v = w] show ?thesis using x assms(2,3) by simp
next
  case (CallIs b)
  then show ?thesis using assms by (auto simp: fetch_attempt_def fetch_keeps_def one_replicate)
next
  case CallStopped
  then show ?thesis using assms by (auto simp: fetch_attempt_def fetch_keeps_def one_replicate)
qed

lemma fetch_body_keeps:
  assumes "fetch_body env p i number item w = (r, p', w')" "stands (wd_index w)" "\<not> wd_stopped w"
    and "\<And>x. item = Some x \<Longrightarrow> item_of i x"
  shows "fetch_keeps p i w r p' w'"
  using assms
proof (induction env p i number item w arbitrary: r p' w' rule: fetch_body.induct)
  case (1 env p i number item w)
  obtain a q w1 where a: "fetch_attempt env p i number item w = (a, q, w1)" by (cases "fetch_attempt env p i number item w") auto
  note keeps = fetch_attempt_keeps [OF a 1(3-5)]
  show ?case
  proof (cases a)
    case (Inl r0)
    then show ?thesis using keeps 1(2) a by (simp add: fetch_body.simps [of env p i number item w])
  next
    case (Inr x)
    then have rec: "fetch_body env p i number (Some x) w1 = (r, p', w')"
      using keeps 1(2) a by (simp add: fetch_body.simps [of env p i number item w])
    have "fetch_keeps p i w1 r p' w'"
      using 1(1) [OF a [symmetric] Inr refl, of r p' w'] keeps Inr rec by auto
    then show ?thesis using keeps Inr fetch_keeps_later by auto
  qed
qed

subsection \<open>One page\<close>

lemma scan_body_keeps:
  assumes "scan_body env p i number w = (r, p', w')" "stands (wd_index w)" "\<not> wd_stopped w"
  shows "stands (wd_index w') \<and> (\<exists>k. wd_asked w' = wd_asked w @ replicate k i) \<and>
    (case r of
       ScanBroke es \<Rightarrow> wd_stopped w' \<or> bp_done p'
     | ScanDone sc item refused \<Rightarrow> p' = p \<and> \<not> wd_stopped w' \<and> only_more_failures (wd_index w) (wd_index w') \<and>
         (sc = None \<longrightarrow> refused \<or> (\<exists>x. item = Some x \<and> item_of i x)))"
proof (cases "fetch_body env p i number None w")
  case (fields f q w1)
  have keeps: "fetch_keeps p i w f q w1" by (rule fetch_body_keeps [OF fields assms(2,3)]) simp
  show ?thesis
  proof (cases f)
    case (Arrived b item)
    then show ?thesis using keeps assms(1) fields
      by (auto simp: scan_body_def fetch_keeps_def split: sum.splits)
  next
    case (GivenUp x)
    then show ?thesis using keeps assms(1) fields by (auto simp: scan_body_def fetch_keeps_def)
  next
    case (FetchBroke es)
    then show ?thesis using keeps assms(1) fields by (auto simp: scan_body_def fetch_keeps_def)
  qed
qed

text \<open>A row that leaves its message waiting has a failed item, unless the gate could not decide.\<close>

definition leaves_waiting :: "outcome_row \<Rightarrow> bool" where
  "leaves_waiting r \<longleftrightarrow> or_scanned r = None \<and> \<not> or_refused r \<and> gate_scans (or_verdict r)"

definition page_decided :: "pass_env \<Rightarrow> policy \<Rightarrow> unix_milli \<Rightarrow> waiting list \<Rightarrow> outcome_row list \<Rightarrow> run_item list \<Rightarrow> bool" where
  "page_decided env composed now ms rs items \<longleftrightarrow> map or_id rs = map wt_id ms \<and>
     (\<forall>r \<in> set rs. \<exists>m \<in> set ms. \<exists>h. wt_id m = or_id r \<and> or_verdict r = index_gate (bx_unicode env) composed (bx_gate env) now m h) \<and>
     (\<forall>r \<in> set rs. leaves_waiting r \<longrightarrow> (\<exists>x \<in> set items. item_of (or_id r) x))"

lemma decide_page_keeps:
  assumes "decide_page env composed now number hits p ms w = (res, p', w')" "stands (wd_index w)" "\<not> wd_stopped w"
  shows "stands (wd_index w') \<and>
    (case res of
       Inl es \<Rightarrow> wd_stopped w' \<or> bp_done p'
     | Inr (rs, items) \<Rightarrow> p' = p \<and> \<not> wd_stopped w' \<and> only_more_failures (wd_index w) (wd_index w') \<and>
         page_decided env composed now ms rs items)"
  using assms
proof (induction ms arbitrary: hits p w res p' w')
  case Nil
  then show ?case by (auto simp: page_decided_def)
next
  case (Cons m ms)
  define r where "r = gated env composed now hits m"
  have verdict: "or_verdict r = index_gate (bx_unicode env) composed (bx_gate env) now m (hits_at hits (wt_domain m))"
    "or_id r = wt_id m" "or_scanned r = None" "\<not> or_refused r" by (simp_all add: r_def gated_def)
  obtain a q w1 where a: "(if gate_scans (or_verdict r) then scan_body env p (wt_id m) number w else (ScanDone None None False, p, w)) = (a, q, w1)"
    by (cases "if gate_scans (or_verdict r) then scan_body env p (wt_id m) number w else (ScanDone None None False, p, w)") auto
  have keeps: "stands (wd_index w1) \<and>
    (case a of
       ScanBroke es \<Rightarrow> wd_stopped w1 \<or> bp_done q
     | ScanDone sc item refused \<Rightarrow> q = p \<and> \<not> wd_stopped w1 \<and> only_more_failures (wd_index w) (wd_index w1) \<and>
         (gate_scans (or_verdict r) \<longrightarrow> sc = None \<longrightarrow> refused \<or> (\<exists>x. item = Some x \<and> item_of (wt_id m) x)))"
    using a Cons.prems(2,3) scan_body_keeps [of env p "wt_id m" number w a q w1] by (auto split: if_splits scan_result.splits)
  show ?case
  proof (cases a)
    case (ScanBroke es)
    then have "res = Inl es \<and> p' = q \<and> w' = w1" using Cons.prems(1) a by (simp add: r_def [symmetric])
    then show ?thesis using keeps ScanBroke by simp
  next
    case (ScanDone sc item refused)
    define r' where "r' = r\<lparr>or_scanned := sc, or_refused := refused\<rparr>"
    obtain b p2 w2 where b: "decide_page env composed now number (hits_after hits r') q ms w1 = (b, p2, w2)"
      by (cases "decide_page env composed now number (hits_after hits r') q ms w1") auto
    have k1: "q = p" "\<not> wd_stopped w1" "only_more_failures (wd_index w) (wd_index w1)" "stands (wd_index w1)"
      using keeps ScanDone by auto
    note ih = Cons.IH [OF b k1(4,2)]
    show ?thesis
    proof (cases b)
      case (Inl es)
      then have "res = Inl es \<and> p' = p2 \<and> w' = w2" using Cons.prems(1) a b ScanDone by (simp add: r_def [symmetric] r'_def [symmetric])
      then show ?thesis using ih Inl by simp
    next
      case (Inr x)
      obtain rs items where x: "x = (rs, items)" by (cases x)
      have res: "res = Inr (r' # rs, (case item of None \<Rightarrow> items | Some x \<Rightarrow> x # items))" "p' = p2" "w' = w2"
        using Cons.prems(1) a b ScanDone Inr x by (simp_all add: r_def [symmetric] r'_def [symmetric])
      have more: "only_more_failures (wd_index w) (wd_index w')"
        using ih Inr x res k1(3) only_more_failures_trans by auto
      have "leaves_waiting r' \<longrightarrow> (\<exists>y. item = Some y \<and> item_of (or_id r') y)"
        using keeps ScanDone verdict by (auto simp: leaves_waiting_def r'_def)
      then have "page_decided env composed now (m # ms) (r' # rs) (case item of None \<Rightarrow> items | Some x \<Rightarrow> x # items)"
        using ih Inr x verdict unfolding page_decided_def
        by (auto simp: r'_def split: option.split)
      then show ?thesis using ih Inr x res more k1(1) by simp
    qed
  qed
qed

text \<open>A body is asked for only where the gate scans.\<close>

lemma decide_page_asks:
  assumes "decide_page env composed now number hits p ms w = (res, p', w')" "stands (wd_index w)" "\<not> wd_stopped w"
  shows "\<exists>asks. wd_asked w' = wd_asked w @ asks \<and>
    (\<forall>i \<in> set asks. \<exists>m \<in> set ms. \<exists>h. wt_id m = i \<and> gate_scans (index_gate (bx_unicode env) composed (bx_gate env) now m h))"
  using assms
proof (induction ms arbitrary: hits p w res p' w')
  case (Cons m ms)
  define r where "r = gated env composed now hits m"
  have verdict: "or_verdict r = index_gate (bx_unicode env) composed (bx_gate env) now m (hits_at hits (wt_domain m))"
    by (simp add: r_def gated_def)
  obtain a q w1 where a: "(if gate_scans (or_verdict r) then scan_body env p (wt_id m) number w else (ScanDone None None False, p, w)) = (a, q, w1)"
    by (cases "if gate_scans (or_verdict r) then scan_body env p (wt_id m) number w else (ScanDone None None False, p, w)") auto
  obtain k where k: "wd_asked w1 = wd_asked w @ replicate k (wt_id m)" "k = 0 \<or> gate_scans (or_verdict r)"
  proof (cases "gate_scans (or_verdict r)")
    case True
    then show ?thesis using that a Cons.prems(2,3) scan_body_keeps [of env p "wt_id m" number w a q w1] by auto
  next
    case False
    then show ?thesis using that [of 0] a by simp
  qed
  have here: "\<forall>i \<in> set (replicate k (wt_id m)). \<exists>n \<in> set (m # ms). \<exists>h. wt_id n = i \<and>
      gate_scans (index_gate (bx_unicode env) composed (bx_gate env) now n h)"
    using k(2) verdict by (auto simp: set_replicate_conv_if)
  show ?case
  proof (cases a)
    case (ScanBroke es)
    then have "w' = w1" using Cons.prems(1) a by (simp add: r_def [symmetric])
    then show ?thesis using k(1) here by blast
  next
    case (ScanDone sc item refused)
    have k1: "stands (wd_index w1)" "\<not> wd_stopped w1"
      using a ScanDone Cons.prems(2,3) scan_body_keeps [of env p "wt_id m" number w a q w1] by (auto split: if_splits)
    obtain b p2 w2 where b: "decide_page env composed now number (hits_after hits (r\<lparr>or_scanned := sc, or_refused := refused\<rparr>)) q ms w1 = (b, p2, w2)"
      by (cases "decide_page env composed now number (hits_after hits (r\<lparr>or_scanned := sc, or_refused := refused\<rparr>)) q ms w1") auto
    have "w' = w2" using Cons.prems(1) a b ScanDone by (auto simp: r_def [symmetric] split: sum.splits prod.splits)
    moreover obtain asks where "wd_asked w2 = wd_asked w1 @ asks"
      "\<forall>i \<in> set asks. \<exists>m \<in> set ms. \<exists>h. wt_id m = i \<and> gate_scans (index_gate (bx_unicode env) composed (bx_gate env) now m h)"
      using Cons.IH [OF b k1] by blast
    ultimately have "wd_asked w' = wd_asked w @ (replicate k (wt_id m) @ asks)" and
      "\<forall>i \<in> set (replicate k (wt_id m) @ asks). \<exists>n \<in> set (m # ms). \<exists>h. wt_id n = i \<and>
        gate_scans (index_gate (bx_unicode env) composed (bx_gate env) now n h)"
      using k(1) here by (auto simp del: set_replicate_conv_if)
    then show ?thesis by blast
  qed
qed simp

subsection \<open>Making a page durable\<close>

text \<open>What only takes messages out of waiting.\<close>

definition scans_on :: "mail_index \<Rightarrow> mail_index \<Rightarrow> bool" where
  "scans_on s s' \<longleftrightarrow> mi_runs2 s' = mi_runs2 s \<and> mi_second_ended s' = mi_second_ended s \<and> mi_restart s' = mi_restart s \<and>
     mi_failures s' = mi_failures s \<and>
     map (\<lambda>m. (sm_id m, sm_subject_masked m)) (mi_messages s') = map (\<lambda>m. (sm_id m, sm_subject_masked m)) (mi_messages s) \<and>
     (\<forall>m \<in> set (mi_messages s'). sm_state m = Pending \<longrightarrow> m \<in> set (mi_messages s))"

lemma scans_on_refl [simp]: "scans_on s s"
  by (simp add: scans_on_def)

lemma scans_on_trans: "scans_on a b \<Longrightarrow> scans_on b c \<Longrightarrow> scans_on a c"
  by (auto simp: scans_on_def)

lemma scans_on_ids: "scans_on s s' \<Longrightarrow> map sm_id (mi_messages s') = map sm_id (mi_messages s)"
proof -
  assume "scans_on s s'"
  then have "map fst (map (\<lambda>m. (sm_id m, sm_subject_masked m)) (mi_messages s')) =
      map fst (map (\<lambda>m. (sm_id m, sm_subject_masked m)) (mi_messages s))"
    by (simp add: scans_on_def)
  then show ?thesis by (simp add: comp_def)
qed

text \<open>A row that was taken out of waiting by a skip of the gate.\<close>

definition skips_signalled :: "outcome_row \<Rightarrow> mail_index \<Rightarrow> bool" where
  "skips_signalled r s \<longleftrightarrow> or_verdict r = HighVolumeNoHits \<and> or_scanned r = None \<and>
     (or_id r, True) \<in> (\<lambda>m. (sm_id m, sm_subject_masked m)) ` set (mi_messages s)"

lemma record_decision_scans_on [simp]: "scans_on s (record_decision i d x s)" "signalled (record_decision i d x s) = signalled s"
  "mi_messages (record_decision i d x s) = mi_messages s"
  by (simp_all add: record_decision_def scans_on_def signalled_def)

lemma outcome_update_on:
  assumes "outcome_update r s = Some (s', n)" "or_scanned r = None \<Longrightarrow> or_refused r \<or> gate_state (or_verdict r) \<noteq> Pending"
  shows "scans_on s s'" "\<forall>m \<in> set (mi_messages s'). sm_state m = Pending \<longrightarrow> sm_id m \<noteq> or_id r"
    "signalled s' \<Longrightarrow> signalled s \<or> skips_signalled r s"
proof -
  obtain f where f: "s' = s\<lparr>mi_messages := map (\<lambda>m. if waiting_named (or_id r) m then f m else m) (mi_messages s)\<rparr>"
    "\<And>m. sm_id (f m) = sm_id m" "\<And>m. sm_subject_masked (f m) = sm_subject_masked m" "\<And>m. sm_state (f m) \<noteq> Pending"
    "\<And>m. sm_state (f m) = SkippedGate \<Longrightarrow> or_verdict r = HighVolumeNoHits \<and> or_scanned r = None"
  proof (cases "or_scanned r")
    case (Some sc)
    show ?thesis
      by (rule that [of "\<lambda>m. m\<lparr>sm_state := Scanned, sm_flags := flag_texts (sd_flags sc), sm_rules := sd_rules sc,
          sm_version := Some (stored_version (sd_version sc)), sm_revision := Some (sd_revision sc)\<rparr>"])
        (use assms(1) Some in \<open>auto simp: outcome_update_def record_verdict_def update_where_def\<close>)
  next
    case None
    show ?thesis
    proof (cases "or_refused r")
      case True
      show ?thesis
        by (rule that [of "\<lambda>m. m\<lparr>sm_state := Refused, sm_bound := Some refused_bound\<rparr>"])
          (use assms(1) None True in \<open>auto simp: outcome_update_def record_refusal_def update_where_def\<close>)
    next
      case False
      show ?thesis
        by (rule that [of "\<lambda>m. m\<lparr>sm_state := gate_state (or_verdict r)\<rparr>"])
          (use assms None False in \<open>auto simp: outcome_update_def record_skip_def update_where_def gate_state_iff split: if_splits\<close>)
    qed
  qed
  show "scans_on s s'" using f(2-4) by (auto simp: scans_on_def f(1) split: if_splits)
  show "\<forall>m \<in> set (mi_messages s'). sm_state m = Pending \<longrightarrow> sm_id m \<noteq> or_id r"
    using f(4) by (auto simp: f(1) waiting_named_def split: if_splits)
  show "signalled s \<or> skips_signalled r s" if sig: "signalled s'"
  proof -
    obtain m where m: "m \<in> set (mi_messages s)" "let m' = (if waiting_named (or_id r) m then f m else m) in sm_state m' = SkippedGate \<and> sm_subject_masked m'"
      using sig by (auto simp: signalled_def f(1) Let_def)
    then show ?thesis
      by (cases "waiting_named (or_id r) m")
        (auto simp: Let_def signalled_def skips_signalled_def f(3) waiting_named_def dest: f(5) intro!: rev_image_eqI)
  qed
qed

lemma commit_outcome_on:
  assumes "commit_outcome r s = Inr s'"
  shows "scans_on s s'"
    "\<forall>m \<in> set (mi_messages s'). sm_state m = Pending \<and> sm_id m = or_id r \<longrightarrow> \<not> gate_decided (or_verdict r) \<or> leaves_waiting r"
    "signalled s' \<Longrightarrow> signalled s \<or> skips_signalled r s"
proof -
  define s1 where "s1 = record_decision (or_id r) (if gate_scans (or_verdict r) then ''SCAN'' else ''SKIP'') (gate_reason_string (or_verdict r)) s"
  have s1: "scans_on s s1" "signalled s1 = signalled s" "skips_signalled r s1 = skips_signalled r s"
    by (simp_all add: s1_def skips_signalled_def)
  have "scans_on s s' \<and>
    (\<forall>m \<in> set (mi_messages s'). sm_state m = Pending \<and> sm_id m = or_id r \<longrightarrow> \<not> gate_decided (or_verdict r) \<or> leaves_waiting r) \<and>
    (signalled s' \<longrightarrow> signalled s \<or> skips_signalled r s)"
  proof (cases "gate_decided (or_verdict r)")
    case False
    then show ?thesis using assms by (simp add: commit_outcome_def)
  next
    case True
    show ?thesis
    proof (cases "outcome_update r s1")
      case None
      then have "s' = s1" using assms True by (simp add: commit_outcome_def s1_def [symmetric])
      moreover have "leaves_waiting r" using None by (auto simp: outcome_update_def leaves_waiting_def split: option.splits if_splits)
      ultimately show ?thesis using s1 by simp
    next
      case (Some x)
      obtain t n where x: "x = (t, n)" by (cases x)
      have t: "s' = t" using assms True Some x by (auto simp: commit_outcome_def s1_def [symmetric] split: if_splits)
      have ne: "or_scanned r = None \<Longrightarrow> or_refused r \<or> gate_state (or_verdict r) \<noteq> Pending"
        using Some True by (cases "or_verdict r") (auto simp: outcome_update_def gate_state_def gate_scans_def gate_decided_def split: if_splits)
      note u = outcome_update_on [OF Some [unfolded x] ne]
      have "scans_on s t" by (rule scans_on_trans [OF s1(1) u(1)])
      then show ?thesis using u(2,3) s1(2,3) t by auto
    qed
  qed
  then show "scans_on s s'"
    "\<forall>m \<in> set (mi_messages s'). sm_state m = Pending \<and> sm_id m = or_id r \<longrightarrow> \<not> gate_decided (or_verdict r) \<or> leaves_waiting r"
    "signalled s' \<Longrightarrow> signalled s \<or> skips_signalled r s" by blast+
qed

lemma each_commit_on:
  assumes "each_ok commit_outcome rs s = Inr s'" "\<And>r. r \<in> set rs \<Longrightarrow> \<not> skips_signalled r s" "\<And>r. r \<in> set rs \<Longrightarrow> gate_decided (or_verdict r)"
  shows "scans_on s s'"
    "\<forall>m \<in> set (mi_messages s'). \<forall>r \<in> set rs. sm_state m = Pending \<and> sm_id m = or_id r \<longrightarrow> leaves_waiting r"
    "signalled s' = signalled s \<or> \<not> signalled s'"
proof -
  have "scans_on s s' \<and>
    (\<forall>m \<in> set (mi_messages s'). \<forall>r \<in> set rs. sm_state m = Pending \<and> sm_id m = or_id r \<longrightarrow> leaves_waiting r) \<and>
    (signalled s' \<longrightarrow> signalled s)"
    using assms
  proof (induction rs arbitrary: s)
    case (Cons r rs)
    obtain s1 where s1: "commit_outcome r s = Inr s1" "each_ok commit_outcome rs s1 = Inr s'"
      using Cons.prems(1) by (auto split: sum.splits)
    note on = commit_outcome_on [OF s1(1)]
    have skips: "skips_signalled x s1 = skips_signalled x s" for x
    proof -
      have "map (\<lambda>m. (sm_id m, sm_subject_masked m)) (mi_messages s1) = map (\<lambda>m. (sm_id m, sm_subject_masked m)) (mi_messages s)"
        using on(1) by (simp add: scans_on_def)
      then show ?thesis unfolding skips_signalled_def by (simp only: set_map [symmetric])
    qed
    have "scans_on s1 s' \<and>
      (\<forall>m \<in> set (mi_messages s'). \<forall>r \<in> set rs. sm_state m = Pending \<and> sm_id m = or_id r \<longrightarrow> leaves_waiting r) \<and>
      (signalled s' \<longrightarrow> signalled s1)"
      by (rule Cons.IH [OF s1(2)]) (use Cons.prems(2,3) skips in auto)
    moreover have "m \<in> set (mi_messages s1)" if "m \<in> set (mi_messages s')" "sm_state m = Pending" "scans_on s1 s'" for m
      using that by (auto simp: scans_on_def)
    moreover have "gate_decided (or_verdict r)" "\<not> skips_signalled r s" using Cons.prems(2,3) by auto
    ultimately show ?case using on scans_on_trans [OF on(1)] by auto
  qed simp
  then show "scans_on s s'"
    "\<forall>m \<in> set (mi_messages s'). \<forall>r \<in> set rs. sm_state m = Pending \<and> sm_id m = or_id r \<longrightarrow> leaves_waiting r"
    "signalled s' = signalled s \<or> \<not> signalled s'" by blast+
qed

lemma each_hits_on:
  "each_ok (commit_hits h) ds s = Inr s' \<Longrightarrow> scans_on s s' \<and> mi_messages s' = mi_messages s"
proof (induction ds arbitrary: s)
  case (Cons d ds)
  obtain s1 where s1: "commit_hits h d s = Inr s1" "each_ok (commit_hits h) ds s1 = Inr s'"
    using Cons.prems by (auto split: sum.splits)
  have "scans_on s s1 \<and> mi_messages s1 = mi_messages s"
    using s1(1) by (auto simp: commit_hits_def add_scan_hits_def update_sender_def scans_on_def split: option.splits if_splits)
  then show ?case using Cons.IH [OF s1(2)] scans_on_trans by auto
qed simp

lemma failures_grow: "set (mi_failures s) \<subseteq> set (mi_failures (fold (record_item run) items s))"
proof (induction items arbitrary: s)
  case (Cons x items)
  have "set (mi_failures s) \<subseteq> set (mi_failures (record_item run x s))" by (auto simp: record_item_def)
  also have "\<dots> \<subseteq> set (mi_failures (fold (record_item run) items (record_item run x s)))" by (rule Cons.IH)
  finally show ?case by simp
qed simp

lemma record_items:
  "mi_messages (fold (record_item run) items s) = mi_messages s" "mi_runs2 (fold (record_item run) items s) = mi_runs2 s"
  "mi_second_ended (fold (record_item run) items s) = mi_second_ended s" "mi_restart (fold (record_item run) items s) = mi_restart s"
  by (induction items arbitrary: s; simp add: record_item_def)+

lemma record_items_excuse:
  assumes "x \<in> set items" "item_of i x"
  shows "excused (fold (record_item run) items s) i"
  using assms
proof (induction items arbitrary: s)
  case (Cons y items)
  show ?case
  proof (cases "x = y")
    case True
    have "excused (record_item run y s) i" using Cons.prems(2) True by (auto simp: excused_def record_item_def item_of_def)
    then show ?thesis using excused_mono [OF failures_grow] by simp
  next
    case False
    then show ?thesis using Cons by simp
  qed
qed simp

subsection \<open>The walk\<close>

definition unread :: "walk_position \<Rightarrow> mail_index \<Rightarrow> message_row list" where
  "unread after s = filter (\<lambda>m. sm_state m = Pending \<and> walked_before after m) (mi_messages s)"

lemma page_limit_pos: "0 < page_limit n"
proof -
  have "1 \<le> sint (min64 (max64 n 1) 2147483647)" by simp
  then show ?thesis by (simp add: page_limit_def)
qed

lemma same_id:
  assumes "ids_ok s" "a \<in> set (mi_messages s)" "b \<in> set (mi_messages s)" "sm_id a = sm_id b"
  shows "a = b"
  using assms by (auto simp: ids_ok_def distinct_map inj_on_def)

text \<open>What a page leaves is behind its last message.\<close>

lemma take_rev_sorted:
  fixes f :: "'a \<Rightarrow> 'b::linorder"
  assumes "inj_on f (set xs)" "m \<in> set xs" "m \<notin> set (take n (rev (sort_key f xs)))" "0 < n"
  shows "take n (rev (sort_key f xs)) \<noteq> [] \<and> f m < f (last (take n (rev (sort_key f xs))))"
proof -
  let ?d = "rev (sort_key f xs)"
  have "set (take n ?d) \<union> set (drop n ?d) = set xs" by (metis append_take_drop_id set_append set_rev set_sort)
  then have m: "m \<in> set (drop n ?d)" using assms(2,3) by auto
  then have ne: "take n ?d \<noteq> []" using assms(4) by (cases ?d) auto
  then have l: "last (take n ?d) \<in> set (take n ?d)" by (rule last_in_set)
  have "sorted_wrt (\<lambda>a b. f b \<le> f a) ?d" by (simp add: sorted_wrt_rev sorted_wrt_map [symmetric])
  then have "sorted_wrt (\<lambda>a b. f b \<le> f a) (take n ?d @ drop n ?d)" by simp
  then have "f m \<le> f (last (take n ?d))" using l m unfolding sorted_wrt_append by blast
  moreover have "f m \<noteq> f (last (take n ?d))"
  proof
    assume e: "f m = f (last (take n ?d))"
    have "last (take n ?d) \<in> set xs" using in_set_takeD [OF l] by simp
    then have "m = last (take n ?d)" using assms(1,2) e by (auto dest: inj_onD)
    then show False using assms(3) l by simp
  qed
  ultimately show ?thesis using ne by simp
qed

lemma pending_page_rows:
  "pending_page after n s = map (waiting_of s) (take (page_limit n) (rev (sort_key walk_key (unread after s))))"
  by (simp add: pending_page_def unread_def)

lemma pending_page_parts:
  assumes "ids_ok s"
  shows "pending_page after n s = [] \<longleftrightarrow> unread after s = []"
    and "w \<in> set (pending_page after n s) \<Longrightarrow> \<exists>m \<in> set (unread after s). w = waiting_of s m"
    and "m \<in> set (unread after s) \<Longrightarrow> sm_id m \<notin> wt_id ` set (pending_page after n s) \<Longrightarrow>
      walked_before \<lparr>wp_sent_at = wt_sent_at (last (pending_page after n s)), wp_id = wt_id (last (pending_page after n s))\<rparr> m"
proof -
  let ?p = "take (page_limit n) (rev (sort_key walk_key (unread after s)))"
  have pos: "page_limit n \<noteq> 0" using page_limit_pos [of n] by simp
  have "sort_key walk_key (unread after s) = [] \<longleftrightarrow> unread after s = []" by (metis length_0_conv length_sort)
  then show "pending_page after n s = [] \<longleftrightarrow> unread after s = []" by (simp add: pending_page_rows pos)
  show "\<exists>m \<in> set (unread after s). w = waiting_of s m" if "w \<in> set (pending_page after n s)"
    using that by (auto simp: pending_page_rows dest!: in_set_takeD)
  assume m: "m \<in> set (unread after s)" "sm_id m \<notin> wt_id ` set (pending_page after n s)"
  have "inj_on walk_key (set (unread after s))"
    using assms by (auto simp: inj_on_def unread_def walk_key_def dest: same_id)
  moreover have "m \<notin> set ?p"
  proof
    assume "m \<in> set ?p"
    then have "waiting_of s m \<in> set (pending_page after n s)" unfolding pending_page_rows by auto
    then have "wt_id (waiting_of s m) \<in> wt_id ` set (pending_page after n s)" by (rule imageI)
    then show False using m(2) by (simp add: waiting_of_def)
  qed
  ultimately have "?p \<noteq> [] \<and> walk_key m < walk_key (last ?p)" using m(1) page_limit_pos by (intro take_rev_sorted)
  then show "walked_before \<lparr>wp_sent_at = wt_sent_at (last (pending_page after n s)), wp_id = wt_id (last (pending_page after n s))\<rparr> m"
    by (simp add: pending_page_rows last_map waiting_of_def walked_before_def walk_key_def)
qed

lemma gate_never_skips_signalled: "index_gate u p c now m h = HighVolumeNoHits \<Longrightarrow> \<not> wt_subject_masked m"
  by (simp add: index_gate_def scan_gate_high_volume bulk_without_hits_def)

lemma gate_decides: "gate_config_valid c \<Longrightarrow> gate_decided (index_gate u p c now m h)"
  by (simp add: index_gate_def gate_decided_def scan_gate_undecided)

lemma commit_tx_runs:
  assumes on: "runs_on p s" "\<not> signalled s" and ms: "ms = pending_page (position_of (bp_at p)) n v" "mi_messages v = mi_messages s"
    and decided: "page_decided env composed now ms rs items" and valid: "gate_config_valid (bx_gate env)"
    and page: "page = \<lparr>pa_outcomes = rs, pa_last = \<lparr>wp_sent_at = wt_sent_at (last ms), wp_id = wt_id (last ms)\<rparr>\<rparr>"
    and commit: "commit_tx (bp_run p) page items (advance_pass2 (bp_at p) page) s = Inr (s', x)"
  shows "runs_on (p\<lparr>bp_at := advance_pass2 (bp_at p) page\<rparr>) s' \<and> \<not> signalled s'"
proof -
  let ?q = "p\<lparr>bp_at := advance_pass2 (bp_at p) page\<rparr>"
  have ids: "ids_ok s" "ids_ok v" using on(1) ms(2) by (simp_all add: runs_on_def ids_ok_def)
  have unread: "unread after v = unread after s" for after by (simp add: unread_def ms(2))
  note parts = pending_page_parts [OF ids(2), where after = "position_of (bp_at p)" and n = n, folded ms(1), unfolded unread]
  obtain h ds s1 s2 where s1: "each_ok commit_outcome rs s = Inr s1" and s2: "each_ok (commit_hits h) ds s1 = Inr s2"
    and s': "s' = record_progress2 (bp_run p) (advance_pass2 (bp_at p) page) (fold (record_item (bp_run p)) items s2)"
    using commit unfolding commit_tx_def page by (auto simp: Let_def split: sum.splits)
  have row: "\<exists>m \<in> set ms. \<exists>h. wt_id m = or_id r \<and> or_verdict r = index_gate (bx_unicode env) composed (bx_gate env) now m h"
    if "r \<in> set rs" for r
    using that decided by (auto simp: page_decided_def)
  have skips: "\<not> skips_signalled r s" if r: "r \<in> set rs" for r
  proof
    assume sk: "skips_signalled r s"
    obtain w where w: "w \<in> set ms" "wt_id w = or_id r" "\<not> wt_subject_masked w"
      using row [OF r] sk gate_never_skips_signalled unfolding skips_signalled_def by metis
    obtain a where a: "a \<in> set (unread (position_of (bp_at p)) s)" "w = waiting_of v a" using parts(2) w(1) by blast
    obtain b where "b \<in> set (mi_messages s)" "sm_id b = or_id r" "sm_subject_masked b"
      using sk by (auto simp: skips_signalled_def)
    then have "a = b" using same_id [OF ids(1)] a w(2) by (auto simp: unread_def waiting_of_def)
    then show False using a w(3) \<open>sm_subject_masked b\<close> by (simp add: waiting_of_def)
  qed
  have dec: "gate_decided (or_verdict r)" if "r \<in> set rs" for r
    using row [OF that] gate_decides [OF valid] by auto
  note c1 = each_commit_on [OF s1 skips dec]
  note c2 = each_hits_on [OF s2]
  have so: "scans_on s s2" by (rule scans_on_trans [OF c1(1) conjunct1 [OF c2]])
  have final: "mi_messages s' = mi_messages s2" "mi_second_ended s' = mi_second_ended s2" "mi_restart s' = mi_restart s2"
    "mi_runs2 s' = progress_row (bp_run p) (advance_pass2 (bp_at p) page) (mi_runs2 s2)"
    "mi_failures s' = mi_failures (fold (record_item (bp_run p)) items s2)"
    by (simp_all add: s' record_progress2_def record_event_def record_items)
  have sig: "\<not> signalled s'"
  proof -
    have "\<not> signalled s1" using c1(3) on(2) by blast
    then show ?thesis using c2 by (simp add: signalled_def final)
  qed
  have pos: "position_of (advance_pass2 (bp_at p) page) = pa_last page" by (simp add: position_of_def advance_pass2_def Let_def)
  have ahead: "waits_ahead (position_of (bp_at ?q)) s'"
    unfolding waits_ahead_def
  proof (intro ballI impI)
    fix m
    assume m: "m \<in> set (mi_messages s')" "sm_state m = Pending"
    then have ms2: "m \<in> set (mi_messages s2)" by (simp add: final)
    then have old: "m \<in> set (mi_messages s)" using so m(2) by (auto simp: scans_on_def)
    have grow: "excused s (sm_id m) \<Longrightarrow> excused s' (sm_id m)"
      by (rule excused_mono [of s]) (use so failures_grow [of s2 "bp_run p" items] in \<open>simp_all add: final scans_on_def\<close>)
    show "excused s' (sm_id m) \<or> walked_before (position_of (bp_at ?q)) m"
    proof (cases "excused s (sm_id m) \<or> sm_id m \<notin> wt_id ` set ms")
      case True
      have "walked_before (position_of (bp_at p)) m" if "\<not> excused s (sm_id m)"
        using that on(1) old m(2) by (auto simp: runs_on_def waits_ahead_def)
      then have "\<not> excused s (sm_id m) \<Longrightarrow> m \<in> set (unread (position_of (bp_at p)) s)" using old m(2) by (simp add: unread_def)
      moreover have "m \<in> set (unread (position_of (bp_at p)) s) \<Longrightarrow> sm_id m \<notin> wt_id ` set ms \<Longrightarrow>
          walked_before (position_of (bp_at ?q)) m"
        using parts(3) [of m] by (simp add: pos) (simp add: page)
      ultimately show ?thesis using grow True by blast
    next
      case False
      then have "sm_id m \<in> set (map or_id rs)" using decided by (simp add: page_decided_def)
      then obtain r where r: "r \<in> set rs" "or_id r = sm_id m" by auto
      have "leaves_waiting r" using c1(2) ms2 c2 m(2) r by auto
      then obtain x where "x \<in> set items" "item_of (or_id r) x" using decided r(1) by (auto simp: page_decided_def)
      then have "excused (fold (record_item (bp_run p)) items s2) (sm_id m)" using r(2) by (auto intro: record_items_excuse)
      then show ?thesis by (simp add: excused_def final)
    qed
  qed
  obtain r rs' where run: "mi_runs2 s = r # rs'" "ru_id r = bp_run p" "ru_state r = ''running''" using on(1) by (auto simp: runs_on_def)
  have "set (map sm_id (mi_messages s')) = set (map sm_id (mi_messages s))" "distinct (map sm_id (mi_messages s'))"
    using ids scans_on_ids [OF so] by (simp_all only: ids_ok_def final)
  then have "ids_ok s'" using ids(1) by (simp add: ids_ok_def)
  moreover have "mi_runs2 s' = r\<lparr>ru_progress := advance_pass2 (bp_at p) page\<rparr> # progress_row (bp_run p) (advance_pass2 (bp_at p) page) rs'"
    using so run by (simp add: final scans_on_def progress_row_def)
  moreover have "\<not> mi_second_ended s'" "\<not> mi_restart s'" "bp_run p \<noteq> []"
    using so on(1) by (simp_all add: final scans_on_def runs_on_def)
  ultimately show ?thesis using run(2,3) ahead sig unfolding runs_on_def by simp
qed

subsection \<open>A run, whatever happens to it\<close>

text \<open>Between its steps a run can go on, or is done, or was stopped; what is stored stands in any case.\<close>

definition run_ok :: "second_pass \<Rightarrow> world \<Rightarrow> bool" where
  "run_ok p w \<longleftrightarrow> stands (wd_index w) \<and> (wd_stopped w \<or> bp_done p \<or> runs_on p (wd_index w) \<and> \<not> signalled (wd_index w))"

lemma second_failed_ok: "second_failed env p cause w = (es, p', w') \<Longrightarrow> stands (wd_index w) \<Longrightarrow> run_ok p' w'"
  using second_failed_keeps(1,2) unfolding run_ok_def by blast

lemma finish_tx_stands:
  assumes "runs_on p s" "\<not> signalled s" "unread (position_of (bp_at p)) s = []" "finish_tx (bp_run p) s = Inr (s', x)"
  shows "stands s'"
proof -
  obtain r rs where run: "mi_runs2 s = r # rs" "ru_id r = bp_run p" "ru_state r = ''running''" using assms(1) by (auto simp: runs_on_def)
  have s': "mi_messages s' = mi_messages s" "mi_failures s' = mi_failures s" "mi_second_ended s'"
      "mi_runs2 s' = end_run_row (bp_run p) ''succeeded'' [] (mi_runs2 s)"
    using assms(4) by (auto simp: finish_tx_def record_event_def)
  have "latest_run_of zero_progress2 (mi_runs2 s') =
      Some \<lparr>lr_found = True, lr_run_id = ru_id r, lr_state = RunSucceeded, lr_progress = ru_progress r\<rparr>"
    using run by (simp add: s' end_run_row_def latest_run_of_def run_state_named_def)
  moreover have "ps_skip (next_start s' l)" for l
    by (simp add: next_start_def begin_pass2_def begin_pass_def start_over2_def s')
  moreover have "all_excused s"
    using assms(1,3) by (auto simp: all_excused_def runs_on_def waits_ahead_def unread_def filter_empty_conv)
  then have "all_excused s'" by (simp add: all_excused_def excused_def s')
  moreover have "\<not> signalled s'" "ids_ok s'" using assms(1,2) by (simp_all add: signalled_def ids_ok_def runs_on_def s')
  moreover have "ru_id r \<noteq> []" using assms(1) run by (simp add: runs_on_def)
  ultimately show ?thesis by (simp add: stands_def)
qed

lemma next_page_ok:
  assumes "next_page env composed p w = (res, p', w')" "runs_on p (wd_index w)" "\<not> signalled (wd_index w)"
    and valid: "gate_config_valid (bx_gate env)"
  shows "run_ok p' w'"
proof -
  let ?f = "pending_tx (position_of (bp_at p)) (bx_page_size env)"
  have st: "stands (wd_index w)" by (rule runs_on_stands [OF assms(2)])
  obtain a w1 where a: "in_tx env ?f w = (a, w1)" by (cases "in_tx env ?f w")
  have "wd_index (snd (in_tx env ?f w)) = wd_index w" by (rule in_tx_index) (simp_all add: pending_tx_def)
  then have w1: "wd_index w1 = wd_index w" using a by simp
  show ?thesis
  proof (cases a)
    case (Inl e)
    then show ?thesis using assms(1) a second_failed_ok st w1
      by (auto simp: next_page_def position_of_def split: prod.splits)
  next
    case (Inr ms)
    have ms: "ms = pending_page (position_of (bp_at p)) (bx_page_size env) (wd_index w)" and up: "\<not> wd_stopped w1"
      using in_tx_took [OF a [unfolded Inr]] by (auto simp: pending_tx_def)
    note ids = pending_page_parts [where s = "wd_index w" and after = "position_of (bp_at p)" and n = "bx_page_size env", folded ms]
    show ?thesis
    proof (cases "ms = []")
      case True
      then have none: "unread (position_of (bp_at p)) (wd_index w) = []" using ids(1) assms(2) by (simp add: runs_on_def)
      obtain b w2 where b: "in_tx env (finish_tx (bp_run p)) w1 = (b, w2)" by (cases "in_tx env (finish_tx (bp_run p)) w1")
      have "stands (wd_index (snd (in_tx env (finish_tx (bp_run p)) w1)))"
        by (rule in_tx_index) (use st w1 finish_tx_stands [OF assms(2,3) none] in auto)
      then have st2: "stands (wd_index w2)" using b by simp
      show ?thesis
      proof (cases b)
        case (Inl e)
        then show ?thesis using assms(1) a Inr True b second_failed_ok st2
          by (auto simp: next_page_def position_of_def split: prod.splits)
      next
        case (Inr u)
        then have "p' = p\<lparr>bp_done := True\<rparr> \<and> w' = w2" using assms(1) a \<open>a = Inr ms\<close> True b by (simp add: next_page_def position_of_def)
        then show ?thesis using st2 by (simp add: run_ok_def)
      qed
    next
      case False
      obtain d q w2 where d: "decide_page env composed (now_of env w1) (ck2_page (p2_checkpoint (bp_at p)) + 1) Map.empty p ms w1 = (d, q, w2)"
        by (cases "decide_page env composed (now_of env w1) (ck2_page (p2_checkpoint (bp_at p)) + 1) Map.empty p ms w1") auto
      have keeps: "stands (wd_index w2) \<and> (case d of
          Inl es \<Rightarrow> wd_stopped w2 \<or> bp_done q
        | Inr (rs, items) \<Rightarrow> q = p \<and> \<not> wd_stopped w2 \<and> only_more_failures (wd_index w1) (wd_index w2) \<and>
            page_decided env composed (now_of env w1) ms rs items)"
        by (rule decide_page_keeps [OF d]) (simp_all add: st w1 up)
      show ?thesis
      proof (cases d)
        case (Inl es)
        then have "p' = q \<and> w' = w2" using assms(1) a Inr False d by (simp add: next_page_def position_of_def)
        then show ?thesis using keeps Inl by (auto simp: run_ok_def)
      next
        case (Inr y)
        obtain rs items where y: "y = (rs, items)" by (cases y)
        have k: "q = p" "\<not> wd_stopped w2" "only_more_failures (wd_index w) (wd_index w2)" "stands (wd_index w2)"
            "page_decided env composed (now_of env w1) ms rs items"
          using keeps Inr y w1 by auto
        define page where "page = \<lparr>pa_outcomes = rs, pa_last = \<lparr>wp_sent_at = wt_sent_at (last ms), wp_id = wt_id (last ms)\<rparr>\<rparr>"
        let ?g = "commit_tx (bp_run p) page items (advance_pass2 (bp_at p) page)"
        have on2: "runs_on p (wd_index w2)" "\<not> signalled (wd_index w2)"
          using only_more_failures_keeps(2,3) [OF k(3)] assms(2,3) by auto
        have same: "mi_messages (wd_index w) = mi_messages (wd_index w2)" using k(3) by (simp add: only_more_failures_def)
        note runs = commit_tx_runs [OF on2 ms same k(5) valid page_def]
        obtain b w3 where b: "in_tx env ?g w2 = (b, w3)" by (cases "in_tx env ?g w2")
        have "stands (wd_index (snd (in_tx env ?g w2)))"
          by (rule in_tx_index) (use k(4) runs runs_on_stands in blast)+
        then have st3: "stands (wd_index w3)" using b by simp
        have eq: "(res, p', w') = (case in_tx env ?g w2 of
            (Inl e, w3) \<Rightarrow> (case second_failed env q [e] w3 of (es, p'', w') \<Rightarrow> (Inl es, p'', w'))
          | (Inr _, w3) \<Rightarrow> (Inr \<lparr>pt_done = False, pt_scanned = c2_scanned (p2_counters (advance_pass2 (bp_at p) page))
                - c2_scanned (p2_counters (bp_at p))\<rparr>, q\<lparr>bp_at := advance_pass2 (bp_at p) page\<rparr>, w3))"
          unfolding assms(1) [symmetric] next_page_def page_def Let_def
          by (simp only: position_of_def [symmetric] a \<open>a = Inr ms\<close> False d Inr y prod.case sum.case if_False)
        show ?thesis
        proof (cases b)
          case (Inl e)
          then show ?thesis using eq b second_failed_ok st3 by (auto split: prod.splits)
        next
          case (Inr u)
          note took = in_tx_took [OF b [unfolded Inr]]
          have "p' = p\<lparr>bp_at := advance_pass2 (bp_at p) page\<rparr>" "w' = w3" using eq b Inr k(1) by simp_all
          then show ?thesis using runs [OF took(1)] by (auto simp: run_ok_def intro: runs_on_stands)
        qed
      qed
    qed
  qed
qed

text \<open>The delisting transition changes nothing, or starts the run over.\<close>

lemma update_where_none:
  assumes "update_where f g s = (s', 0)"
  shows "s' = s"
proof -
  have none: "filter f (mi_messages s) = []" and s': "s' = s\<lparr>mi_messages := map (\<lambda>m. if f m then g m else m) (mi_messages s)\<rparr>"
    using assms by (simp_all add: update_where_def)
  from none have "map (\<lambda>m. if f m then g m else m) (mi_messages s) = mi_messages s"
    by (intro map_idI) (auto simp: filter_empty_conv)
  then show ?thesis by (simp add: s')
qed

lemma delist_rows_keeps:
  assumes "delist_rows ds s = (s', n)"
  shows "n = 0 \<Longrightarrow> s' = s" "mi_runs2 s' = mi_runs2 s" "mi_second_ended s' = mi_second_ended s" "mi_restart s' = mi_restart s"
    "mi_failures s' = mi_failures s" "map sm_id (mi_messages s') = map sm_id (mi_messages s)" "signalled s' \<Longrightarrow> signalled s"
proof -
  have "(n = 0 \<longrightarrow> s' = s) \<and> mi_runs2 s' = mi_runs2 s \<and> mi_second_ended s' = mi_second_ended s \<and> mi_restart s' = mi_restart s \<and>
      mi_failures s' = mi_failures s \<and> map sm_id (mi_messages s') = map sm_id (mi_messages s) \<and> (signalled s' \<longrightarrow> signalled s)"
    using assms
  proof (induction ds arbitrary: s n s')
    case (Cons d ds)
    obtain s1 k where s1: "mark_delisted d s = (s1, k)" by (cases "mark_delisted d s")
    obtain s2 j where s2: "delist_rows ds s1 = (s2, j)" by (cases "delist_rows ds s1")
    have s': "s' = s2" "n = k + j" using Cons.prems by (simp_all add: s1 s2)
    have "mi_runs2 s1 = mi_runs2 s \<and> mi_second_ended s1 = mi_second_ended s \<and> mi_restart s1 = mi_restart s \<and>
        mi_failures s1 = mi_failures s \<and> map sm_id (mi_messages s1) = map sm_id (mi_messages s) \<and> (signalled s1 \<longrightarrow> signalled s)"
      using s1 by (auto simp: mark_delisted_def update_where_def waits_again_def signalled_def)
    moreover have "k = 0 \<longrightarrow> s1 = s" using s1 update_where_none unfolding mark_delisted_def by blast
    ultimately show ?case using Cons.IH [OF s2] s' by auto
  qed simp
  then show "n = 0 \<Longrightarrow> s' = s" "mi_runs2 s' = mi_runs2 s" "mi_second_ended s' = mi_second_ended s" "mi_restart s' = mi_restart s"
    "mi_failures s' = mi_failures s" "map sm_id (mi_messages s') = map sm_id (mi_messages s)" "signalled s' \<Longrightarrow> signalled s"
    by blast+
qed

lemma ids_ok_same: "map sm_id (mi_messages s') = map sm_id (mi_messages s) \<Longrightarrow> ids_ok s' = ids_ok s"
  unfolding ids_ok_def by (metis list.set_map)

lemma walked_from_start: "walked_before (position_of (restart_pass2 p)) m" "wp_id (position_of (restart_pass2 p)) = []"
  by (simp_all add: walked_before_def position_of_def restart_pass2_def zero_checkpoint2_def)

lemma delist_tx_runs:
  assumes "runs_on p s" "delist_tx f (bp_run p) (restart_pass2 (bp_at p)) words s = Inr (s', marked)"
  shows "runs_on (p\<lparr>bp_at := (if 0 < marked then restart_pass2 (bp_at p) else bp_at p), bp_compared := c\<rparr>) s'"
    "signalled s' \<Longrightarrow> signalled s"
proof -
  obtain t n where t: "delist_rows (f (restricted_domains s)) s = (t, n)" by (cases "delist_rows (f (restricted_domains s)) s")
  note keeps = delist_rows_keeps [OF t]
  have cases: "n = 0 \<and> s' = s \<and> marked = 0 \<or>
      0 < n \<and> marked = n \<and> mi_messages s' = mi_messages t \<and> mi_second_ended s' = mi_second_ended t \<and> mi_restart s' = mi_restart t \<and>
      mi_runs2 s' = progress_row (bp_run p) (restart_pass2 (bp_at p)) (mi_runs2 t)"
    using assms(2) keeps(1) t
    by (cases "n = 0") (simp_all add: delist_tx_def Let_def record_progress2_def record_event_def, auto)
  then have "signalled s' \<Longrightarrow> signalled s \<or> signalled t" by (auto simp: signalled_def)
  then show "signalled s' \<Longrightarrow> signalled s" using keeps(7) by blast
  show "runs_on (p\<lparr>bp_at := (if 0 < marked then restart_pass2 (bp_at p) else bp_at p), bp_compared := c\<rparr>) s'"
  proof (cases "n = 0")
    case True
    then show ?thesis using cases assms(1) by (simp add: runs_on_def)
  next
    case False
    then have s': "marked = n" "mi_messages s' = mi_messages t" "mi_second_ended s' = mi_second_ended t" "mi_restart s' = mi_restart t"
        "mi_runs2 s' = progress_row (bp_run p) (restart_pass2 (bp_at p)) (mi_runs2 t)"
      using cases by auto
    have "ids_ok s'" using assms(1) ids_ok_same [of s' s] keeps(6) s'(2) by (simp add: runs_on_def)
    then show ?thesis using assms(1) keeps(2-4) s' False walked_from_start
      by (auto simp: runs_on_def progress_row_def waits_ahead_def)
  qed
qed

lemma compare_policy_keeps:
  assumes "compare_policy env p composed w = (res, p', w')" "runs_on p (wd_index w)"
  shows "res = Some es \<Longrightarrow> run_ok p' w'"
    "res = None \<Longrightarrow> runs_on p' (wd_index w') \<and> (signalled (wd_index w') \<longrightarrow> signalled (wd_index w)) \<and> bp_run p' = bp_run p \<and>
       \<not> wd_stopped w'"
    "wd_asked w' = wd_asked w"
proof -
  let ?f = "delist_tx (delisted (bx_unicode env) composed) (bp_run p) (restart_pass2 (bp_at p)) (bx_delisted env)"
  obtain a w1 where a: "in_tx env ?f w = (a, w1)" by (cases "in_tx env ?f w")
  have "stands (wd_index (snd (in_tx env ?f w)))"
    by (rule in_tx_index) (use assms(2) delist_tx_runs(1) runs_on_stands in blast)+
  then have st: "stands (wd_index w1)" using a by simp
  have main: "(\<forall>es. res = Some es \<longrightarrow> run_ok p' w') \<and> (res = None \<longrightarrow> runs_on p' (wd_index w') \<and>
      (signalled (wd_index w') \<longrightarrow> signalled (wd_index w)) \<and> bp_run p' = bp_run p \<and> \<not> wd_stopped w') \<and> wd_asked w' = wd_asked w"
  proof (cases a)
    case (Inl e)
    obtain es q w2 where f: "second_failed env p [e] w1 = (es, q, w2)" by (cases "second_failed env p [e] w1")
    have "res = Some es" "p' = q" "w' = w2" using assms(1) a Inl f by (simp_all add: compare_policy_def)
    then show ?thesis using second_failed_ok [OF f st] second_failed_keeps(3) [OF f st] in_tx_asked [OF a] by simp
  next
    case (Inr marked)
    note took = in_tx_took [OF a [unfolded Inr]]
    have r: "res = None" "p' = p\<lparr>bp_at := (if 0 < marked then restart_pass2 (bp_at p) else bp_at p), bp_compared := pol_composed composed\<rparr>"
        "w' = w1"
      using assms(1) a Inr by (simp_all add: compare_policy_def)
    then show ?thesis using delist_tx_runs [OF assms(2) took(1)] took(3,4) by simp
  qed
  then show "res = Some es \<Longrightarrow> run_ok p' w'"
    "res = None \<Longrightarrow> runs_on p' (wd_index w') \<and> (signalled (wd_index w') \<longrightarrow> signalled (wd_index w)) \<and> bp_run p' = bp_run p \<and>
       \<not> wd_stopped w'"
    "wd_asked w' = wd_asked w" by blast+
qed

lemma second_next_ok:
  assumes "second_next env p w = (res, p', w')" "run_ok p w" "\<not> wd_stopped w" "gate_config_valid (bx_gate env)"
  shows "run_ok p' w'"
proof (cases "bp_done p")
  case True
  then show ?thesis using assms by (simp add: second_next_def)
next
  case False
  then have on: "runs_on p (wd_index w)" "\<not> signalled (wd_index w)" using assms(2,3) by (auto simp: run_ok_def)
  define composed where "composed = bx_policy env (wd_moment w)"
  show ?thesis
  proof (cases "composed_equal (bx_unicode env) (pol_composed composed) (bp_compared p)")
    case True
    then show ?thesis using assms(1) False next_page_ok [OF _ on assms(4)] by (simp add: second_next_def composed_def Let_def)
  next
    case other: False
    obtain c q w1 where c: "compare_policy env p composed w = (c, q, w1)" by (cases "compare_policy env p composed w")
    note keeps = compare_policy_keeps [OF c on(1)]
    show ?thesis
    proof (cases c)
      case None
      then have "next_page env composed q w1 = (res, p', w')"
        using assms(1) False other c by (simp add: second_next_def composed_def [symmetric] Let_def)
      moreover have "runs_on q (wd_index w1)" "\<not> signalled (wd_index w1)" using keeps(2) None on(2) by blast+
      ultimately show ?thesis by (rule next_page_ok) (rule assms(4))
    next
      case (Some es)
      then have "p' = q \<and> w' = w1" using assms(1) False other c by (simp add: second_next_def composed_def [symmetric] Let_def)
      then show ?thesis using keeps(1) Some by blast
    qed
  qed
qed

subsection \<open>Opening a run\<close>

lemma start_tx_runs:
  assumes "stands s" "latest_run_of zero_progress2 (mi_runs2 s) = Some l" "start_over2 (begin_pass2 first_ended (mi_second_ended s) l) (mi_restart s) = (start, over)"
    and "\<not> ps_skip start" "run \<noteq> []" "start_tx run start s = Inr (s', x)"
  shows "runs_on \<lparr>bp_run = run, bp_at = ps_from start, bp_done = False, bp_compared = c\<rparr> s'"
proof -
  have first: "first_ended" using assms(3,4) by (auto simp: begin_pass2_def start_over2_def split: if_splits)
  then have start: "start = next_start s l" using assms(3) by (simp add: next_start_def begin_pass2_def)
  have s': "mi_messages s' = mi_messages s" "mi_failures s' = mi_failures s" "mi_second_ended s' = mi_second_ended s" "\<not> mi_restart s'"
      "mi_runs2 s' = started_runs run start (mi_runs2 s)"
    using assms(6) by (auto simp: start_tx_def record_event_def split: if_splits)
  have "\<not> mi_second_ended s" using assms(4) start
    by (auto simp: next_start_def begin_pass2_def begin_pass_def start_over2_def split: if_splits)
  moreover have "ids_ok s'" "waits_ahead pos s' = waits_ahead pos s" "signalled s' = signalled s" for pos
    using assms(1) by (simp_all add: ids_ok_def waits_ahead_def signalled_def excused_def stands_def s')
  ultimately show ?thesis using assms(1,2,4,5) start by (auto simp: runs_on_def stands_def s' started_runs_def)
qed

lemma requeue_skips_runs:
  assumes "runs_on p s" "requeue_skips_tx run words s = Inr (s', n)"
  shows "runs_on p s'" "\<not> signalled s'"
proof -
  obtain t k where t: "requeue_signalled_skips s = (t, k)" by (cases "requeue_signalled_skips s")
  have s': "mi_messages s' = mi_messages t" "mi_runs2 s' = mi_runs2 s" "mi_second_ended s' = mi_second_ended s"
      "mi_restart s' = mi_restart s" "mi_failures s' = mi_failures s" "k = 0 \<Longrightarrow> t = s"
    using assms(2) t update_where_none [of _ _ s t]
    by (auto simp: requeue_skips_tx_def requeue_signalled_skips_def update_where_def record_event_def Let_def split: if_splits)
  show ns: "\<not> signalled s'"
    using t by (auto simp: signalled_def s'(1) requeue_signalled_skips_def update_where_def waits_again_def)
  have ids: "ids_ok s'" using assms(1) t ids_ok_same [of s' s]
    by (auto simp: runs_on_def s'(1) requeue_signalled_skips_def update_where_def waits_again_def)
  have "waits_ahead (position_of (bp_at p)) s'"
  proof (cases "k = 0")
    case True
    then show ?thesis using assms(1) s'(1,5,6) by (simp add: runs_on_def waits_ahead_def excused_def)
  next
    case False
    then have "signalled s" using t by (auto simp: signalled_def requeue_signalled_skips_def update_where_def filter_empty_conv)
    then show ?thesis using assms(1) by (simp add: runs_on_def waits_ahead_def walked_before_def)
  qed
  then show "runs_on p s'" using assms(1) ids ns by (simp add: runs_on_def s'(2-4))
qed

lemma open_compared_ok:
  assumes "open_compared env p w = (res, w')" "runs_on p (wd_index w)"
  shows "case res of Inl es \<Rightarrow> stands (wd_index w') | Inr q \<Rightarrow> run_ok q w'"
proof -
  let ?f = "requeue_skips_tx (bp_run p) (bx_requeued env)"
  obtain d q w1 where d: "compare_policy env p (bx_policy env (wd_moment w)) w = (d, q, w1)"
    by (cases "compare_policy env p (bx_policy env (wd_moment w)) w")
  note keeps = compare_policy_keeps [OF d assms(2)]
  show ?thesis
  proof (cases d)
    case (Some es)
    then show ?thesis using assms(1) d keeps(1) by (auto simp: open_compared_def run_ok_def)
  next
    case None
    then have on: "runs_on q (wd_index w1)" using keeps(2) by blast
    obtain g w2 where g: "in_tx env ?f w1 = (g, w2)" by (cases "in_tx env ?f w1")
    have "stands (wd_index (snd (in_tx env ?f w1)))"
      by (rule in_tx_index) (use on requeue_skips_runs(1) runs_on_stands in blast)+
    then have st: "stands (wd_index w2)" using g by simp
    show ?thesis
    proof (cases g)
      case (Inl e)
      then show ?thesis using assms(1) d None g second_failed_keeps(1) st
        by (auto simp: open_compared_def split: prod.splits)
    next
      case (Inr n)
      then have "res = Inr q" "w' = w2" using assms(1) d None g by (simp_all add: open_compared_def)
      then show ?thesis using requeue_skips_runs [OF on in_tx_took(1) [OF g [unfolded Inr]]] st by (simp add: run_ok_def)
    qed
  qed
qed

text \<open>The steps of an open that starts a run.\<close>

lemma second_open_steps:
  assumes "second_open env w = (res, w')" "stands (wd_index w)"
  obtains (broke) es where "res = Inl es" "wd_index w' = wd_index w"
    | (skips) p where "res = Inr p" "bp_done p" "wd_index w' = wd_index w"
    | (starts) l first_ended start over run w1 b w2 where
        "latest_run_of zero_progress2 (mi_runs2 (wd_index w)) = Some l"
        "start_over2 (begin_pass2 first_ended (mi_second_ended (wd_index w)) l) (mi_restart (wd_index w)) = (start, over)"
        "\<not> ps_skip start" "run = bx_run_id env (wd_moment w1)" "wd_index w1 = wd_index w"
        "in_tx env (start_tx run start) w1 = (b, w2)"
        "(res, w') = (case b of
           Inl e \<Rightarrow> (Inl [e], w2)
         | Inr _ \<Rightarrow>
             (let p = \<lparr>bp_run = run, bp_at = ps_from start, bp_done = False, bp_compared = zero_composed\<rparr>
              in case (if over then in_tx env (event_tx run ''retry'' 0 over_words) w2 else (Inr (), w2)) of
                  (Inl e, w3) \<Rightarrow> (case second_failed env p [e] w3 of (es, _, w4) \<Rightarrow> (Inl es, w4))
                | (Inr _, w3) \<Rightarrow> open_compared env p w3))"
proof -
  let ?s = "wd_index w"
  obtain l where l: "latest_run_of zero_progress2 (mi_runs2 ?s) = Some l" using assms(2) by (auto simp: stands_def)
  obtain a w1 where a: "in_tx env state_tx w = (a, w1)" by (cases "in_tx env state_tx w")
  have "wd_index (snd (in_tx env state_tx w)) = ?s" by (rule in_tx_index) (auto simp: state_tx_def split: option.splits)
  then have w1: "wd_index w1 = ?s" using a by simp
  show ?thesis
  proof (cases a)
    case (Inl e)
    then show ?thesis using assms(1) a w1 broke by (auto simp: second_open_def)
  next
    case (Inr x)
    have x: "x = (mi_first_ended ?s, mi_second_ended ?s, mi_restart ?s, l)"
      using in_tx_took(1) [OF a [unfolded Inr]] l by (auto simp: state_tx_def)
    obtain start over where so: "start_over2 (begin_pass2 (mi_first_ended ?s) (mi_second_ended ?s) l) (mi_restart ?s) = (start, over)"
      by (cases "start_over2 (begin_pass2 (mi_first_ended ?s) (mi_second_ended ?s) l) (mi_restart ?s)")
    show ?thesis
    proof (cases "ps_skip start")
      case True
      then show ?thesis using assms(1) a Inr x so w1 by (intro skips) (auto simp: second_open_def)
    next
      case False
      obtain b w2 where b: "in_tx env (start_tx (bx_run_id env (wd_moment w1)) start) w1 = (b, w2)"
        by (cases "in_tx env (start_tx (bx_run_id env (wd_moment w1)) start) w1")
      show ?thesis
        by (rule starts [OF l so False refl w1 b])
          (use assms(1) a Inr x so False b in \<open>cases b; simp add: second_open_def Let_def del: if_split\<close>)
    qed
  qed
qed

lemma second_open_ok:
  assumes "second_open env w = (res, w')" "stands (wd_index w)" "\<And>k. bx_run_id env k \<noteq> []"
  shows "case res of Inl es \<Rightarrow> stands (wd_index w') | Inr p \<Rightarrow> run_ok p w'"
  using assms(1,2)
proof (cases rule: second_open_steps)
  case (broke es)
  then show ?thesis using assms(2) by simp
next
  case (skips p)
  then show ?thesis using assms(2) by (simp add: run_ok_def)
next
  case (starts l first_ended start over run w1 b w2)
  define p where "p = \<lparr>bp_run = run, bp_at = ps_from start, bp_done = False, bp_compared = zero_composed\<rparr>"
  have runs: "runs_on p s'" if "start_tx run start (wd_index w1) = Inr (s', y)" for s' y
    unfolding p_def by (rule start_tx_runs [OF assms(2) starts(1-3) _ that [unfolded starts(5)]]) (simp add: starts(4) assms(3))
  show ?thesis
  proof (cases b)
    case (Inl e)
    have "stands (wd_index (snd (in_tx env (start_tx run start) w1)))"
      by (rule in_tx_index) (use assms(2) starts(5) runs runs_on_stands in auto)
    then show ?thesis using starts(6,7) Inl by simp
  next
    case (Inr u)
    have on2: "runs_on p (wd_index w2)" using in_tx_took(1) [OF starts(6) [unfolded Inr]] runs by auto
    obtain c w3 where c: "(if over then in_tx env (event_tx run ''retry'' 0 over_words) w2 else (Inr (), w2)) = (c, w3)"
      by (cases "if over then in_tx env (event_tx run ''retry'' 0 over_words) w2 else (Inr (), w2)")
    have "runs_on p (wd_index (snd (in_tx env (event_tx run ''retry'' 0 over_words) w2)))"
      by (rule in_tx_index) (use on2 event_tx_more only_more_failures_keeps(2) in blast)+
    then have on3: "runs_on p (wd_index w3)" using c on2 by (auto split: if_splits)
    show ?thesis
    proof (cases c)
      case (Inl e)
      obtain es q w4 where f: "second_failed env p [e] w3 = (es, q, w4)" by (cases "second_failed env p [e] w3")
      then have "res = Inl es \<and> w' = w4" using starts(7) Inr c Inl by (simp add: p_def Let_def)
      then show ?thesis using second_failed_keeps(1) [OF f runs_on_stands [OF on3]] by simp
    next
      case (Inr v)
      then have "open_compared env p w3 = (res, w')" using starts(7) \<open>b = Inr u\<close> c by (simp add: p_def Let_def)
      then show ?thesis using open_compared_ok on3 by blast
    qed
  qed
qed

subsection \<open>The run-start step\<close>

text \<open>What the run-start step's statements leave as it is.\<close>

definition only_messages :: "mail_index \<Rightarrow> mail_index \<Rightarrow> bool" where
  "only_messages s s' \<longleftrightarrow> mi_runs2 s' = mi_runs2 s \<and> mi_second_ended s' = mi_second_ended s \<and> mi_restart s' = mi_restart s \<and>
     mi_failures s' = mi_failures s \<and> mi_runs1 s' = mi_runs1 s \<and> mi_first_ended s' = mi_first_ended s \<and>
     map sm_id (mi_messages s') = map sm_id (mi_messages s)"

lemma only_messages_trans: "only_messages a b \<Longrightarrow> only_messages b c \<Longrightarrow> only_messages a c"
  by (auto simp: only_messages_def)

lemma update_where_only: "(\<And>m. sm_id (f m) = sm_id m) \<Longrightarrow> only_messages s (fst (update_where q f s))"
  by (auto simp: only_messages_def update_where_def)

lemma write_batch_only: "write_batch st ms s = Inr s' \<Longrightarrow> only_messages s s'"
  using write_batch_ids [of st ms s s']
  by (auto simp: only_messages_def write_batch_def Let_def remask_stored_subjects_def update_where_def record_maskings_def
      split: if_splits)

lemma remask_stored_only:
  assumes "remask_stored f st after n s = Inr (s', k)" "\<And>rows. length (f rows) = length rows"
  shows "only_messages s s' \<and> n \<le> k \<and> (k = n \<longrightarrow> s' = s)"
  using assms
proof (induction f st after n s arbitrary: s' k rule: remask_stored.induct)
  case (1 f st after n s)
  let ?rows = "stale_unmasked_subjects (stored_version (st_version st)) (st_revision st) after remask_batch s"
  show ?case
  proof (cases "?rows = []")
    case True
    then show ?thesis using 1(2) by (simp add: remask_stored.simps [of f st after n s] only_messages_def)
  next
    case False
    then obtain t where t: "write_batch st (f ?rows) s = Inr t"
      using 1(2) by (auto simp: remask_stored.simps [of f st after n s] Let_def split: sum.splits)
    have grows: "0 < length (f ?rows)" using 1(3) False by simp
    note only = write_batch_only [OF t]
    show ?thesis
    proof (cases "length ?rows < remask_batch")
      case True
      then have "s' = t \<and> k = n + length (f ?rows)" using 1(2) False t
        by (simp add: remask_stored.simps [of f st after n s] Let_def)
      then show ?thesis using only grows by auto
    next
      case big: False
      then have rec: "remask_stored f st (ss_id (last ?rows)) (n + length (f ?rows)) t = Inr (s', k)"
        using 1(2) False t by (simp add: remask_stored.simps [of f st after n s] Let_def)
      have "only_messages t s' \<and> n + length (f ?rows) \<le> k"
        using 1(1) [OF refl False t big rec 1(3)] by blast
      then show ?thesis using only only_messages_trans grows by auto
    qed
  qed
qed

lemma recounts_only:
  "each_ok recount_one ds s = Inr s' \<Longrightarrow> only_messages s s'" "each_ok recount_one ds s = Inr s' \<Longrightarrow> ds = [] \<Longrightarrow> s' = s"
proof -
  show "each_ok recount_one ds s = Inr s' \<Longrightarrow> only_messages s s'"
  proof (induction ds arbitrary: s)
    case (Cons d ds)
    obtain t where t: "recount_one d s = Inr t" "each_ok recount_one ds t = Inr s'" using Cons.prems by (auto split: sum.splits)
    have "only_messages s t"
      using t(1) by (auto simp: recount_one_def recount_scan_hits_def update_sender_def only_messages_def split: option.splits if_splits)
    then show ?case using Cons.IH [OF t(2)] only_messages_trans by blast
  qed (simp add: only_messages_def)
qed simp

lemma requeue_overturned_only:
  assumes "requeue_overturned f s = Inr (s', n)"
  shows "only_messages s s'" "n = 0 \<Longrightarrow> s' = s"
  using assms update_where_only [of waits_again s "\<lambda>m. sm_state m = SkippedGate \<and> sm_id m \<in> set (f (gate_skips s))"]
  by (auto simp: requeue_overturned_def requeue_gate_skips_def only_messages_def waits_again_def Let_def split: if_splits prod.splits)

text \<open>A pass that is marked to start over reads on from the start, so nothing is behind it.\<close>

lemma restart_stands:
  assumes "ids_ok s" "mi_restart s" "\<not> mi_second_ended s" "latest_run_of zero_progress2 (mi_runs2 s) = Some l"
    "lr_found l \<longrightarrow> lr_run_id l \<noteq> []"
  shows "stands s"
proof -
  have "\<not> ps_skip (next_start s l) \<and> wp_id (position_of (ps_from (next_start s l))) = []"
    using assms(2,3,5) by (auto simp: next_start_def begin_pass2_def begin_pass_def start_over2_def restart_pass2_def
        position_of_def zero_progress2_def zero_checkpoint2_def)
  then show ?thesis using assms(1,4,5) by (auto simp: stands_def waits_ahead_def walked_before_def)
qed

lemma reopen_tx_parts:
  assumes "reopen_tx st f g s = Inr (s', x)" "\<And>rows. length (f rows) = length rows"
  shows "s' = s \<and> \<not> stale_subject (stored_version (st_version st)) (st_revision st) s \<or>
    (\<exists>t. only_messages s t \<and> s' = t\<lparr>mi_second_ended := False, mi_restart := True\<rparr>)"
proof -
  define v where "v = stored_version (st_version st)"
  obtain s1 ds where s1: "requeue_stale_verdicts v (st_revision st) s = (s1, ds)" by (cases "requeue_stale_verdicts v (st_revision st) s")
  obtain s2 where s2: "each_ok recount_one (sort_compact ds) s1 = Inr s2" using assms(1) s1
    by (auto simp: reopen_tx_def v_def Let_def split: sum.splits prod.splits)
  obtain s3 a where s3: "requeue_refusals refused_bound s2 = (s3, a)" by (cases "requeue_refusals refused_bound s2")
  obtain s4 b where s4: "remask_stored f st [] 0 s3 = Inr (s4, b)" using assms(1) s1 s2 s3
    by (auto simp: reopen_tx_def v_def Let_def split: sum.splits prod.splits)
  obtain s5 c where s5: "requeue_overturned g s4 = Inr (s5, c)" using assms(1) s1 s2 s3 s4
    by (auto simp: reopen_tx_def v_def Let_def split: sum.splits prod.splits)
  have s': "s' = (if ds = [] \<and> a = 0 \<and> c = 0 \<and> b = 0 \<and> \<not> stale_subject v (st_revision st) s5 then s5
      else s5\<lparr>mi_second_ended := False, mi_restart := True\<rparr>)"
    using assms(1) s1 s2 s3 s4 s5 by (simp add: reopen_tx_def v_def [symmetric] Let_def)
  have waits: "sm_id (waits_again m) = sm_id m" for m by (simp add: waits_again_def)
  have o1: "only_messages s s1" "ds = [] \<Longrightarrow> s1 = s"
    using s1 update_where_only [of "\<lambda>m. (waits_again m)\<lparr>sm_flags := [], sm_rules := [], sm_version := None, sm_revision := None\<rparr>" s]
      update_where_none [of "stale_verdict v (st_revision st)" "\<lambda>m. (waits_again m)\<lparr>sm_flags := [], sm_rules := [], sm_version := None, sm_revision := None\<rparr>" s s1]
    by (auto simp: requeue_stale_verdicts_def waits_again_def update_where_def)
  note o2 = recounts_only [OF s2]
  have s3': "update_where (\<lambda>m. sm_state m = Refused \<and> sm_bound m \<noteq> Some refused_bound) (\<lambda>m. (waits_again m)\<lparr>sm_bound := None\<rparr>) s2 = (s3, a)"
    using s3 by (simp add: requeue_refusals_def)
  have o3: "only_messages s2 s3"
    using update_where_only [of "\<lambda>m. (waits_again m)\<lparr>sm_bound := None\<rparr>" s2
        "\<lambda>m. sm_state m = Refused \<and> sm_bound m \<noteq> Some refused_bound"] s3' waits by simp
  have o3': "a = 0 \<Longrightarrow> s3 = s2" using s3' update_where_none by blast
  note o4 = remask_stored_only [OF s4 assms(2)]
  note o5 = requeue_overturned_only [OF s5]
  have only: "only_messages s s5" using o1(1) o2(1) o3 o4 o5(1) only_messages_trans by blast
  show ?thesis
  proof (cases "ds = [] \<and> a = 0 \<and> c = 0 \<and> b = 0 \<and> \<not> stale_subject v (st_revision st) s5")
    case True
    then have "s' = s \<and> s5 = s" using s' o1(2) o2(2) o3' o4 o5(2) by simp
    then show ?thesis using True by (simp add: v_def)
  next
    case False
    then have "s' = s5\<lparr>mi_second_ended := False, mi_restart := True\<rparr>" using s' by (simp only: if_False)
    then show ?thesis using only by blast
  qed
qed

lemma reopen_tx_stands:
  assumes "stands s" "reopen_tx st f g s = Inr (s', x)" "\<And>rows. length (f rows) = length rows"
  shows "stands s'"
  using reopen_tx_parts [OF assms(2,3)]
proof (elim disjE exE conjE)
  assume "s' = s"
  then show ?thesis using assms(1) by simp
next
  fix t
  assume only: "only_messages s t" and e: "s' = t\<lparr>mi_second_ended := False, mi_restart := True\<rparr>"
  obtain l where l: "latest_run_of zero_progress2 (mi_runs2 s) = Some l" "lr_found l \<longrightarrow> lr_run_id l \<noteq> []"
    using assms(1) by (auto simp: stands_def)
  have "ids_ok s'" using assms(1) only ids_ok_same [of s' s] by (simp add: e stands_def only_messages_def)
  then show ?thesis using only l by (intro restart_stands [of s' l]) (simp_all add: e only_messages_def)
qed

lemma second_reopen_stands:
  assumes "stands (wd_index w)"
  shows "stands (wd_index (snd (second_reopen env w)))"
  unfolding second_reopen_def Let_def
  by (rule in_tx_index) (use assms reopen_tx_stands in \<open>auto simp: remasked_stored_def\<close>)

subsection \<open>Over time\<close>

lemma second_pages_stand:
  assumes "run_ok p w" "gate_config_valid (bx_gate env)"
  shows "stands (wd_index (second_pages env n p w))"
  using assms(1)
proof (induction n arbitrary: p w)
  case (Suc n)
  obtain res p' w' where r: "second_next env p w = (res, p', w')" by (cases "second_next env p w") auto
  show ?case
  proof (cases "wd_stopped w")
    case True
    then show ?thesis using Suc.prems by (simp add: run_ok_def)
  next
    case False
    then have ok: "run_ok p' w'" using second_next_ok [OF r Suc.prems False assms(2)] by simp
    then show ?thesis using r Suc.IH [OF ok] False by (auto simp: run_ok_def split: sum.split)
  qed
qed (simp add: run_ok_def)

lemma second_account_stands:
  assumes "stands (wd_index w)" "gate_config_valid (bx_gate env)" "\<And>k. bx_run_id env k \<noteq> []"
  shows "stands (wd_index (second_account env n w))"
proof -
  obtain res w' where r: "second_open env w = (res, w')" by (cases "second_open env w")
  have "case res of Inl es \<Rightarrow> stands (wd_index w') | Inr p \<Rightarrow> run_ok p w'" by (rule second_open_ok [OF r assms(1,3)])
  then show ?thesis using r second_pages_stand [OF _ assms(2)]
    by (auto simp: second_account_def run_ok_def split: sum.splits)
qed

lemma second_does_stands:
  assumes "stands (wd_index w)" "gate_config_valid (bx_gate (fst x))" "\<And>k. bx_run_id (fst x) k \<noteq> []"
  shows "stands (wd_index (second_does x w))"
proof -
  obtain env a where x: "x = (env, a)" by (cases x)
  have "stands (wd_index (w\<lparr>wd_stopped := False\<rparr>))" using assms(1) by simp
  then show ?thesis using assms(2,3) second_reopen_stands second_account_stands
    by (auto simp: second_does_def x Let_def split: second_act.split)
qed

end
