(* ===== verification/FirstPassFacts.thy ===== *)
theory FirstPassFacts
  imports FirstPass SecondPassFacts
begin

text \<open>
  What the first pass keeps: that the enumeration's pages up to the checkpoint are in the index, that a second
  pass begins only after the enumeration, and that a subject stored under another scanner has the second
  pass marked to start over.
\<close>

subsection \<open>The enumeration\<close>

text \<open>The token of the page after the first \<open>n\<close>, in a mailbox whose pages are \<open>pages\<close>.\<close>

definition enumerated :: "(string \<Rightarrow> metadata_page) \<Rightarrow> nat \<Rightarrow> string" where
  "enumerated pages n = ((\<lambda>t. mp_next (pages t)) ^^ n) []"

definition indexed :: "mail_index \<Rightarrow> string set" where
  "indexed s = sm_id ` set (mi_messages s)"

definition holds_pages :: "(string \<Rightarrow> metadata_page) \<Rightarrow> nat \<Rightarrow> mail_index \<Rightarrow> bool" where
  "holds_pages pages n s \<longleftrightarrow> (\<forall>j<n. \<forall>m \<in> set (mp_items (pages (enumerated pages j))). mm_id m \<in> indexed s)"

definition reads_on :: "(string \<Rightarrow> metadata_page) \<Rightarrow> progress \<Rightarrow> mail_index \<Rightarrow> bool" where
  "reads_on pages p s \<longleftrightarrow> (\<exists>n. ck_page (pg_checkpoint p) = of_nat n \<and> ck_token (pg_checkpoint p) = enumerated pages n \<and>
     holds_pages pages n s)"

abbreviation enumeration_over :: "progress \<Rightarrow> bool" where
  "enumeration_over p \<equiv> ck_ended (pg_checkpoint p)"

lemma reads_on_mono: "indexed s \<subseteq> indexed s' \<Longrightarrow> reads_on pages p s \<Longrightarrow> reads_on pages p s'"
  unfolding reads_on_def holds_pages_def by blast

lemma reads_from_start: "ck_page (pg_checkpoint p) = 0 \<Longrightarrow> ck_token (pg_checkpoint p) = [] \<Longrightarrow> reads_on pages p s"
  unfolding reads_on_def by (intro exI [of _ 0]) (simp add: enumerated_def holds_pages_def)

lemma over_holds_pages:
  assumes "reads_on pages p s" "enumeration_over p"
  shows "\<exists>n>0. enumerated pages n = [] \<and> holds_pages pages n s"
proof -
  obtain n where n: "ck_page (pg_checkpoint p) = of_nat n" "enumerated pages n = []" "holds_pages pages n s"
    using assms by (auto simp: reads_on_def ck_ended_def)
  moreover have "n \<noteq> 0" using assms(2) n(1) by (intro notI) (simp add: ck_ended_def)
  ultimately show ?thesis by blast
qed

subsection \<open>Where the first pass stands\<close>

definition begun :: "mail_index \<Rightarrow> bool" where
  "begun s \<longleftrightarrow> mi_second_ended s \<or> mi_runs2 s \<noteq> []"

definition first_stands :: "(string \<Rightarrow> metadata_page) \<Rightarrow> mail_index \<Rightarrow> bool" where
  "first_stands pages s \<longleftrightarrow> (\<exists>l. latest_run_of zero_progress (mi_runs1 s) = Some l \<and>
     (lr_found l \<longrightarrow> reads_on pages (lr_progress l) s) \<and>
     (lr_found l \<and> lr_state l = RunSucceeded \<longrightarrow> mi_first_ended s) \<and>
     (mi_first_ended s \<or> begun s \<longrightarrow> lr_found l \<and> enumeration_over (lr_progress l)))"

definition stale_under :: "stamp \<Rightarrow> mail_index \<Rightarrow> bool" where
  "stale_under st s = stale_subject (stored_version (st_version st)) (st_revision st) s"

definition stale_marked :: "stamp \<Rightarrow> mail_index \<Rightarrow> bool" where
  "stale_marked st s \<longleftrightarrow> (stale_under st s \<longrightarrow> mi_restart s \<and> \<not> mi_second_ended s)"

definition first_ok :: "stamp \<Rightarrow> (string \<Rightarrow> metadata_page) \<Rightarrow> mail_index \<Rightarrow> bool" where
  "first_ok st pages s \<longleftrightarrow> stands s \<and> first_stands pages s \<and> stale_marked st s"

definition first_run :: "stamp \<Rightarrow> (string \<Rightarrow> metadata_page) \<Rightarrow> first_pass \<Rightarrow> mail_index \<Rightarrow> bool" where
  "first_run st pages p s \<longleftrightarrow> first_ok st pages s \<and> \<not> mi_first_ended s \<and> \<not> fp_done p \<and>
     (\<exists>r rs. mi_runs1 s = r # rs \<and> ru_id r = fp_run p \<and> ru_state r = ''running'' \<and>
        (enumeration_over (fp_at p) \<longrightarrow> enumeration_over (ru_progress r))) \<and>
     reads_on pages (fp_at p) s \<and> ck_stamp (pg_checkpoint (fp_at p)) = st \<and> (begun s \<longrightarrow> enumeration_over (fp_at p))"

lemma in_tx_keeps:
  "in_tx env f w = (r, w') \<Longrightarrow> P (wd_index w) \<Longrightarrow> (\<And>s x. f (wd_index w) = Inr (s, x) \<Longrightarrow> P s) \<Longrightarrow> P (wd_index w')"
  using in_tx_index [of P w f env] by simp

lemma first_ended_over: "first_stands pages s \<Longrightarrow> mi_first_ended s \<Longrightarrow> \<exists>p. reads_on pages p s \<and> enumeration_over p"
  by (auto simp: first_stands_def)

subsection \<open>What records only events and items\<close>

definition only_notes :: "mail_index \<Rightarrow> mail_index \<Rightarrow> bool" where
  "only_notes s s' \<longleftrightarrow> only_more_failures s s' \<and> mi_runs1 s' = mi_runs1 s \<and> mi_first_ended s' = mi_first_ended s"

lemma only_notes_refl [simp]: "only_notes s s" by (simp add: only_notes_def)

lemma only_notes_keep:
  assumes "only_notes s s'"
  shows "first_ok st pages s \<Longrightarrow> first_ok st pages s'" "first_run st pages p s \<Longrightarrow> first_run st pages p s'" "begun s' = begun s"
proof -
  have same: "mi_messages s' = mi_messages s" "mi_runs2 s' = mi_runs2 s" "mi_second_ended s' = mi_second_ended s"
      "mi_restart s' = mi_restart s" "mi_runs1 s' = mi_runs1 s" "mi_first_ended s' = mi_first_ended s"
    using assms by (simp_all add: only_notes_def only_more_failures_def)
  have reads: "reads_on pages p s' = reads_on pages p s" for p by (simp add: reads_on_def holds_pages_def indexed_def same)
  show beg: "begun s' = begun s" by (simp add: begun_def same)
  have stale: "stale_marked st s' = stale_marked st s" by (simp add: stale_marked_def stale_under_def stale_subject_def same)
  have fs: "first_stands pages s' = first_stands pages s" by (simp add: first_stands_def same reads beg)
  show ok: "first_ok st pages s \<Longrightarrow> first_ok st pages s'"
    using assms only_more_failures_keeps(1) by (auto simp: first_ok_def fs stale only_notes_def)
  show "first_run st pages p s \<Longrightarrow> first_run st pages p s'" using ok by (simp add: first_run_def same reads beg)
qed

lemma event_tx_notes: "event_tx run kind page detail s = Inr (s', x) \<Longrightarrow> only_notes s s'"
  using event_tx_more [of run kind page detail s s' x] by (auto simp: only_notes_def event_tx_def record_event_def)

lemma record_item_notes: "only_notes s s1 \<Longrightarrow> only_notes s (record_item run i s1)"
  by (auto simp: only_notes_def only_more_failures_def record_item_def)

lemma record_items_notes: "only_notes s (fold (record_item run) items s)"
proof -
  have "only_notes s s1 \<Longrightarrow> only_notes s (fold (record_item run) items s1)" for s1
    by (induction items arbitrary: s1) (simp_all add: record_item_notes)
  then show ?thesis by simp
qed

lemma failure_tx_notes: "failure_tx run i s = Inr (s', x) \<Longrightarrow> only_notes s s'"
  using record_item_notes [of s s run i] by (auto simp: failure_tx_def)

lemma items_tx_notes: "items_tx run items s = Inr (s', x) \<Longrightarrow> only_notes s s'"
  using record_items_notes by (auto simp: items_tx_def)

lemmas note_txs = event_tx_notes failure_tx_notes items_tx_notes

subsection \<open>A run's end\<close>

lemma stands_runs1:
  "stands (s\<lparr>mi_runs1 := rs, mi_first_ended := b\<rparr>) = stands s" "stands (s\<lparr>mi_events := es\<rparr>) = stands s"
  "stale_marked st (s\<lparr>mi_runs1 := rs, mi_first_ended := b\<rparr>) = stale_marked st s" "stale_marked st (s\<lparr>mi_events := es\<rparr>) = stale_marked st s"
  by (simp_all add: stands_def ids_ok_def next_start_def all_excused_def excused_def signalled_def waits_ahead_def
      stale_marked_def stale_under_def stale_subject_def)

lemma first_stands_events [simp]: "first_stands pages (s\<lparr>mi_events := es\<rparr>) = first_stands pages s"
  by (simp add: first_stands_def reads_on_def holds_pages_def indexed_def begun_def)

lemma fail1_tx_ok:
  assumes "first_ok st pages s" "fail1_tx run cause s = Inr (s', x)"
  shows "first_ok st pages s'"
proof -
  define t where "t = s\<lparr>mi_runs1 := end_run_row run ''failed'' cause (mi_runs1 s)\<rparr>"
  have s': "s' = t\<lparr>mi_events := mi_events s'\<rparr>" using assms(2) by (auto simp: fail1_tx_def record_event_def t_def)
  obtain l where l: "latest_run_of zero_progress (mi_runs1 s) = Some l" "lr_found l \<longrightarrow> reads_on pages (lr_progress l) s"
      "lr_found l \<and> lr_state l = RunSucceeded \<longrightarrow> mi_first_ended s"
      "mi_first_ended s \<or> begun s \<longrightarrow> lr_found l \<and> enumeration_over (lr_progress l)"
    using assms(1) by (auto simp: first_ok_def first_stands_def)
  define l' where "l' = (if lr_found l \<and> lr_run_id l = run \<and> lr_state l = RunRunning then l\<lparr>lr_state := RunFailed\<rparr> else l)"
  have "latest_run_of zero_progress (mi_runs1 t) = Some l'" by (simp add: t_def ended_row_latest l(1) l'_def)
  moreover have "lr_found l' = lr_found l" "lr_progress l' = lr_progress l" "lr_state l' = RunSucceeded \<longrightarrow> lr_state l = RunSucceeded"
    by (auto simp: l'_def)
  moreover have "reads_on pages q t = reads_on pages q s" for q by (simp add: reads_on_def holds_pages_def indexed_def t_def)
  moreover have "mi_first_ended t = mi_first_ended s" "begun t = begun s" by (simp_all add: t_def begun_def)
  ultimately have "first_stands pages t" using l unfolding first_stands_def by (intro exI [of _ l']) auto
  moreover have "stands t" "stale_marked st t" using assms(1) stands_runs1(1,3) [where s = s and rs = "end_run_row run ''failed'' cause (mi_runs1 s)" and b = "mi_first_ended s"]
    by (simp_all add: t_def first_ok_def)
  ultimately show ?thesis by (subst s') (simp add: first_ok_def stands_runs1)
qed

lemma first_failed_ok:
  "first_failed env p cause w = (es, p', w') \<Longrightarrow> first_ok st pages (wd_index w) \<Longrightarrow> first_ok st pages (wd_index w')"
  using in_tx_keeps [of env "fail1_tx (fp_run p) (bx_cause env cause)" w _ _ "first_ok st pages"] fail1_tx_ok
  by (fastforce simp: first_failed_def split: if_splits sum.splits prod.splits)

lemma finish1_tx_ok:
  assumes "first_run st pages p s" "enumeration_over (fp_at p)" "finish1_tx (fp_run p) st s = Inr (s', b)"
  shows "if b then first_ok st pages s' \<and> mi_first_ended s' \<and> \<not> stale_under st s' else s' = s"
proof (cases b)
  case False
  then show ?thesis using assms(3) by (auto simp: finish1_tx_def split: if_splits)
next
  case True
  define t where "t = s\<lparr>mi_runs1 := end_run_row (fp_run p) ''succeeded'' [] (mi_runs1 s), mi_first_ended := True\<rparr>"
  have e: "s' = t\<lparr>mi_events := mi_events s'\<rparr>" "stale_subjects (stored_version (st_version st)) (st_revision st) 1 s = []"
    using assms(3) True by (auto simp: finish1_tx_def record_event_def t_def split: if_splits)
  have "filter (stale_subject_row (stored_version (st_version st)) (st_revision st)) (mi_messages s) = []"
    using e(2) by (simp add: stale_subjects_def take_eq_Nil flip: length_0_conv)
  then have fresh: "\<not> stale_under st s" by (auto simp: stale_under_def stale_subject_def list_ex_iff filter_empty_conv)
  obtain r rs where r: "mi_runs1 s = r # rs" "ru_id r = fp_run p" "ru_state r = ''running''" "enumeration_over (ru_progress r)"
    using assms(1,2) by (auto simp: first_run_def)
  have reads: "reads_on pages (ru_progress r) s"
    using assms(1) r by (auto simp: first_run_def first_ok_def first_stands_def latest_run_of_def run_state_named_def)
  have "reads_on pages q t = reads_on pages q s" for q by (simp add: reads_on_def holds_pages_def indexed_def t_def)
  then have "first_stands pages t" using r reads
    by (simp add: first_stands_def t_def latest_run_of_def end_run_row_def run_state_named_def)
  moreover have "stands t" "stale_marked st t" using assms(1) by (simp_all add: t_def stands_runs1 first_run_def first_ok_def)
  moreover have "stale_under st t = stale_under st s" by (simp add: t_def stale_under_def stale_subject_def)
  ultimately show ?thesis using True fresh
    by (subst (1 2 3) e(1)) (simp add: first_ok_def stands_runs1 stale_under_def stale_subject_def t_def)
qed

subsection \<open>What the statements on messages leave\<close>

text \<open>What no statement on messages, senders, maskings or items changes.\<close>

definition same_runs :: "mail_index \<Rightarrow> mail_index \<Rightarrow> bool" where
  "same_runs s s' \<longleftrightarrow> mi_runs1 s' = mi_runs1 s \<and> mi_runs2 s' = mi_runs2 s \<and> mi_first_ended s' = mi_first_ended s \<and>
     mi_second_ended s' = mi_second_ended s \<and> mi_restart s' = mi_restart s"

lemma same_runs_refl [simp]: "same_runs s s" by (simp add: same_runs_def)

lemma same_runs_trans: "same_runs a b \<Longrightarrow> same_runs b c \<Longrightarrow> same_runs a c" by (simp add: same_runs_def)

lemma same_runs_begun: "same_runs s s' \<Longrightarrow> begun s' = begun s" by (simp add: same_runs_def begun_def)

lemma notes_same_runs: "only_notes s s' \<Longrightarrow> same_runs s s'"
  by (simp add: only_notes_def only_more_failures_def same_runs_def)

lemma same_runs_stand:
  assumes "same_runs s s'" "indexed s \<subseteq> indexed s'" "first_stands pages s"
  shows "first_stands pages s'"
proof -
  have "reads_on pages p s \<Longrightarrow> reads_on pages p s'" for p by (rule reads_on_mono [OF assms(2)])
  then show ?thesis using assms(1,3) same_runs_begun [OF assms(1)] by (auto simp: first_stands_def same_runs_def)
qed

lemma unbegun_stands: "ids_ok s \<Longrightarrow> \<not> begun s \<Longrightarrow> stands s"
  by (auto simp: stands_def begun_def latest_run_of_def next_start_def begin_pass2_def begin_pass_def start_over2_def
      position_of_def zero_progress2_def zero_checkpoint2_def waits_ahead_def walked_before_def)

subsubsection \<open>A subject masked again\<close>

definition subject_stale :: "stamp \<Rightarrow> message_row \<Rightarrow> bool" where
  "subject_stale st = stale_subject_row (stored_version (st_version st)) (st_revision st)"

lemma stale_under_iff: "stale_under st s \<longleftrightarrow> (\<exists>m \<in> set (mi_messages s). subject_stale st m)"
  by (simp add: stale_under_def stale_subject_def subject_stale_def list_ex_iff)

lemma set_subject_parts [simp]:
  "sm_id (set_subject v r x b m) = sm_id m" "sm_state (set_subject v r x b m) = sm_state m"
  "sm_sent_at (set_subject v r x b m) = sm_sent_at m" "sm_domain (set_subject v r x b m) = sm_domain m"
  "sm_flags (set_subject v r x b m) = sm_flags m" "sm_bound (set_subject v r x b m) = sm_bound m"
  by (simp_all add: set_subject_def)

lemma set_subject_fresh [simp]:
  "\<not> subject_stale st (set_subject (stored_version (st_version st)) (st_revision st) x b m)"
  by (simp add: subject_stale_def stale_subject_row_def set_subject_def)

lemma store_remasked_rows:
  assumes "store_remasked m s = (s', b)"
  shows "same_runs s s'" "mi_failures s' = mi_failures s" "mi_senders s' = mi_senders s"
    and "mi_messages s' = map (\<lambda>x. if sm_id x = im_id m \<and> subject_stale (im_stamp m) x
      then set_subject (stored_version (st_version (im_stamp m))) (st_revision (im_stamp m)) (im_subject m) (im_subject_masked m) x
      else x) (mi_messages s)"
  using assms by (auto simp: store_remasked_def remask_subject_def update_where_def record_maskings_def same_runs_def Let_def
      subject_stale_def split: if_splits prod.splits)

lemma store_remasked_ids: "store_remasked m s = (s', b) \<Longrightarrow> map sm_id (mi_messages s') = map sm_id (mi_messages s)"
  using store_remasked_rows(4) [of m s s' b] by simp

lemma store_remasked_stale:
  assumes "store_remasked m s = (s', b)" "im_stamp m = st" "stale_under st s'"
  shows "stale_under st s"
  using assms by (auto simp: stale_under_iff store_remasked_rows(4) [OF assms(1)] split: if_splits)

lemma store_remasked_ok:
  assumes "store_remasked m s = (s', b)" "im_stamp m = st" "first_ok st pages s"
  shows "first_ok st pages s'"
proof -
  note rows = store_remasked_rows [OF assms(1)]
  have same: "mi_runs2 s' = mi_runs2 s" "mi_second_ended s' = mi_second_ended s" "mi_restart s' = mi_restart s"
      "mi_first_ended s' = mi_first_ended s"
    using rows(1) by (simp_all add: same_runs_def)
  have ids: "ids_ok s' = ids_ok s" by (rule ids_ok_same [OF store_remasked_ids [OF assms(1)]])
  have marked: "stale_marked st s'" using assms(3) store_remasked_stale [OF assms(1,2)] by (simp add: first_ok_def stale_marked_def same)
  have indexed: "indexed s \<subseteq> indexed s'" using store_remasked_ids [OF assms(1)] by (metis indexed_def list.set_map order_refl)
  have "stands s'"
  proof (cases "stale_under st s")
    case True
    then have "mi_restart s" "\<not> mi_second_ended s" using assms(3) by (simp_all add: first_ok_def stale_marked_def)
    moreover obtain l where "latest_run_of zero_progress2 (mi_runs2 s) = Some l" "lr_found l \<longrightarrow> lr_run_id l \<noteq> []" "ids_ok s"
      using assms(3) by (auto simp: first_ok_def stands_def)
    ultimately show ?thesis by (intro restart_stands [of s' l]) (simp_all add: same ids)
  next
    case False
    then have "mi_messages s' = mi_messages s" by (auto simp: rows(4) assms(2) stale_under_iff map_idI)
    then have "only_more_failures s s'" by (simp add: only_more_failures_def rows(2) same)
    then show ?thesis using only_more_failures_keeps(1) assms(3) by (simp add: first_ok_def)
  qed
  then show ?thesis using marked same_runs_stand [OF rows(1) indexed] assms(3) by (simp add: first_ok_def)
qed

subsubsection \<open>A page's messages\<close>

lemma insert_message_rows:
  assumes "insert_message m s = (s', True)"
  shows "same_runs s s'" "mi_failures s' = mi_failures s" "mi_senders s' = mi_senders s"
    "mi_messages s' = mi_messages s @ [inserted_row m]" "im_id m \<notin> indexed s"
proof -
  have "s' = s\<lparr>mi_messages := mi_messages s @ [inserted_row m]\<rparr> \<and> im_id m \<notin> indexed s"
    using assms by (simp add: insert_message_def indexed_def split: if_splits)
  then show "same_runs s s'" "mi_failures s' = mi_failures s" "mi_senders s' = mi_senders s"
      "mi_messages s' = mi_messages s @ [inserted_row m]" "im_id m \<notin> indexed s"
    by (simp_all add: same_runs_def)
qed

lemma inserted_row_parts [simp]:
  "sm_id (inserted_row m) = im_id m" "sm_state (inserted_row m) = Pending" "sm_domain (inserted_row m) = im_domain m"
  "sm_flags (inserted_row m) = []" "sm_bound (inserted_row m) = None"
  by (simp_all add: inserted_row_def)

lemma inserted_row_fresh [simp]: "\<not> subject_stale (im_stamp m) (inserted_row m)"
  by (simp add: subject_stale_def stale_subject_row_def inserted_row_def)

text \<open>What a page's messages leave of the index they are stored in.\<close>

definition grows_by :: "stamp \<Rightarrow> string set \<Rightarrow> mail_index \<Rightarrow> mail_index \<Rightarrow> bool" where
  "grows_by st is s s' \<longleftrightarrow> same_runs s s' \<and> indexed s' = indexed s \<union> is \<and>
     ([] \<notin> is \<longrightarrow> ids_ok s \<longrightarrow> ids_ok s') \<and> (stale_under st s' \<longrightarrow> stale_under st s)"

lemma grows_by_trans: "grows_by st a s s1 \<Longrightarrow> grows_by st b s1 s2 \<Longrightarrow> grows_by st (a \<union> b) s s2"
  using same_runs_trans by (auto simp: grows_by_def)

lemma commit_message_grows:
  assumes "commit_message m (s, c) = (s', c')" "im_stamp m = st"
  shows "grows_by st {im_id m} s s'"
proof -
  obtain s1 b where i: "insert_message m s = (s1, b)" by (cases "insert_message m s")
  show ?thesis
  proof (cases b)
    case True
    then have s': "s' = record_maskings (masking_rows (stored_version (st_version st)) m) s1"
      using assms i by (simp add: commit_message_def Let_def)
    have "insert_message m s = (s1, True)" using i True by simp
    note rows = insert_message_rows [OF this]
    have "mi_messages s' = mi_messages s @ [inserted_row m]" "same_runs s s'"
      using rows by (simp_all add: s' record_maskings_def same_runs_def)
    then show ?thesis using rows(5) assms(2) by (auto simp: grows_by_def indexed_def ids_ok_def stale_under_iff)
  next
    case False
    obtain s2 d where d: "store_remasked m s = (s2, d)" by (cases "store_remasked m s")
    then have s': "s' = s2" using assms(1) i False by (cases d) (simp_all add: commit_message_def)
    have "im_id m \<in> indexed s" using i False by (auto simp: insert_message_def indexed_def split: if_splits)
    moreover have "indexed s2 = indexed s" using store_remasked_ids [OF d] by (metis indexed_def list.set_map)
    ultimately show ?thesis
      using store_remasked_rows(1) [OF d] ids_ok_same [OF store_remasked_ids [OF d]] store_remasked_stale [OF d assms(2)]
      by (auto simp: grows_by_def s')
  qed
qed

lemma commit_messages_grow:
  assumes "fold commit_message ms (s, c) = (s', c')" "\<And>m. m \<in> set ms \<Longrightarrow> im_stamp m = st"
  shows "grows_by st (im_id ` set ms) s s'"
  using assms
proof (induction ms arbitrary: s c)
  case Nil
  then show ?case by (simp add: grows_by_def)
next
  case (Cons m ms)
  obtain s1 c1 where c: "commit_message m (s, c) = (s1, c1)" by (cases "commit_message m (s, c)")
  have "grows_by st {im_id m} s s1" using commit_message_grows [OF c] Cons.prems(2) by simp
  moreover have "grows_by st (im_id ` set ms) s1 s'" using Cons.IH [of s1 c1] Cons.prems c by simp
  ultimately show ?case using grows_by_trans by fastforce
qed

lemma rebuild_senders_rows:
  "mi_messages (fold rebuild_sender ds s) = mi_messages s" "same_runs s (fold rebuild_sender ds s)"
  "mi_failures (fold rebuild_sender ds s) = mi_failures s"
  by (induction ds arbitrary: s) (auto simp: rebuild_sender_def Let_def same_runs_def)

lemma rebuild_senders_grow: "grows_by st {} s (fold rebuild_sender ds s)"
  using rebuild_senders_rows [where ds = ds and s = s] by (auto simp: grows_by_def indexed_def ids_ok_def stale_under_iff)

lemma notes_grow: "only_notes s s' \<Longrightarrow> grows_by st {} s s'"
  using notes_same_runs [of s s']
  by (auto simp: grows_by_def only_notes_def only_more_failures_def indexed_def ids_ok_def stale_under_iff)

subsubsection \<open>Progress\<close>

lemma record_progress1_parts [simp]:
  "mi_messages (record_progress1 run q s) = mi_messages s" "mi_runs2 (record_progress1 run q s) = mi_runs2 s"
  "mi_first_ended (record_progress1 run q s) = mi_first_ended s" "mi_second_ended (record_progress1 run q s) = mi_second_ended s"
  "mi_restart (record_progress1 run q s) = mi_restart s" "mi_failures (record_progress1 run q s) = mi_failures s"
  "mi_runs1 (record_progress1 run q s) = progress_row run q (mi_runs1 s)" "mi_senders (record_progress1 run q s) = mi_senders s"
  by (simp_all add: record_progress1_def record_event_def)

text \<open>A run's progress recorded with the work it counts, in rows that stand as they did.\<close>

lemma progress_run:
  assumes "first_run st pages p s" "same_runs s s1" "indexed s \<subseteq> indexed s1" "stands s1" "stale_marked st s1"
    and "reads_on pages q s1" "ck_stamp (pg_checkpoint q) = st" "begun s \<longrightarrow> enumeration_over q"
  shows "first_run st pages (p\<lparr>fp_at := q, fp_resumed := x\<rparr>) (record_progress1 (fp_run p) q s1)"
proof -
  let ?s = "record_progress1 (fp_run p) q s1"
  obtain r rs where r: "mi_runs1 s1 = r # rs" "ru_id r = fp_run p" "ru_state r = ''running''"
    using assms(1,2) by (auto simp: first_run_def same_runs_def)
  have ended: "\<not> mi_first_ended ?s" using assms(1,2) by (simp add: first_run_def same_runs_def)
  have reads: "reads_on pages q ?s" using assms(6) by (simp add: reads_on_def holds_pages_def indexed_def)
  have beg: "begun ?s = begun s" using assms(2) by (simp add: begun_def same_runs_def)
  have "first_stands pages ?s" using r ended reads assms(8) beg
    by (simp add: first_stands_def latest_run_of_def progress_row_def run_state_named_def)
  moreover have "stands ?s" using only_more_failures_keeps(1) [of s1 ?s] assms(4) by (simp add: only_more_failures_def)
  moreover have "stale_marked st ?s" using assms(5) by (simp add: stale_marked_def stale_under_iff)
  moreover have "\<not> fp_done p" using assms(1) by (simp add: first_run_def)
  ultimately show ?thesis using r ended reads assms(7,8) beg by (simp add: first_run_def first_ok_def progress_row_def)
qed

subsection \<open>The first pass's transactions\<close>

text \<open>Rows that grow by a page while no second pass has begun, or only by notes, stand as they did.\<close>

lemma grown_stands:
  assumes "first_ok st pages s" "grows_by st is s s'" "[] \<notin> is" "\<not> begun s"
  shows "stands s'" "stale_marked st s'"
proof -
  have "ids_ok s'" "\<not> begun s'" using assms same_runs_begun by (auto simp: grows_by_def first_ok_def stands_def)
  then show "stands s'" by (rule unbegun_stands)
  show "stale_marked st s'" using assms(1,2) by (auto simp: grows_by_def first_ok_def stale_marked_def same_runs_def)
qed

definition page_ids :: "metadata_page \<Rightarrow> string set" where
  "page_ids page = mm_id ` set (mp_items page)"

lemma decided_ids [simp]:
  "im_id ` set (ip_messages (index_decide u lg items c sc)) = mm_id ` set items"
  "m \<in> set (ip_messages (index_decide u lg items c sc)) \<Longrightarrow> im_stamp m = stamp_of sc"
  by (auto simp: index_decide_def index_row_def Let_def image_image)

lemma reads_next:
  assumes "reads_on pages p s" "indexed s \<subseteq> indexed s'" "page_ids page \<subseteq> indexed s'" "page = pages (ck_token (pg_checkpoint p))"
  shows "reads_on pages (advance_pass1 p (mp_next page) tot a r) s'"
proof -
  obtain n where n: "ck_page (pg_checkpoint p) = of_nat n" "ck_token (pg_checkpoint p) = enumerated pages n" "holds_pages pages n s"
    using assms(1) by (auto simp: reads_on_def)
  have "holds_pages pages (Suc n) s'" using n assms(2-4) by (auto simp: holds_pages_def page_ids_def less_Suc_eq)
  moreover have "mp_next page = enumerated pages (Suc n)" using n(2) assms(4) by (simp add: enumerated_def)
  moreover have "ck_page (pg_checkpoint p) + 1 = of_nat (Suc n)" using n(1) by simp
  ultimately show ?thesis unfolding reads_on_def by (intro exI [of _ "Suc n"]) (simp add: advance_pass1_def Let_def)
qed

lemma reads_on_cong:
  assumes "ck_page (pg_checkpoint q) = ck_page (pg_checkpoint p)" "ck_token (pg_checkpoint q) = ck_token (pg_checkpoint p)"
  shows "reads_on pages q s = reads_on pages p s" "enumeration_over q = enumeration_over p"
  using assms by (simp_all add: reads_on_def ck_ended_def)

lemma commit1_tx_run:
  assumes "first_run st pages p s" "\<not> begun s"
    and "commit1_tx (fp_run p) (index_decide u lg (mp_items page) c sc) f
      (advance_pass1 (fp_at p) (mp_next page) tot) s = Inr (s', (q, n))"
    and "page = pages (ck_token (pg_checkpoint (fp_at p)))" "[] \<notin> page_ids page" "stamp_of sc = st"
  shows "first_run st pages (p\<lparr>fp_at := q, fp_resumed := x\<rparr>) s'"
proof -
  let ?page = "index_decide u lg (mp_items page) c sc"
  obtain s1 cc where s1: "fold commit_message (ip_messages ?page) (s, \<lparr>cc_added = 0, cc_remasked = 0, cc_unclassified = 0\<rparr>) = (s1, cc)"
    by (cases "fold commit_message (ip_messages ?page) (s, \<lparr>cc_added = 0, cc_remasked = 0, cc_unclassified = 0\<rparr>)")
  define s2 where "s2 = fold rebuild_sender (ip_domains ?page) s1"
  define s3 where "s3 = (case f of None \<Rightarrow> s2 | Some x \<Rightarrow> record_item (fp_run p) (page_item x) s2)"
  define a where "a = advance_pass1 (fp_at p) (mp_next page) tot (cc_added cc) (cc_remasked cc)"
  have q: "s' = record_progress1 (fp_run p) q s3"
      "q = (if enumeration_over a then a\<lparr>pg_checkpoint := (pg_checkpoint a)\<lparr>ck_stale := count_stale (ck_stamp (pg_checkpoint a)) s3\<rparr>\<rparr> else a)"
    using assms(3) unfolding commit1_tx_def s1 Let_def prod.case s2_def [symmetric] s3_def [symmetric] a_def [symmetric]
    by auto
  have "grows_by st (page_ids page) s s1" using commit_messages_grow [OF s1] assms(6) by (simp add: page_ids_def)
  moreover have "grows_by st {} s1 s2" unfolding s2_def by (rule rebuild_senders_grow)
  moreover have "grows_by st {} s2 s3" using record_item_notes [of s2 s2] by (auto simp: s3_def intro!: notes_grow split: option.split)
  ultimately have grown: "grows_by st (page_ids page) s s3" using grows_by_trans by (metis Un_empty_right)
  have ok: "first_ok st pages s" "reads_on pages (fp_at p) s" "ck_stamp (pg_checkpoint (fp_at p)) = st"
    using assms(1) by (simp_all add: first_run_def)
  have same: "same_runs s s3" "indexed s \<subseteq> indexed s3" "page_ids page \<subseteq> indexed s3" using grown by (auto simp: grows_by_def)
  have "reads_on pages a s3" unfolding a_def by (rule reads_next [OF ok(2) same(2,3) assms(4)])
  then have "reads_on pages q s3" using reads_on_cong(1) [of q a] by (simp add: q(2))
  moreover have "ck_stamp (pg_checkpoint q) = st" using ok(3) by (simp add: q(2) a_def advance_pass1_def Let_def)
  ultimately show ?thesis unfolding q(1)
    using grown_stands [OF ok(1) grown assms(5,2)] assms(2) by (intro progress_run [OF assms(1) same(1,2)]) simp_all
qed

lemma refetch_stamps:
  assumes "refetch u lg stored got sc = (again, gone)" "m \<in> set again \<union> set gone"
  shows "im_stamp m = stamp_of sc"
  using refetch_accounts_for_all [of u lg stored got sc] assms by (auto simp: Let_def list_all_iff)

text \<open>What subjects masked again and notes leave.\<close>

definition settles :: "stamp \<Rightarrow> (string \<Rightarrow> metadata_page) \<Rightarrow> mail_index \<Rightarrow> mail_index \<Rightarrow> bool" where
  "settles st pages s s' \<longleftrightarrow> first_ok st pages s' \<and> same_runs s s' \<and> indexed s' = indexed s"

lemma settles_trans: "settles st pages a b \<Longrightarrow> settles st pages b c \<Longrightarrow> settles st pages a c"
  using same_runs_trans by (auto simp: settles_def)

lemma store_remasked_settles:
  "store_remasked m s = (s', b) \<Longrightarrow> im_stamp m = st \<Longrightarrow> first_ok st pages s \<Longrightarrow> settles st pages s s'"
  using store_remasked_ok [of m s s' b st pages] store_remasked_rows(1) [of m s s' b] arg_cong [OF store_remasked_ids [of m s s' b], of set]
  by (simp add: settles_def indexed_def)

lemma settles_refl: "first_ok st pages s \<Longrightarrow> settles st pages s s"
  by (simp add: settles_def)

lemma notes_settle: "only_notes s s' \<Longrightarrow> first_ok st pages s \<Longrightarrow> settles st pages s s'"
  using only_notes_keep(1) notes_same_runs by (auto simp: settles_def indexed_def only_notes_def only_more_failures_def)

lemma store_found_settles:
  assumes "fold store_found ms (s, k) = (s', k')" "\<And>m. m \<in> set ms \<Longrightarrow> im_stamp m = st" "first_ok st pages s"
  shows "settles st pages s s'"
  using assms
proof (induction ms arbitrary: s k)
  case (Cons m ms)
  obtain s1 b where b: "store_remasked m s = (s1, b)" by (cases "store_remasked m s")
  have one: "settles st pages s s1" using store_remasked_settles [OF b] Cons.prems(2,3) by simp
  have "store_found m (s, k) = (s1, if b then k + 1 else k)" by (simp add: store_found_def b)
  then have "fold store_found ms (s1, if b then k + 1 else k) = (s', k')" using Cons.prems(1) by simp
  then have "settles st pages s1 s'" using Cons.IH Cons.prems(2) one by (simp add: settles_def)
  then show ?case using one settles_trans by blast
qed (simp add: settles_def)

lemma store_gone_settles:
  assumes "fold (store_gone run now) ms (s, k) = (s', k')" "\<And>m. m \<in> set ms \<Longrightarrow> im_stamp m = st" "first_ok st pages s"
  shows "settles st pages s s'"
  using assms
proof (induction ms arbitrary: s k)
  case (Cons m ms)
  obtain s1 b where b: "store_remasked m s = (s1, b)" by (cases "store_remasked m s")
  define s2 where "s2 = (if b then record_item run (gone_item now m) s1 else s1)"
  have one: "settles st pages s s1" using store_remasked_settles [OF b] Cons.prems(2,3) by simp
  then have "first_ok st pages s1" by (simp add: settles_def)
  then have "settles st pages s1 s2" using settles_refl notes_settle [OF record_item_notes [OF only_notes_refl]] by (simp add: s2_def)
  then have two: "settles st pages s s2" using one settles_trans by blast
  have "store_gone run now m (s, k) = (s2, if b then k + 1 else k)" by (simp add: store_gone_def b s2_def)
  then have "fold (store_gone run now) ms (s2, if b then k + 1 else k) = (s', k')" using Cons.prems(1) by simp
  then have "settles st pages s2 s'" using Cons.IH Cons.prems(2) two by (simp add: settles_def)
  then show ?case using two settles_trans by blast
qed (simp add: settles_def)

lemma refetch_tx_run:
  assumes "first_run st pages p s"
    and "refetch_tx (fp_run p) st again gone items now (fetched_pass1 (fp_at p)) s = Inr (s', q)"
    and "\<And>m. m \<in> set again \<union> set gone \<Longrightarrow> im_stamp m = st"
  shows "first_run st pages (p\<lparr>fp_at := q\<rparr>) s'"
proof -
  obtain s1 j where s1: "fold store_found again (s, 0) = (s1, j)" by (cases "fold store_found again (s, 0)")
  obtain s2 k where s2: "fold (store_gone (fp_run p) now) gone (s1, j) = (s2, k)"
    by (cases "fold (store_gone (fp_run p) now) gone (s1, j)")
  define s3 where "s3 = fold (record_item (fp_run p)) items s2"
  have q: "s' = record_progress1 (fp_run p) q s3" "q = fetched_pass1 (fp_at p) k (count_stale st s3)"
    using assms(2) unfolding refetch_tx_def s1 s2 Let_def prod.case s3_def [symmetric] by auto
  have ok: "first_ok st pages s" using assms(1) by (simp add: first_run_def)
  have one: "settles st pages s s1" by (rule store_found_settles [OF s1 _ ok]) (simp add: assms(3))
  then have two: "settles st pages s1 s2"
    by (intro store_gone_settles [OF s2]) (simp_all add: assms(3) settles_def)
  then have "settles st pages s2 s3" unfolding s3_def by (intro notes_settle record_items_notes) (simp add: settles_def)
  then have all: "settles st pages s s3" using one two settles_trans by blast
  have at: "ck_page (pg_checkpoint q) = ck_page (pg_checkpoint (fp_at p))" "ck_token (pg_checkpoint q) = ck_token (pg_checkpoint (fp_at p))"
      "ck_stamp (pg_checkpoint q) = ck_stamp (pg_checkpoint (fp_at p))"
    by (simp_all add: q(2) fetched_pass1_def)
  have "reads_on pages q s3" using all assms(1) reads_on_mono [of s s3] by (simp add: reads_on_cong(1) [OF at(1,2)] settles_def first_run_def)
  then have "first_run st pages (p\<lparr>fp_at := q, fp_resumed := fp_resumed p\<rparr>) (record_progress1 (fp_run p) q s3)"
    using all assms(1) at reads_on_cong(2) [OF at(1,2)]
    by (intro progress_run [OF assms(1)]) (simp_all add: settles_def first_ok_def first_run_def)
  then show ?thesis by (simp add: q(1))
qed

text \<open>A run as it starts.\<close>

lemma start1_tx_run:
  assumes "first_ok st pages s" "latest_run_of zero_progress (mi_runs1 s) = Some l"
    and "start = under_scanner (begin_pass zero_progress (mi_first_ended s) (0 < sint stale) l) l st stale" "\<not> ps_skip start"
    and "start1_tx run start s = Inr (s', x)"
  shows "first_run st pages \<lparr>fp_run = run, fp_at = ps_from start, fp_done = False, fp_resumed = r, fp_restarted = False\<rparr> s'"
proof -
  define t where "t = s\<lparr>mi_runs1 := started_runs run start (mi_runs1 s), mi_first_ended := False\<rparr>"
  have "ps_reopen (under_scanner a l st stale) = ps_reopen a" "ps_skip (under_scanner a l st stale) = ps_skip a" for a
    by (simp_all add: under_scanner_def Let_def)
  then have over: "mi_first_ended s = ps_reopen start" using assms(4) by (auto simp: assms(3) begin_pass_def split: if_splits)
  have s': "s' = t\<lparr>mi_events := mi_events s'\<rparr>"
    using assms(5) over by (auto simp: start1_tx_def record_event_def t_def split: if_splits)
  have l: "lr_found l \<longrightarrow> reads_on pages (lr_progress l) s" "lr_found l \<and> lr_state l = RunSucceeded \<longrightarrow> mi_first_ended s"
      "mi_first_ended s \<or> begun s \<longrightarrow> lr_found l \<and> enumeration_over (lr_progress l)"
    using assms(1,2) by (auto simp: first_ok_def first_stands_def)
  have from_at: "ck_stamp (pg_checkpoint (ps_from start)) = st \<and>
      (ck_page (pg_checkpoint (ps_from start)) = 0 \<and> ck_token (pg_checkpoint (ps_from start)) = [] \<and> \<not> mi_first_ended s \<and> \<not> begun s \<or>
       lr_found l \<and> ck_page (pg_checkpoint (ps_from start)) = ck_page (pg_checkpoint (lr_progress l)) \<and>
       ck_token (pg_checkpoint (ps_from start)) = ck_token (pg_checkpoint (lr_progress l)))"
  proof (cases "\<not> lr_found l \<or> lr_state l = RunSucceeded")
    case True
    have b: "begin_pass zero_progress (mi_first_ended s) (0 < sint stale) l = \<lparr>ps_skip = False, ps_reopen = mi_first_ended s,
        ps_resumed_from = [], ps_abandon = False, ps_from = zero_progress\<rparr>"
      using True assms(4) by (simp add: assms(3) begin_pass_def under_scanner_def split: if_splits)
    note start = assms(3) [unfolded b]
    show ?thesis
    proof (cases "mi_first_ended s")
      case True
      then show ?thesis using l(3) by (simp add: start under_scanner_def Let_def ck_ended_def zero_checkpoint_def)
    next
      case False
      then have "\<not> begun s" using l(2,3) True by blast
      then show ?thesis using False by (simp add: start under_scanner_def Let_def zero_progress_def zero_checkpoint_def)
    qed
  next
    case False
    have b: "begin_pass zero_progress (mi_first_ended s) (0 < sint stale) l = \<lparr>ps_skip = False, ps_reopen = mi_first_ended s,
        ps_resumed_from = lr_run_id l, ps_abandon = (lr_state l = RunRunning), ps_from = lr_progress l\<rparr>"
      using False assms(4) by (simp add: assms(3) begin_pass_def under_scanner_def split: if_splits)
    note start = assms(3) [unfolded b]
    show ?thesis using False by (auto simp: start under_scanner_def Let_def ck_ended_def zero_checkpoint_def)
  qed
  have reads: "reads_on pages (ps_from start) s"
    using from_at l(1) reads_from_start reads_on_cong(1) by blast
  have ended: "mi_first_ended s \<or> begun s \<longrightarrow> enumeration_over (ps_from start)"
    using from_at l(3) reads_on_cong(2) by blast
  have same: "reads_on pages q s' = reads_on pages q s" "begun s' = begun s" "mi_first_ended s' = False" for q
    by (subst s', simp add: t_def reads_on_def holds_pages_def indexed_def begun_def)+
  have runs: "mi_runs1 s' = started_runs run start (mi_runs1 s)" by (subst s') (simp add: t_def)
  have "first_stands pages s'" using reads ended
    by (simp add: first_stands_def runs latest_run_of_def started_runs_def run_state_named_def same)
  moreover have "stands s'" "stale_marked st s'"
    using assms(1) by (subst s', simp add: t_def stands_runs1 first_ok_def)+
  ultimately show ?thesis using reads ended from_at by (simp add: first_run_def first_ok_def runs started_runs_def same)
qed

subsection \<open>What an attempt leaves\<close>

text \<open>A provider whose mailbox has these pages and no message without an identifier.\<close>

definition serves_pages :: "(string \<Rightarrow> metadata_page) \<Rightarrow> pass_env \<Rightarrow> bool" where
  "serves_pages pages env \<longleftrightarrow> (\<forall>k t page. bx_page env k t = CallIs page \<longrightarrow> page = pages t) \<and>
     (\<forall>t. [] \<notin> page_ids (pages t)) \<and> (\<forall>k. bx_run_id env k \<noteq> [])"

definition env_stamp :: "pass_env \<Rightarrow> stamp" where
  "env_stamp env = stamp_of (bx_scanner env)"

text \<open>Errors leave the rows standing, and anything else leaves the run as it is.\<close>

lemma first_run_ok: "first_run st pages p s \<Longrightarrow> first_ok st pages s" by (simp add: first_run_def)

lemma noted:
  assumes "in_tx env f w = (r, w')" "first_run st pages p (wd_index w)" "\<And>s s' x. f s = Inr (s', x) \<Longrightarrow> only_notes s s'"
  shows "first_run st pages p (wd_index w')" "begun (wd_index w') = begun (wd_index w)"
proof -
  show "first_run st pages p (wd_index w')"
    by (rule in_tx_keeps [where P = "first_run st pages p", OF assms(1,2)]) (use assms(2,3) only_notes_keep(2) in blast)
  show "begun (wd_index w') = begun (wd_index w)"
    by (rule in_tx_keeps [where P = "\<lambda>s. begun s = begun (wd_index w)", OF assms(1) refl]) (use assms(3) only_notes_keep(3) in blast)
qed

lemma restart_run:
  assumes "first_run st pages p s" "\<not> begun s"
  shows "first_run st pages (p\<lparr>fp_restarted := True, fp_at := restart_pass1 (fp_at p)\<rparr>) s"
proof -
  have "reads_on pages (restart_pass1 (fp_at p)) s" by (rule reads_from_start) (simp_all add: restart_pass1_def zero_checkpoint_def)
  then show ?thesis using assms by (auto simp: first_run_def restart_pass1_def zero_checkpoint_def ck_ended_def)
qed

lemma got_broke_ok:
  assumes "got_broke (first_failed env p cause w) = (r, p', w')" "first_ok st pages (wd_index w)"
  shows "(\<exists>es. r = Inl (GotBroke es)) \<and> first_ok st pages (wd_index w')"
  using assms first_failed_ok by (auto simp: got_broke_def split: prod.splits)

lemma after_page_failure_ok:
  assumes "after_page_failure env p number e f nx w = (r, p', w')" "first_run st pages p (wd_index w)" "\<not> begun (wd_index w)"
  shows "case r of Inl g \<Rightarrow> (\<exists>es. g = GotBroke es) \<and> first_ok st pages (wd_index w')
    | Inr f' \<Rightarrow> first_run st pages p' (wd_index w') \<and> \<not> begun (wd_index w')"
proof -
  have again: ?thesis
    if "(case in_tx env (event_tx (fp_run p) kind number detail) w of
        (Inl r, w') \<Rightarrow> got_broke (first_failed env p1 [r] w')
      | (Inr _, w') \<Rightarrow> (Inr f', p1, w')) = (r, p', w')" "first_run st pages p1 (wd_index w)" for kind detail p1 f'
  proof (cases "in_tx env (event_tx (fp_run p) kind number detail) w")
    case (Pair a w1)
    note n = noted [OF Pair that(2) event_tx_notes] noted [OF Pair assms(2) event_tx_notes]
    then show ?thesis using that(1) Pair assms(3) got_broke_ok [of env p1 _ w1 r p' w' st pages] first_run_ok [OF n(1)]
      by (auto split: sum.splits)
  qed
  show ?thesis
  proof (cases nx)
    case Abandon1
    show ?thesis
    proof (cases "in_tx env (failure_tx (fp_run p) (page_item (f\<lparr>pf_disposition := ''abandoned''\<rparr>))) w")
      case (Pair a w1)
      note n = noted(1) [OF Pair assms(2) failure_tx_notes]
      then show ?thesis using assms(1) Pair Abandon1 got_broke_ok [of env p _ w1 r p' w' st pages] first_run_ok [OF n]
        by (auto simp: after_page_failure_def Let_def split: sum.splits)
    qed
  next
    case FailRun1
    then show ?thesis using assms got_broke_ok [of env p _ w r p' w' st pages] first_run_ok [OF assms(2)]
      by (auto simp: after_page_failure_def Let_def split: sum.splits)
  next
    case StartOver1
    then show ?thesis using again [OF _ restart_run [OF assms(2,3)]] assms(1) by (simp add: after_page_failure_def Let_def)
  next
    case Backoff1
    then show ?thesis using again [OF _ assms(2)] assms(1) by (simp add: after_page_failure_def Let_def)
  next
    case Retry1
    then show ?thesis using again [OF _ assms(2)] assms(1) by (simp add: after_page_failure_def Let_def)
  qed
qed

text \<open>What a page's fetch leaves: the rows standing, or the run as it is with the page of its token.\<close>

definition page_got :: "stamp \<Rightarrow> (string \<Rightarrow> metadata_page) \<Rightarrow> got_page \<Rightarrow> first_pass \<Rightarrow> mail_index \<Rightarrow> bool" where
  "page_got st pages g p s \<longleftrightarrow> (case g of
     GotBroke es \<Rightarrow> first_ok st pages s
   | Got (page, f) \<Rightarrow> first_run st pages p s \<and> \<not> begun s \<and> page = pages (ck_token (pg_checkpoint (fp_at p))))"

lemma page_attempt_ok:
  assumes "page_attempt env p f w = (r, p', w')" "first_run st pages p (wd_index w)" "\<not> begun (wd_index w)" "serves_pages pages env"
  shows "case r of Inl g \<Rightarrow> page_got st pages g p' (wd_index w')
    | Inr f' \<Rightarrow> first_run st pages p' (wd_index w') \<and> \<not> begun (wd_index w')"
proof -
  have ok: "first_ok st pages (wd_index w)" using assms(2) by (rule first_run_ok)
  have at_tick: "first_run st pages p (wd_index (tick w))" "\<not> begun (wd_index (tick w))" using assms(2,3) by (simp_all add: tick_def)
  show ?thesis
  proof (cases "wd_stopped w")
    case True
    then show ?thesis using assms(1) ok by (auto simp: page_attempt_def page_got_def)
  next
    case False
    show ?thesis
    proof (cases "bx_page env (wd_moment w) (ck_token (pg_checkpoint (fp_at p)))")
      case (CallIs page)
      then have "page = pages (ck_token (pg_checkpoint (fp_at p)))" using assms(4) by (simp add: serves_pages_def)
      then show ?thesis using assms(1) False CallIs at_tick by (auto simp: page_attempt_def page_got_def Let_def)
    next
      case (CallErr e)
      then show ?thesis
        using assms(1) False after_page_failure_ok [OF _ at_tick, of env "page_number p" e] by (fastforce simp: page_attempt_def page_got_def Let_def split: sum.splits)
    next
      case CallStopped
      then show ?thesis using assms(1) False ok by (auto simp: page_attempt_def page_got_def Let_def tick_def)
    qed
  qed
qed

lemma fetch_page_ok:
  assumes "fetch_page env p f w = (g, p', w')" "first_run st pages p (wd_index w)" "\<not> begun (wd_index w)" "serves_pages pages env"
  shows "page_got st pages g p' (wd_index w')"
  using assms
proof (induction env p f w arbitrary: g p' w' rule: fetch_page.induct)
  case (1 env p f w)
  obtain a q w1 where a: "page_attempt env p f w = (a, q, w1)" by (cases "page_attempt env p f w") auto
  note ok = page_attempt_ok [OF a 1(3-5)]
  show ?case
  proof (cases a)
    case (Inl g')
    then show ?thesis using ok 1(2) a by (simp add: fetch_page.simps [of env p f w])
  next
    case (Inr f')
    then have "fetch_page env q f' w1 = (g, p', w')" using 1(2) a by (simp add: fetch_page.simps [of env p f w])
    then show ?thesis using 1(1) [OF a [symmetric] Inr refl] ok Inr 1(5) by simp
  qed
qed

text \<open>What a call for subjects leaves.\<close>

lemma after_call_failure_ok:
  assumes "after_call_failure env p ids e x nx w = (r, p', w')" "first_run st pages p (wd_index w)"
  shows "case r of Inl g \<Rightarrow> (\<exists>es. g = GotBroke es) \<and> first_ok st pages (wd_index w')
    | Inr y \<Rightarrow> p' = p \<and> first_run st pages p (wd_index w')"
proof -
  have again: ?thesis
    if "(case in_tx env (event_tx (fp_run p) kind 0 (bx_text env e)) w of
        (Inl r, w') \<Rightarrow> got_broke (first_failed env p [r] w')
      | (Inr _, w') \<Rightarrow> (Inr x, p, w')) = (r, p', w')" for kind
  proof (cases "in_tx env (event_tx (fp_run p) kind 0 (bx_text env e)) w")
    case (Pair a w1)
    note n = noted(1) [OF Pair assms(2) event_tx_notes]
    then show ?thesis using that Pair got_broke_ok [of env p _ w1 r p' w' st pages] first_run_ok [OF n] by (auto split: sum.splits)
  qed
  have gave: ?thesis if "got_broke (first_failed env p cause w) = (r, p', w')" for cause
    using got_broke_ok [OF that first_run_ok [OF assms(2)]] by auto
  show ?thesis
  proof (cases nx)
    case Abandon1
    show ?thesis
    proof (cases "in_tx env (items_tx (fp_run p) (items_of (x\<lparr>it_disposition := ''abandoned''\<rparr>) ids)) w")
      case (Pair a w1)
      note n = noted(1) [OF Pair assms(2) items_tx_notes]
      then show ?thesis using assms(1) Pair Abandon1 got_broke_ok [of env p _ w1 r p' w' st pages] first_run_ok [OF n]
        by (auto simp: after_call_failure_def Let_def split: sum.splits)
    qed
  qed (use assms(1) again gave in \<open>simp_all add: after_call_failure_def Let_def\<close>)
qed

lemma fetch_metadata_ok:
  assumes "fetch_metadata env p ids item w = (g, p', w')" "first_run st pages p (wd_index w)"
  shows "case g of GotBroke es \<Rightarrow> first_ok st pages (wd_index w') | Got y \<Rightarrow> p' = p \<and> first_run st pages p (wd_index w')"
  using assms
proof (induction env p ids item w arbitrary: g p' w' rule: fetch_metadata.induct)
  case (1 env p ids item w)
  have at_tick: "first_run st pages p (wd_index (tick w))" using 1(3) by (simp add: tick_def)
  obtain a q w1 where a: "call_attempt env p ids item w = (a, q, w1)" by (cases "call_attempt env p ids item w") auto
  have ok: "case a of Inl g \<Rightarrow> (case g of GotBroke es \<Rightarrow> first_ok st pages (wd_index w1) | Got y \<Rightarrow> q = p \<and> first_run st pages p (wd_index w1))
      | Inr y \<Rightarrow> q = p \<and> first_run st pages p (wd_index w1)"
  proof (cases "wd_stopped w")
    case True
    then show ?thesis using a first_run_ok [OF 1(3)] by (auto simp: call_attempt_def)
  next
    case False
    then show ?thesis
      using a at_tick first_run_ok [OF 1(3)] after_call_failure_ok [OF _ at_tick, of env ids]
      by (fastforce simp: call_attempt_def Let_def tick_def split: call_answer.splits sum.splits)
  qed
  show ?case
  proof (cases a)
    case (Inl g')
    then show ?thesis using ok 1(2) a by (auto simp: fetch_metadata.simps [of env p ids item w])
  next
    case (Inr y)
    then have "fetch_metadata env q ids (Some y) w1 = (g, p', w')" using 1(2) a by (simp add: fetch_metadata.simps [of env p ids item w])
    then show ?thesis using 1(1) [OF a [symmetric] Inr refl] ok Inr by auto
  qed
qed

subsection \<open>What a step leaves\<close>

definition step_ok :: "stamp \<Rightarrow> (string \<Rightarrow> metadata_page) \<Rightarrow> pass_error list + first_step \<Rightarrow> first_pass \<Rightarrow> mail_index \<Rightarrow> bool" where
  "step_ok st pages r p s \<longleftrightarrow> (case r of
     Inl es \<Rightarrow> first_ok st pages s
   | Inr x \<Rightarrow> if ft_done x then first_ok st pages s \<and> mi_first_ended s \<and> \<not> stale_under st s else first_run st pages p s)"

lemma step_failed:
  "first_failed env p cause w = (es, p', w') \<Longrightarrow> first_ok st pages (wd_index w) \<Longrightarrow> step_ok st pages (Inl es) q (wd_index w')"
  using first_failed_ok by (auto simp: step_ok_def)

lemma first_finish_ok:
  assumes "first_finish env p w = (r, p', w')" "first_run st pages p (wd_index w)" "enumeration_over (fp_at p)"
  shows "step_ok st pages r p' (wd_index w')"
proof -
  have st: "ck_stamp (pg_checkpoint (fp_at p)) = st" using assms(2) by (simp add: first_run_def)
  obtain a w1 where a: "in_tx env (finish1_tx (fp_run p) st) w = (a, w1)" by (cases "in_tx env (finish1_tx (fp_run p) st) w")
  have ok: "first_ok st pages (wd_index w1)"
  proof (rule in_tx_keeps [where P = "first_ok st pages", OF a first_run_ok [OF assms(2)]])
    fix s x
    assume "finish1_tx (fp_run p) st (wd_index w) = Inr (s, x)"
    from finish1_tx_ok [OF assms(2,3) this] show "first_ok st pages s" using first_run_ok [OF assms(2)] by (auto split: if_splits)
  qed
  show ?thesis
  proof (cases a)
    case (Inl e)
    then show ?thesis using assms(1) a step_failed [OF _ ok] by (auto simp: first_finish_def st split: prod.splits)
  next
    case (Inr ended)
    then have took: "in_tx env (finish1_tx (fp_run p) st) w = (Inr ended, w1)" using a by simp
    from finish1_tx_ok [OF assms(2,3) in_tx_took(1) [OF took]] show ?thesis
      using assms(1,2) a Inr by (auto simp: first_finish_def st step_ok_def split: if_splits)
  qed
qed

lemma step_ok_counts [simp]:
  "step_ok st pages (Inr (x\<lparr>ft_unclassified := a, ft_added := b\<rparr>)) p s = step_ok st pages (Inr x) p s"
  by (simp add: step_ok_def)

lemma commit_page_ok:
  assumes "commit_page env p page f w = (r, p', w')" "first_run st pages p (wd_index w)" "\<not> begun (wd_index w)"
    and "page = pages (ck_token (pg_checkpoint (fp_at p)))" "serves_pages pages env" "env_stamp env = st"
  shows "step_ok st pages r p' (wd_index w')"
proof -
  let ?d = "index_decide (bx_unicode env) (bx_log2 env) (mp_items page) (bx_policy env (wd_moment w)) (bx_scanner env)"
  let ?f = "commit1_tx (fp_run p) ?d f (advance_pass1 (fp_at p) (mp_next page) (mp_total page))"
  have ids: "[] \<notin> page_ids page" using assms(4,5) by (simp add: serves_pages_def)
  have run: "first_run st pages (p\<lparr>fp_at := q, fp_resumed := []\<rparr>) s'"
    if "?f (wd_index w) = Inr (s', (q, n))" for s' q n
    by (rule commit1_tx_run [OF assms(2,3) that assms(4) ids]) (use assms(6) in \<open>simp add: env_stamp_def\<close>)
  obtain a w1 where a: "in_tx env ?f w = (a, w1)" by (cases "in_tx env ?f w")
  have ok: "first_ok st pages (wd_index w1)"
    by (rule in_tx_keeps [where P = "first_ok st pages", OF a first_run_ok [OF assms(2)]]) (use run first_run_ok in fast)
  show ?thesis
  proof (cases a)
    case (Inl e)
    then show ?thesis using assms(1) a step_failed [OF _ ok] by (auto simp: commit_page_def Let_def split: prod.splits)
  next
    case (Inr y)
    obtain q n where y: "y = (q, n)" by (cases y)
    define p1 where "p1 = p\<lparr>fp_at := q, fp_resumed := []\<rparr>"
    have run1: "first_run st pages p1 (wd_index w1)" unfolding p1_def
      using run in_tx_took(1) a Inr y by metis
    show ?thesis
    proof (cases "enumeration_over q")
      case True
      obtain b p2 w2 where b: "first_finish env p1 w1 = (b, p2, w2)" by (cases "first_finish env p1 w1") auto
      have "step_ok st pages b p2 (wd_index w2)" by (rule first_finish_ok [OF b run1]) (simp add: p1_def True)
      then show ?thesis using assms(1) a Inr y True b
        by (auto simp: commit_page_def Let_def p1_def [symmetric] split: sum.splits)
    next
      case False
      then show ?thesis using assms(1) a Inr y run1 by (auto simp: commit_page_def Let_def p1_def step_ok_def)
    qed
  qed
qed

lemma first_page_ok:
  assumes "first_page env p w = (r, p', w')" "first_run st pages p (wd_index w)" "\<not> enumeration_over (fp_at p)"
    and "serves_pages pages env" "env_stamp env = st"
  shows "step_ok st pages r p' (wd_index w')"
proof -
  have beg: "\<not> begun (wd_index w)" using assms(2,3) by (auto simp: first_run_def)
  obtain g q w1 where g: "fetch_page env p None w = (g, q, w1)" by (cases "fetch_page env p None w") auto
  have ok: "page_got st pages g q (wd_index w1)" by (rule fetch_page_ok [OF g assms(2) beg assms(4)])
  show ?thesis
  proof (cases g)
    case (GotBroke es)
    then show ?thesis using assms(1) g ok by (auto simp: first_page_def page_got_def step_ok_def)
  next
    case (Got y)
    obtain page f where y: "y = (page, f)" by (cases y)
    then show ?thesis using assms(1) g ok Got commit_page_ok [of env q page f w1 r p' w' st pages] assms(4,5)
      by (simp add: first_page_def page_got_def)
  qed
qed

lemma commit_refetched_ok:
  assumes "commit_refetched env p stored got items w = (r, p', w')" "first_run st pages p (wd_index w)" "env_stamp env = st"
  shows "step_ok st pages r p' (wd_index w')"
proof -
  obtain again gone where g: "refetch (bx_unicode env) (bx_log2 env) stored got (bx_scanner env) = (again, gone)"
    by (cases "refetch (bx_unicode env) (bx_log2 env) stored got (bx_scanner env)")
  have st: "ck_stamp (pg_checkpoint (fp_at p)) = st" using assms(2) by (simp add: first_run_def)
  let ?f = "refetch_tx (fp_run p) st again gone items (now_of env w) (fetched_pass1 (fp_at p))"
  have run: "first_run st pages (p\<lparr>fp_at := q\<rparr>) s'" if "?f (wd_index w) = Inr (s', q)" for s' q
    by (rule refetch_tx_run [OF assms(2) that]) (use refetch_stamps [OF g] assms(3) in \<open>simp add: env_stamp_def\<close>)
  obtain a w1 where a: "in_tx env ?f w = (a, w1)" by (cases "in_tx env ?f w")
  have ok: "first_ok st pages (wd_index w1)"
    by (rule in_tx_keeps [where P = "first_ok st pages", OF a first_run_ok [OF assms(2)]]) (use run first_run_ok in fast)
  show ?thesis
  proof (cases a)
    case (Inl e)
    then show ?thesis using assms(1) a step_failed [OF _ ok] by (auto simp: commit_refetched_def Let_def g st split: prod.splits)
  next
    case (Inr q)
    have "first_run st pages (p\<lparr>fp_at := q\<rparr>) (wd_index w1)" using run in_tx_took(1) a Inr by metis
    then show ?thesis using assms(1) a Inr step_failed [OF _ ok]
      by (auto simp: commit_refetched_def Let_def g st step_ok_def split: prod.splits if_splits)
  qed
qed

lemma first_refetch_ok:
  assumes "first_refetch env p w = (r, p', w')" "first_run st pages p (wd_index w)" "serves_pages pages env" "env_stamp env = st"
  shows "step_ok st pages r p' (wd_index w')"
proof -
  let ?f = "stale_tx (ck_stamp (pg_checkpoint (fp_at p))) (max64 (bx_per_call env) 1)"
  obtain a w1 where a: "in_tx env ?f w = (a, w1)" by (cases "in_tx env ?f w")
  have run: "first_run st pages p (wd_index w1)"
    by (rule in_tx_keeps [where P = "first_run st pages p", OF a assms(2)]) (use assms(2) in \<open>simp add: stale_tx_def\<close>)
  show ?thesis
  proof (cases a)
    case (Inl e)
    then show ?thesis using assms(1) a step_failed [OF _ first_run_ok [OF run]] by (auto simp: first_refetch_def split: prod.splits)
  next
    case (Inr stored)
    show ?thesis
    proof (cases "stored = []")
      case True
      then show ?thesis using assms(1) a Inr first_finish_ok [OF _ run] first_page_ok [OF _ run _ assms(3,4)]
        by (auto simp: first_refetch_def split: if_splits)
    next
      case False
      obtain g q w2 where g: "fetch_metadata env p (map ss_id stored) None w1 = (g, q, w2)"
        by (cases "fetch_metadata env p (map ss_id stored) None w1") auto
      note ok = fetch_metadata_ok [OF g run]
      show ?thesis
      proof (cases g)
        case (GotBroke es)
        then show ?thesis using assms(1) a Inr False g ok by (auto simp: first_refetch_def step_ok_def)
      next
        case (Got y)
        then show ?thesis using assms(1) a Inr False g ok commit_refetched_ok [OF _ _ assms(4)]
          by (auto simp: first_refetch_def split: prod.splits)
      qed
    qed
  qed
qed

lemma first_next_ok:
  assumes "first_next env p w = (r, p', w')" "first_run st pages p (wd_index w)" "serves_pages pages env" "env_stamp env = st"
  shows "step_ok st pages r p' (wd_index w')"
proof -
  have "\<not> fp_done p" using assms(2) by (simp add: first_run_def)
  then show ?thesis using assms(1) first_refetch_ok [OF _ assms(2-4)] first_page_ok [OF _ assms(2) _ assms(3,4)]
    by (simp add: first_next_def split: if_splits)
qed

subsection \<open>A run\<close>

lemma count_stale_zero: "\<not> 0 < sint (count_stale st s) \<longleftrightarrow> \<not> stale_under st s"
  by (auto simp: count_stale_def count_stale_subjects_def sint_row_count stale_under_def stale_subject_def list_ex_iff
      filter_empty_conv max_int64_def not_less simp flip: length_greater_0_conv)

lemma first_open_ok:
  assumes "first_open env w = (r, w')" "first_ok st pages (wd_index w)" "serves_pages pages env" "env_stamp env = st"
  shows "case r of Inl es \<Rightarrow> first_ok st pages (wd_index w')
    | Inr p \<Rightarrow> if fp_run p = [] then first_ok st pages (wd_index w') \<and> mi_first_ended (wd_index w') \<and> \<not> stale_under st (wd_index w')
        else first_run st pages p (wd_index w')"
proof -
  obtain a w1 where a: "in_tx env (state1_tx st) w = (a, w1)" by (cases "in_tx env (state1_tx st) w")
  have ok: "first_ok st pages (wd_index w1)"
    by (rule in_tx_keeps [where P = "first_ok st pages", OF a assms(2)]) (use assms(2) in \<open>auto simp: state1_tx_def split: option.splits\<close>)
  show ?thesis
  proof (cases a)
    case (Inl e)
    then show ?thesis using assms(1,4) a ok by (auto simp: first_open_def env_stamp_def)
  next
    case (Inr y)
    obtain ended stale l where y: "y = (ended, stale, l)" by (cases y)
    define start where "start = under_scanner (begin_pass zero_progress ended (0 < sint stale) l) l st stale"
    define run where "run = bx_run_id env (wd_moment w1)"
    have took: "in_tx env (state1_tx st) w = (Inr (ended, stale, l), w1)" using a Inr y by simp
    have read: "latest_run_of zero_progress (mi_runs1 (wd_index w1)) = Some l" "ended = mi_first_ended (wd_index w1)"
        "stale = count_stale st (wd_index w1)"
      using in_tx_took(1) [OF took] by (auto simp: state1_tx_def split: option.splits)
    show ?thesis
    proof (cases "ps_skip start")
      case True
      then have "ended \<and> \<not> 0 < sint stale"
        by (auto simp: start_def under_scanner_def begin_pass_def Let_def split: if_splits)
      then show ?thesis using assms(1,4) took True ok read count_stale_zero
        by (auto simp: first_open_def env_stamp_def start_def Let_def)
    next
      case False
      obtain b w2 where b: "in_tx env (start1_tx run start) w1 = (b, w2)" by (cases "in_tx env (start1_tx run start) w1")
      have opened: "first_open env w = (case b of Inl e \<Rightarrow> Inl [e] | Inr u \<Rightarrow> Inr \<lparr>fp_run = run, fp_at = ps_from start, fp_done = False,
          fp_resumed = (if ps_resumed_from start \<noteq> [] then ck_token (pg_checkpoint (ps_from start)) else []), fp_restarted = False\<rparr>, w2)"
        using took False assms(4) b
        by (cases b) (auto simp: first_open_def env_stamp_def start_def run_def Let_def)
      note run = start1_tx_run [OF ok read(1), where start = start and stale = stale, OF _ False]
      have start: "start = under_scanner (begin_pass zero_progress (mi_first_ended (wd_index w1)) (0 < sint stale) l) l st stale"
        by (simp add: start_def read(2))
      have ok2: "first_ok st pages (wd_index w2)"
        by (rule in_tx_keeps [where P = "first_ok st pages", OF b ok]) (use run [OF start] first_run_ok in fast)
      have id: "run \<noteq> []" using assms(3) by (simp add: run_def serves_pages_def)
      show ?thesis
      proof (cases b)
        case (Inl e)
        then show ?thesis using assms(1) opened ok2 by auto
      next
        case (Inr u)
        then have took: "in_tx env (start1_tx run start) w1 = (Inr u, w2)" using b by simp
        show ?thesis using assms(1) opened run [OF start in_tx_took(1) [OF took]] id Inr by auto
      qed
    qed
  qed
qed

lemma first_steps_ok:
  assumes "first_steps env n ok p w = (b, w')" "first_run st pages p (wd_index w)" "serves_pages pages env" "env_stamp env = st"
  shows "first_ok st pages (wd_index w') \<and> (b \<longrightarrow> mi_first_ended (wd_index w') \<and> \<not> stale_under st (wd_index w'))"
  using assms(1,2)
proof (induction n arbitrary: ok p w)
  case 0
  then show ?case using first_run_ok by auto
next
  case (Suc n)
  obtain r q w1 where r: "first_next env p w = (r, q, w1)" by (cases "first_next env p w") auto
  have step: "step_ok st pages r q (wd_index w1)" by (rule first_next_ok [OF r Suc.prems(2) assms(3,4)])
  show ?case
  proof (cases "wd_stopped w \<or> \<not> bx_opens env (wd_moment w)")
    case True
    then show ?thesis using Suc.prems first_run_ok by auto
  next
    case False
    then show ?thesis using Suc.prems(1) r step Suc.IH by (auto simp: step_ok_def Let_def split: sum.splits if_splits)
  qed
qed

lemma first_account_ok:
  assumes "first_account env n w = (b, w')" "first_ok st pages (wd_index w)" "serves_pages pages env" "env_stamp env = st"
  shows "first_ok st pages (wd_index w') \<and> (b \<longrightarrow> mi_first_ended (wd_index w') \<and> \<not> stale_under st (wd_index w'))"
proof -
  obtain r w1 where r: "first_open env w = (r, w1)" by (cases "first_open env w")
  note open_ok = first_open_ok [OF r assms(2-4)]
  show ?thesis
  proof (cases r)
    case (Inl es)
    then show ?thesis using assms(1) r open_ok by (auto simp: first_account_def)
  next
    case (Inr p)
    then show ?thesis using assms(1) r open_ok first_steps_ok [OF _ _ assms(3,4)]
      by (auto simp: first_account_def split: if_splits)
  qed
qed

end
