(* ===== verification/PassKeeps.thy ===== *)
theory PassKeeps
  imports FirstPass SecondPass
begin

text \<open>
  What holds of an account's rows whatever a pass runs into: a predicate of the rows that each change a pass
  makes in a transaction keeps is kept by every run of the pass, however its transactions and calls are answered.
\<close>

lemma in_tx_kept:
  assumes "in_tx env f w = (r, w')" "P (wd_index w)" "\<And>s x. f (wd_index w) = Inr (s, x) \<Longrightarrow> P s"
  shows "P (wd_index w')"
  using in_tx_index [of P w f env] assms by simp

subsection \<open>Events, items and runs\<close>

text \<open>A predicate that events and failed items do not touch.\<close>

locale keeps_records =
  fixes P :: "mail_index \<Rightarrow> bool"
  assumes events: "P s \<Longrightarrow> P (s\<lparr>mi_events := es\<rparr>)"
    and items: "P s \<Longrightarrow> P (s\<lparr>mi_failures := fs\<rparr>)"
begin

lemma record_event_kept: "P s \<Longrightarrow> P (record_event run kind page detail s)"
  by (simp add: record_event_def events)

lemma record_items_kept: "P s \<Longrightarrow> P (fold (record_item run) is s)"
  by (induction "is" arbitrary: s) (simp_all add: record_item_def items)

lemma event_tx_kept: "P s \<Longrightarrow> event_tx run kind page detail s = Inr (s', x) \<Longrightarrow> P s'"
  by (auto simp: event_tx_def record_event_kept)

lemma failure_tx_kept: "P s \<Longrightarrow> failure_tx run i s = Inr (s', x) \<Longrightarrow> P s'"
  by (auto simp: failure_tx_def record_item_def items)

end

text \<open>Nor do the second pass's runs.\<close>

locale keeps_notes = keeps_records +
  assumes runs: "P s \<Longrightarrow> P (s\<lparr>mi_runs2 := rs\<rparr>)"
begin

lemma record_progress2_kept: "P s \<Longrightarrow> P (record_progress2 run p s)"
  by (simp add: record_progress2_def record_event_kept runs)

lemma fail_tx_kept: "P s \<Longrightarrow> fail_tx run cause s = Inr (s', x) \<Longrightarrow> P s'"
  by (auto simp: fail_tx_def record_event_kept runs)

lemma second_failed_kept:
  assumes "second_failed env p cause w = (es, p', w')" "P (wd_index w)"
  shows "P (wd_index w')"
proof (cases "in_tx env (fail_tx (bp_run p) (bx_cause env cause)) w")
  case (Pair a w1)
  have "P (wd_index w1)" by (rule in_tx_kept [OF Pair, of P, OF assms(2)]) (use assms(2) fail_tx_kept in blast)
  then show ?thesis using assms Pair by (auto simp: second_failed_def split: if_splits sum.splits)
qed

lemma broke_kept: "broke (second_failed env p cause w) = (r, p', w') \<Longrightarrow> P (wd_index w) \<Longrightarrow> P (wd_index w')"
  using second_failed_kept by (auto simp: broke_def split: prod.splits)

lemma after_failure_kept:
  assumes "after_failure env p i number e x nx w = (r, p', w')" "P (wd_index w)"
  shows "P (wd_index w')"
proof -
  have ev: "P (wd_index w1)" if "in_tx env (event_tx run kind number' detail) w = (a, w1)" for run kind number' detail a w1
    by (rule in_tx_kept [OF that, of P, OF assms(2)]) (use assms(2) event_tx_kept in blast)
  have fl: "P (wd_index w1)" if "in_tx env (failure_tx run y) w = (a, w1)" for run y a w1
    by (rule in_tx_kept [OF that, of P, OF assms(2)]) (use assms(2) failure_tx_kept in blast)
  show ?thesis using assms
    by (cases nx) (auto simp: after_failure_def Let_def split: prod.splits sum.splits dest: broke_kept ev fl)
qed

lemma fetch_attempt_kept: "fetch_attempt env p i number item w = (r, p', w') \<Longrightarrow> P (wd_index w) \<Longrightarrow> P (wd_index w')"
  using after_failure_kept by (auto simp: fetch_attempt_def asks_for_def tick_def Let_def split: if_splits call_answer.splits) 

lemma fetch_body_kept: "fetch_body env p i number item w = (r, p', w') \<Longrightarrow> P (wd_index w) \<Longrightarrow> P (wd_index w')"
proof (induction env p i number item w arbitrary: r p' w' rule: fetch_body.induct)
  case (1 env p i number item w)
  obtain a q w1 where a: "fetch_attempt env p i number item w = (a, q, w1)" by (cases "fetch_attempt env p i number item w") auto
  have k: "P (wd_index w1)" by (rule fetch_attempt_kept [OF a 1(3)])
  show ?case
  proof (cases a)
    case (Inl g)
    then show ?thesis using k 1(2) a by (auto simp: fetch_body.simps [of env p i number item w])
  next
    case (Inr y)
    then have "fetch_body env q i number (Some y) w1 = (r, p', w')" using 1(2) a by (simp add: fetch_body.simps [of env p i number item w])
    then show ?thesis using 1(1) [OF a [symmetric] Inr refl _ k] by blast
  qed
qed

lemma scan_body_kept: "scan_body env p i number w = (r, p', w') \<Longrightarrow> P (wd_index w) \<Longrightarrow> P (wd_index w')"
  by (auto simp: scan_body_def split: prod.splits fetched.splits sum.splits dest: fetch_body_kept)

lemma decide_page_kept:
  "decide_page env composed now number hits p ms w = (r, p', w') \<Longrightarrow> P (wd_index w) \<Longrightarrow> P (wd_index w')"
proof (induction ms arbitrary: hits p w r p' w')
  case (Cons m ms)
  define g where "g = gated env composed now hits m"
  obtain a q w1 where a: "(if gate_scans (or_verdict g) then scan_body env p (wt_id m) number w else (ScanDone None None False, p, w)) = (a, q, w1)"
    by (cases "if gate_scans (or_verdict g) then scan_body env p (wt_id m) number w else (ScanDone None None False, p, w)") auto
  have k: "P (wd_index w1)" using a Cons.prems(2) scan_body_kept by (auto split: if_splits)
  show ?case
  proof (cases a)
    case (ScanBroke es)
    then show ?thesis using Cons.prems(1) a k by (auto simp: g_def [symmetric])
  next
    case (ScanDone sc item refused)
    obtain b p2 w2 where b: "decide_page env composed now number (hits_after hits (g\<lparr>or_scanned := sc, or_refused := refused\<rparr>)) q ms w1 = (b, p2, w2)"
      by (cases "decide_page env composed now number (hits_after hits (g\<lparr>or_scanned := sc, or_refused := refused\<rparr>)) q ms w1") auto
    have "P (wd_index w2)" by (rule Cons.IH [OF b k])
    moreover have "w' = w2" using Cons.prems(1) a b ScanDone by (auto simp: g_def [symmetric] Let_def split: sum.splits prod.splits)
    ultimately show ?thesis by simp
  qed
qed simp

end

text \<open>Beside it, the messages themselves.\<close>

lemma keeps_notes_messages: "keeps_notes P \<Longrightarrow> keeps_notes (\<lambda>s. P s \<and> mi_messages s = ms)"
  by (auto simp: keeps_notes_def keeps_records_def keeps_notes_axioms_def)

subsection \<open>The second pass\<close>

definition rows_match :: "outcome_row list \<Rightarrow> mail_index \<Rightarrow> bool" where
  "rows_match rs s \<longleftrightarrow>
     (\<forall>r \<in> set rs. \<forall>m \<in> set (mi_messages s). sm_id m = or_id r \<longrightarrow> sm_domain m = or_domain r) \<and>
     (\<forall>r \<in> set rs. or_scanned r \<noteq> None \<longrightarrow> gate_decided (or_verdict r))"

definition hit_domains :: "outcome_row list \<Rightarrow> string list" where
  "hit_domains rs = sort_compact (filter (\<lambda>d. page_hits rs d \<noteq> None) (map or_domain rs))"

lemma decide_page_rows:
  "decide_page env composed now number hits p ms w = (Inr (rs, is), p', w') \<Longrightarrow>
     map (\<lambda>r. (or_id r, or_domain r)) rs = map (\<lambda>m. (wt_id m, wt_domain m)) ms \<and>
     (\<forall>r \<in> set rs. or_scanned r \<noteq> None \<longrightarrow> gate_decided (or_verdict r))"
proof (induction ms arbitrary: hits p w rs "is" p' w')
  case (Cons m ms)
  define g where "g = gated env composed now hits m"
  obtain a q w1 where a: "(if gate_scans (or_verdict g) then scan_body env p (wt_id m) number w else (ScanDone None None False, p, w)) = (a, q, w1)"
    by (cases "if gate_scans (or_verdict g) then scan_body env p (wt_id m) number w else (ScanDone None None False, p, w)") auto
  obtain sc item refused where d: "a = ScanDone sc item refused"
    using Cons.prems a by (cases a) (auto simp: g_def [symmetric])
  obtain b p2 w2 where b: "decide_page env composed now number (hits_after hits (g\<lparr>or_scanned := sc, or_refused := refused\<rparr>)) q ms w1 = (b, p2, w2)"
    by (cases "decide_page env composed now number (hits_after hits (g\<lparr>or_scanned := sc, or_refused := refused\<rparr>)) q ms w1") auto
  obtain rs2 is2 where r: "b = Inr (rs2, is2)" "rs = g\<lparr>or_scanned := sc, or_refused := refused\<rparr> # rs2"
    using Cons.prems a d b by (auto simp: g_def [symmetric] Let_def split: sum.splits prod.splits)
  have "sc \<noteq> None \<Longrightarrow> gate_scans (or_verdict g)" using a d by (auto split: if_splits)
  then have "sc \<noteq> None \<Longrightarrow> gate_decided (or_verdict g)" by (auto simp: gate_scans_def gate_decided_def)
  then show ?case using Cons.IH b r by (simp add: g_def gated_def)
qed simp

lemma pending_rows_match:
  assumes "distinct (map sm_id (mi_messages s))" "map (\<lambda>r. (or_id r, or_domain r)) rs = map (\<lambda>m. (wt_id m, wt_domain m)) (pending_page after n s)"
    and "\<forall>r \<in> set rs. or_scanned r \<noteq> None \<longrightarrow> gate_decided (or_verdict r)"
  shows "rows_match rs s"
  unfolding rows_match_def
proof (rule conjI [OF _ assms(3)], intro ballI impI)
  fix r m
  assume r: "r \<in> set rs" and m: "m \<in> set (mi_messages s)" "sm_id m = or_id r"
  have "(or_id r, or_domain r) \<in> set (map (\<lambda>m. (wt_id m, wt_domain m)) (pending_page after n s))"
    unfolding assms(2) [symmetric] using r by force
  then obtain x where x: "x \<in> set (mi_messages s)" "or_id r = sm_id x" "or_domain r = sm_domain x"
    by (auto simp: pending_page_def waiting_of_def dest!: in_set_takeD)
  then have "x = m" using assms(1) m by (auto simp: distinct_map dest: inj_onD)
  then show "sm_domain m = or_domain r" using x by simp
qed

text \<open>A predicate that every change of the second pass's transactions keeps.\<close>

locale second_pass_keeps = keeps_notes +
  assumes flags: "P s \<Longrightarrow> P (s\<lparr>mi_second_ended := b, mi_restart := c\<rparr>)"
    and ids: "P s \<Longrightarrow> distinct (map sm_id (mi_messages s))"
    and waits: "P s \<Longrightarrow> (\<And>m. g m \<Longrightarrow> sm_state m = SkippedRestricted \<or> sm_state m = SkippedGate) \<Longrightarrow> P (fst (update_where g waits_again s))"
    and commit: "P s \<Longrightarrow> rows_match rs s \<Longrightarrow> each_ok commit_outcome rs s = Inr s1 \<Longrightarrow>
      each_ok (commit_hits (page_hits rs)) (hit_domains rs) s1 = Inr s2 \<Longrightarrow> P s2"
begin

lemma restart_flag: "P s \<Longrightarrow> P (s\<lparr>mi_restart := c\<rparr>)"
  using flags [where s = s and b = "mi_second_ended s" and c = c] by simp

lemma ended_flag: "P s \<Longrightarrow> P (s\<lparr>mi_second_ended := b\<rparr>)"
  using flags [where s = s and b = b and c = "mi_restart s"] by simp

lemma start_tx_kept: "P s \<Longrightarrow> start_tx run st s = Inr (s', x) \<Longrightarrow> P s'"
  using record_event_kept runs restart_flag by (auto simp: start_tx_def split: if_splits)

lemma finish_tx_kept: "P s \<Longrightarrow> finish_tx run s = Inr (s', x) \<Longrightarrow> P s'"
  using record_event_kept runs ended_flag by (auto simp: finish_tx_def)

lemma commit_tx_kept:
  assumes "P s" "rows_match (pa_outcomes page) s" "commit_tx run page items p s = Inr (s', x)"
  shows "P s'"
proof -
  obtain s1 where s1: "each_ok commit_outcome (pa_outcomes page) s = Inr s1"
    using assms(3) by (auto simp: commit_tx_def Let_def split: sum.splits)
  obtain s2 where s2: "each_ok (commit_hits (page_hits (pa_outcomes page))) (hit_domains (pa_outcomes page)) s1 = Inr s2"
    using assms(3) s1 by (auto simp: commit_tx_def Let_def hit_domains_def split: sum.splits)
  have "s' = record_progress2 run p (fold (record_item run) items s2)"
    using assms(3) s1 s2 by (auto simp: commit_tx_def Let_def hit_domains_def)
  then show ?thesis using commit [OF assms(1,2) s1 s2] record_progress2_kept record_items_kept by simp
qed

lemma delist_rows_kept: "P s \<Longrightarrow> delist_rows ds s = (s', n) \<Longrightarrow> P s'"
proof (induction ds arbitrary: s s' n)
  case (Cons d ds)
  obtain s1 k where k: "mark_delisted d s = (s1, k)" by (cases "mark_delisted d s")
  have "P (fst (mark_delisted d s))" unfolding mark_delisted_def by (rule waits [OF Cons.prems(1)]) simp
  then show ?case using Cons k by (auto split: prod.splits)
qed simp

lemma delist_tx_kept:
  assumes "P s" "delist_tx released run restart words s = Inr (s', x)"
  shows "P s'"
proof -
  obtain t n where t: "delist_rows (released (restricted_domains s)) s = (t, n)" by (cases "delist_rows (released (restricted_domains s)) s")
  have "P t" by (rule delist_rows_kept [OF assms(1) t])
  then show ?thesis using assms(2) t record_progress2_kept record_event_kept by (auto simp: delist_tx_def Let_def split: if_splits)
qed

lemma requeue_skips_tx_kept:
  assumes "P s" "requeue_skips_tx run words s = Inr (s', x)"
  shows "P s'"
proof -
  have "P (fst (requeue_signalled_skips s))" unfolding requeue_signalled_skips_def by (rule waits [OF assms(1)]) simp
  then show ?thesis using assms(2) record_event_kept by (auto simp: requeue_skips_tx_def Let_def split: if_splits prod.splits)
qed

lemma compare_policy_kept:
  assumes "compare_policy env p composed w = (r, p', w')" "P (wd_index w)"
  shows "P (wd_index w')"
proof -
  let ?f = "delist_tx (delisted (bx_unicode env) composed) (bp_run p) (restart_pass2 (bp_at p)) (bx_delisted env)"
  obtain a w1 where a: "in_tx env ?f w = (a, w1)" by (cases "in_tx env ?f w")
  have "P (wd_index w1)" by (rule in_tx_kept [OF a, of P, OF assms(2)]) (use assms(2) delist_tx_kept in blast)
  then show ?thesis using assms(1) a second_failed_kept by (auto simp: compare_policy_def Let_def split: sum.splits prod.splits)
qed

lemma next_page_kept:
  assumes "next_page env composed p w = (r, p', w')" "P (wd_index w)"
  shows "P (wd_index w')"
proof -
  let ?f = "pending_tx (ck2_after (p2_checkpoint (bp_at p))) (bx_page_size env)"
  obtain a w1 where a: "in_tx env ?f w = (a, w1)" by (cases "in_tx env ?f w")
  have k1: "P (wd_index w1)" by (rule in_tx_kept [OF a, of P, OF assms(2)]) (use assms(2) in \<open>simp add: pending_tx_def\<close>)
  show ?thesis
  proof (cases a)
    case (Inl e)
    then show ?thesis using assms(1) a k1 second_failed_kept by (auto simp: next_page_def split: prod.splits)
  next
    case (Inr ms)
    have took: "in_tx env ?f w = (Inr ms, w1)" using a Inr by simp
    from in_tx_took(1) [OF took] have page: "ms = pending_page (ck2_after (p2_checkpoint (bp_at p))) (bx_page_size env) (wd_index w1)"
      by (auto simp: pending_tx_def)
    show ?thesis
    proof (cases "ms = []")
      case True
      obtain b w2 where b: "in_tx env (finish_tx (bp_run p)) w1 = (b, w2)" by (cases "in_tx env (finish_tx (bp_run p)) w1")
      have "P (wd_index w2)" by (rule in_tx_kept [OF b, of P, OF k1]) (use k1 finish_tx_kept in blast)
      then show ?thesis using assms(1) a Inr True b second_failed_kept by (auto simp: next_page_def split: sum.splits prod.splits)
    next
      case False
      let ?d = "decide_page env composed (now_of env w1) (ck2_page (p2_checkpoint (bp_at p)) + 1) Map.empty p ms w1"
      obtain d q w2 where d: "?d = (d, q, w2)" by (cases ?d) auto
      have "P (wd_index w2) \<and> mi_messages (wd_index w2) = mi_messages (wd_index w1)"
        by (rule keeps_notes.decide_page_kept [OF keeps_notes_messages [OF keeps_notes_axioms] d]) (simp add: k1)
      then have k2: "P (wd_index w2)" and same: "mi_messages (wd_index w2) = mi_messages (wd_index w1)" by simp_all
      show ?thesis
      proof (cases d)
        case (Inl es)
        then show ?thesis using assms(1) a Inr False d k2 by (simp add: next_page_def)
      next
        case r: (Inr y)
        obtain rs items where y: "y = (rs, items)" by (cases y)
        define page where "page = \<lparr>pa_outcomes = rs, pa_last = \<lparr>wp_sent_at = wt_sent_at (last ms), wp_id = wt_id (last ms)\<rparr>\<rparr>"
        let ?c = "commit_tx (bp_run p) page items (advance_pass2 (bp_at p) page)"
        obtain c w3 where c: "in_tx env ?c w2 = (c, w3)" by (cases "in_tx env ?c w2")
        have "rows_match rs (wd_index w1)"
          using pending_rows_match [OF ids [OF k1]] decide_page_rows [OF d [unfolded r y]] page by simp
        then have "rows_match (pa_outcomes page) (wd_index w2)" by (simp add: rows_match_def page_def same)
        then have k3: "P (wd_index w3)" by (intro in_tx_kept [OF c, of P, OF k2]) (use commit_tx_kept [OF k2] in blast)
        then show ?thesis using assms(1) a Inr False d r y c second_failed_kept [OF _ k3]
          by (auto simp: next_page_def Let_def page_def [symmetric] split: sum.splits prod.splits)
      qed
    qed
  qed
qed

lemma second_next_kept: "second_next env p w = (r, p', w') \<Longrightarrow> P (wd_index w) \<Longrightarrow> P (wd_index w')"
  using next_page_kept compare_policy_kept
  by (auto simp: second_next_def Let_def split: if_splits option.splits prod.splits)

lemma second_pages_kept: "P (wd_index w) \<Longrightarrow> P (wd_index (second_pages env n p w))"
  using second_next_kept by (induction n arbitrary: p w) (auto split: prod.split sum.split)

lemma open_compared_kept:
  assumes "open_compared env p w = (r, w')" "P (wd_index w)"
  shows "P (wd_index w')"
proof -
  obtain a q w1 where a: "compare_policy env p (bx_policy env (wd_moment w)) w = (a, q, w1)"
    by (cases "compare_policy env p (bx_policy env (wd_moment w)) w") auto
  have k1: "P (wd_index w1)" by (rule compare_policy_kept [OF a assms(2)])
  obtain b w2 where b: "in_tx env (requeue_skips_tx (bp_run p) (bx_requeued env)) w1 = (b, w2)"
    by (cases "in_tx env (requeue_skips_tx (bp_run p) (bx_requeued env)) w1")
  have "P (wd_index w2)" by (rule in_tx_kept [OF b, of P, OF k1]) (use k1 requeue_skips_tx_kept in blast)
  then show ?thesis using assms(1) a b k1 second_failed_kept by (auto simp: open_compared_def split: option.splits sum.splits prod.splits)
qed

lemma second_open_kept:
  assumes "second_open env w = (r, w')" "P (wd_index w)"
  shows "P (wd_index w')"
proof -
  obtain a w1 where a: "in_tx env state_tx w = (a, w1)" by (cases "in_tx env state_tx w")
  have k1: "P (wd_index w1)"
    by (rule in_tx_kept [OF a, of P, OF assms(2)]) (use assms(2) in \<open>auto simp: state_tx_def split: option.splits\<close>)
  have start: "P (wd_index w2)" if "in_tx env (start_tx run start) w1 = (b, w2)" for run start b w2
    by (rule in_tx_kept [OF that, of P, OF k1]) (use k1 start_tx_kept in blast)
  have event: "P (wd_index v')" if "in_tx env (event_tx run kind number detail) v = (b, v')" "P (wd_index v)" for run kind number detail v b v'
    by (rule in_tx_kept [OF that(1), of P, OF that(2)]) (use that(2) event_tx_kept in blast)
  show ?thesis using assms(1) a k1
    by (auto simp: second_open_def Let_def split: sum.splits prod.splits if_splits
        dest: start event second_failed_kept open_compared_kept)
qed

lemma second_account_kept: "P (wd_index w) \<Longrightarrow> P (wd_index (second_account env n w))"
  using second_open_kept second_pages_kept by (auto simp: second_account_def split: sum.split prod.split)

end

subsection \<open>The run-start step\<close>

locale reopen_keeps = second_pass_keeps +
  assumes verdicts: "P s \<Longrightarrow> requeue_stale_verdicts v r s = (s1, ds) \<Longrightarrow> each_ok recount_one (sort_compact ds) s1 = Inr s2 \<Longrightarrow> P s2"
    and refusals: "P s \<Longrightarrow> P (fst (requeue_refusals b s))"
    and subjects: "P s \<Longrightarrow> write_batch st ms s = Inr s' \<Longrightarrow> P s'"
begin

lemma remask_stored_kept: "remask_stored f st after n s = Inr (s', k) \<Longrightarrow> P s \<Longrightarrow> P s'"
proof (induction f st after n s arbitrary: s' k rule: remask_stored.induct)
  case (1 f st after n s)
  let ?rows = "stale_unmasked_subjects (stored_version (st_version st)) (st_revision st) after remask_batch s"
  show ?case
  proof (cases "?rows = []")
    case True
    then show ?thesis using 1(2,3) by (simp add: remask_stored.simps [of f st after n s])
  next
    case False
    then obtain t where t: "write_batch st (f ?rows) s = Inr t"
      using 1(2) by (auto simp: remask_stored.simps [of f st after n s] Let_def split: sum.splits)
    have k: "P t" by (rule subjects [OF 1(3) t])
    then show ?thesis using 1(1) [OF refl False t] 1(2) False t
      by (auto simp: remask_stored.simps [of f st after n s] Let_def split: if_splits)
  qed
qed

lemma requeue_overturned_kept:
  assumes "P s" "requeue_overturned f s = Inr (s', n)"
  shows "P s'"
proof -
  have "P (fst (requeue_gate_skips ids s))" for ids unfolding requeue_gate_skips_def by (rule waits [OF assms(1)]) simp
  from this [of "f (gate_skips s)"] show ?thesis
    using assms by (auto simp: requeue_overturned_def Let_def split: if_splits prod.splits)
qed

lemma reopen_tx_kept:
  assumes "P s" "reopen_tx st f g s = Inr (s', x)"
  shows "P s'"
proof -
  let ?v = "stored_version (st_version st)"
  obtain s1 ds where s1: "requeue_stale_verdicts ?v (st_revision st) s = (s1, ds)" by (cases "requeue_stale_verdicts ?v (st_revision st) s")
  obtain s2 where s2: "each_ok recount_one (sort_compact ds) s1 = Inr s2" using assms(2) s1
    by (auto simp: reopen_tx_def Let_def split: sum.splits prod.splits)
  obtain s3 a where s3: "requeue_refusals refused_bound s2 = (s3, a)" by (cases "requeue_refusals refused_bound s2")
  obtain s4 b where s4: "remask_stored f st [] 0 s3 = Inr (s4, b)" using assms(2) s1 s2 s3
    by (auto simp: reopen_tx_def Let_def split: sum.splits prod.splits)
  obtain s5 c where s5: "requeue_overturned g s4 = Inr (s5, c)" using assms(2) s1 s2 s3 s4
    by (auto simp: reopen_tx_def Let_def split: sum.splits prod.splits)
  have "P s3" using refusals [OF verdicts [OF assms(1) s1 s2]] s3 by (metis fst_conv)
  then have "P s5" using remask_stored_kept [OF s4] requeue_overturned_kept [OF _ s5] by simp
  then show ?thesis using assms(2) s1 s2 s3 s4 s5 flags by (auto simp: reopen_tx_def Let_def split: if_splits)
qed

lemma second_reopen_kept: "P (wd_index w) \<Longrightarrow> P (wd_index (snd (second_reopen env w)))"
  unfolding second_reopen_def Let_def by (rule in_tx_index) (use reopen_tx_kept in blast)+

end

subsection \<open>The first pass\<close>

locale first_pass_keeps = keeps_records +
  assumes runs1: "P s \<Longrightarrow> P (s\<lparr>mi_runs1 := rs\<rparr>)"
    and first_flag: "P s \<Longrightarrow> P (s\<lparr>mi_first_ended := b\<rparr>)"
    and page: "P s \<Longrightarrow> fold commit_message ms (s, c) = (s1, c1) \<Longrightarrow> P (fold rebuild_sender (sort_compact (map im_domain ms)) s1)"
    and subject: "P s \<Longrightarrow> store_remasked m s = (s', b) \<Longrightarrow> P s'"
begin

lemma fail1_tx_kept: "P s \<Longrightarrow> fail1_tx run cause s = Inr (s', x) \<Longrightarrow> P s'"
  by (auto simp: fail1_tx_def record_event_kept runs1)

lemma items_tx_kept: "P s \<Longrightarrow> items_tx run is s = Inr (s', x) \<Longrightarrow> P s'"
  by (auto simp: items_tx_def record_items_kept)

lemma record_progress1_kept: "P s \<Longrightarrow> P (record_progress1 run p s)"
  by (simp add: record_progress1_def record_event_kept runs1)

lemma start1_tx_kept: "P s \<Longrightarrow> start1_tx run st s = Inr (s', x) \<Longrightarrow> P s'"
  using record_event_kept runs1 first_flag by (auto simp: start1_tx_def split: if_splits)

lemma finish1_tx_kept: "P s \<Longrightarrow> finish1_tx run st s = Inr (s', x) \<Longrightarrow> P s'"
  using record_event_kept runs1 first_flag by (auto simp: finish1_tx_def split: if_splits)

lemma commit1_tx_kept:
  assumes "P s" "commit1_tx run (index_decide u lg ms c sc) f advance s = Inr (s', x)"
  shows "P s'"
proof -
  let ?page = "index_decide u lg ms c sc"
  have doms: "ip_domains ?page = sort_compact (map im_domain (ip_messages ?page))" by (simp add: index_decide_def Let_def)
  obtain s1 cc where s1: "fold commit_message (ip_messages ?page) (s, \<lparr>cc_added = 0, cc_remasked = 0, cc_unclassified = 0\<rparr>) = (s1, cc)"
    by (cases "fold commit_message (ip_messages ?page) (s, \<lparr>cc_added = 0, cc_remasked = 0, cc_unclassified = 0\<rparr>)")
  have "P (fold rebuild_sender (ip_domains ?page) s1)" unfolding doms by (rule page [OF assms(1) s1])
  moreover obtain q where "s' = record_progress1 run q (case f of None \<Rightarrow> fold rebuild_sender (ip_domains ?page) s1
      | Some y \<Rightarrow> record_item run (page_item y) (fold rebuild_sender (ip_domains ?page) s1))"
    using assms(2) unfolding commit1_tx_def s1 Let_def prod.case by auto
  ultimately show ?thesis using record_progress1_kept items by (auto simp: record_item_def split: option.split)
qed

lemma store_found_kept: "P s \<Longrightarrow> fold store_found ms (s, k) = (s', k') \<Longrightarrow> P s'"
proof (induction ms arbitrary: s k)
  case (Cons m ms)
  obtain s1 b where b: "store_remasked m s = (s1, b)" by (cases "store_remasked m s")
  have "store_found m (s, k) = (s1, if b then k + 1 else k)" by (simp add: store_found_def b)
  then show ?case using Cons.IH [OF subject [OF Cons.prems(1) b]] Cons.prems(2) by simp
qed simp

lemma store_gone_kept: "P s \<Longrightarrow> fold (store_gone run now) ms (s, k) = (s', k') \<Longrightarrow> P s'"
proof (induction ms arbitrary: s k)
  case (Cons m ms)
  obtain s1 b where b: "store_remasked m s = (s1, b)" by (cases "store_remasked m s")
  define s2 where "s2 = (if b then record_item run (gone_item now m) s1 else s1)"
  have "P s2" using subject [OF Cons.prems(1) b] items by (simp add: s2_def record_item_def)
  moreover have "store_gone run now m (s, k) = (s2, if b then k + 1 else k)" by (simp add: store_gone_def b s2_def)
  ultimately show ?case using Cons.IH Cons.prems(2) by simp
qed simp

lemma refetch_tx_kept:
  assumes "P s" "refetch_tx run st again gone is now advance s = Inr (s', q)"
  shows "P s'"
proof -
  obtain s1 j where s1: "fold store_found again (s, 0) = (s1, j)" by (cases "fold store_found again (s, 0)")
  obtain s2 k where s2: "fold (store_gone run now) gone (s1, j) = (s2, k)" by (cases "fold (store_gone run now) gone (s1, j)")
  have "s' = record_progress1 run q (fold (record_item run) is s2)"
    using assms(2) unfolding refetch_tx_def s1 s2 Let_def prod.case by auto
  then show ?thesis using store_gone_kept [OF store_found_kept [OF assms(1) s1] s2] record_items_kept record_progress1_kept by simp
qed

text \<open>One transaction and what follows where it fails.\<close>

lemma tx_kept:
  assumes "in_tx env f w = (a, w')" "P (wd_index w)" "\<And>s s' x. P s \<Longrightarrow> f s = Inr (s', x) \<Longrightarrow> P s'"
  shows "P (wd_index w')"
  by (rule in_tx_kept [OF assms(1), of P, OF assms(2)]) (use assms(2,3) in blast)

lemma first_failed_kept:
  assumes "first_failed env p cause w = (es, p', w')" "P (wd_index w)"
  shows "P (wd_index w')"
proof (cases "in_tx env (fail1_tx (fp_run p) (bx_cause env cause)) w")
  case (Pair a w1)
  have "P (wd_index w1)" by (rule tx_kept [OF Pair assms(2) fail1_tx_kept])
  then show ?thesis using assms Pair by (auto simp: first_failed_def split: if_splits sum.splits)
qed

lemma got_broke_kept: "got_broke (first_failed env p cause w) = (r, p', w') \<Longrightarrow> P (wd_index w) \<Longrightarrow> P (wd_index w')"
  using first_failed_kept by (auto simp: got_broke_def split: prod.splits)

lemmas notes_kept = tx_kept [OF _ _ event_tx_kept] tx_kept [OF _ _ failure_tx_kept] tx_kept [OF _ _ items_tx_kept]

lemma after_page_failure_kept: "after_page_failure env p number e f nx w = (r, p', w') \<Longrightarrow> P (wd_index w) \<Longrightarrow> P (wd_index w')"
  by (cases nx) (auto simp: after_page_failure_def Let_def split: prod.splits sum.splits dest: got_broke_kept notes_kept)

lemma page_attempt_kept: "page_attempt env p f w = (r, p', w') \<Longrightarrow> P (wd_index w) \<Longrightarrow> P (wd_index w')"
  using after_page_failure_kept by (auto simp: page_attempt_def tick_def Let_def split: if_splits call_answer.splits)

lemma fetch_page_kept: "fetch_page env p f w = (r, p', w') \<Longrightarrow> P (wd_index w) \<Longrightarrow> P (wd_index w')"
proof (induction env p f w arbitrary: r p' w' rule: fetch_page.induct)
  case (1 env p f w)
  obtain a q w1 where a: "page_attempt env p f w = (a, q, w1)" by (cases "page_attempt env p f w") auto
  have k: "P (wd_index w1)" by (rule page_attempt_kept [OF a 1(3)])
  show ?case
  proof (cases a)
    case (Inl g)
    then show ?thesis using k 1(2) a by (auto simp: fetch_page.simps [of env p f w])
  next
    case (Inr y)
    then have "fetch_page env q y w1 = (r, p', w')" using 1(2) a by (simp add: fetch_page.simps [of env p f w])
    then show ?thesis using 1(1) [OF a [symmetric] Inr refl _ k] by blast
  qed
qed

lemma after_call_failure_kept: "after_call_failure env p ids e x nx w = (r, p', w') \<Longrightarrow> P (wd_index w) \<Longrightarrow> P (wd_index w')"
  by (cases nx) (auto simp: after_call_failure_def Let_def split: prod.splits sum.splits dest: got_broke_kept notes_kept)

lemma call_attempt_kept: "call_attempt env p ids item w = (r, p', w') \<Longrightarrow> P (wd_index w) \<Longrightarrow> P (wd_index w')"
  using after_call_failure_kept by (auto simp: call_attempt_def tick_def Let_def split: if_splits call_answer.splits)

lemma fetch_metadata_kept: "fetch_metadata env p ids item w = (r, p', w') \<Longrightarrow> P (wd_index w) \<Longrightarrow> P (wd_index w')"
proof (induction env p ids item w arbitrary: r p' w' rule: fetch_metadata.induct)
  case (1 env p ids item w)
  obtain a q w1 where a: "call_attempt env p ids item w = (a, q, w1)" by (cases "call_attempt env p ids item w") auto
  have k: "P (wd_index w1)" by (rule call_attempt_kept [OF a 1(3)])
  show ?case
  proof (cases a)
    case (Inl g)
    then show ?thesis using k 1(2) a by (auto simp: fetch_metadata.simps [of env p ids item w])
  next
    case (Inr y)
    then have "fetch_metadata env q ids (Some y) w1 = (r, p', w')" using 1(2) a by (simp add: fetch_metadata.simps [of env p ids item w])
    then show ?thesis using 1(1) [OF a [symmetric] Inr refl _ k] by blast
  qed
qed

lemma first_finish_kept:
  assumes "first_finish env p w = (r, p', w')" "P (wd_index w)"
  shows "P (wd_index w')"
  using assms by (auto simp: first_finish_def split: sum.splits prod.splits dest: tx_kept [OF _ _ finish1_tx_kept] first_failed_kept)

lemma commit_page_kept:
  assumes "commit_page env p pg f w = (r, p', w')" "P (wd_index w)"
  shows "P (wd_index w')"
  using assms by (auto simp: commit_page_def Let_def split: sum.splits prod.splits if_splits
      dest: tx_kept [OF _ _ commit1_tx_kept] first_failed_kept first_finish_kept)

lemma first_page_kept: "first_page env p w = (r, p', w') \<Longrightarrow> P (wd_index w) \<Longrightarrow> P (wd_index w')"
  by (auto simp: first_page_def split: prod.splits got.splits dest: fetch_page_kept commit_page_kept)

lemma commit_refetched_kept: "commit_refetched env p stored got is w = (r, p', w') \<Longrightarrow> P (wd_index w) \<Longrightarrow> P (wd_index w')"
  by (auto simp: commit_refetched_def Let_def split: sum.splits prod.splits if_splits
      dest: tx_kept [OF _ _ refetch_tx_kept] first_failed_kept)

lemma stale_tx_kept: "P s \<Longrightarrow> stale_tx st n s = Inr (s', x) \<Longrightarrow> P s'"
  by (auto simp: stale_tx_def)

lemma first_refetch_kept: "first_refetch env p w = (r, p', w') \<Longrightarrow> P (wd_index w) \<Longrightarrow> P (wd_index w')"
  by (auto simp: first_refetch_def split: sum.splits prod.splits if_splits got.splits
      dest: tx_kept [OF _ _ stale_tx_kept] first_failed_kept first_finish_kept first_page_kept fetch_metadata_kept commit_refetched_kept)

lemma first_next_kept: "first_next env p w = (r, p', w') \<Longrightarrow> P (wd_index w) \<Longrightarrow> P (wd_index w')"
  by (auto simp: first_next_def split: if_splits dest: first_refetch_kept first_page_kept)

lemma first_steps_kept: "P (wd_index w) \<Longrightarrow> P (wd_index (snd (first_steps env n ok p w)))"
  using first_next_kept by (induction n arbitrary: ok p w) (auto simp: Let_def split: prod.split sum.split)

lemma state1_tx_kept: "P s \<Longrightarrow> state1_tx st s = Inr (s', x) \<Longrightarrow> P s'"
  by (auto simp: state1_tx_def split: option.splits)

lemma first_open_kept:
  assumes "first_open env w = (r, w')" "P (wd_index w)"
  shows "P (wd_index w')"
  using assms by (auto simp: first_open_def Let_def split: sum.splits prod.splits if_splits
      dest: tx_kept [OF _ _ state1_tx_kept] tx_kept [OF _ _ start1_tx_kept])

lemma first_account_kept: "P (wd_index w) \<Longrightarrow> P (wd_index (snd (first_account env n w)))"
  using first_open_kept first_steps_kept by (auto simp: first_account_def split: sum.split prod.split)

end

end
