(* ===== verification/SenderCounts.thy ===== *)
theory SenderCounts
  imports PassKeeps
begin

text \<open>
  The checks of the message table, and the two numbers a sender's row keeps: how many messages of its domain
  the index holds, and how many of them a scan found something in. Every change a pass makes keeps both exact.
\<close>

definition hit_row :: "string \<Rightarrow> message_row \<Rightarrow> bool" where
  "hit_row d m \<longleftrightarrow> sm_domain m = d \<and> sm_state m = Scanned \<and> sm_flags m \<noteq> []"

definition held_count :: "string \<Rightarrow> mail_index \<Rightarrow> nat" where
  "held_count d s = length (filter (\<lambda>m. sm_domain m = d) (mi_messages s))"

definition held_hits :: "string \<Rightarrow> mail_index \<Rightarrow> nat" where
  "held_hits d s = length (filter (hit_row d) (mi_messages s))"

definition rows_hold :: "mail_index \<Rightarrow> bool" where
  "rows_hold s \<longleftrightarrow> distinct (map sm_id (mi_messages s)) \<and> (\<forall>m \<in> set (mi_messages s). row_checks m)"

text \<open>
  Whether a count of hits stands for \<open>n\<close> of them: where messages may have been removed since they were counted,
  nothing is said of it.
\<close>

definition hits_stand :: "bool \<Rightarrow> nat \<Rightarrow> int64 \<Rightarrow> bool" where
  "hits_stand e n h \<longleftrightarrow> (e \<longrightarrow> h = of_nat n)"

text \<open>A sender's row is there exactly where the index holds a message of its domain.\<close>

definition stats_hold :: "bool \<Rightarrow> mail_index \<Rightarrow> bool" where
  "stats_hold e s \<longleftrightarrow> rows_hold s \<and> (\<forall>m \<in> set (mi_messages s). mi_senders s (sm_domain m) \<noteq> None) \<and>
     (\<forall>d r. mi_senders s d = Some r \<longrightarrow> 0 < held_count d s \<and> se_count r = of_nat (held_count d s) \<and> hits_stand e (held_hits d s) (se_hits r))"

lemma hits_stand_simps [simp]: "hits_stand e n (of_nat n)" "hits_stand True n h \<longleftrightarrow> h = of_nat n" "hits_stand False n h" "hits_stand e 0 0"
  by (simp_all add: hits_stand_def)

lemma hits_stand_more: "hits_stand e n h \<Longrightarrow> hits_stand e (n + k) (h + of_nat k)"
  by (simp add: hits_stand_def)

subsection \<open>What an update of messages leaves\<close>

lemma filter_updated:
  assumes "\<And>m. p m \<Longrightarrow> \<not> q m"
  shows "length (filter q (map (\<lambda>m. if p m then f m else m) ms)) = length (filter q ms) + length (filter (\<lambda>m. p m \<and> q (f m)) ms)"
  using assms by (induction ms) auto

text \<open>An update that leaves identifiers and domains, keeps the checks and makes no hit of what it changes.\<close>

lemma update_where_holds:
  assumes "rows_hold s" "\<And>m. p m \<Longrightarrow> row_checks m \<Longrightarrow> sm_id (f m) = sm_id m \<and> row_checks (f m)"
  shows "rows_hold (fst (update_where p f s))"
proof -
  have "map sm_id (map (\<lambda>m. if p m then f m else m) (mi_messages s)) = map sm_id (mi_messages s)"
    using assms by (simp add: rows_hold_def)
  then show ?thesis using assms by (auto simp: rows_hold_def update_where_def simp del: map_map)
qed

lemma update_where_count:
  assumes "\<And>m. p m \<Longrightarrow> sm_domain (f m) = sm_domain m"
  shows "held_count d (fst (update_where p f s)) = held_count d s"
proof -
  have "length (filter (\<lambda>m. sm_domain m = d) (map (\<lambda>m. if p m then f m else m) ms)) = length (filter (\<lambda>m. sm_domain m = d) ms)" for ms
    using assms by (induction ms) auto
  then show ?thesis by (simp add: held_count_def update_where_def)
qed

lemma update_where_domains:
  assumes "\<And>m. p m \<Longrightarrow> sm_domain (f m) = sm_domain m"
  shows "sm_domain ` set (mi_messages (fst (update_where p f s))) = sm_domain ` set (mi_messages s)"
proof -
  have "map sm_domain (mi_messages (fst (update_where p f s))) = map sm_domain (mi_messages s)"
    using assms by (simp add: update_where_def)
  then show ?thesis by (metis list.set_map)
qed

lemma update_where_hits:
  assumes "\<And>m. m \<in> set (mi_messages s) \<Longrightarrow> p m \<Longrightarrow> hit_row d (f m) = hit_row d m"
  shows "held_hits d (fst (update_where p f s)) = held_hits d s"
proof -
  have "length (filter (hit_row d) (map (\<lambda>m. if p m then f m else m) ms)) = length (filter (hit_row d) ms)"
    if "\<And>m. m \<in> set ms \<Longrightarrow> p m \<Longrightarrow> hit_row d (f m) = hit_row d m" for ms
    using that by (induction ms) auto
  then show ?thesis using assms by (simp add: held_hits_def update_where_def)
qed

lemma update_where_senders [simp]: "mi_senders (fst (update_where p f s)) = mi_senders s"
  by (simp add: update_where_def)

lemma stats_hold_rows: "stats_hold e s \<Longrightarrow> mi_senders s d \<noteq> None \<longleftrightarrow> d \<in> sm_domain ` set (mi_messages s)"
  by (force simp: stats_hold_def held_count_def filter_empty_conv)

lemma stats_hold_cong:
  assumes "stats_hold e s" "rows_hold t" "mi_senders t = mi_senders s" "sm_domain ` set (mi_messages t) = sm_domain ` set (mi_messages s)"
    and "\<And>d. held_count d t = held_count d s" "\<And>d. held_hits d t = held_hits d s"
  shows "stats_hold e t"
proof -
  have "\<forall>d \<in> sm_domain ` set (mi_messages t). mi_senders t d \<noteq> None" using assms(1) unfolding assms(3,4) by (simp add: stats_hold_def)
  then have "\<forall>m \<in> set (mi_messages t). mi_senders t (sm_domain m) \<noteq> None" by blast
  then show ?thesis using assms(1,2) unfolding stats_hold_def assms(3,5,6) by blast
qed

text \<open>An update that makes a message wait, or that does not touch its scan.\<close>

lemma update_where_stats:
  assumes "stats_hold e s" "\<And>m. p m \<Longrightarrow> row_checks m \<Longrightarrow> sm_id (f m) = sm_id m \<and> sm_domain (f m) = sm_domain m \<and> row_checks (f m) \<and>
    (\<forall>d. hit_row d (f m) = hit_row d m)"
  shows "stats_hold e (fst (update_where p f s))"
proof -
  have rows: "rows_hold s" and checks: "\<And>m. m \<in> set (mi_messages s) \<Longrightarrow> row_checks m"
    using assms(1) by (simp_all add: stats_hold_def rows_hold_def)
  let ?p = "\<lambda>m. p m \<and> row_checks m"
  have same: "update_where p f s = update_where ?p f s"
    using checks by (simp add: update_where_def cong: filter_cong)
  show ?thesis unfolding same
  proof (rule stats_hold_cong [OF assms(1)])
    show "rows_hold (fst (update_where ?p f s))" by (rule update_where_holds [OF rows]) (use assms(2) in blast)
    show "held_count d (fst (update_where ?p f s)) = held_count d s" for d by (rule update_where_count) (use assms(2) in blast)
    show "sm_domain ` set (mi_messages (fst (update_where ?p f s))) = sm_domain ` set (mi_messages s)"
      by (rule update_where_domains) (use assms(2) in blast)
    show "held_hits d (fst (update_where ?p f s)) = held_hits d s" for d by (rule update_where_hits) (use assms(2) in blast)
  qed simp
qed

subsection \<open>A page of the second pass\<close>

definition page_flagged :: "string \<Rightarrow> outcome_row list \<Rightarrow> nat" where
  "page_flagged d rs = length (filter (\<lambda>r. flagged_outcome r \<and> or_domain r = d) rs)"

lemma flag_texts_Nil: "flag_texts f = [] \<longleftrightarrow> \<not> any_flag f"
  by (simp add: flag_texts_def any_flag_def)

text \<open>One message's rows: a hit more of its domain where its scan found something.\<close>

definition same_rows :: "mail_index \<Rightarrow> mail_index \<Rightarrow> bool" where
  "same_rows s t \<longleftrightarrow> map (\<lambda>m. (sm_id m, sm_domain m)) (mi_messages t) = map (\<lambda>m. (sm_id m, sm_domain m)) (mi_messages s) \<and>
     mi_senders t = mi_senders s"

lemma same_rows_keep:
  assumes "same_rows s t"
  shows "held_count d t = held_count d s" "sm_domain ` set (mi_messages t) = sm_domain ` set (mi_messages s)"
    and "map sm_id (mi_messages t) = map sm_id (mi_messages s)" "rows_match rs t = rows_match rs s"
proof -
  let ?k = "\<lambda>m. (sm_id m, sm_domain m)"
  have keys: "map ?k (mi_messages t) = map ?k (mi_messages s)" using assms by (simp add: same_rows_def)
  have count: "held_count d x = length (filter (\<lambda>(i, e). e = d) (map ?k (mi_messages x)))" for x
    by (simp add: held_count_def filter_map o_def)
  show "held_count d t = held_count d s" by (simp add: count keys)
  have doms: "sm_domain ` set (mi_messages x) = snd ` set (map ?k (mi_messages x))" for x by (simp add: image_image)
  show "sm_domain ` set (mi_messages t) = sm_domain ` set (mi_messages s)" by (simp only: doms keys)
  have ids: "map sm_id (mi_messages x) = map fst (map ?k (mi_messages x))" for x by simp
  show "map sm_id (mi_messages t) = map sm_id (mi_messages s)" by (simp only: ids keys)
  have match: "rows_match rs x \<longleftrightarrow> (\<forall>r \<in> set rs. \<forall>(i, e) \<in> set (map ?k (mi_messages x)). i = or_id r \<longrightarrow> e = or_domain r) \<and>
     (\<forall>r \<in> set rs. or_scanned r \<noteq> None \<longrightarrow> gate_decided (or_verdict r))" for x
    by (simp add: rows_match_def)
  show "rows_match rs t = rows_match rs s" by (simp only: match keys)
qed

lemma update_where_same_rows:
  assumes "\<And>m. p m \<Longrightarrow> sm_id (f m) = sm_id m \<and> sm_domain (f m) = sm_domain m"
  shows "same_rows s (fst (update_where p f s))"
  using assms by (auto simp: same_rows_def update_where_def)

lemma verdict_hits:
  assumes "update_where (waiting_named i) f s = (t, 1)" "rows_hold s"
    and "\<And>m. m \<in> set (mi_messages s) \<Longrightarrow> sm_id m = i \<Longrightarrow> sm_domain m = e"
    and "\<And>m. sm_domain (f m) = sm_domain m" "\<And>m. sm_state m = Pending \<Longrightarrow> sm_flags m = [] \<Longrightarrow> sm_state (f m) = Scanned \<and> sm_flags (f m) \<noteq> [] \<longleftrightarrow> b"
  shows "held_hits d t = held_hits d s + (if b \<and> e = d then 1 else 0)"
proof -
  have not_yet: "waiting_named i m \<Longrightarrow> \<not> hit_row d m" for m by (simp add: waiting_named_def hit_row_def)
  have hit: "hit_row d (f m) \<longleftrightarrow> sm_domain m = d \<and> b" if "m \<in> set (mi_messages s)" "waiting_named i m" for m
  proof -
    have "sm_state m = Pending" "sm_flags m = []" using assms(2) that by (auto simp: rows_hold_def row_checks_def waiting_named_def)
    then show ?thesis by (simp only: hit_row_def assms(4,5))
  qed
  have "waiting_named i m \<and> hit_row d (f m) \<longleftrightarrow> waiting_named i m \<and> b \<and> e = d" if "m \<in> set (mi_messages s)" for m
    using assms(3) [OF that] hit [OF that] by (auto simp: waiting_named_def)
  then have "filter (\<lambda>m. waiting_named i m \<and> hit_row d (f m)) (mi_messages s) = filter (\<lambda>m. waiting_named i m \<and> b \<and> e = d) (mi_messages s)"
    by (rule filter_cong [OF refl])
  moreover have "length (filter (waiting_named i) (mi_messages s)) = 1" using assms(1) by (simp add: update_where_def)
  ultimately show ?thesis
    using filter_updated [of "waiting_named i" "hit_row d" f "mi_messages s", OF not_yet] assms(1)
    by (cases "b \<and> e = d") (auto simp: held_hits_def update_where_def)
qed

text \<open>One message's outcome made durable.\<close>

lemma commit_outcome_counts:
  assumes "commit_outcome r s = Inr t" "rows_hold s" "rows_match [r] s"
  shows "rows_hold t \<and> same_rows s t \<and> held_hits d t = held_hits d s + page_flagged d [r]"
proof (cases "gate_decided (or_verdict r)")
  case False
  then have "t = s" "or_scanned r = None" using assms(1,3) by (auto simp: commit_outcome_def rows_match_def)
  then show ?thesis using assms(2) by (simp add: same_rows_def page_flagged_def flagged_outcome_def)
next
  case True
  define s0 where "s0 = record_decision (or_id r) (if gate_scans (or_verdict r) then ''SCAN'' else ''SKIP'') (gate_reason_string (or_verdict r)) s"
  have s0: "rows_hold s0" "held_hits d s0 = held_hits d s" "mi_messages s0 = mi_messages s" "mi_senders s0 = mi_senders s"
    using assms(2) by (simp_all add: s0_def record_decision_def rows_hold_def held_hits_def)
  have same0: "same_rows s u" if "same_rows s0 u" for u using that s0(3,4) by (simp add: same_rows_def)
  have doms: "sm_domain m = or_domain r" if "m \<in> set (mi_messages s0)" "sm_id m = or_id r" for m
    using assms(3) that s0(3) by (simp add: rows_match_def)
  have upd: "outcome_update r s0 = None \<and> t = s0 \<or> outcome_update r s0 = Some (t, 1)"
    using assms(1) True by (auto simp: commit_outcome_def s0_def [symmetric] split: option.splits prod.splits if_splits)
  have step: "rows_hold t \<and> same_rows s t \<and> held_hits d t = held_hits d s + page_flagged d [r]"
    if u: "update_where (waiting_named (or_id r)) f s0 = (t, 1)"
      and f: "\<And>m. sm_id (f m) = sm_id m \<and> sm_domain (f m) = sm_domain m" "\<And>m. sm_state m = Pending \<Longrightarrow> row_checks m \<Longrightarrow> row_checks (f m)"
      and b: "\<And>m. sm_state m = Pending \<Longrightarrow> sm_flags m = [] \<Longrightarrow> sm_state (f m) = Scanned \<and> sm_flags (f m) \<noteq> [] \<longleftrightarrow> flagged_outcome r" for f
  proof -
    have t: "t = fst (update_where (waiting_named (or_id r)) f s0)" using u by simp
    have "rows_hold t" unfolding t by (rule update_where_holds [OF s0(1)]) (use f in \<open>auto simp: waiting_named_def\<close>)
    moreover have "same_rows s t" unfolding t by (rule same0 [OF update_where_same_rows]) (use f(1) in blast)
    moreover have "held_hits d t = held_hits d s0 + (if flagged_outcome r \<and> or_domain r = d then 1 else 0)"
    proof (rule verdict_hits [OF _ s0(1) doms])
      show "update_where (waiting_named (or_id r)) f s0 = (t, 1)" by (rule u)
    qed (use f b in auto)
    ultimately show ?thesis by (simp add: s0(2) page_flagged_def)
  qed
  show ?thesis using upd
  proof
    assume "outcome_update r s0 = None \<and> t = s0"
    then have "t = s0" "or_scanned r = None" by (auto simp: outcome_update_def split: option.splits if_splits)
    then show ?thesis using s0 by (simp add: same_rows_def page_flagged_def flagged_outcome_def)
  next
    assume u: "outcome_update r s0 = Some (t, 1)"
    show ?thesis
    proof (cases "or_scanned r")
      case (Some sc)
      then have "record_verdict (flag_texts (sd_flags sc)) (sd_rules sc) (stored_version (sd_version sc)) (sd_revision sc) (or_id r) s0 = (t, 1)"
        using u by (simp add: outcome_update_def)
      then show ?thesis unfolding record_verdict_def
        by (rule step) (use Some in \<open>auto simp: row_checks_def flagged_outcome_def flag_texts_Nil\<close>)
    next
      case None
      show ?thesis
      proof (cases "or_refused r")
        case True
        then have "record_refusal refused_bound (or_id r) s0 = (t, 1)" using u None by (simp add: outcome_update_def)
        then show ?thesis unfolding record_refusal_def
          by (rule step) (use None in \<open>auto simp: row_checks_def flagged_outcome_def\<close>)
      next
        case False
        then have "record_skip (gate_state (or_verdict r)) (or_id r) s0 = (t, 1)"
          using u None by (auto simp: outcome_update_def split: if_splits)
        then show ?thesis unfolding record_skip_def
          by (rule step) (use None in \<open>auto simp: row_checks_def flagged_outcome_def gate_state_def split: gate_reason.splits\<close>)
      qed
    qed
  qed
qed

lemma commit_outcomes_count:
  assumes "each_ok commit_outcome rs s = Inr t" "rows_hold s" "rows_match rs s"
  shows "rows_hold t \<and> same_rows s t \<and> (\<forall>d. held_hits d t = held_hits d s + page_flagged d rs)"
  using assms
proof (induction rs arbitrary: s)
  case Nil
  then show ?case by (simp add: same_rows_def page_flagged_def)
next
  case (Cons r rs)
  obtain u where u: "commit_outcome r s = Inr u" using Cons.prems(1) by (auto split: sum.splits)
  have m: "rows_match [r] s" "rows_match rs s" using Cons.prems(3) by (simp_all add: rows_match_def)
  have one: "rows_hold u \<and> same_rows s u \<and> held_hits d u = held_hits d s + page_flagged d [r]" for d
    by (rule commit_outcome_counts [OF u Cons.prems(2) m(1)])
  have "rows_hold t \<and> same_rows u t \<and> (\<forall>d. held_hits d t = held_hits d u + page_flagged d rs)"
    by (rule Cons.IH) (use Cons.prems(1) u one m(2) same_rows_keep(4) [of s u rs] in simp_all)
  then show ?case using one by (simp add: same_rows_def page_flagged_def)
qed

text \<open>Senders changed one after another, each once and each there.\<close>

lemma each_sender:
  assumes "each_ok (\<lambda>d s. case update_sender d (g d s) s of (s', n) \<Rightarrow> if n = 1 then Inr s' else Inl RowsDiffer) ds s = Inr t"
    and "\<And>d s s'. mi_messages s' = mi_messages s \<Longrightarrow> g d s' = g d s"
  shows "mi_messages t = mi_messages s \<and>
    (distinct ds \<longrightarrow> mi_senders t = (\<lambda>d. if d \<in> set ds then map_option (g d s) (mi_senders s d) else mi_senders s d))"
  using assms(1)
proof (induction ds arbitrary: s)
  case (Cons d ds)
  obtain r where r: "mi_senders s d = Some r" and
      rest: "each_ok (\<lambda>d s. case update_sender d (g d s) s of (s', n) \<Rightarrow> if n = 1 then Inr s' else Inl RowsDiffer) ds
        (s\<lparr>mi_senders := (mi_senders s)(d \<mapsto> g d s r)\<rparr>) = Inr t"
    using Cons.prems by (auto simp: update_sender_def split: option.splits)
  have same: "g e (s\<lparr>mi_senders := (mi_senders s)(d \<mapsto> g d s r)\<rparr>) = g e s" for e by (rule assms(2)) simp
  show ?case using Cons.IH [OF rest] r by (auto simp: same)
qed simp

lemma hit_domains_none: "d \<notin> set (hit_domains rs) \<Longrightarrow> page_flagged d rs = 0"
  by (auto simp: hit_domains_def page_hits_count Let_def page_flagged_def filter_empty_conv split: if_splits)

lemma page_hits_flagged: "(case page_hits rs d of None \<Rightarrow> 0 | Some n \<Rightarrow> n) = of_nat (page_flagged d rs)"
  by (simp add: page_hits_count Let_def page_flagged_def)

lemma stats_hold_commit:
  assumes "stats_hold e s" "rows_match rs s" "each_ok commit_outcome rs s = Inr s1"
    and "each_ok (commit_hits (page_hits rs)) (hit_domains rs) s1 = Inr s2"
  shows "stats_hold e s2"
proof -
  let ?g = "\<lambda>d (s :: mail_index) r. r\<lparr>se_hits := se_hits r + of_nat (page_flagged d rs)\<rparr>"
  have rows: "rows_hold s1" and same: "same_rows s s1" and hits: "\<And>d. held_hits d s1 = held_hits d s + page_flagged d rs"
    using commit_outcomes_count [OF assms(3) _ assms(2)] assms(1) by (auto simp: stats_hold_def)
  have "commit_hits (page_hits rs) = (\<lambda>d s. case update_sender d (?g d s) s of (s', n) \<Rightarrow> if n = 1 then Inr s' else Inl RowsDiffer)"
    by (simp add: commit_hits_def add_scan_hits_def page_hits_flagged fun_eq_iff)
  then have s2: "mi_messages s2 = mi_messages s1"
      "mi_senders s2 = (\<lambda>d. if d \<in> set (hit_domains rs) then map_option (?g d s1) (mi_senders s1 d) else mi_senders s1 d)"
    using each_sender [of ?g "hit_domains rs" s1 s2] assms(4) by (simp_all add: hit_domains_def)
  have senders: "mi_senders s2 d = map_option (?g d s1) (mi_senders s d)" for d
    using same hit_domains_none [of d rs] unfolding s2(2) by (cases "mi_senders s d") (simp_all add: same_rows_def)
  have held: "held_count d s2 = held_count d s" "held_hits d s2 = held_hits d s + page_flagged d rs" for d
    using same_rows_keep(1) [OF same] hits by (simp_all add: held_count_def held_hits_def s2(1))
  have doms: "sm_domain ` set (mi_messages s2) = sm_domain ` set (mi_messages s)" using same_rows_keep(2) [OF same] by (simp add: s2(1))
  have "\<forall>d \<in> sm_domain ` set (mi_messages s2). mi_senders s2 d \<noteq> None"
    using assms(1) unfolding doms senders by (simp add: stats_hold_def)
  moreover have "rows_hold s2" using rows by (simp add: rows_hold_def s2(1))
  ultimately show ?thesis using assms(1) hits_stand_more by (auto simp: stats_hold_def senders held)
qed

lemma stats_hold_other [simp]:
  "stats_hold e (s\<lparr>mi_events := es\<rparr>) = stats_hold e s" "stats_hold e (s\<lparr>mi_failures := fs\<rparr>) = stats_hold e s" "stats_hold e (s\<lparr>mi_runs1 := rs1\<rparr>) = stats_hold e s"
  "stats_hold e (s\<lparr>mi_runs2 := rs2\<rparr>) = stats_hold e s" "stats_hold e (s\<lparr>mi_first_ended := b\<rparr>) = stats_hold e s" "stats_hold e (s\<lparr>mi_restart := b\<rparr>) = stats_hold e s"
  "stats_hold e (s\<lparr>mi_second_ended := b\<rparr>) = stats_hold e s" "stats_hold e (s\<lparr>mi_maskings := ms\<rparr>) = stats_hold e s"
  by (simp_all add: stats_hold_def rows_hold_def held_count_def held_hits_def)

lemma stats_hold_waits:
  assumes "stats_hold e s" "\<And>m. g m \<Longrightarrow> sm_state m = SkippedRestricted \<or> sm_state m = SkippedGate"
  shows "stats_hold e (fst (update_where g waits_again s))"
  by (rule update_where_stats [OF assms(1)]) (use assms(2) in \<open>force simp: waits_again_def row_checks_def hit_row_def\<close>)

interpretation stats_hold: second_pass_keeps "stats_hold e" for e
proof
  show "distinct (map sm_id (mi_messages s))" if "stats_hold e s" for s using that by (simp add: stats_hold_def rows_hold_def)
qed (simp_all add: stats_hold_waits stats_hold_commit)

subsection \<open>The run-start step\<close>

lemma hit_row_fun: "hit_row d = (\<lambda>m. sm_domain m = d \<and> sm_state m = Scanned \<and> sm_flags m \<noteq> [])"
  by (simp add: hit_row_def fun_eq_iff)

lemma stats_hold_verdicts:
  assumes "stats_hold e s" "requeue_stale_verdicts v r s = (s1, ds)" "each_ok recount_one (sort_compact ds) s1 = Inr s2"
  shows "stats_hold e s2"
proof -
  let ?g = "\<lambda>d s r. r\<lparr>se_hits := of_nat (held_hits d s)\<rparr>"
  let ?f = "\<lambda>m. (waits_again m)\<lparr>sm_flags := [], sm_rules := [], sm_version := None, sm_revision := None\<rparr>"
  have s1: "s1 = fst (update_where (stale_verdict v r) ?f s)" and ds: "set ds = sm_domain ` {m \<in> set (mi_messages s). stale_verdict v r m}"
    using assms(2) by (auto simp: requeue_stale_verdicts_def)
  have senders: "mi_senders s1 = mi_senders s" by (simp add: s1)
  have rows: "rows_hold s1" unfolding s1
    by (rule update_where_holds) (use assms(1) in \<open>auto simp: stats_hold_def waits_again_def row_checks_def stale_verdict_def\<close>)
  have count: "held_count d s1 = held_count d s" for d unfolding s1 by (rule update_where_count) (simp add: waits_again_def)
  have doms: "sm_domain ` set (mi_messages s1) = sm_domain ` set (mi_messages s)"
    unfolding s1 by (rule update_where_domains) (simp add: waits_again_def)
  have hits: "held_hits d s1 = held_hits d s" if "d \<notin> set ds" for d
    unfolding s1 by (rule update_where_hits) (use that in \<open>auto simp: ds hit_row_def waits_again_def\<close>)
  have "recount_one = (\<lambda>d s. case update_sender d (?g d s) s of (s', n) \<Rightarrow> if n = 1 then Inr s' else Inl RowsDiffer)"
    unfolding recount_one_def recount_scan_hits_def held_hits_def hit_row_fun by (rule refl)
  then have s2: "mi_messages s2 = mi_messages s1"
      "mi_senders s2 = (\<lambda>d. if d \<in> set ds then map_option (?g d s1) (mi_senders s1 d) else mi_senders s1 d)"
    using each_sender [of ?g "sort_compact ds" s1 s2] assms(3) by (simp_all add: held_hits_def)
  note s2 = s2(1) s2(2) [unfolded senders]
  have held: "held_count d s2 = held_count d s" "held_hits d s2 = held_hits d s1" for d
    using count by (simp_all add: held_count_def held_hits_def s2(1))
  have "\<forall>d \<in> sm_domain ` set (mi_messages s2). mi_senders s2 d \<noteq> None"
    using assms(1) unfolding s2(1) doms by (simp add: stats_hold_def s2(2))
  moreover have "rows_hold s2" using rows by (simp add: rows_hold_def s2(1))
  ultimately show ?thesis using assms(1) hits by (auto simp: stats_hold_def s2(2) held)
qed

lemma set_subject_scan [simp]:
  "sm_id (set_subject v r subject masked m) = sm_id m" "sm_domain (set_subject v r subject masked m) = sm_domain m"
  "row_checks (set_subject v r subject masked m) = row_checks m" "hit_row d (set_subject v r subject masked m) = hit_row d m"
  by (simp_all add: set_subject_def row_checks_def hit_row_def)

lemma stats_hold_batch:
  assumes "stats_hold e s" "write_batch st ms s = Inr t"
  shows "stats_hold e t"
proof -
  have "stats_hold e (fst (remask_stored_subjects batch v r s))" for batch v r
    unfolding remask_stored_subjects_def by (rule update_where_stats [OF assms(1)]) (auto split: option.split)
  then have "stats_hold e u" if "remask_stored_subjects batch v r s = (u, n)" for batch v r u n using that by (metis fst_conv)
  then show ?thesis using assms(2) by (auto simp: write_batch_def Let_def record_maskings_def split: prod.splits if_splits)
qed

interpretation stats_hold: reopen_keeps "stats_hold e" for e
proof
  show "stats_hold e (fst (requeue_refusals b s))" if "stats_hold e s" for s b
    unfolding requeue_refusals_def by (rule update_where_stats [OF that]) (auto simp: waits_again_def row_checks_def hit_row_def)
  show "stats_hold e s2" if "stats_hold e s" "requeue_stale_verdicts v r s = (s1, ds)" "each_ok recount_one (sort_compact ds) s1 = Inr s2" for s v r s1 ds s2
    by (rule stats_hold_verdicts [OF that])
  show "stats_hold e s'" if "stats_hold e s" "write_batch st ms s = Inr s'" for s st ms s' by (rule stats_hold_batch [OF that])
qed

subsection \<open>A page of the first pass\<close>

lemma stats_hold_remasked:
  assumes "stats_hold e s" "store_remasked m s = (t, b)"
  shows "stats_hold e t"
proof -
  have "stats_hold e (fst (remask_subject x y v r i s))" for x y v r i
    unfolding remask_subject_def by (rule update_where_stats [OF assms(1)]) simp
  then have "stats_hold e u" if "remask_subject x y v r i s = (u, n)" for x y v r i u n using that by (metis fst_conv)
  then show ?thesis using assms(2) by (auto simp: store_remasked_def Let_def record_maskings_def split: prod.splits if_splits)
qed

lemma commit_messages_count:
  assumes "fold commit_message ms (s, c) = (t, c')" "rows_hold s"
  shows "rows_hold t \<and> mi_senders t = mi_senders s \<and> (\<forall>d. held_hits d t = held_hits d s) \<and>
    (\<forall>d. held_count d s \<le> held_count d t \<and> (d \<notin> im_domain ` set ms \<longrightarrow> held_count d t = held_count d s)) \<and>
    sm_domain ` set (mi_messages t) \<subseteq> sm_domain ` set (mi_messages s) \<union> im_domain ` set ms"
  using assms
proof (induction ms arbitrary: s c)
  case (Cons m ms)
  obtain u cu where u: "commit_message m (s, c) = (u, cu)" by (cases "commit_message m (s, c)")
  have one: "rows_hold u \<and> mi_senders u = mi_senders s \<and> (\<forall>d. held_hits d u = held_hits d s) \<and>
      (\<forall>d. held_count d s \<le> held_count d u \<and> (d \<noteq> im_domain m \<longrightarrow> held_count d u = held_count d s)) \<and>
      sm_domain ` set (mi_messages u) \<subseteq> insert (im_domain m) (sm_domain ` set (mi_messages s))"
  proof (cases "im_id m \<in> sm_id ` set (mi_messages s)")
    case True
    let ?p = "\<lambda>x. sm_id x = im_id m \<and> stale_subject_row (stored_version (st_version (im_stamp m))) (st_revision (im_stamp m)) x"
    let ?f = "set_subject (stored_version (st_version (im_stamp m))) (st_revision (im_stamp m)) (im_subject m) (im_subject_masked m)"
    let ?t = "fst (update_where ?p ?f s)"
    obtain rows where "u = record_maskings rows ?t \<or> u = ?t"
      using u True by (auto simp: commit_message_def insert_message_def store_remasked_def remask_subject_def Let_def split: prod.splits if_splits)
    moreover have "rows_hold ?t" by (rule update_where_holds [OF Cons.prems(2)]) simp
    moreover have "held_hits d ?t = held_hits d s" for d by (rule update_where_hits) simp
    moreover have "held_count d ?t = held_count d s" for d by (rule update_where_count) simp
    moreover have "sm_domain ` set (mi_messages ?t) = sm_domain ` set (mi_messages s)" by (rule update_where_domains) simp
    ultimately show ?thesis by (auto simp: record_maskings_def rows_hold_def held_hits_def held_count_def)
  next
    case False
    then obtain rows where "u = record_maskings rows (s\<lparr>mi_messages := mi_messages s @ [inserted_row m]\<rparr>)"
      using u by (auto simp: commit_message_def insert_message_def)
    then show ?thesis using False Cons.prems(2)
      by (auto simp: record_maskings_def rows_hold_def held_hits_def held_count_def inserted_row_def row_checks_def hit_row_def)
  qed
  have "rows_hold t \<and> mi_senders t = mi_senders u \<and> (\<forall>d. held_hits d t = held_hits d u) \<and>
    (\<forall>d. held_count d u \<le> held_count d t \<and> (d \<notin> im_domain ` set ms \<longrightarrow> held_count d t = held_count d u)) \<and>
    sm_domain ` set (mi_messages t) \<subseteq> sm_domain ` set (mi_messages u) \<union> im_domain ` set ms"
    by (rule Cons.IH) (use Cons.prems(1) u one in simp_all)
  note rest = this
  have le: "held_count d s \<le> held_count d t" for d
  proof (rule order_trans)
    show "held_count d s \<le> held_count d u" using one by blast
    show "held_count d u \<le> held_count d t" using rest by blast
  qed
  have eq: "held_count d t = held_count d s" if "d \<notin> im_domain ` set (m # ms)" for d
  proof -
    have "d \<noteq> im_domain m" "d \<notin> im_domain ` set ms" using that by auto
    then have "held_count d u = held_count d s" "held_count d t = held_count d u" using one rest by blast+
    then show ?thesis by simp
  qed
  have doms: "sm_domain ` set (mi_messages t) \<subseteq> sm_domain ` set (mi_messages s) \<union> im_domain ` set (m # ms)"
  proof -
    have "sm_domain ` set (mi_messages t) \<subseteq> sm_domain ` set (mi_messages u) \<union> im_domain ` set ms"
      "sm_domain ` set (mi_messages u) \<subseteq> insert (im_domain m) (sm_domain ` set (mi_messages s))" using one rest by blast+
    then show ?thesis unfolding list.simps(15) image_insert by blast
  qed
  show ?case using conjunct1 [OF rest] conjunct1 [OF conjunct2 [OF rest]] conjunct1 [OF conjunct2 [OF conjunct2 [OF rest]]] one le eq doms by simp
qed simp

definition rebuilt_row :: "mail_index \<Rightarrow> string \<Rightarrow> sender_row option \<Rightarrow> sender_row option" where
  "rebuilt_row s d x =
     (if held_count d s = 0 then x
      else Some (case x of None \<Rightarrow> \<lparr>se_count = of_nat (held_count d s), se_hits = 0\<rparr> | Some r \<Rightarrow> r\<lparr>se_count := of_nat (held_count d s)\<rparr>))"

lemma rebuild_senders:
  "mi_messages (fold rebuild_sender ds s) = mi_messages s \<and>
   mi_senders (fold rebuild_sender ds s) = (\<lambda>d. if d \<in> set ds then rebuilt_row s d (mi_senders s d) else mi_senders s d)"
proof (induction ds arbitrary: s)
  case (Cons e ds)
  have one: "mi_messages (rebuild_sender e s) = mi_messages s"
      "mi_senders (rebuild_sender e s) = (mi_senders s)(e := rebuilt_row s e (mi_senders s e))"
    by (auto simp: rebuild_sender_def rebuilt_row_def held_count_def [symmetric] Let_def split: option.split)
  have "held_count d (rebuild_sender e s) = held_count d s" for d by (simp add: held_count_def one(1))
  then have "rebuilt_row (rebuild_sender e s) = rebuilt_row s" by (simp add: rebuilt_row_def fun_eq_iff split: option.split)
  moreover have "rebuilt_row s e (rebuilt_row s e x) = rebuilt_row s e x" for x
    by (simp add: rebuilt_row_def split: option.split)
  ultimately show ?case using Cons.IH [of "rebuild_sender e s"] one by auto
qed simp

lemma stats_hold_page:
  assumes "stats_hold e s" "fold commit_message ms (s, c) = (s1, c1)"
  shows "stats_hold e (fold rebuild_sender (sort_compact (map im_domain ms)) s1)"
proof -
  let ?ds = "sort_compact (map im_domain ms)" let ?t = "fold rebuild_sender ?ds s1"
  have s1: "rows_hold s1" "mi_senders s1 = mi_senders s" "\<And>d. held_hits d s1 = held_hits d s"
      "\<And>d. d \<notin> im_domain ` set ms \<Longrightarrow> held_count d s1 = held_count d s" "\<And>d. held_count d s \<le> held_count d s1"
      "sm_domain ` set (mi_messages s1) \<subseteq> sm_domain ` set (mi_messages s) \<union> im_domain ` set ms"
    using commit_messages_count [OF assms(2)] assms(1) by (auto simp: stats_hold_def)
  note t = rebuild_senders [of ?ds s1]
  have held: "held_count d ?t = held_count d s1" "held_hits d ?t = held_hits d s" for d
    using t s1(3) by (simp_all add: held_count_def held_hits_def)
  have unknown: "held_hits d s = 0" if "mi_senders s d = None" for d
    using assms(1) that by (auto simp: stats_hold_def held_hits_def hit_row_def filter_empty_conv)
  have known: "mi_senders ?t (sm_domain m) \<noteq> None" if "m \<in> set (mi_messages s1)" for m
  proof (cases "sm_domain m \<in> im_domain ` set ms")
    case True
    have "held_count (sm_domain m) s1 \<noteq> 0" using that by (auto simp: held_count_def filter_empty_conv)
    then show ?thesis using t True by (simp add: rebuilt_row_def)
  next
    case False
    then have "sm_domain m \<in> sm_domain ` set (mi_messages s)" using s1(6) that by blast
    then show ?thesis using t False assms(1) s1(2) by (auto simp: stats_hold_def)
  qed
  have row: "0 < held_count d s1 \<and> se_count r = of_nat (held_count d s1) \<and> hits_stand e (held_hits d s) (se_hits r)" if r: "mi_senders ?t d = Some r" for d r
  proof (cases "d \<in> im_domain ` set ms \<and> held_count d s1 \<noteq> 0")
    case True
    then show ?thesis using r t s1(2) unknown [of d] assms(1)
      by (auto simp: rebuilt_row_def stats_hold_def split: option.splits)
  next
    case False
    then have same: "mi_senders s d = Some r" using r t s1(2) by (auto simp: rebuilt_row_def split: if_splits)
    have "held_count d s = held_count d s1"
    proof (cases "d \<in> im_domain ` set ms")
      case True
      then have none: "held_count d s1 = 0" using False by simp
      then show ?thesis using s1(5) [of d] by simp
    qed (simp add: s1(4))
    then show ?thesis using same assms(1) by (metis stats_hold_def)
  qed
  show ?thesis using known row t s1(1) held by (simp add: stats_hold_def rows_hold_def)
qed

interpretation stats_hold: first_pass_keeps "stats_hold e" for e
proof
  show "stats_hold e (fold rebuild_sender (sort_compact (map im_domain ms)) s1)" if "stats_hold e s" "fold commit_message ms (s, c) = (s1, c1)" for s ms c s1 c1
    by (rule stats_hold_page [OF that])
  show "stats_hold e s'" if "stats_hold e s" "store_remasked m s = (s', b)" for s m s' b by (rule stats_hold_remasked [OF that])
qed simp_all

end
