(* ===== verification/SecondPassEnds.thy ===== *)
theory SecondPassEnds
  imports SecondPassFacts
begin

text \<open>
  What the second pass promises: no waiting message is passed over however its runs go, and no body of a
  sender the policy restricts is asked for.
\<close>

subsection \<open>No message is passed over\<close>

text \<open>
  C21. However often backfill's second pass of an account fails, is stopped at any moment and is opened again, under
  other policies, scanners and answers each time, and whatever the run-start step returns to waiting in
  between: once the pass is recorded as ended, a message still waits for its scan only if a failed item of
  it is on record. No waiting message is ever passed over.
\<close>

theorem ended_pass_leaves_only_failed_items:
  assumes "distinct (map sm_id (mi_messages (wd_index w)))" "[] \<notin> sm_id ` set (mi_messages (wd_index w))"
    and "mi_runs2 (wd_index w) = []" "\<not> mi_second_ended (wd_index w)"
    and "\<And>x. x \<in> set acts \<Longrightarrow> gate_config_valid (bx_gate (fst x)) \<and> (\<forall>k. bx_run_id (fst x) k \<noteq> [])"
  shows "let s = wd_index (fold second_does acts w) in
    mi_second_ended s \<longrightarrow> (\<forall>m \<in> set (mi_messages s). sm_state m = Pending \<longrightarrow>
      (\<exists>f \<in> set (mi_failures s). fr_kind f = ''message'' \<and> fr_item f = sm_id m))"
proof -
  have "stands (wd_index w)"
    using assms(1-4) by (simp add: stands_def ids_ok_def latest_run_of_def next_start_def begin_pass2_def begin_pass_def start_over2_def
        position_of_def zero_progress2_def zero_checkpoint2_def waits_ahead_def walked_before_def)
  then have "stands (wd_index (fold second_does acts w))"
    using assms(5)
  proof (induction acts arbitrary: w)
    case (Cons x acts)
    have "stands (wd_index (second_does x w))" using second_does_stands [OF Cons.prems(1), of x] Cons.prems(2) [of x] by simp
    then show ?case using Cons.IH Cons.prems(2) by simp
  qed simp
  then have "mi_second_ended s \<longrightarrow> all_excused s" if "s = wd_index (fold second_does acts w)" for s
    using that by (auto simp: stands_def next_start_def begin_pass2_def begin_pass_def start_over2_def)
  then show ?thesis by (simp add: Let_def all_excused_def excused_def)
qed

text \<open>A pass over one message, with the run-start step before it.\<close>

definition sample_index :: mail_index where
  "sample_index = \<lparr>mi_messages = [\<lparr>sm_id = ''m1'', sm_from = ''a@b.c'', sm_domain = ''b.c'', sm_subject = None,
       sm_subject_masked = False, sm_subject_version = None, sm_subject_revision = None, sm_sent_at = 5, sm_list_id = None,
       sm_size = None, sm_state = Pending, sm_flags = [], sm_rules = [], sm_version = None, sm_revision = None, sm_bound = None,
       sm_labels = [], sm_mail_flags = \<lparr>mf_read = False, mf_starred = False\<rparr>\<rparr>],
     mi_senders = Map.empty, mi_decisions = Map.empty, mi_maskings = [], mi_first_ended = True, mi_second_ended = False,
     mi_restart = False, mi_runs1 = [], mi_runs2 = [], mi_events = [], mi_failures = []\<rparr>"

definition sample_env :: pass_env where
  "sample_env = \<lparr>bx_unicode = ascii_tables, bx_log2 = (\<lambda>x. x),
     bx_policy = (\<lambda>_. \<lparr>pol_composed = zero_composed, pol_rules = [],
       pol_lookups = \<lparr>l_to_unicode = Some, l_to_ascii = Some, l_registrable = Some\<rparr>\<rparr>),
     bx_gate = default_gate_config, bx_scanner = zero_scanner, bx_page_size = 100, bx_run_id = (\<lambda>n. replicate (Suc n) (CHR ''r'')), bx_now = (\<lambda>_. 0),
     bx_page = (\<lambda>_ _. CallStopped), bx_metadata = (\<lambda>_ _. CallStopped), bx_per_call = 100,
     bx_opens = (\<lambda>_. True), bx_hands_over = (\<lambda>_. True),
     bx_body = (\<lambda>_ _. CallStopped), bx_render = (\<lambda>_. Inl []), bx_text = (\<lambda>_. []), bx_cause = (\<lambda>_. []),
     bx_delisted = (\<lambda>_ _. []), bx_requeued = (\<lambda>_. []), bx_tx = (\<lambda>n. if n = 5 then TxErrs True True else TxTakes)\<rparr>"

definition sample_world :: world where
  "sample_world = \<lparr>wd_index = sample_index, wd_asked = [], wd_moment = 0, wd_stopped = False\<rparr>"


lemmas second_defs = second_does_def second_account_def second_open_def in_tx_def tick_def state_tx_def
    latest_run_of_def begin_pass2_def begin_pass_def start_over2_def start_tx_def run_held_def record_event_def started_runs_def
    open_compared_def compare_policy_def delist_tx_def restricted_domains_def delisted_def requeue_skips_tx_def requeue_signalled_skips_def
    update_where_def Let_def start_kind_def second_next_def next_page_def pending_tx_def pending_page_def
    finish_tx_def end_run_row_def commit_tx_def commit_outcome_def outcome_update_def record_decision_def record_skip_def
    waiting_named_def record_progress2_def progress_row_def page_hits_def gated_def second_failed_def run_state_named_def
    composed_equal_def now_of_def waiting_of_def walked_before_def walk_key_def zero_progress2_def zero_checkpoint2_def
    page_limit_def index_gate_def scan_gate_def classify_def zero_composed_def gate_scans_def gate_decided_def gate_state_def
    advance_pass2_def count_outcome_def min64_def max64_def restart_pass2_def fail_tx_def restricts_all_def flagged_outcome_def


text \<open>
  The pass stops while its page is made durable, which takes effect, and is opened again: it goes on after
  the page, finds no other message waiting, and ends.
\<close>

theorem ended_pass_leaves_only_failed_items_witness:
  "let s = wd_index (fold second_does [(sample_env, RunsPages 3), (sample_env, RunsPages 3)] sample_world) in
    mi_second_ended s \<and> (\<forall>m \<in> set (mi_messages s). sm_state m \<noteq> Pending \<or>
      (\<exists>f \<in> set (mi_failures s). fr_kind f = ''message'' \<and> fr_item f = sm_id m))"
proof -
  have "mi_second_ended (wd_index (fold second_does [(sample_env, RunsPages 3), (sample_env, RunsPages 3)] sample_world))"
    by (simp add: second_defs sample_env_def sample_world_def sample_index_def numeral_3_eq_3)
  then show ?thesis
    using ended_pass_leaves_only_failed_items [of sample_world "[(sample_env, RunsPages 3), (sample_env, RunsPages 3)]"]
    by (auto simp: Let_def sample_world_def sample_index_def sample_env_def gate_config_valid_def default_gate_config_def)
qed

subsection \<open>Whose bodies are asked for\<close>

lemma second_failed_asked: "second_failed env p cause w = (es, p', w') \<Longrightarrow> wd_asked w' = wd_asked w"
  using in_tx_asked by (auto simp: second_failed_def split: if_splits sum.splits prod.splits)

lemma after_failure_asked: "after_failure env p i number e x nx w = (r, p', w') \<Longrightarrow> wd_asked w' = wd_asked w"
  by (cases nx) (auto simp: after_failure_def broke_def Let_def split: prod.splits sum.splits dest!: second_failed_asked in_tx_asked)

lemma fetch_attempt_asked:
  "fetch_attempt env p i number item w = (r, p', w') \<Longrightarrow> \<exists>k. wd_asked w' = wd_asked w @ replicate k i"
  by (auto simp: fetch_attempt_def Let_def one_replicate dest!: after_failure_asked split: if_splits call_answer.splits
      intro: exI [of _ 0])

lemma fetch_body_asked:
  "fetch_body env p i number item w = (r, p', w') \<Longrightarrow> \<exists>k. wd_asked w' = wd_asked w @ replicate k i"
proof (induction env p i number item w arbitrary: r p' w' rule: fetch_body.induct)
  case (1 env p i number item w)
  obtain a q w1 where a: "fetch_attempt env p i number item w = (a, q, w1)" by (cases "fetch_attempt env p i number item w") auto
  obtain k where k: "wd_asked w1 = wd_asked w @ replicate k i" using fetch_attempt_asked [OF a] by blast
  show ?case
  proof (cases a)
    case (Inl r0)
    then show ?thesis using k 1(2) a by (auto simp: fetch_body.simps [of env p i number item w])
  next
    case (Inr x)
    then have "fetch_body env q i number (Some x) w1 = (r, p', w')" using 1(2) a by (simp add: fetch_body.simps [of env p i number item w])
    then obtain j where "wd_asked w' = wd_asked w1 @ replicate j i" using 1(1) [OF a [symmetric] Inr refl] by blast
    then have "wd_asked w' = wd_asked w @ replicate (k + j) i" using k by (simp add: replicate_add)
    then show ?thesis by blast
  qed
qed

lemma scan_body_asked: "scan_body env p i number w = (r, p', w') \<Longrightarrow> \<exists>k. wd_asked w' = wd_asked w @ replicate k i"
  by (auto simp: scan_body_def dest!: fetch_body_asked split: prod.splits fetched.splits sum.splits)

definition asks_scanned :: "pass_env \<Rightarrow> policy \<Rightarrow> unix_milli \<Rightarrow> waiting list \<Rightarrow> world \<Rightarrow> world \<Rightarrow> bool" where
  "asks_scanned env composed now ms w w' \<longleftrightarrow> (\<exists>asks. wd_asked w' = wd_asked w @ asks \<and>
     (\<forall>i \<in> set asks. \<exists>m \<in> set ms. \<exists>h. wt_id m = i \<and> gate_scans (index_gate (bx_unicode env) composed (bx_gate env) now m h)))"

lemma asks_scanned_append:
  assumes "asks_scanned env composed now ms w w1" "asks_scanned env composed now ms w1 w2"
  shows "asks_scanned env composed now ms w w2"
proof -
  obtain a b where ab: "wd_asked w1 = wd_asked w @ a" "wd_asked w2 = wd_asked w1 @ b"
    and in_ab: "\<forall>i \<in> set a \<union> set b. \<exists>m \<in> set ms. \<exists>h. wt_id m = i \<and> gate_scans (index_gate (bx_unicode env) composed (bx_gate env) now m h)"
    using assms unfolding asks_scanned_def by blast
  then show ?thesis unfolding asks_scanned_def by (intro exI [of _ "a @ b"]) simp
qed

lemma decide_page_asked:
  "decide_page env composed now number hits p ms w = (res, p', w') \<Longrightarrow> asks_scanned env composed now ms w w'"
proof (induction ms arbitrary: hits p w res p' w')
  case Nil
  then show ?case by (simp add: asks_scanned_def)
next
  case (Cons m ms)
  define r where "r = gated env composed now hits m"
  obtain a q w1 where a: "(if gate_scans (or_verdict r) then scan_body env p (wt_id m) number w else (ScanDone None None False, p, w)) = (a, q, w1)"
    by (cases "if gate_scans (or_verdict r) then scan_body env p (wt_id m) number w else (ScanDone None None False, p, w)") auto
  have one: "asks_scanned env composed now (m # ms) w w1"
  proof (cases "gate_scans (or_verdict r)")
    case True
    then obtain k where k: "wd_asked w1 = wd_asked w @ replicate k (wt_id m)" using a scan_body_asked by fastforce
    have "gate_scans (index_gate (bx_unicode env) composed (bx_gate env) now m (hits_at hits (wt_domain m)))"
      using True by (simp add: r_def gated_def)
    then show ?thesis using k unfolding asks_scanned_def by (intro exI [of _ "replicate k (wt_id m)"]) (auto simp: set_replicate_conv_if)
  next
    case False
    then show ?thesis using a by (simp add: asks_scanned_def)
  qed
  show ?case
  proof (cases a)
    case (ScanBroke es)
    then have "w' = w1" using Cons.prems a by (simp add: r_def [symmetric])
    then show ?thesis using one by simp
  next
    case (ScanDone sc item refused)
    obtain b p2 w2 where b: "decide_page env composed now number (hits_after hits (r\<lparr>or_scanned := sc, or_refused := refused\<rparr>)) q ms w1 = (b, p2, w2)"
      by (cases "decide_page env composed now number (hits_after hits (r\<lparr>or_scanned := sc, or_refused := refused\<rparr>)) q ms w1") auto
    have "w' = w2" using Cons.prems a b ScanDone by (auto simp: r_def [symmetric] split: sum.splits prod.splits)
    moreover have "asks_scanned env composed now (m # ms) w1 w2"
      using Cons.IH [OF b] unfolding asks_scanned_def by (meson list.set_intros(2))
    ultimately show ?thesis using one asks_scanned_append by blast
  qed
qed

text \<open>Whether the index holds a message of this identifier from a sender the policy does not restrict.\<close>

definition unrestricted_in :: "unicode \<Rightarrow> policy \<Rightarrow> mail_index \<Rightarrow> string \<Rightarrow> bool" where
  "unrestricted_in u composed s i \<longleftrightarrow>
     list_ex (\<lambda>m. sm_id m = i \<and> \<not> restricted (cv_class (classify u composed (sm_from m)))) (mi_messages s)"

lemma gate_scans_unrestricted: "gate_scans (index_gate u p c now m h) \<Longrightarrow> \<not> restricted (cv_class (classify u p (wt_from m)))"
  by (auto simp: gate_scans_iff index_gate_def scan_gate_restricted)

lemma delist_rows_senders:
  "delist_rows ds s = (s', n) \<Longrightarrow> map (\<lambda>m. (sm_id m, sm_from m)) (mi_messages s') = map (\<lambda>m. (sm_id m, sm_from m)) (mi_messages s)"
proof (induction ds arbitrary: s s' n)
  case (Cons d ds)
  obtain s1 k where s1: "mark_delisted d s = (s1, k)" by (cases "mark_delisted d s")
  obtain s2 j where s2: "delist_rows ds s1 = (s2, j)" by (cases "delist_rows ds s1")
  have "map (\<lambda>m. (sm_id m, sm_from m)) (mi_messages s1) = map (\<lambda>m. (sm_id m, sm_from m)) (mi_messages s)"
    using s1 by (auto simp: mark_delisted_def update_where_def waits_again_def)
  then show ?case using Cons.IH [OF s2] Cons.prems by (simp add: s1 s2)
qed simp

lemma unrestricted_in_senders:
  "map (\<lambda>m. (sm_id m, sm_from m)) (mi_messages s') = map (\<lambda>m. (sm_id m, sm_from m)) (mi_messages s) \<Longrightarrow>
     unrestricted_in u c s' i = unrestricted_in u c s i"
proof -
  assume e: "map (\<lambda>m. (sm_id m, sm_from m)) (mi_messages s') = map (\<lambda>m. (sm_id m, sm_from m)) (mi_messages s)"
  have "unrestricted_in u c s i = list_ex (\<lambda>(a, b). a = i \<and> \<not> restricted (cv_class (classify u c b))) (map (\<lambda>m. (sm_id m, sm_from m)) (mi_messages s))" for s
    by (simp add: unrestricted_in_def list_ex_iff)
  then show ?thesis using e by simp
qed

lemma compare_policy_senders:
  assumes "compare_policy env p composed w = (res, p', w')"
  shows "wd_asked w' = wd_asked w" "unrestricted_in u c (wd_index w') i = unrestricted_in u c (wd_index w) i"
proof -
  let ?f = "delist_tx (delisted (bx_unicode env) composed) (bp_run p) (restart_pass2 (bp_at p)) (bx_delisted env)"
  let ?P = "\<lambda>s. map (\<lambda>m. (sm_id m, sm_from m)) (mi_messages s) = map (\<lambda>m. (sm_id m, sm_from m)) (mi_messages (wd_index w))"
  obtain a w1 where a: "in_tx env ?f w = (a, w1)" by (cases "in_tx env ?f w")
  have "?P (wd_index (snd (in_tx env ?f w)))"
    by (rule in_tx_index)
      (auto simp: delist_tx_def Let_def record_progress2_def record_event_def split: prod.splits if_splits dest: delist_rows_senders)
  then have P1: "?P (wd_index w1)" using a by simp
  have fail: "?P (wd_index w2)" if "second_failed env p cause w1 = (es, q, w2)" for cause es q w2
  proof -
    have "?P (wd_index (snd (in_tx env (fail_tx (bp_run p) (bx_cause env cause)) w1)))"
      by (rule in_tx_index) (use P1 in \<open>auto simp: fail_tx_def record_event_def\<close>)
    then show ?thesis using that P1 by (auto simp: second_failed_def split: if_splits sum.splits prod.splits)
  qed
  show "wd_asked w' = wd_asked w" using assms a
    by (auto simp: compare_policy_def Let_def split: sum.splits prod.splits dest!: second_failed_asked in_tx_asked)
  have "?P (wd_index w')" using assms a P1 fail by (auto simp: compare_policy_def Let_def split: sum.splits prod.splits)
  then show "unrestricted_in u c (wd_index w') i = unrestricted_in u c (wd_index w) i" by (rule unrestricted_in_senders)
qed

lemma next_page_asked:
  assumes "next_page env composed p w = (res, p', w')"
  shows "\<exists>asks. wd_asked w' = wd_asked w @ asks \<and> (\<forall>i \<in> set asks. unrestricted_in (bx_unicode env) composed (wd_index w) i)"
proof -
  let ?f = "pending_tx (ck2_after (p2_checkpoint (bp_at p))) (bx_page_size env)"
  obtain a w1 where a: "in_tx env ?f w = (a, w1)" by (cases "in_tx env ?f w")
  have asked1: "wd_asked w1 = wd_asked w" by (rule in_tx_asked [OF a])
  show ?thesis
  proof (cases "\<exists>ms. a = Inr ms \<and> ms \<noteq> []")
    case False
    then have "wd_asked w' = wd_asked w1" using assms a
      by (auto simp: next_page_def split: sum.splits prod.splits dest!: second_failed_asked in_tx_asked)
    then show ?thesis using asked1 by simp
  next
    case True
    then obtain ms where ms: "a = Inr ms" "ms \<noteq> []" by blast
    let ?d = "decide_page env composed (now_of env w1) (ck2_page (p2_checkpoint (bp_at p)) + 1) Map.empty p ms w1"
    obtain d q w2 where d: "?d = (d, q, w2)" by (cases ?d) auto
    have "wd_asked w' = wd_asked w2"
      using assms a ms d by (auto simp: next_page_def Let_def split: sum.splits prod.splits dest!: second_failed_asked in_tx_asked)
    moreover obtain asks where asks: "wd_asked w2 = wd_asked w1 @ asks"
        "\<forall>i \<in> set asks. \<exists>m \<in> set ms. \<exists>h. wt_id m = i \<and> gate_scans (index_gate (bx_unicode env) composed (bx_gate env) (now_of env w1) m h)"
      using decide_page_asked [OF d] unfolding asks_scanned_def by blast
    have page: "ms = pending_page (ck2_after (p2_checkpoint (bp_at p))) (bx_page_size env) (wd_index w)"
      using in_tx_took(1) [OF a [unfolded ms(1)]] by (auto simp: pending_tx_def)
    have "unrestricted_in (bx_unicode env) composed (wd_index w) i" if i: "i \<in> set asks" for i
    proof -
      obtain m h where m: "m \<in> set ms" "wt_id m = i" "gate_scans (index_gate (bx_unicode env) composed (bx_gate env) (now_of env w1) m h)"
        using asks(2) i by blast
      obtain x where x: "x \<in> set (mi_messages (wd_index w))" "m = waiting_of (wd_index w) x"
        using m(1) unfolding page pending_page_def by (auto dest!: in_set_takeD)
      then have "sm_id x = i" "\<not> restricted (cv_class (classify (bx_unicode env) composed (sm_from x)))"
        using m(2) gate_scans_unrestricted [OF m(3)] by (simp_all add: waiting_of_def)
      then show ?thesis using x(1) by (auto simp: unrestricted_in_def list_ex_iff)
    qed
    ultimately show ?thesis using asked1 asks(1) by auto
  qed
qed

text \<open>
  C22. A page of the second pass asks only for bodies of messages whose sender the policy in force, as the page
  takes it at its entry, does not restrict, whatever the page then runs into.
\<close>

theorem restricted_bodies_are_never_fetched:
  "let (res, p', w') = second_next env p w in
     take (length (wd_asked w)) (wd_asked w') = wd_asked w \<and>
     list_all (\<lambda>i. list_ex (\<lambda>m. sm_id m = i \<and>
         \<not> restricted (cv_class (classify (bx_unicode env) (bx_policy env (wd_moment w)) (sm_from m)))) (mi_messages (wd_index w)))
       (drop (length (wd_asked w)) (wd_asked w'))"
proof -
  define composed where "composed = bx_policy env (wd_moment w)"
  obtain res p' w' where r: "second_next env p w = (res, p', w')" by (cases "second_next env p w") auto
  have "\<exists>asks. wd_asked w' = wd_asked w @ asks \<and> (\<forall>i \<in> set asks. unrestricted_in (bx_unicode env) composed (wd_index w) i)"
  proof (cases "bp_done p \<or> composed_equal (bx_unicode env) (pol_composed composed) (bp_compared p)")
    case True
    then show ?thesis using r next_page_asked [of env composed p w res p' w']
      by (auto simp: second_next_def composed_def [symmetric] Let_def split: if_splits)
  next
    case False
    obtain c q w1 where c: "compare_policy env p composed w = (c, q, w1)" by (cases "compare_policy env p composed w")
    note same = compare_policy_senders [OF c]
    show ?thesis using r False c same next_page_asked [of env composed q w1 res p' w']
      by (cases c) (auto simp: second_next_def composed_def [symmetric] Let_def)
  qed
  then show ?thesis by (auto simp: r composed_def unrestricted_in_def list_all_iff)
qed

end
