(* ===== verification/BackfillJob.thy ===== *)
theory BackfillJob
  imports FirstPassFacts SenderCounts SecondPassEnds
begin

text \<open>
  \<open>worker/internal/backfill/backfill.go\<close>: what one run of an account's backfill does, and what both passes keep
  over the life of an account, whatever its processes run into and wherever they stop.
\<close>

subsection \<open>A run of the job\<close>

definition job_state_tx :: "mail_index \<Rightarrow> pass_error + mail_index \<times> backfill_state" where
  "job_state_tx s = Inr (s, \<lparr>bs_first_ended = mi_first_ended s, bs_second_ended = mi_second_ended s, bs_restart = mi_restart s\<rparr>)"

text \<open>\<open>backfillAccount\<close>: whether the run-start step has been made, and the rows after it; a pass runs at most \<open>n\<close> steps.\<close>

definition backfill_account :: "pass_env \<Rightarrow> bool \<Rightarrow> nat \<Rightarrow> bool \<Rightarrow> world \<Rightarrow> bool \<times> world" where
  "backfill_account env start n started w =
     (let passes = (\<lambda>w. case first_account env n w of (False, w') \<Rightarrow> w' | (True, w') \<Rightarrow> second_account env n w')
      in if start
         then (case second_reopen env w of
                 (Inl e, w') \<Rightarrow> (started, w')
               | (Inr _, w') \<Rightarrow> (True, passes w'))
         else (started, passes w))"

definition backfill_run :: "pass_env \<Rightarrow> nat \<Rightarrow> bool \<times> world \<Rightarrow> bool \<times> world" where
  "backfill_run env n x =
     (case x of (started, w) \<Rightarrow>
        (case in_tx env job_state_tx (w\<lparr>wd_stopped := False\<rparr>) of
           (Inl e, w') \<Rightarrow> (started, w')
         | (Inr s, w') \<Rightarrow>
             (let work = backfill_due s started
              in if any_work work then backfill_account env (bw_start work) n started w' else (started, w'))))"

text \<open>The runs of one process, and of the processes an account has over time, each with its own configuration.\<close>

definition backfill_process :: "pass_env \<Rightarrow> nat list \<Rightarrow> world \<Rightarrow> world" where
  "backfill_process env ns w = snd (fold (backfill_run env) ns (False, w))"

definition backfill_life :: "(pass_env \<times> nat list) list \<Rightarrow> world \<Rightarrow> world" where
  "backfill_life life w = fold (\<lambda>(env, ns). backfill_process env ns) life w"

subsection \<open>The accounts the job kind serves\<close>

text \<open>
  \<open>reload\<close>: what the execution context's latest reload left in force, and the jobs removed and ensured for it.
\<close>

datatype reload_answer = Reloaded | ReloadNotDue | ReloadFailed

record latest_reload =
  lt_loaded :: bool
  lt_accounts_failed :: bool    \<comment> \<open>the read of the accounts failed\<close>
  lt_policy_failed :: bool      \<comment> \<open>the load of the policy failed\<close>
  lt_listed :: "string list"

datatype job_change = Removes string | Ensures string

text \<open>\<open>ensured\<close> tells whether the scheduler took the job; the first it refuses ends the reload.\<close>

fun ensure_listed :: "(string \<Rightarrow> bool) \<Rightarrow> string list \<Rightarrow> string list \<Rightarrow> bool \<times> string list \<times> job_change list" where
  "ensure_listed ensured [] served = (True, served, [])"
| "ensure_listed ensured (a # as) served =
     (if a \<in> set served then ensure_listed ensured as served
      else if \<not> ensured a then (False, served, [])
      else case ensure_listed ensured as (served @ [a]) of (ok, served', cs) \<Rightarrow> (ok, served', Ensures a # cs))"

definition reload_jobs :: "(string \<Rightarrow> bool) \<Rightarrow> latest_reload \<Rightarrow> string list \<Rightarrow> reload_answer \<times> string list \<times> job_change list" where
  "reload_jobs ensured l served =
     (if \<not> lt_loaded l then (ReloadNotDue, served, [])
      else if lt_accounts_failed l then (ReloadFailed, served, [])
      else
        (let removed = map Removes (filter (\<lambda>a. a \<notin> set (lt_listed l)) served);
             kept = filter (\<lambda>a. a \<in> set (lt_listed l)) served
         in if lt_policy_failed l then (ReloadFailed, kept, removed)
            else case ensure_listed ensured (lt_listed l) kept of
                (ok, served', cs) \<Rightarrow> (if ok then Reloaded else ReloadFailed, served', removed @ cs)))"

text \<open>\<open>seed\<close>: where the job's latest success is counted from, zero where a read failed.\<close>

definition job_seed :: "backfill_state option \<Rightarrow> (int64 option \<times> int64 option) option \<Rightarrow> int64" where
  "job_seed state recorded =
     (case (state, recorded) of
        (Some s, Some (latest, earliest)) \<Rightarrow>
          backfill_seed s (case latest of None \<Rightarrow> 0 | Some t \<Rightarrow> t) (case earliest of None \<Rightarrow> 0 | Some t \<Rightarrow> t)
      | _ \<Rightarrow> 0)"

lemma ensure_listed_serves:
  "ensure_listed ensured as served = (ok, served', cs) \<Longrightarrow>
     \<exists>new. served' = served @ new \<and> cs = map Ensures new \<and> distinct new \<and> set new \<inter> set served = {} \<and> set new \<subseteq> set as \<and>
       (\<forall>a \<in> set new. ensured a) \<and> (ok \<longrightarrow> set as \<subseteq> set served')"
proof (induction as arbitrary: served ok served' cs)
  case (Cons a as)
  show ?case
  proof (cases "a \<in> set served \<or> \<not> ensured a")
    case True
    then show ?thesis using Cons.IH [of served ok served' cs] Cons.prems by (auto split: if_splits)
  next
    case False
    obtain ok1 served1 cs1 where e: "ensure_listed ensured as (served @ [a]) = (ok1, served1, cs1)"
      by (cases "ensure_listed ensured as (served @ [a])") auto
    have r: "ok = ok1" "served' = served1" "cs = Ensures a # cs1" using Cons.prems False e by auto
    obtain new where "served1 = (served @ [a]) @ new" "cs1 = map Ensures new" "distinct new" "set new \<inter> set (served @ [a]) = {}"
        "set new \<subseteq> set as" "\<forall>a \<in> set new. ensured a" "ok1 \<longrightarrow> set as \<subseteq> set served1"
      using Cons.IH [OF e] by blast
    then show ?thesis using r False by (intro exI [of _ "a # new"]) auto
  qed
qed simp

text \<open>
  A reload that succeeds leaves jobs for exactly the accounts listed; whatever it does, it removes exactly the
  jobs it no longer serves and ensures exactly those it serves anew, and only listed accounts get one.
\<close>

lemma reload_serves_the_listed:
  assumes "distinct served"
  shows "case reload_jobs ensured l served of (res, served', changes) \<Rightarrow>
    distinct served' \<and> (res = Reloaded \<longrightarrow> set served' = set (lt_listed l)) \<and>
    (\<forall>a. Removes a \<in> set changes \<longleftrightarrow> a \<in> set served - set served') \<and>
    (\<forall>a. Ensures a \<in> set changes \<longleftrightarrow> a \<in> set served' - set served) \<and>
    (\<forall>a. Ensures a \<in> set changes \<longrightarrow> a \<in> set (lt_listed l))"
proof -
  let ?kept = "filter (\<lambda>a. a \<in> set (lt_listed l)) served"
  obtain ok served' cs where e: "ensure_listed ensured (lt_listed l) ?kept = (ok, served', cs)"
    by (cases "ensure_listed ensured (lt_listed l) ?kept") auto
  obtain new where "served' = ?kept @ new" "cs = map Ensures new" "distinct new" "set new \<inter> set ?kept = {}"
      "set new \<subseteq> set (lt_listed l)" "ok \<longrightarrow> set (lt_listed l) \<subseteq> set served'"
    using ensure_listed_serves [OF e] by blast
  then show ?thesis using assms by (auto simp: reload_jobs_def Let_def e)
qed

subsection \<open>What the second pass leaves of the first\<close>

definition subject_stamps :: "mail_index \<Rightarrow> (string \<times> 32 word option \<times> string option) list" where
  "subject_stamps s = map (\<lambda>m. (sm_id m, sm_subject_version m, sm_subject_revision m)) (mi_messages s)"

text \<open>The rows the first pass stands on are those of \<open>s0\<close>.\<close>

definition first_rows :: "mail_index \<Rightarrow> mail_index \<Rightarrow> bool" where
  "first_rows s0 s \<longleftrightarrow> mi_runs1 s = mi_runs1 s0 \<and> mi_first_ended s = mi_first_ended s0 \<and>
     subject_stamps s = subject_stamps s0 \<and> distinct (map sm_id (mi_messages s))"

lemma update_where_stamps:
  assumes "\<And>m. p m \<Longrightarrow> sm_id (f m) = sm_id m \<and> sm_subject_version (f m) = sm_subject_version m \<and>
    sm_subject_revision (f m) = sm_subject_revision m"
  shows "first_rows s0 s \<Longrightarrow> first_rows s0 (fst (update_where p f s))"
proof -
  have "subject_stamps (fst (update_where p f s)) = subject_stamps s"
    using assms by (simp add: subject_stamps_def update_where_def)
  moreover have "map sm_id (mi_messages (fst (update_where p f s))) = map sm_id (mi_messages s)"
    using assms by (simp add: update_where_def)
  moreover have "mi_runs1 (fst (update_where p f s)) = mi_runs1 s" "mi_first_ended (fst (update_where p f s)) = mi_first_ended s"
    by (simp_all add: update_where_def)
  ultimately show "first_rows s0 s \<Longrightarrow> first_rows s0 (fst (update_where p f s))" by (simp add: first_rows_def)
qed

lemma outcome_update_stamps:
  assumes "outcome_update r s = Some (s', n)" "first_rows s0 s"
  shows "first_rows s0 s'"
proof -
  have *: "first_rows s0 s'" if "update_where p f s = (s', n)"
      "\<And>m. sm_id (f m) = sm_id m \<and> sm_subject_version (f m) = sm_subject_version m \<and> sm_subject_revision (f m) = sm_subject_revision m" for p f
    using update_where_stamps [of p f s0 s] that assms(2) by simp
  show ?thesis using assms(1)
    by (auto simp: outcome_update_def record_verdict_def record_refusal_def record_skip_def split: option.splits if_splits intro!: *)
qed

lemma commit_outcome_stamps: "commit_outcome r s = Inr s' \<Longrightarrow> first_rows s0 s \<Longrightarrow> first_rows s0 s'"
proof -
  assume c: "commit_outcome r s = Inr s'" and k: "first_rows s0 s"
  have "first_rows s0 (record_decision i d x s)" for i d x
    using k by (simp add: first_rows_def record_decision_def subject_stamps_def)
  then show "first_rows s0 s'" using c k outcome_update_stamps
    by (auto simp: commit_outcome_def Let_def split: if_splits option.splits prod.splits)
qed

lemma each_ok_kept:
  assumes "each_ok f xs s = Inr s'" "P s" "\<And>x s s'. x \<in> set xs \<Longrightarrow> f x s = Inr s' \<Longrightarrow> P s \<Longrightarrow> P s'"
  shows "P s'"
  using assms
proof (induction xs arbitrary: s)
  case (Cons x xs)
  obtain t where t: "f x s = Inr t" using Cons.prems(1) by (auto split: sum.splits)
  have "P t" by (rule Cons.prems(3) [OF _ t Cons.prems(2)]) simp
  moreover have "each_ok f xs t = Inr s'" using Cons.prems(1) t by simp
  ultimately show ?case using Cons.IH Cons.prems(3) by (meson list.set_intros(2))
qed simp

lemma commit_hits_stamps: "commit_hits hits d s = Inr s' \<Longrightarrow> first_rows s0 s \<Longrightarrow> first_rows s0 s'"
  by (auto simp: commit_hits_def add_scan_hits_def update_sender_def first_rows_def subject_stamps_def split: option.splits if_splits)

interpretation first_rows: second_pass_keeps "first_rows s0" for s0
proof
  show "first_rows s0 s \<Longrightarrow> first_rows s0 (fst (update_where g waits_again s))" for s g
    by (rule update_where_stamps) (simp_all add: waits_again_def)
  show "first_rows s0 s2" if "first_rows s0 s" "each_ok commit_outcome rs s = Inr s1"
      "each_ok (commit_hits (page_hits rs)) (hit_domains rs) s1 = Inr s2" for s rs s1 s2
    by (rule each_ok_kept [where P = "first_rows s0", OF that(3) each_ok_kept [where P = "first_rows s0", OF that(2,1)]])
      (use commit_outcome_stamps commit_hits_stamps in blast)+
qed (simp_all add: first_rows_def subject_stamps_def)

lemma first_rows_keep:
  assumes "first_rows s s'"
  shows "indexed s' = indexed s" "stale_under st s' = stale_under st s"
proof -
  have ids: "indexed t = fst ` set (subject_stamps t)" for t by (simp add: indexed_def subject_stamps_def image_image)
  have stale: "stale_under st t \<longleftrightarrow> (\<exists>(i, v, r) \<in> set (subject_stamps t). v \<noteq> Some (stored_version (st_version st)) \<or> r \<noteq> Some (st_revision st))" for t
    by (auto simp: stale_under_iff subject_stale_def stale_subject_row_def subject_stamps_def)
  show "indexed s' = indexed s" "stale_under st s' = stale_under st s" using assms by (simp_all add: ids stale first_rows_def)
qed

subsection \<open>The life of an account\<close>

definition job_ok :: "stamp \<Rightarrow> (string \<Rightarrow> metadata_page) \<Rightarrow> bool \<Rightarrow> mail_index \<Rightarrow> bool" where
  "job_ok st pages started s \<longleftrightarrow> stands s \<and> first_stands pages s \<and> (started \<longrightarrow> stale_marked st s)"

lemma job_ok_first: "job_ok st pages True s = first_ok st pages s"
  by (simp add: job_ok_def first_ok_def)

lemma second_account_ok:
  assumes "first_ok st pages (wd_index w)" "mi_first_ended (wd_index w)" "\<not> stale_under st (wd_index w)"
    and "gate_config_valid (bx_gate env)" "serves_pages pages env"
  shows "first_ok st pages (wd_index (second_account env n w))"
proof -
  let ?s = "wd_index w" let ?t = "wd_index (second_account env n w)"
  have "stands ?t" by (rule second_account_stands) (use assms in \<open>simp_all add: first_ok_def serves_pages_def\<close>)
  have "first_rows ?s ?s" using assms(1) by (simp add: first_rows_def first_ok_def stands_def ids_ok_def)
  then have rows: "first_rows ?s ?t" by (rule first_rows.second_account_kept)
  have same: "mi_runs1 ?t = mi_runs1 ?s" "mi_first_ended ?t = mi_first_ended ?s" using rows by (simp_all add: first_rows_def)
  have "reads_on pages p ?t = reads_on pages p ?s" for p using first_rows_keep(1) [OF rows] by (simp add: reads_on_def holds_pages_def)
  then have "first_stands pages ?t" using assms(1,2) by (auto simp: first_ok_def first_stands_def same)
  then show ?thesis using \<open>stands ?t\<close> assms(3) first_rows_keep(2) [OF rows] by (simp add: first_ok_def stale_marked_def)
qed

lemma only_messages_first:
  assumes "only_messages s t" "first_stands pages s"
  shows "first_stands pages (t\<lparr>mi_second_ended := False, mi_restart := True\<rparr>)"
proof -
  let ?t = "t\<lparr>mi_second_ended := False, mi_restart := True\<rparr>"
  have same: "mi_runs1 t = mi_runs1 s" "mi_first_ended t = mi_first_ended s" "mi_runs2 t = mi_runs2 s"
    using assms(1) by (simp_all add: only_messages_def)
  have "map sm_id (mi_messages ?t) = map sm_id (mi_messages s)" using assms(1) by (simp add: only_messages_def)
  then have "indexed ?t = indexed s" unfolding indexed_def by (metis list.set_map)
  then have reads: "reads_on pages p ?t = reads_on pages p s" for p by (simp add: reads_on_def holds_pages_def)
  have beg: "begun ?t \<Longrightarrow> begun s" by (simp add: begun_def same)
  obtain l where l: "latest_run_of zero_progress (mi_runs1 s) = Some l" "lr_found l \<longrightarrow> reads_on pages (lr_progress l) s"
      "lr_found l \<and> lr_state l = RunSucceeded \<longrightarrow> mi_first_ended s"
      "mi_first_ended s \<or> begun s \<longrightarrow> lr_found l \<and> enumeration_over (lr_progress l)"
    using assms(2) by (auto simp: first_stands_def)
  then show ?thesis unfolding first_stands_def using beg by (intro exI [of _ l]) (simp add: same reads)
qed

lemma reopen_tx_job:
  assumes "job_ok st pages started s" "reopen_tx st f g s = Inr (s', x)" "\<And>rows. length (f rows) = length rows"
  shows "first_ok st pages s'"
proof -
  have "stands s'" by (rule reopen_tx_stands [OF _ assms(2,3)]) (use assms(1) in \<open>simp add: job_ok_def\<close>)
  moreover have "first_stands pages s' \<and> stale_marked st s'"
    using reopen_tx_parts [OF assms(2,3)] assms(1) only_messages_first [of s _ pages]
    by (auto simp: job_ok_def stale_marked_def stale_under_def)
  ultimately show ?thesis by (simp add: first_ok_def)
qed

lemma second_reopen_job:
  assumes "second_reopen env w = (r, w')" "job_ok (env_stamp env) pages started (wd_index w)"
  shows "job_ok (env_stamp env) pages started (wd_index w')" "r = Inr x \<Longrightarrow> first_ok (env_stamp env) pages (wd_index w')"
proof -
  let ?f = "reopen_tx (stamp_of (bx_scanner env)) (\<lambda>stored. remasked_stored (bx_unicode env) (bx_log2 env) stored (bx_scanner env))
    (overturned (bx_unicode env) (bx_policy env (wd_moment w)) (bx_gate env) (now_of env w))"
  have e: "in_tx env ?f w = (r, w')" using assms(1) by (simp add: second_reopen_def Let_def)
  have run: "first_ok (env_stamp env) pages s'" if "?f (wd_index w) = Inr (s', y)" for s' y
    by (rule reopen_tx_job [OF assms(2) that [folded env_stamp_def]]) (simp add: remasked_stored_def)
  show "job_ok (env_stamp env) pages started (wd_index w')"
    by (rule in_tx_kept [OF e, of "job_ok (env_stamp env) pages started", OF assms(2)])
      (use run in \<open>force simp: job_ok_def first_ok_def\<close>)
  show "first_ok (env_stamp env) pages (wd_index w')" if "r = Inr x"
    by (rule run [OF in_tx_took(1) [OF e [unfolded that]]])
qed

lemma backfill_run_ok:
  assumes "job_ok (env_stamp env) pages started (wd_index w)" "serves_pages pages env" "gate_config_valid (bx_gate env)"
    and "backfill_run env n (started, w) = (started', w')"
  shows "job_ok (env_stamp env) pages started' (wd_index w')"
proof -
  let ?st = "env_stamp env"
  have passes: "first_ok ?st pages (wd_index (case first_account env n v of (False, v') \<Rightarrow> v' | (True, v') \<Rightarrow> second_account env n v'))"
    if "first_ok ?st pages (wd_index v)" for v
  proof -
    obtain b v' where b: "first_account env n v = (b, v')" by (cases "first_account env n v")
    have ok: "first_ok ?st pages (wd_index v') \<and> (b \<longrightarrow> mi_first_ended (wd_index v') \<and> \<not> stale_under ?st (wd_index v'))"
      by (rule first_account_ok [OF b that assms(2) refl])
    then show ?thesis using second_account_ok [OF _ _ _ assms(3,2)] b by (cases b) auto
  qed
  obtain a w1 where a: "in_tx env job_state_tx (w\<lparr>wd_stopped := False\<rparr>) = (a, w1)" by (cases "in_tx env job_state_tx (w\<lparr>wd_stopped := False\<rparr>)")
  have ok1: "job_ok ?st pages started (wd_index w1)"
    by (rule in_tx_kept [OF a, of "job_ok ?st pages started"]) (use assms(1) in \<open>simp_all add: job_state_tx_def\<close>)
  show ?thesis
  proof (cases a)
    case (Inl e)
    then show ?thesis using assms(4) a ok1 by (simp add: backfill_run_def)
  next
    case (Inr s)
    show ?thesis
    proof (cases started)
      case True
      then have "w' = w1 \<or> w' = (case first_account env n w1 of (False, v') \<Rightarrow> v' | (True, v') \<Rightarrow> second_account env n v')" "started'"
        using assms(4) a Inr by (auto simp: backfill_run_def backfill_account_def backfill_due_def any_work_def Let_def split: if_splits)
      then show ?thesis using ok1 True passes [of w1] by (auto simp: job_ok_first)
    next
      case False
      obtain r w2 where r: "second_reopen env w1 = (r, w2)" by (cases "second_reopen env w1")
      note reopened = second_reopen_job [OF r ok1]
      show ?thesis
      proof (cases r)
        case (Inl e)
        then show ?thesis using assms(4) a Inr False r reopened(1)
          by (simp add: backfill_run_def backfill_account_def backfill_due_def any_work_def Let_def)
      next
        case r': (Inr x)
        then show ?thesis using assms(4) a Inr False r reopened(2) [OF r'] passes [of w2]
          by (auto simp: backfill_run_def backfill_account_def backfill_due_def any_work_def Let_def job_ok_first)
      qed
    qed
  qed
qed

lemma backfill_process_ok:
  assumes "job_ok st pages False (wd_index w)" "serves_pages pages env" "gate_config_valid (bx_gate env)"
  shows "job_ok st' pages False (wd_index (backfill_process env ns w))"
proof -
  have "job_ok (env_stamp env) pages (fst x) (wd_index (snd x)) \<Longrightarrow>
      job_ok (env_stamp env) pages (fst (fold (backfill_run env) ns x)) (wd_index (snd (fold (backfill_run env) ns x)))" for x
  proof (induction ns arbitrary: x)
    case (Cons n ns)
    have "job_ok (env_stamp env) pages (fst (backfill_run env n x)) (wd_index (snd (backfill_run env n x)))"
      by (rule backfill_run_ok [of env pages "fst x" "snd x" n]) (use Cons.prems assms(2,3) in simp_all)
    then show ?case using Cons.IH by simp
  qed simp
  from this [of "(False, w)"] show ?thesis using assms(1) by (simp add: backfill_process_def job_ok_def)
qed

lemma backfill_life_ok:
  assumes "job_ok st pages False (wd_index w)" "\<And>x. x \<in> set life \<Longrightarrow> serves_pages pages (fst x) \<and> gate_config_valid (bx_gate (fst x))"
  shows "job_ok st pages False (wd_index (backfill_life life w))"
  using assms
proof (induction life arbitrary: w)
  case (Cons x life)
  obtain env ns where x: "x = (env, ns)" by (cases x)
  have "job_ok st pages False (wd_index (backfill_process env ns w))"
    using backfill_process_ok [OF Cons.prems(1)] Cons.prems(2) [of x] by (simp add: x)
  then show ?case using Cons.IH Cons.prems(2) by (simp add: backfill_life_def x)
qed (simp add: backfill_life_def)

text \<open>
  C15. Whatever the processes of an account's backfill run into, wherever each of them stops and however often the
  account is taken up again, under other scanners and policies each time: once the first pass is recorded as
  ended, every message the provider enumerates, page after page to the page that has no next, is in the
  index; and once the second is, a message waits for its scan only if a failed item of it is on record.
\<close>

theorem finished_backfill_leaves_no_message_out:
  assumes "mi_messages (wd_index w) = []" "mi_runs1 (wd_index w) = []" "mi_runs2 (wd_index w) = []"
    and "\<not> mi_first_ended (wd_index w)" "\<not> mi_second_ended (wd_index w)"
    and "\<And>env ns k t page. (env, ns) \<in> set life \<Longrightarrow> bx_page env k t = CallIs page \<Longrightarrow> page = pages t"
    and "\<And>t m. m \<in> set (mp_items (pages t)) \<Longrightarrow> mm_id m \<noteq> []"
    and "\<And>env ns k. (env, ns) \<in> set life \<Longrightarrow> bx_run_id env k \<noteq> [] \<and> gate_config_valid (bx_gate env)"
  shows "let s = wd_index (backfill_life life w) in
    (mi_first_ended s \<longrightarrow> (\<forall>k. (\<forall>j \<in> {1..k}. enumerated pages j \<noteq> []) \<longrightarrow>
       (\<forall>m \<in> set (mp_items (pages (enumerated pages k))). mm_id m \<in> sm_id ` set (mi_messages s)))) \<and>
    (mi_second_ended s \<longrightarrow> (\<forall>m \<in> set (mi_messages s). sm_state m = Pending \<longrightarrow>
       (\<exists>f \<in> set (mi_failures s). fr_kind f = ''message'' \<and> fr_item f = sm_id m)))"
proof -
  define s where "s = wd_index (backfill_life life w)"
  have "\<not> begun (wd_index w)" using assms(3,5) by (simp add: begun_def)
  then have "job_ok zero_stamp pages False (wd_index w)"
    using assms(1-5) by (auto simp: job_ok_def first_stands_def latest_run_of_def ids_ok_def intro: unbegun_stands)
  then have ok: "job_ok zero_stamp pages False s"
    unfolding s_def by (rule backfill_life_ok) (use assms(6-8) in \<open>force simp: serves_pages_def page_ids_def\<close>)
  have "mm_id m \<in> sm_id ` set (mi_messages s)"
    if ended: "mi_first_ended s" and before: "\<forall>j \<in> {1..k}. enumerated pages j \<noteq> []"
      and m: "m \<in> set (mp_items (pages (enumerated pages k)))" for k m
  proof -
    obtain p where "reads_on pages p s" "enumeration_over p"
      using ok first_ended_over [OF _ ended] by (auto simp: job_ok_def)
    then obtain n where n: "0 < n" "enumerated pages n = []" "holds_pages pages n s" using over_holds_pages by blast
    then have "k < n" using before by (metis One_nat_def Suc_leI atLeastAtMost_iff linorder_not_le)
    then show ?thesis using n(3) m by (auto simp: holds_pages_def indexed_def)
  qed
  moreover have "mi_second_ended s \<Longrightarrow> all_excused s"
    using ok by (auto simp: job_ok_def stands_def next_start_def begin_pass2_def begin_pass_def start_over2_def)
  ultimately show ?thesis unfolding s_def [symmetric] Let_def all_excused_def excused_def by blast
qed


subsection \<open>The senders' statistics\<close>

lemma backfill_run_stats:
  assumes "stats_hold True (wd_index (snd x))"
  shows "stats_hold True (wd_index (snd (backfill_run env n x)))"
proof -
  obtain started w where x: "x = (started, w)" by (cases x)
  have passes: "stats_hold True (wd_index (case first_account env n v of (False, v') \<Rightarrow> v' | (True, v') \<Rightarrow> second_account env n v'))"
    if "stats_hold True (wd_index v)" for v
    using stats_hold.first_account_kept [OF that, of env n] stats_hold.second_account_kept
    by (auto split: prod.split bool.split)
  have account: "stats_hold True (wd_index (snd (backfill_account env start n started v)))" if v: "stats_hold True (wd_index v)" for start v
  proof -
    obtain r v' where r: "second_reopen env v = (r, v')" by (cases "second_reopen env v")
    have v': "stats_hold True (wd_index v')" using stats_hold.second_reopen_kept [OF v, of env] r by simp
    show ?thesis using passes [OF v] passes [OF v'] v' by (cases start; cases r) (simp_all add: backfill_account_def Let_def r)
  qed
  obtain a w1 where a: "in_tx env job_state_tx (w\<lparr>wd_stopped := False\<rparr>) = (a, w1)" by (cases "in_tx env job_state_tx (w\<lparr>wd_stopped := False\<rparr>)")
  have "stats_hold True (wd_index w1)"
    by (rule in_tx_kept [OF a, of "stats_hold True"]) (use assms x in \<open>simp_all add: job_state_tx_def\<close>)
  then show ?thesis using account by (auto simp: x backfill_run_def a Let_def split: sum.split)
qed

text \<open>
  C16. Whatever the processes of an account's backfill run into, wherever each of them stops and whatever the
  provider, the database, the policies and the scanners answer: no message is held twice, every row passes the
  message table's two checks, a sender has a row exactly where the index holds a message of its domain, and its two
  statistics are exactly the number of messages held of its domain and the number of those a scan found something in.
\<close>

theorem sender_statistics_stay_exact:
  assumes "stats_hold True (wd_index w)"
  shows "let s = wd_index (backfill_life life w) in
    distinct (map sm_id (mi_messages s)) \<and> (\<forall>m \<in> set (mi_messages s). row_checks m \<and> mi_senders s (sm_domain m) \<noteq> None) \<and>
    (\<forall>d. mi_senders s d \<noteq> None \<longleftrightarrow> d \<in> sm_domain ` set (mi_messages s)) \<and>
    (\<forall>d r. mi_senders s d = Some r \<longrightarrow>
       se_count r = of_nat (length (filter (\<lambda>m. sm_domain m = d) (mi_messages s))) \<and>
       se_hits r = of_nat (length (filter (\<lambda>m. sm_domain m = d \<and> sm_state m = Scanned \<and> sm_flags m \<noteq> []) (mi_messages s))))"
proof -
  have runs: "stats_hold True (wd_index (snd (fold (backfill_run env) ns x)))" if "stats_hold True (wd_index (snd x))" for env ns x
    using that backfill_run_stats by (induction ns arbitrary: x) simp_all
  have "stats_hold True (wd_index (backfill_process env ns v))" if "stats_hold True (wd_index v)" for env ns v
    using runs [of "(False, v)"] that by (simp add: backfill_process_def)
  then have "stats_hold True (wd_index (backfill_life life w))"
    using assms by (induction life arbitrary: w) (auto simp: backfill_life_def)
  then have held: "stats_hold True (wd_index (backfill_life life w))" .
  show ?thesis using held stats_hold_rows [OF held] by (simp add: Let_def stats_hold_def rows_hold_def held_count_def held_hits_def hit_row_fun)
qed

text \<open>Two pages, the second refused once, and a process that stops after a page; the policy is not loaded.\<close>

definition sample_message :: "string \<Rightarrow> message_metadata" where
  "sample_message i = \<lparr>mm_account = ''a'', mm_id = i, mm_thread = ''t'', mm_from = \<lparr>a_email = ''x@b.c'', a_name = []\<rparr>, mm_to = [], mm_cc = [],
     mm_subject = [], mm_date = 5, mm_labels = [], mm_flags = \<lparr>mf_read = False, mf_starred = False\<rparr>, mm_size = 1,
     mm_has_attachments = False, mm_names = [], mm_media = [], mm_snippet = [], mm_list = [],
     mm_auth = \<lparr>ar_spf = [], ar_dkim = [], ar_dmarc = []\<rparr>\<rparr>"

definition sample_pages :: "string \<Rightarrow> metadata_page" where
  "sample_pages t = (if t = [] then \<lparr>mp_items = [sample_message ''m1''], mp_next = ''p2'', mp_total = None\<rparr>
     else \<lparr>mp_items = [sample_message ''m2''], mp_next = [], mp_total = None\<rparr>)"

definition job_env :: pass_env where
  "job_env = sample_env\<lparr>bx_page := (\<lambda>k t. if k = 7 then CallErr ErrThrottled else CallIs (sample_pages t)),
     bx_tx := (\<lambda>_. TxTakes), bx_run_id := (\<lambda>k. replicate (Suc k) (CHR ''r''))\<rparr>"

definition job_world :: world where
  "job_world = \<lparr>wd_index = \<lparr>mi_messages = [], mi_senders = Map.empty, mi_decisions = Map.empty, mi_maskings = [], mi_first_ended = False,
     mi_second_ended = False, mi_restart = False, mi_runs1 = [], mi_runs2 = [], mi_events = [], mi_failures = []\<rparr>,
     wd_asked = [], wd_moment = 0, wd_stopped = False\<rparr>"

lemma sample_masked: "mask_subject ascii_tables (\<lambda>x. x) zero_scanner [] = \<lparr>ms_subject = [],
    ms_events = [\<lparr>me_rule = ''mask.whole_subject'', me_tier = 0\<rparr>]\<rparr>" by code_simp
lemma sample_domain: "address_domain ascii_tables ''x@b.c'' = ''b.c''" by code_simp
lemma row_count_0: "row_count 0 = 0" by (simp add: row_count_def max_int64_def)
lemma row_count_1: "row_count (Suc 0) = 1" by (simp add: row_count_def max_int64_def)
lemmas first_defs = backfill_life_def backfill_process_def backfill_run_def job_state_tx_def backfill_due_def any_work_def backfill_account_def
  second_reopen_def reopen_tx_def requeue_stale_verdicts_def requeue_refusals_def requeue_overturned_def gate_skips_def overturned_def
  stale_subject_def stale_subject_row_def stale_unmasked_subjects_def remask_stored.simps stale_verdict_def
  first_account_def first_open_def state1_tx_def under_scanner_def zero_progress_def zero_checkpoint_def zero_counters_def zero_stamp_def
  start1_tx_def first_next_def first_page_def fetch_page.simps page_attempt_def commit_page_def commit1_tx_def commit_message_def insert_message_def
  inserted_row_def record_maskings_def masking_rows_def record_progress1_def rebuild_sender_def first_finish_def finish1_tx_def stale_subjects_def
  first_refetch_def stale_tx_def count_stale_def count_stale_subjects_def row_count_0 row_count_1 advance_pass1_def pages_of_def ck_ended_def
  index_decide_def fail1_tx_def first_failed_def
  begin_pass_def latest_run_of_def
lemma zero_env: "stamp_of zero_scanner = \<lparr>st_version = 0, st_revision = []\<rparr>" 
  by (simp add: stamp_of_def zero_scanner_def scanner_version_def)
lemma sample_row: "index_row ascii_tables (\<lambda>x. x) p zero_scanner (sample_message i) = \<lparr>im_id = i, im_thread = ''t'',
     im_from = \<lparr>a_email = ''x@b.c'', a_name = []\<rparr>, im_domain = ''b.c'', im_subject = [], im_subject_masked = True, im_date = 5, im_labels = [],
     im_flags = \<lparr>mf_read = False, mf_starred = False\<rparr>, im_has_attachments = False, im_media = [], im_list = [],
     im_size = 1, im_auth = \<lparr>ar_spf = [], ar_dkim = [], ar_dmarc = []\<rparr>,
     im_unclassified = (cv_reason (classify ascii_tables p ''x@b.c'') = Unclassifiable),
     im_masks = [\<lparr>me_rule = ''mask.whole_subject'', me_tier = 0\<rparr>], im_stamp = \<lparr>st_version = 0, st_revision = []\<rparr>\<rparr>"
  by (simp add: index_row_def sample_message_def sample_masked sample_domain zero_env Let_def)
lemma sort_compact_one: "sort_compact [x] = [x]" by (simp add: sort_compact_def)
lemma job_stamp: "stored_version 0 = 0" by (simp add: stored_version_def min64_def max64_def)
lemma sample_life_ends:
  "let s = wd_index (backfill_life [(job_env, [1]), (job_env, [5])] job_world)
   in mi_first_ended s \<and> mi_second_ended s \<and> length (mi_messages s) = 2"
  by (simp add: first_defs second_defs job_env_def job_world_def sample_env_def sample_pages_def eval_nat_numeral
      sample_row zero_env sort_compact_one int32_of_def max_int64_def job_stamp)

theorem finished_backfill_leaves_no_message_out_witness:
  "let s = wd_index (backfill_life [(job_env, [1]), (job_env, [5])] job_world)
   in mi_first_ended s \<and> mi_second_ended s \<and> length (mi_messages s) = 2 \<and>
     (\<forall>k. (\<exists>j \<in> {1..k}. enumerated sample_pages j = []) \<or>
       (\<forall>m \<in> set (mp_items (sample_pages (enumerated sample_pages k))). mm_id m \<in> sm_id ` set (mi_messages s)))"
proof -
  let ?life = "[(job_env, [1]), (job_env, [5])]" and ?s = "wd_index (backfill_life [(job_env, [1]), (job_env, [5])] job_world)"
  have asked: "page = sample_pages t" if "(env, ns) \<in> set ?life" "bx_page env k t = CallIs page" for env ns k t page
    using that by (auto simp: job_env_def split: if_splits)
  have named: "mm_id m \<noteq> []" if "m \<in> set (mp_items (sample_pages t))" for t m
    using that by (auto simp: sample_pages_def sample_message_def split: if_splits)
  have runs: "bx_run_id env k \<noteq> [] \<and> gate_config_valid (bx_gate env)" if "(env, ns) \<in> set ?life" for env ns k
    using that by (auto simp: job_env_def sample_env_def gate_config_valid_def default_gate_config_def)
  have fresh: "mi_messages (wd_index job_world) = []" "mi_runs1 (wd_index job_world) = []" "mi_runs2 (wd_index job_world) = []"
      "\<not> mi_first_ended (wd_index job_world)" "\<not> mi_second_ended (wd_index job_world)"
    by (simp_all add: job_world_def)
  have left: "let s = ?s in (mi_first_ended s \<longrightarrow> (\<forall>k. (\<forall>j \<in> {1..k}. enumerated sample_pages j \<noteq> []) \<longrightarrow>
       (\<forall>m \<in> set (mp_items (sample_pages (enumerated sample_pages k))). mm_id m \<in> sm_id ` set (mi_messages s)))) \<and>
    (mi_second_ended s \<longrightarrow> (\<forall>m \<in> set (mi_messages s). sm_state m = Pending \<longrightarrow>
       (\<exists>f \<in> set (mi_failures s). fr_kind f = ''message'' \<and> fr_item f = sm_id m)))"
    by (rule finished_backfill_leaves_no_message_out [OF fresh]) (use asked named runs in blast)+
  have ended: "mi_first_ended ?s" "mi_second_ended ?s" "length (mi_messages ?s) = 2"
    using sample_life_ends by (simp_all add: Let_def)
  have "\<forall>k. (\<forall>j \<in> {1..k}. enumerated sample_pages j \<noteq> []) \<longrightarrow>
       (\<forall>m \<in> set (mp_items (sample_pages (enumerated sample_pages k))). mm_id m \<in> sm_id ` set (mi_messages ?s))"
    using left ended(1) unfolding Let_def by blast
  then show ?thesis unfolding Let_def using ended by blast
qed

theorem sender_statistics_stay_exact_witness:
  "let s = wd_index (backfill_life [(job_env, [1]), (job_env, [5])] job_world)
   in length (mi_messages s) = 2 \<and> mi_first_ended s \<and> mi_second_ended s \<and>
     (\<forall>m \<in> set (mi_messages s). \<exists>r. mi_senders s (sm_domain m) = Some r \<and>
        se_count r = of_nat (length (filter (\<lambda>x. sm_domain x = sm_domain m) (mi_messages s))))"
proof -
  have "stats_hold True (wd_index job_world)" by (simp add: job_world_def stats_hold_def rows_hold_def)
  from sender_statistics_stay_exact [OF this, of "[(job_env, [1]), (job_env, [5])]"] show ?thesis
    using sample_life_ends by (auto simp: Let_def)
qed

end
