(* ===== verification/SyncRows.thy ===== *)
theory SyncRows
  imports SecondPass DeltaSync
begin

text \<open>
  \<open>worker/internal/deltasync/tick/postgres.go\<close> and \<open>store.go\<close>: what an account's rows hold for delta sync beside
  the rows backfill has, and the transactions of its store over them, with the statements of
  \<open>db/messages/change\<close> and \<open>db/accountstate/cursor\<close>.
\<close>

subsection \<open>Rows\<close>

record tick_window =
  tw_start :: unix_milli
  tw_end :: unix_milli
  tw_reconciled :: int64

record tick_counters =
  tc_added :: int64
  tc_modified :: int64
  tc_removed :: int64
  tc_window :: "tick_window option"
  tc_decided :: int64
  tc_scanned :: int64
  tc_skipped :: int64
  tc_refused :: int64
  tc_pending :: int64

record tick_progress =
  tp_after :: string
  tp_counters :: tick_counters

definition zero_tick :: tick_progress where
  "zero_tick = \<lparr>tp_after = [], tp_counters = \<lparr>tc_added = 0, tc_modified = 0, tc_removed = 0, tc_window = None, tc_decided = 0,
     tc_scanned = 0, tc_skipped = 0, tc_refused = 0, tc_pending = 0\<rparr>\<rparr>"

text \<open>\<open>Recorder\<close>: what a run records. A recovery has no window before it knows it.\<close>

datatype recorder = TickAt tick_progress | RecoveryAt "tick_window option"

text \<open>\<open>sy_state_row\<close>: whether the account has its row of \<open>account_state\<close>, which the cursor and the ends of the passes are in.\<close>

record sync_rows =
  sy_mail :: mail_index
  sy_state_row :: bool
  sy_cursor :: "string option"
  sy_cursor_at :: "unix_milli option"
  sy_ticks :: "tick_progress run_row list"
  sy_recoveries :: "tick_window option run_row list"

definition on_mail :: "(mail_index \<Rightarrow> mail_index) \<Rightarrow> sync_rows \<Rightarrow> sync_rows" where
  "on_mail f s = s\<lparr>sy_mail := f (sy_mail s)\<rparr>"

definition sync_event :: "string \<Rightarrow> string \<Rightarrow> string \<Rightarrow> sync_rows \<Rightarrow> sync_rows" where
  "sync_event run kind detail = on_mail (record_event run kind None detail)"

definition sync_run_held :: "string \<Rightarrow> sync_rows \<Rightarrow> bool" where
  "sync_run_held run s \<longleftrightarrow> run_held run (sy_mail s) \<or> run \<in> ru_id ` set (sy_ticks s) \<or> run \<in> ru_id ` set (sy_recoveries s)"

text \<open>\<open>EndRun\<close> and \<open>RecordProgress\<close>, of whichever run has the identifier.\<close>

definition end_sync_run :: "string \<Rightarrow> string \<Rightarrow> string \<Rightarrow> sync_rows \<Rightarrow> sync_rows" where
  "end_sync_run run st err s = s\<lparr>sy_ticks := end_run_row run st err (sy_ticks s),
     sy_recoveries := end_run_row run st err (sy_recoveries s)\<rparr>"

fun sync_progress_row :: "string \<Rightarrow> recorder \<Rightarrow> sync_rows \<Rightarrow> sync_rows" where
  "sync_progress_row run (TickAt p) s = s\<lparr>sy_ticks := progress_row run p (sy_ticks s)\<rparr>"
| "sync_progress_row run (RecoveryAt g) s = s\<lparr>sy_recoveries := progress_row run g (sy_recoveries s)\<rparr>"

definition record_sync :: "string \<Rightarrow> recorder \<Rightarrow> sync_rows \<Rightarrow> sync_rows" where
  "record_sync run r s = sync_event run ''progress'' [] (sync_progress_row run r s)"

subsection \<open>Reading and starting\<close>

record tick_state =
  ts_second_ended :: bool
  ts_cursor :: string
  ts_cursor_at :: "unix_milli option"
  ts_after :: string

definition tick_state_tx :: "sync_rows \<Rightarrow> pass_error + sync_rows \<times> tick_state" where
  "tick_state_tx s = Inr (s, \<lparr>ts_second_ended = (sy_state_row s \<and> mi_second_ended (sy_mail s)),
     ts_cursor = (if sy_state_row s then (case sy_cursor s of None \<Rightarrow> [] | Some c \<Rightarrow> c) else []),
     ts_cursor_at = (if sy_state_row s then sy_cursor_at s else None),
     ts_after = (case sy_ticks s of [] \<Rightarrow> [] | r # _ \<Rightarrow> tp_after (ru_progress r))\<rparr>)"

definition stopped_words :: string where
  "stopped_words = ''the run stopped before it recorded its end''"

text \<open>One pass's latest run, recorded as failed where it is still running.\<close>

definition end_stopped_run :: "'p run_row list \<Rightarrow> sync_rows \<Rightarrow> sync_rows" where
  "end_stopped_run runs s =
     (case runs of
        [] \<Rightarrow> s
      | r # _ \<Rightarrow> if ru_state r \<noteq> ''running'' then s
                else sync_event (ru_id r) ''failure'' stopped_words (end_sync_run (ru_id r) ''failed'' stopped_words s))"

definition end_stopped :: "sync_rows \<Rightarrow> sync_rows" where
  "end_stopped s = (let s = end_stopped_run (sy_ticks s) s in end_stopped_run (sy_recoveries s) s)"

definition new_run :: "string \<Rightarrow> 'p \<Rightarrow> 'p run_row" where
  "new_run run p = \<lparr>ru_id = run, ru_state = ''running'', ru_resumed_from = [], ru_progress = p, ru_error = []\<rparr>"

definition start_sync_tx :: "string \<Rightarrow> recorder \<Rightarrow> sync_rows \<Rightarrow> pass_error + sync_rows \<times> unit" where
  "start_sync_tx run mark s =
     (let s = (case mark of TickAt _ \<Rightarrow> end_stopped s | RecoveryAt _ \<Rightarrow> s)
      in if sync_run_held run s then Inl RowsDiffer
         else Inr (sync_event run ''start'' []
           (case mark of
              TickAt p \<Rightarrow> s\<lparr>sy_ticks := new_run run p # sy_ticks s\<rparr>
            | RecoveryAt g \<Rightarrow> s\<lparr>sy_recoveries := new_run run g # sy_recoveries s\<rparr>), ()))"

subsection \<open>Applying changes\<close>

text \<open>
  \<open>RemoveMessages\<close>, with the domain of each message removed. The gate's decision on a message goes with it,
  and its masking events stay.
\<close>

definition remove_messages :: "string list \<Rightarrow> mail_index \<Rightarrow> mail_index \<times> string list" where
  "remove_messages ids s =
     (s\<lparr>mi_messages := filter (\<lambda>m. sm_id m \<notin> set ids) (mi_messages s), mi_decisions := (mi_decisions s) |` (- set ids)\<rparr>,
      map sm_domain (filter (\<lambda>m. sm_id m \<in> set ids) (mi_messages s)))"

definition apply_labels :: "index_message \<Rightarrow> mail_index \<Rightarrow> mail_index \<times> nat" where
  "apply_labels m = update_where (\<lambda>x. sm_id x = im_id m \<and> (sm_labels x \<noteq> im_labels m \<or> sm_mail_flags x \<noteq> im_flags m))
     (\<lambda>x. x\<lparr>sm_labels := im_labels m, sm_mail_flags := im_flags m\<rparr>)"

definition drop_empty_sender :: "string \<Rightarrow> mail_index \<Rightarrow> mail_index" where
  "drop_empty_sender d s =
     (if list_ex (\<lambda>m. sm_domain m = d) (mi_messages s) then s else s\<lparr>mi_senders := (mi_senders s)(d := None)\<rparr>)"

definition messages_since :: "unix_milli \<Rightarrow> mail_index \<Rightarrow> string list" where
  "messages_since start s = sort (map sm_id (filter (\<lambda>m. sint start \<le> sint (sm_sent_at m)) (mi_messages s)))"

record application =
  ap_messages :: "index_message list"
  ap_removed :: "string list"
  ap_cursor :: string

record applied =
  ad_inserted :: int64
  ad_changed :: int64
  ad_removed :: int64
  ad_unclassified :: int64

definition apply_message :: "index_message \<Rightarrow> mail_index \<times> applied \<Rightarrow> mail_index \<times> applied" where
  "apply_message m x =
     (case x of (s, a) \<Rightarrow>
        (case insert_message m s of
           (s', True) \<Rightarrow>
             (record_maskings (masking_rows (stored_version (st_version (im_stamp m))) m) s',
              a\<lparr>ad_inserted := ad_inserted a + 1, ad_unclassified := ad_unclassified a + (if im_unclassified m then 1 else 0)\<rparr>)
         | (_, False) \<Rightarrow>
             (case apply_labels m s of (s', n) \<Rightarrow> (s', if n = 1 then a\<lparr>ad_changed := ad_changed a + 1\<rparr> else a))))"

definition rebuild_or_drop :: "string \<Rightarrow> mail_index \<Rightarrow> mail_index" where
  "rebuild_or_drop d s = drop_empty_sender d (rebuild_sender d s)"

text \<open>The rows of an application, and what it counts.\<close>

definition apply_changes :: "application \<Rightarrow> mail_index \<Rightarrow> mail_index \<times> applied" where
  "apply_changes ap s =
     (let (s, gone) = (if ap_removed ap = [] then (s, []) else remove_messages (ap_removed ap) s);
          (s, a) = fold apply_message (ap_messages ap)
            (s, \<lparr>ad_inserted = 0, ad_changed = 0, ad_removed = of_nat (length gone), ad_unclassified = 0\<rparr>)
      in (fold rebuild_or_drop (sort_compact (gone @ map im_domain (ap_messages ap))) s, a))"

definition advance_cursor :: "string \<Rightarrow> unix_milli \<Rightarrow> sync_rows \<Rightarrow> sync_rows" where
  "advance_cursor c now s = (if c = [] then s else s\<lparr>sy_cursor := Some c, sy_cursor_at := Some now\<rparr>)"

text \<open>Without the row to store it in, a cursor is an error.\<close>

definition cursor_lost :: "string \<Rightarrow> sync_rows \<Rightarrow> bool" where
  "cursor_lost c s \<longleftrightarrow> c \<noteq> [] \<and> \<not> sy_state_row s"

definition apply_tx ::
  "string \<Rightarrow> unix_milli \<Rightarrow> application \<Rightarrow> (applied \<Rightarrow> recorder) \<Rightarrow> sync_rows \<Rightarrow> pass_error + sync_rows \<times> applied" where
  "apply_tx run now ap record_of s =
     (let (m, a) = apply_changes ap (sy_mail s)
      in if cursor_lost (ap_cursor ap) s then Inl RowsDiffer else Inr (record_sync run (record_of a) (advance_cursor (ap_cursor ap) now (s\<lparr>sy_mail := m\<rparr>)), a))"

definition since_tx :: "unix_milli \<Rightarrow> sync_rows \<Rightarrow> pass_error + sync_rows \<times> string list" where
  "since_tx start s = Inr (s, messages_since start (sy_mail s))"

subsection \<open>Scanning\<close>

definition tick_delist_tx ::
  "(string list \<Rightarrow> string list) \<Rightarrow> string \<Rightarrow> (nat \<Rightarrow> nat \<Rightarrow> string) \<Rightarrow> sync_rows \<Rightarrow> pass_error + sync_rows \<times> nat" where
  "tick_delist_tx released run words s =
     (let domains = released (restricted_domains (sy_mail s)); (m, marked) = delist_rows domains (sy_mail s); s = s\<lparr>sy_mail := m\<rparr>
      in Inr (if marked = 0 then s else sync_event run ''retry'' (words marked (length domains)) s, marked))"

definition pending_after :: "string \<Rightarrow> int64 \<Rightarrow> mail_index \<Rightarrow> waiting list" where
  "pending_after after n s = map (waiting_of s)
     (take (page_limit n) (sort_key sm_id (filter (\<lambda>m. sm_state m = Pending \<and> after < sm_id m) (mi_messages s))))"

definition tick_pending_tx :: "string \<Rightarrow> int64 \<Rightarrow> sync_rows \<Rightarrow> pass_error + sync_rows \<times> waiting list" where
  "tick_pending_tx after n s = Inr (s, pending_after after n (sy_mail s))"

record sync_item =
  si_id :: string
  si_class :: string
  si_summary :: string
  si_at :: unix_milli
  si_disposition :: string

definition record_sync_item :: "string \<Rightarrow> sync_item \<Rightarrow> mail_index \<Rightarrow> mail_index" where
  "record_sync_item run i s = s\<lparr>mi_failures := mi_failures s @
     [\<lparr>fr_run = run, fr_kind = ''message'', fr_item = si_id i, fr_page = None, fr_class = si_class i, fr_summary = si_summary i,
       fr_attempts = 1, fr_first = si_at i, fr_last = si_at i, fr_disposition = si_disposition i\<rparr>]\<rparr>"

definition commit_scan_tx ::
  "string \<Rightarrow> outcome_row list \<Rightarrow> sync_item list \<Rightarrow> tick_progress \<Rightarrow> sync_rows \<Rightarrow> pass_error + sync_rows \<times> unit" where
  "commit_scan_tx run rs items mark s =
     (let hits = page_hits rs; domains = sort_compact (filter (\<lambda>d. hits d \<noteq> None) (map or_domain rs))
      in case each_ok commit_outcome rs (sy_mail s) of
          Inl e \<Rightarrow> Inl e
        | Inr m \<Rightarrow>
            (case each_ok (commit_hits hits) domains m of
               Inl e \<Rightarrow> Inl e
             | Inr m \<Rightarrow> Inr (record_sync run (TickAt mark) (s\<lparr>sy_mail := fold (record_sync_item run) items m\<rparr>), ())))"

definition backlog_tx :: "sync_rows \<Rightarrow> pass_error + sync_rows \<times> nat" where
  "backlog_tx s = Inr (s, backlog (sy_mail s))"

subsection \<open>Ends and events\<close>

definition finish_sync_tx :: "string \<Rightarrow> unix_milli \<Rightarrow> string \<Rightarrow> recorder \<Rightarrow> sync_rows \<Rightarrow> pass_error + sync_rows \<times> unit" where
  "finish_sync_tx run now c mark s =
     (if cursor_lost c s then Inl RowsDiffer else
     Inr (sync_event run ''finish'' [] (end_sync_run run ''succeeded'' [] (sync_progress_row run mark (advance_cursor c now s))), ()))"

definition fail_sync_tx :: "string \<Rightarrow> string \<Rightarrow> sync_rows \<Rightarrow> pass_error + sync_rows \<times> unit" where
  "fail_sync_tx run cause s = Inr (sync_event run ''failure'' cause (end_sync_run run ''failed'' cause s), ())"

definition sync_event_tx :: "string \<Rightarrow> string \<Rightarrow> string \<Rightarrow> sync_rows \<Rightarrow> pass_error + sync_rows \<times> unit" where
  "sync_event_tx run kind detail s = Inr (sync_event run kind detail s, ())"

end
