(* ===== verification/SyncTick.thy ===== *)
theory SyncTick
  imports SyncRows
begin

text \<open>
  \<open>worker/internal/deltasync/tick/tick.go\<close>: one tick of delta sync over one account. Its changes are applied one set
  after another, each in the transaction that moves the cursor past it; a gap starts a recovery of its own;
  then, once backfill's second pass has ended, a bounded number of waiting messages is decided and scanned.
  The recovery of a panic and the timing of the steps are left out.
\<close>

subsection \<open>The environment and the ticker\<close>

text \<open>
  What a tick asks of the provider: \<open>sy_changes\<close> since a cursor, and \<open>sy_threads\<close>, a page of the threads dated in a
  window, as the messages they hold with the next page's token. The first component of each argument is the
  moment it is asked at. \<open>sy_cost\<close> and \<open>sy_budget\<close> are what the provider's rate profile says of a metadata call.
\<close>

record sync_env = pass_env +
  sy_current :: "nat \<Rightarrow> string call_answer"
  sy_changes :: "nat \<Rightarrow> string \<Rightarrow> change_set call_answer"
  sy_threads :: "nat \<Rightarrow> unix_milli \<Rightarrow> string \<Rightarrow> (message_metadata list list \<times> string) call_answer"
  sy_cost :: "nat \<Rightarrow> float64"
  sy_budget :: float64
  sy_first_window :: int64
  sy_decisions :: int64
  sy_written :: "nat \<Rightarrow> unix_milli"          \<comment> \<open>the database's clock\<close>

record tick_result =
  tr_run :: string
  tr_recovery :: string
  tr_gap :: bool
  tr_unclassified :: int64
  tr_indexed :: int64
  tr_scanned :: int64
  tr_scanning :: bool
  tr_backlog :: nat
  tr_progress :: tick_progress

type_synonym sync_world = "sync_rows tx_world"

text \<open>A ticker is the world it works in with its own fields; its policy is the one in force at its entry.\<close>

record ticker = "sync_rows tx_world" +
  ti_run :: string
  ti_policy :: policy
  ti_at :: tick_progress
  ti_result :: tick_result

type_synonym 'a ticking = "(pass_error list + 'a) \<times> ticker"

definition then_do :: "'a ticking \<Rightarrow> ('a \<Rightarrow> ticker \<Rightarrow> 'b ticking) \<Rightarrow> 'b ticking" where
  "then_do r f = (case r of (Inl es, t) \<Rightarrow> (Inl es, t) | (Inr x, t) \<Rightarrow> f x t)"

definition sync_tx :: "sync_env \<Rightarrow> (sync_rows \<Rightarrow> pass_error + sync_rows \<times> 'a) \<Rightarrow> ticker \<Rightarrow> 'a ticking" where
  "sync_tx env f t = (case in_tx env f t of (Inl e, t') \<Rightarrow> (Inl [e], t') | (Inr x, t') \<Rightarrow> (Inr x, t'))"

definition asks :: "(nat \<Rightarrow> 'a call_answer) \<Rightarrow> ticker \<Rightarrow> (goerror + 'a) ticking" where
  "asks f t =
     (if wd_stopped t then (Inl [Stopped], t)
      else case f (wd_moment t) of
          CallStopped \<Rightarrow> (Inl [Stopped], (tick t)\<lparr>wd_stopped := True\<rparr>)
        | CallErr e \<Rightarrow> (Inr (Inl e), tick t)
        | CallIs x \<Rightarrow> (Inr (Inr x), tick t))"

text \<open>An answer the tick needs; \<open>AskFailed\<close> has the words an error wraps.\<close>

definition needs :: "string \<Rightarrow> (nat \<Rightarrow> 'a call_answer) \<Rightarrow> ticker \<Rightarrow> 'a ticking" where
  "needs words f t = then_do (asks f t) (\<lambda>r t. (case r of Inl e \<Rightarrow> (Inl [AskFailed words e], t) | Inr x \<Rightarrow> (Inr x, t)))"

text \<open>A process that has run the rounds of a loop it lives to run.\<close>

definition dies :: "ticker \<Rightarrow> 'a ticking" where
  "dies t = (Inl [Stopped], t\<lparr>wd_stopped := True\<rparr>)"

subsection \<open>Metadata in calls that fit\<close>

definition metadata_words :: string where
  "metadata_words = ''asking for the metadata of the changed messages: ''"

function leased_metadata :: "sync_env \<Rightarrow> string \<Rightarrow> nat \<Rightarrow> string list \<Rightarrow> ticker \<Rightarrow> message_metadata list ticking" where
  "leased_metadata env words most ids t =
     (if ids = [] \<or> most = 0 then (Inr [], t)
      else then_do (needs words (\<lambda>k. bx_metadata env k (take most ids)) t)
        (\<lambda>got t. then_do (leased_metadata env words most (drop most ids) t) (\<lambda>rest t. (Inr (got @ rest), t))))"
  by pat_completeness auto
termination
  by (relation "measure (\<lambda>(env, words, most, ids, t). length ids)") auto

declare leased_metadata.simps [simp del]

text \<open>\<open>GetMessageMetadata\<close> of \<open>provider.go\<close>; a call names at least one message.\<close>

definition metadata_of :: "sync_env \<Rightarrow> string \<Rightarrow> string list \<Rightarrow> ticker \<Rightarrow> message_metadata list ticking" where
  "metadata_of env words ids t = leased_metadata env words (call_size (sy_cost env) (sy_budget env) (of_nat (length ids))) ids t"

subsection \<open>Changes\<close>

definition decided_messages :: "sync_env \<Rightarrow> message_metadata list \<Rightarrow> ticker \<Rightarrow> index_message list" where
  "decided_messages env ms t = ip_messages (index_decide (bx_unicode env) (bx_log2 env) ms (ti_policy t) (bx_scanner env))"

definition count_applied :: "applied \<Rightarrow> ticker \<Rightarrow> ticker" where
  "count_applied a t = t\<lparr>ti_result := (ti_result t)\<lparr>tr_unclassified := tr_unclassified (ti_result t) + ad_unclassified a,
     tr_indexed := tr_indexed (ti_result t) + ad_inserted a\<rparr>\<rparr>"

text \<open>
  \<open>reconcile\<close>: the messages of the window's threads applied a page at a time, from what was reconciled and listed
  so far; the process lives to ask for \<open>n\<close> pages.
\<close>

fun reconcile ::
  "sync_env \<Rightarrow> nat \<Rightarrow> string \<Rightarrow> unix_milli \<Rightarrow> (int64 \<Rightarrow> recorder) \<Rightarrow> string \<Rightarrow> int64 \<Rightarrow> string set \<Rightarrow> ticker \<Rightarrow>
     (int64 \<times> string set) ticking" where
  "reconcile env 0 run start progress token so_far listed t = dies t"
| "reconcile env (Suc n) run start progress token so_far listed t =
     then_do (needs ''listing the threads of the window: '' (\<lambda>k. sy_threads env k start token) t)
       (\<lambda>(threads, next_token) t.
          (let ms = concat threads; listed = listed \<union> mm_id ` set ms;
               ap = \<lparr>ap_messages = decided_messages env ms t, ap_removed = [], ap_cursor = []\<rparr>
           in then_do (sync_tx env (apply_tx run (sy_written env (wd_moment t)) ap
                  (\<lambda>a. progress (so_far + ad_inserted a + ad_changed a))) t)
                (\<lambda>a t. (let so_far = so_far + (ad_inserted a + ad_changed a); t = count_applied a t
                       in if next_token = [] then (Inr (so_far, listed), t)
                          else reconcile env n run start progress next_token so_far listed t))))"

definition remove_gone ::
  "sync_env \<Rightarrow> string \<Rightarrow> unix_milli \<Rightarrow> string set \<Rightarrow> (int64 \<Rightarrow> recorder) \<Rightarrow> ticker \<Rightarrow> int64 ticking" where
  "remove_gone env run start listed progress t =
     then_do (sync_tx env (since_tx start) t)
       (\<lambda>stored t.
          (let unlisted = unlisted_messages stored listed
           in if unlisted = [] then (Inr 0, t)
              else then_do (metadata_of env ''asking for the stored messages the listing left out: '' unlisted t)
                (\<lambda>held t.
                   (let gone = gone_messages unlisted held;
                        ap = \<lparr>ap_messages = [], ap_removed = gone, ap_cursor = []\<rparr>
                    in if gone = [] then (Inr 0, t)
                       else then_do (sync_tx env (apply_tx run (sy_written env (wd_moment t)) ap (\<lambda>a. progress (ad_removed a))) t)
                              (\<lambda>a t. (Inr (ad_removed a), t))))))"

definition current_words :: string where
  "current_words = ''asking for the current cursor: ''"

definition opened_window :: "unix_milli \<times> unix_milli \<Rightarrow> tick_window" where
  "opened_window w = \<lparr>tw_start = fst w, tw_end = snd w, tw_reconciled = 0\<rparr>"

definition with_window :: "tick_window \<Rightarrow> tick_progress \<Rightarrow> tick_progress" where
  "with_window w p = p\<lparr>tp_counters := (tp_counters p)\<lparr>tc_window := Some w\<rparr>\<rparr>"

text \<open>\<open>first\<close>: an account with no cursor reconciled over the first window, with the cursor the finish stores.\<close>

definition first_window :: "sync_env \<Rightarrow> nat \<Rightarrow> ticker \<Rightarrow> string ticking" where
  "first_window env n t =
     then_do (needs current_words (sy_current env) t)
       (\<lambda>cursor t.
          (let window = opened_window (gap_window None (now_of env t) (sy_first_window env));
               t = t\<lparr>ti_at := with_window window (ti_at t)\<rparr>; mark = ti_at t
           in then_do (reconcile env n (ti_run t) (tw_start window)
                  (\<lambda>k. TickAt (with_window (window\<lparr>tw_reconciled := k\<rparr>) mark)) [] 0 {} t)
                (\<lambda>(reconciled, _) t. (Inr cursor, t\<lparr>ti_at := with_window (window\<lparr>tw_reconciled := reconciled\<rparr>) (ti_at t)\<rparr>))))"

definition gap_words :: "string \<Rightarrow> string" where
  "gap_words run = ''the provider cannot calculate changes from the cursor, so run '' @ run @ '' recovers from the gap''"

definition recovery_failed :: "sync_env \<Rightarrow> string \<Rightarrow> 'a ticking \<Rightarrow> 'a ticking" where
  "recovery_failed env run r =
     (case r of
        (Inr x, t) \<Rightarrow> (Inr x, t)
      | (Inl cause, t) \<Rightarrow>
          if wd_stopped t then (Inl (Stopped # cause), t)
          else (case sync_tx env (fail_sync_tx run (bx_cause env cause)) t of
              (Inl es, t') \<Rightarrow> (Inl (cause @ es), t')
            | (Inr _, t') \<Rightarrow> (Inl cause, t')))"

text \<open>\<open>recover\<close>, what it does once its run is recorded, and the whole.\<close>

definition recovery_steps :: "sync_env \<Rightarrow> nat \<Rightarrow> string \<Rightarrow> unix_milli option \<Rightarrow> ticker \<Rightarrow> unit ticking" where
  "recovery_steps env n run written t =
     then_do (needs current_words (sy_current env) t)
       (\<lambda>cursor t.
          (let window = opened_window (gap_window written (now_of env t) (sy_first_window env));
               progress = (\<lambda>k. RecoveryAt (Some (window\<lparr>tw_reconciled := k\<rparr>)))
           in then_do (reconcile env n run (tw_start window) progress [] 0 {} t)
                (\<lambda>(reconciled, listed) t.
                   then_do (remove_gone env run (tw_start window) listed (\<lambda>k. progress (reconciled + k)) t)
                     (\<lambda>removed t. sync_tx env (finish_sync_tx run (sy_written env (wd_moment t)) cursor (progress (reconciled + removed))) t))))"

definition recover :: "sync_env \<Rightarrow> nat \<Rightarrow> tick_state \<Rightarrow> ticker \<Rightarrow> unit ticking" where
  "recover env n state t =
     (let run = bx_run_id env (wd_moment t); t = t\<lparr>ti_result := (ti_result t)\<lparr>tr_recovery := run\<rparr>\<rparr>
      in then_do (sync_tx env (sync_event_tx (ti_run t) ''retry'' (gap_words run)) t)
           (\<lambda>_ t. then_do (sync_tx env (start_sync_tx run (RecoveryAt None)) t)
              (\<lambda>_ t. recovery_failed env run (recovery_steps env n run (ts_cursor_at state) t))))"

definition is_empty :: "change_set \<Rightarrow> bool" where
  "is_empty cs \<longleftrightarrow> cs_added cs = [] \<and> cs_modified cs = [] \<and> cs_removed cs = []"

definition count_changes :: "change_set \<Rightarrow> tick_progress \<Rightarrow> tick_progress" where
  "count_changes cs p = (let c = tp_counters p
     in p\<lparr>tp_counters := c\<lparr>tc_added := tc_added c + of_nat (length (cs_added cs)),
        tc_modified := tc_modified c + of_nat (length (cs_modified cs)),
        tc_removed := tc_removed c + of_nat (length (cs_removed cs))\<rparr>\<rparr>)"

text \<open>One change set applied, with the cursor past it.\<close>

definition apply_change_set :: "sync_env \<Rightarrow> change_set \<Rightarrow> ticker \<Rightarrow> unit ticking" where
  "apply_change_set env cs t =
     then_do (metadata_of env metadata_words (fetched_messages cs) t)
       (\<lambda>ms t.
          (let mark = count_changes cs (ti_at t);
               ap = \<lparr>ap_messages = decided_messages env ms t, ap_removed = cs_removed cs, ap_cursor = cs_next cs\<rparr>
           in then_do (sync_tx env (apply_tx (ti_run t) (sy_written env (wd_moment t)) ap (\<lambda>_. TickAt mark)) t)
                (\<lambda>a t. (Inr (), count_applied a (t\<lparr>ti_at := mark\<rparr>)))))"

text \<open>The change sets since a cursor; the process lives to ask for \<open>n\<close> of them.\<close>

fun follow_changes :: "sync_env \<Rightarrow> nat \<Rightarrow> tick_state \<Rightarrow> string \<Rightarrow> ticker \<Rightarrow> string ticking" where
  "follow_changes env 0 state cursor t = dies t"
| "follow_changes env (Suc n) state cursor t =
     then_do (asks (\<lambda>k. sy_changes env k cursor) t)
       (\<lambda>r t. case r of
          Inl e \<Rightarrow>
            if err_is e ErrCursorGap
            then then_do (recover env n state (t\<lparr>ti_result := (ti_result t)\<lparr>tr_gap := True\<rparr>\<rparr>)) (\<lambda>_ t. (Inr [], t))
            else (Inl [AskFailed ''asking for the changes since the cursor: '' e], t)
        | Inr cs \<Rightarrow>
            if is_empty cs \<and> cs_next cs = cursor then (Inr [], t)
            else then_do (apply_change_set env cs t)
              (\<lambda>_ t. if is_empty cs \<or> cs_next cs = cursor then (Inr [], t) else follow_changes env n state (cs_next cs) t))"

definition tick_changes :: "sync_env \<Rightarrow> nat \<Rightarrow> tick_state \<Rightarrow> ticker \<Rightarrow> string ticking" where
  "tick_changes env n state t =
     (if ts_cursor state = [] then first_window env n t else follow_changes env n state (ts_cursor state) t)"

subsection \<open>Scanning\<close>

definition tick_item :: "string \<Rightarrow> error_class \<Rightarrow> string \<Rightarrow> unix_milli \<Rightarrow> sync_item" where
  "tick_item i c summary now = \<lparr>si_id = i, si_class = error_class_string c, si_summary = summary, si_at = now,
     si_disposition = disposition c\<rparr>"

definition tick_scan :: "sync_env \<Rightarrow> string \<Rightarrow> ticker \<Rightarrow> (scanned option \<times> sync_item option \<times> tick_next) ticking" where
  "tick_scan env i t =
     then_do (asks (\<lambda>k. bx_body env k i) (t\<lparr>wd_asked := (if wd_stopped t then wd_asked t else wd_asked t @ [i])\<rparr>))
       (\<lambda>r t. case r of
          Inl e \<Rightarrow>
            (let c = class_of (Some e); nx = on_body_failure c
             in if nx = FailTick then (Inl [ProviderFailed i e], t)
                else (Inr (None, Some (tick_item i c (bx_text env e) (now_of env t)), nx), t))
        | Inr body \<Rightarrow>
            (case bx_render env body of
               Inl why \<Rightarrow> (Inr (None, Some (tick_item i RefusedClass (''the conversion refused the body: '' @ why) (now_of env t)), RefuseBody), t)
             | Inr text \<Rightarrow> (Inr (Some (index_scan (bx_unicode env) (bx_log2 env) (bx_scanner env) text), None, LeaveWaiting), t)))"

text \<open>The messages of one read, each decided after the scan of the one before it, to the one that stops the tick.\<close>

fun tick_decide ::
  "sync_env \<Rightarrow> unix_milli \<Rightarrow> (string \<rightharpoonup> int64) \<Rightarrow> waiting list \<Rightarrow> ticker \<Rightarrow> (outcome_row list \<times> sync_item list \<times> bool) ticking" where
  "tick_decide env now hits [] t = (Inr ([], [], False), t)"
| "tick_decide env now hits (m # ms) t =
     (let r = gated env (ti_policy t) now hits m
      in then_do (if gate_scans (or_verdict r) then tick_scan env (wt_id m) t else (Inr (None, None, LeaveWaiting), t))
           (\<lambda>(sc, item, nx) t.
              (let items = (case item of None \<Rightarrow> [] | Some x \<Rightarrow> [x])
               in if nx = StopScanning then (Inr ([], items, True), t)
                  else (let r = r\<lparr>or_scanned := sc, or_refused := (nx = RefuseBody)\<rparr>
                        in then_do (tick_decide env now (hits_after hits r) ms t)
                             (\<lambda>(rs, is, stop) t. (Inr (r # rs, items @ is, stop), t))))))"

definition count_tick_outcome :: "tick_counters \<Rightarrow> outcome_row \<Rightarrow> tick_counters" where
  "count_tick_outcome c r =
     (let c = (if gate_decided (or_verdict r) then c\<lparr>tc_decided := tc_decided c + 1\<rparr> else c)
      in if or_scanned r \<noteq> None then c\<lparr>tc_scanned := tc_scanned c + 1\<rparr>
         else if or_refused r then c\<lparr>tc_refused := tc_refused c + 1\<rparr>
         else if gate_decided (or_verdict r) \<and> \<not> gate_scans (or_verdict r)
         then c\<lparr>tc_skipped := tc_skipped c + 1\<rparr>
         else c\<lparr>tc_pending := tc_pending c + 1\<rparr>)"

definition after_outcomes :: "outcome_row list \<Rightarrow> tick_progress \<Rightarrow> tick_progress" where
  "after_outcomes rs p = \<lparr>tp_after = (if rs = [] then tp_after p else or_id (last rs)),
     tp_counters = foldl count_tick_outcome (tp_counters p) rs\<rparr>"

definition tick_page :: "sync_env \<Rightarrow> waiting list \<Rightarrow> ticker \<Rightarrow> bool ticking" where
  "tick_page env waiting t =
     then_do (tick_decide env (now_of env t) Map.empty waiting t)
       (\<lambda>(rs, is, stop) t.
          (let mark = after_outcomes rs (ti_at t);
               scanned = tc_scanned (tp_counters mark) - tc_scanned (tp_counters (ti_at t))
           in then_do (sync_tx env (commit_scan_tx (ti_run t) rs is mark) t)
                (\<lambda>_ t. (Inr stop, t\<lparr>ti_at := mark, ti_result := (ti_result t)\<lparr>tr_scanned := tr_scanned (ti_result t) + scanned\<rparr>\<rparr>))))"

definition scan_from :: "string \<Rightarrow> ticker \<Rightarrow> ticker" where
  "scan_from i t = t\<lparr>ti_at := (ti_at t)\<lparr>tp_after := i\<rparr>\<rparr>"

function scan_pages :: "sync_env \<Rightarrow> nat \<Rightarrow> ticker \<Rightarrow> unit ticking" where
  "scan_pages env decided t =
     (if \<not> int decided < sint (sy_decisions env) then (Inr (), t)
      else then_do (sync_tx env (tick_pending_tx (tp_after (ti_at t))
               (min64 (bx_page_size env) (sy_decisions env - of_nat decided))) t)
        (\<lambda>waiting t.
           if waiting = [] then (Inr (), scan_from [] t)
           else then_do (tick_page env waiting t)
             (\<lambda>stop t. if stop then (Inr (), t) else scan_pages env (decided + length waiting) t)))"
  by pat_completeness auto
termination
  by (relation "measure (\<lambda>(env, decided, t). nat (sint (sy_decisions env) - int decided))") (auto simp: neq_Nil_conv)

declare scan_pages.simps [simp del]

definition tick_scanning :: "sync_env \<Rightarrow> ticker \<Rightarrow> unit ticking" where
  "tick_scanning env t =
     then_do (sync_tx env (tick_delist_tx (delisted (bx_unicode env) (ti_policy t)) (ti_run t) (bx_delisted env)) t)
       (\<lambda>marked t. scan_pages env 0 (if 0 < marked then scan_from [] t else t))"

subsection \<open>One tick\<close>

definition tick_failed :: "sync_env \<Rightarrow> pass_error list \<Rightarrow> ticker \<Rightarrow> 'a ticking" where
  "tick_failed env cause t =
     (if wd_stopped t then (Inl (Stopped # cause), t)
      else case sync_tx env (fail_sync_tx (ti_run t) (bx_cause env cause)) t of
          (Inl es, t') \<Rightarrow> (Inl (cause @ es), t')
        | (Inr _, t') \<Rightarrow> (Inl cause, t'))"

definition zero_result :: tick_result where
  "zero_result = \<lparr>tr_run = [], tr_recovery = [], tr_gap = False, tr_unclassified = 0, tr_indexed = 0, tr_scanned = 0,
     tr_scanning = False, tr_backlog = 0, tr_progress = zero_tick\<rparr>"

definition new_ticker :: "sync_env \<Rightarrow> sync_world \<Rightarrow> ticker" where
  "new_ticker env w = tx_world.extend w \<lparr>ti_run = [], ti_policy = bx_policy env (wd_moment w), ti_at = zero_tick, ti_result = zero_result\<rparr>"

text \<open>What a tick does once its run is recorded.\<close>

definition tick_steps :: "sync_env \<Rightarrow> nat \<Rightarrow> tick_state \<Rightarrow> ticker \<Rightarrow> unit ticking" where
  "tick_steps env n state t =
     then_do (tick_changes env n state t)
       (\<lambda>cursor t.
          then_do (if ts_second_ended state
                   then then_do (tick_scanning env (t\<lparr>ti_result := (ti_result t)\<lparr>tr_scanning := True\<rparr>\<rparr>))
                     (\<lambda>_ t. then_do (sync_tx env backlog_tx t) (\<lambda>b t. (Inr (), t\<lparr>ti_result := (ti_result t)\<lparr>tr_backlog := b\<rparr>\<rparr>)))
                   else (Inr (), t))
            (\<lambda>_ t. sync_tx env (finish_sync_tx (ti_run t) (sy_written env (wd_moment t)) cursor (TickAt (ti_at t))) t))"

text \<open>\<open>Run\<close>.\<close>

definition run_tick :: "sync_env \<Rightarrow> nat \<Rightarrow> sync_world \<Rightarrow> tick_result ticking" where
  "run_tick env n w =
     then_do (sync_tx env tick_state_tx (new_ticker env w))
       (\<lambda>state t.
          (let run = bx_run_id env (wd_moment t);
               mark = zero_tick\<lparr>tp_after := ts_after state\<rparr>;
               t = t\<lparr>ti_run := run, ti_at := mark, ti_result := zero_result\<lparr>tr_run := run\<rparr>\<rparr>
           in then_do (sync_tx env (start_sync_tx run (TickAt mark)) t)
                (\<lambda>_ t. case tick_steps env n state t of
                    (Inl es, t') \<Rightarrow> tick_failed env es t'
                  | (Inr _, t') \<Rightarrow> (let t' = t'\<lparr>ti_result := (ti_result t')\<lparr>tr_progress := ti_at t'\<rparr>\<rparr> in (Inr (ti_result t'), t')))))"

text \<open>The ticks an account has over time, each with its own configuration and context.\<close>

definition run_ticks :: "(sync_env \<times> nat) list \<Rightarrow> sync_world \<Rightarrow> sync_world" where
  "run_ticks life w = fold (\<lambda>(env, n) w. tx_world.truncate (snd (run_tick env n (w\<lparr>wd_stopped := False\<rparr>)))) life w"

end
