(* ===== verification/SyncKeeps.thy ===== *)
theory SyncKeeps
  imports SyncTick SenderCounts
begin

text \<open>
  What a step of a tick leaves of an account's rows, whatever the database and the provider answer: a triple
  over its result, a rule for each way the steps are put together, and the runs of a tick under a predicate
  its transactions keep.
\<close>

subsection \<open>What a step leaves\<close>

definition yields :: "(sync_rows \<Rightarrow> bool) \<Rightarrow> ('a \<Rightarrow> sync_rows \<Rightarrow> bool) \<Rightarrow> 'a ticking \<Rightarrow> bool" where
  "yields e q r = (case r of (Inl es, t) \<Rightarrow> e (wd_index t) | (Inr x, t) \<Rightarrow> q x (wd_index t))"

abbreviation retains :: "(sync_rows \<Rightarrow> bool) \<Rightarrow> 'a ticking \<Rightarrow> bool" where
  "retains p \<equiv> yields p (\<lambda>_. p)"

named_theorems steps

lemma yields_then:
  assumes "yields e q r" "\<And>x t. q x (wd_index t) \<Longrightarrow> yields e q' (f x t)"
  shows "yields e q' (then_do r f)"
proof -
  obtain a t where r: "r = (a, t)" by (cases r)
  show ?thesis using assms(1) assms(2) [of _ t] unfolding r by (cases a) (auto simp: yields_def then_do_def)
qed

lemma leaves_then [steps]: "retains p r \<Longrightarrow> (\<And>x t. p (wd_index t) \<Longrightarrow> yields p q (f x t)) \<Longrightarrow> yields p q (then_do r f)"
  by (rule yields_then)

lemma yields_pair [steps]: "e (wd_index t) \<Longrightarrow> yields e q (Inl es, t)" "q x (wd_index t) \<Longrightarrow> yields e q (Inr x, t)"
  by (simp_all add: yields_def)

lemma yields_weaken: "yields e q r \<Longrightarrow> (\<And>x s. q x s \<Longrightarrow> q' x s) \<Longrightarrow> yields e q' r"
  by (auto simp: yields_def split: prod.splits sum.splits)

lemma yields_errors: "yields e q r \<Longrightarrow> (\<And>s. e s \<Longrightarrow> e' s) \<Longrightarrow> yields e' q r"
  by (auto simp: yields_def split: prod.splits sum.splits)

lemma yields_tx:
  assumes "e (wd_index t)" "\<And>s' x. f (wd_index t) = Inr (s', x) \<Longrightarrow> e s' \<and> q x s'"
  shows "yields e q (sync_tx env f t)"
  using assms by (auto simp: yields_def sync_tx_def in_tx_def tick_def split: sum.splits prod.splits tx_answer.splits)

lemma leaves_tx: "p (wd_index t) \<Longrightarrow> (\<And>s s' x. p s \<Longrightarrow> f s = Inr (s', x) \<Longrightarrow> p s') \<Longrightarrow> retains p (sync_tx env f t)"
  by (rule yields_tx) blast+

lemma yields_asks:
  assumes "e (wd_index t)" "\<And>k x. f k = CallIs x \<Longrightarrow> q (Inr x) (wd_index t)" "\<And>k x. f k = CallErr x \<Longrightarrow> q (Inl x) (wd_index t)"
  shows "yields e q (asks f t)"
  using assms by (auto simp: yields_def asks_def tick_def split: call_answer.splits)

lemma leaves_asks [steps]: "p (wd_index t) \<Longrightarrow> retains p (asks f t)"
  by (rule yields_asks)

lemma yields_needs:
  assumes "e (wd_index t)" "\<And>k x. f k = CallIs x \<Longrightarrow> q x (wd_index t)"
  shows "yields e q (needs words f t)"
  unfolding needs_def
  by (rule yields_then [where q = "\<lambda>r s. e s \<and> (case r of Inl _ \<Rightarrow> True | Inr x \<Rightarrow> q x s)"], rule yields_asks)
     (use assms in \<open>auto simp: yields_def split: sum.splits\<close>)

lemma leaves_needs [steps]: "p (wd_index t) \<Longrightarrow> retains p (needs words f t)"
  by (rule yields_needs)

lemma leaves_dies [steps]: "e (wd_index t) \<Longrightarrow> yields e q (dies t)"
  by (simp add: yields_def dies_def)

text \<open>The metadata of identifiers is the metadata calls that name them answer.\<close>

lemma yields_metadata:
  assumes "e (wd_index t)" "\<And>k ids got. bx_metadata env k ids = CallIs got \<Longrightarrow> answers ids got"
    and "answers [] []" "\<And>xs ys got rest. answers xs got \<Longrightarrow> answers ys rest \<Longrightarrow> answers (xs @ ys) (got @ rest)"
    and "0 < most"
  shows "yields e (\<lambda>got s. e s \<and> answers ids got) (leased_metadata env words most ids t)"
  using assms(1,2,5)
proof (induction env words most ids t rule: leased_metadata.induct)
  case (1 env words most ids t)
  show ?case
  proof (cases "ids = []")
    case True
    then show ?thesis using 1(2) assms(3) by (subst leased_metadata.simps) (simp add: yields_def)
  next
    case False
    have first: "yields e (\<lambda>got s. e s \<and> answers (take most ids) got) (needs words (\<lambda>k. bx_metadata env k (take most ids)) t)"
      by (rule yields_needs) (use 1(2,3) in simp_all)
    have rest: "yields e (\<lambda>all s. e s \<and> answers ids all)
        (then_do (leased_metadata env words most (drop most ids) t') (\<lambda>rest t. (Inr (got @ rest), t)))"
      if got: "e (wd_index t') \<and> answers (take most ids) got" for got t'
    proof (rule yields_then [OF 1(1)])
      show "yields e (\<lambda>all s. e s \<and> answers ids all) (Inr (got @ rest), t'')"
        if "e (wd_index t'') \<and> answers (drop most ids) rest" for rest t''
        using assms(4) [of "take most ids" got "drop most ids" rest] got that by (simp add: yields_def)
    qed (use got False 1(3,4) in simp_all)
    show ?thesis using False 1(4) rest
      by (subst leased_metadata.simps) (auto intro: yields_then [OF first])
  qed
qed

lemma leaves_leased [steps]:
  assumes "p (wd_index t)"
  shows "retains p (leased_metadata env words most ids t)"
  using assms
proof (induction env words most ids t rule: leased_metadata.induct)
  case (1 env words most ids t)
  then show ?case by (subst leased_metadata.simps) (auto intro!: steps)
qed

lemma leaves_metadata [steps]: "p (wd_index t) \<Longrightarrow> retains p (metadata_of env words ids t)"
  unfolding metadata_of_def by (rule leaves_leased)

subsection \<open>What one read of waiting messages leaves\<close>

text \<open>Each outcome is of the message read, in order, and only one the gate decided has a scan.\<close>

definition outcomes_of :: "waiting list \<Rightarrow> outcome_row list \<Rightarrow> bool" where
  "outcomes_of ms rs \<longleftrightarrow> (\<forall>r \<in> set rs. \<exists>m \<in> set ms. or_id r = wt_id m \<and> or_domain r = wt_domain m) \<and>
     (\<forall>r \<in> set rs. or_scanned r \<noteq> None \<longrightarrow> gate_decided (or_verdict r))"

lemma outcomes_of_simps [simp]: "outcomes_of ms []"
  "outcomes_of ms rs \<Longrightarrow> or_id r = wt_id m \<Longrightarrow> or_domain r = wt_domain m \<Longrightarrow> (or_scanned r \<noteq> None \<longrightarrow> gate_decided (or_verdict r)) \<Longrightarrow>
     outcomes_of (m # ms) (r # rs)"
  by (auto simp: outcomes_of_def)

lemma tick_scan_same: "retains (\<lambda>s. s = s0) (tick_scan env i t)" if "wd_index t = s0"
  unfolding tick_scan_def
  by (rule leaves_then) (use that in \<open>auto simp: Let_def split: sum.split intro!: steps\<close>)

lemma tick_decide_outcomes:
  "wd_index t = s0 \<Longrightarrow> yields (\<lambda>s. s = s0) (\<lambda>(rs, is, stop) s. s = s0 \<and> outcomes_of ms rs) (tick_decide env now hits ms t)"
proof (induction ms arbitrary: hits t)
  case (Cons m ms)
  let ?r = "gated env (ti_policy t) now hits m"
  have scan: "yields (\<lambda>s. s = s0) (\<lambda>(sc, item, nx) s. s = s0 \<and> (sc \<noteq> None \<longrightarrow> gate_scans (or_verdict ?r)))
      (if gate_scans (or_verdict ?r) then tick_scan env (wt_id m) t else (Inr (None, None, LeaveWaiting), t))"
    using yields_weaken [OF tick_scan_same [OF Cons.prems, of env "wt_id m"]] Cons.prems by (auto simp: yields_def)
  have go: "yields (\<lambda>s. s = s0) (\<lambda>(rs, is, stop) s. s = s0 \<and> outcomes_of (m # ms) rs)
      (then_do (tick_decide env now hits' ms t') (\<lambda>(rs, is, stop) t. (Inr (?r\<lparr>or_scanned := sc, or_refused := b\<rparr> # rs, items @ is, stop), t)))"
    if "wd_index t' = s0" "sc \<noteq> None \<longrightarrow> gate_scans (or_verdict ?r)" for hits' t' sc b items
    by (rule yields_then [OF Cons.IH [OF that(1)]])
       (use that(2) in \<open>auto simp: yields_def gated_def gate_scans_def gate_decided_def intro!: outcomes_of_simps\<close>)
  show ?case
    unfolding tick_decide.simps Let_def
  proof (rule yields_then [OF scan], goal_cases)
    case (1 x t')
    obtain sc item nx where x: "x = (sc, item, nx)" by (cases x)
    have "wd_index t' = s0" "sc \<noteq> None \<longrightarrow> gate_scans (or_verdict ?r)" using 1 x by simp_all
    note next_one = go [OF this]
    show ?case
    proof (cases "nx = StopScanning")
      case True
      then show ?thesis using \<open>wd_index t' = s0\<close> by (simp add: x yields_def)
    next
      case False
      show ?thesis unfolding x prod.case if_not_P [OF False] by (rule next_one)
    qed
  qed
qed (simp add: yields_def)

lemma outcomes_match:
  assumes "outcomes_of (pending_after after n s) rs" "distinct (map sm_id (mi_messages s))"
  shows "rows_match rs s"
  unfolding rows_match_def
proof (intro conjI ballI impI)
  fix r m
  assume r: "r \<in> set rs" and m: "m \<in> set (mi_messages s)" "sm_id m = or_id r"
  obtain x where "x \<in> set (mi_messages s)" "or_id r = sm_id x" "or_domain r = sm_domain x"
    using assms(1) r by (fastforce simp: outcomes_of_def pending_after_def waiting_of_def dest!: in_set_takeD)
  moreover from this have "x = m" using assms(2) m by (auto simp: distinct_map dest: inj_onD)
  ultimately show "sm_domain m = or_domain r" by simp
qed (use assms(1) in \<open>simp add: outcomes_of_def\<close>)

subsection \<open>Scanning, starting and failing\<close>

text \<open>A predicate that every change of a tick's transactions but those of its changes keeps.\<close>

locale tick_keeps =
  fixes P :: "sync_rows \<Rightarrow> bool"
  assumes ticks: "P s \<Longrightarrow> P (s\<lparr>sy_ticks := a\<rparr>)"
    and recoveries: "P s \<Longrightarrow> P (s\<lparr>sy_recoveries := b\<rparr>)"
    and events: "P s \<Longrightarrow> P (s\<lparr>sy_mail := (sy_mail s)\<lparr>mi_events := es\<rparr>\<rparr>)"
    and items: "P s \<Longrightarrow> P (s\<lparr>sy_mail := (sy_mail s)\<lparr>mi_failures := fs\<rparr>\<rparr>)"
    and waits: "P s \<Longrightarrow> (\<And>m. g m \<Longrightarrow> sm_state m = SkippedRestricted) \<Longrightarrow> P (s\<lparr>sy_mail := fst (update_where g waits_again (sy_mail s))\<rparr>)"
    and scans: "P s \<Longrightarrow> (distinct (map sm_id (mi_messages (sy_mail s))) \<Longrightarrow> rows_match rs (sy_mail s)) \<Longrightarrow>
      each_ok commit_outcome rs (sy_mail s) = Inr m1 \<Longrightarrow> each_ok (commit_hits (page_hits rs)) (hit_domains rs) m1 = Inr m2 \<Longrightarrow>
      P (s\<lparr>sy_mail := m2\<rparr>)"
begin

lemma sync_event_kept: "P s \<Longrightarrow> P (sync_event run kind detail s)"
  by (simp add: sync_event_def on_mail_def record_event_def events)

lemma end_sync_run_kept: "P s \<Longrightarrow> P (end_sync_run run st err s)"
  using recoveries [OF ticks] by (simp add: end_sync_run_def)

lemma sync_progress_row_kept: "P s \<Longrightarrow> P (sync_progress_row run r s)"
  by (cases r) (simp_all add: ticks recoveries)

lemma record_sync_kept: "P s \<Longrightarrow> P (record_sync run r s)"
  by (simp add: record_sync_def sync_event_kept sync_progress_row_kept)

lemma end_stopped_run_kept: "P s \<Longrightarrow> P (end_stopped_run runs s)"
  by (auto simp: end_stopped_run_def sync_event_kept end_sync_run_kept split: list.split)

lemma start_sync_kept: "P s \<Longrightarrow> start_sync_tx run mark s = Inr (s', x) \<Longrightarrow> P s'"
  by (cases mark) (auto simp: start_sync_tx_def end_stopped_def Let_def sync_event_kept ticks recoveries end_stopped_run_kept split: if_splits)

lemma fail_sync_kept: "P s \<Longrightarrow> fail_sync_tx run cause s = Inr (s', x) \<Longrightarrow> P s'"
  by (auto simp: fail_sync_tx_def sync_event_kept end_sync_run_kept)

lemma sync_event_tx_kept: "P s \<Longrightarrow> sync_event_tx run kind detail s = Inr (s', x) \<Longrightarrow> P s'"
  by (auto simp: sync_event_tx_def sync_event_kept)

lemma finish_sync_kept: "P (advance_cursor c now s) \<Longrightarrow> finish_sync_tx run now c mark s = Inr (s', x) \<Longrightarrow> P s'"
  by (auto simp: finish_sync_tx_def sync_event_kept end_sync_run_kept sync_progress_row_kept split: if_splits)

lemma finishing_kept:
  assumes "P (wd_index t)" "\<And>s. P s \<Longrightarrow> P (advance_cursor c now s)"
  shows "retains P (sync_tx env (finish_sync_tx run now c mark) t)"
  by (rule leaves_tx [where p = P, OF assms(1)]) (use finish_sync_kept assms(2) in blast)

lemma needs_kept: "P (wd_index t) \<Longrightarrow> retains P (needs words f t)"
  by (rule leaves_needs)

lemma metadata_kept: "P (wd_index t) \<Longrightarrow> retains P (metadata_of env words ids t)"
  by (rule leaves_metadata)

lemma delist_rows_kept: "P s \<Longrightarrow> delist_rows ds (sy_mail s) = (m, k) \<Longrightarrow> P (s\<lparr>sy_mail := m\<rparr>)"
proof (induction ds arbitrary: s m k)
  case (Cons d ds)
  obtain m1 j where j: "mark_delisted d (sy_mail s) = (m1, j)" by (cases "mark_delisted d (sy_mail s)")
  have "P (s\<lparr>sy_mail := fst (mark_delisted d (sy_mail s))\<rparr>)" unfolding mark_delisted_def by (rule waits [OF Cons.prems(1)]) simp
  then have k: "P (s\<lparr>sy_mail := m1\<rparr>)" by (simp add: j)
  show ?case using Cons.IH [OF k] Cons.prems(2) j by (auto split: prod.splits)
qed auto

lemma delist_kept:
  assumes "P s" "tick_delist_tx released run words s = Inr (s', x)"
  shows "P s'"
proof -
  obtain m n where m: "delist_rows (released (restricted_domains (sy_mail s))) (sy_mail s) = (m, n)"
    by (cases "delist_rows (released (restricted_domains (sy_mail s))) (sy_mail s)")
  show ?thesis using delist_rows_kept [OF assms(1) m] assms(2) by (auto simp: tick_delist_tx_def Let_def m sync_event_kept)
qed

lemma sync_items_kept: "P s \<Longrightarrow> P (s\<lparr>sy_mail := fold (record_sync_item run) is (sy_mail s)\<rparr>)"
proof (induction "is" arbitrary: s)
  case (Cons i "is")
  have "P (s\<lparr>sy_mail := record_sync_item run i (sy_mail s)\<rparr>)" by (simp add: record_sync_item_def items Cons.prems)
  from Cons.IH [OF this] show ?case by simp
qed simp

lemma commit_scan_kept:
  assumes "P s" "distinct (map sm_id (mi_messages (sy_mail s))) \<Longrightarrow> rows_match rs (sy_mail s)"
    and "commit_scan_tx run rs is mark s = Inr (s', x)"
  shows "P s'"
proof -
  obtain m1 where m1: "each_ok commit_outcome rs (sy_mail s) = Inr m1"
    using assms(3) by (auto simp: commit_scan_tx_def Let_def split: sum.splits)
  obtain m2 where m2: "each_ok (commit_hits (page_hits rs)) (hit_domains rs) m1 = Inr m2"
    using assms(3) m1 by (auto simp: commit_scan_tx_def Let_def hit_domains_def split: sum.splits)
  have "s' = record_sync run (TickAt mark) (s\<lparr>sy_mail := fold (record_sync_item run) is m2\<rparr>)"
    using assms(3) m1 m2 by (auto simp: commit_scan_tx_def Let_def hit_domains_def)
  then show ?thesis using sync_items_kept [OF scans [OF assms(1,2) m1 m2]] record_sync_kept by simp
qed

lemma tick_page_kept [steps]:
  assumes "P (wd_index t) \<and> ms = pending_after after n (sy_mail (wd_index t))"
  shows "retains P (tick_page env ms t)"
proof -
  let ?s = "wd_index t"
  have decide: "yields P (\<lambda>(rs, is, stop) s. s = ?s \<and> outcomes_of ms rs) (tick_decide env (now_of env t) Map.empty ms t)"
    by (rule yields_errors [OF tick_decide_outcomes [OF refl]]) (use assms in simp)
  have commit: "retains P (sync_tx env (commit_scan_tx run rs is mark) t')"
    if "wd_index t' = ?s" "outcomes_of ms rs" for run rs "is" mark t'
  proof -
    have p: "P (wd_index t')" using assms that(1) by simp
    have match: "distinct (map sm_id (mi_messages (sy_mail (wd_index t')))) \<Longrightarrow> rows_match rs (sy_mail (wd_index t'))"
      unfolding that(1) by (rule outcomes_match [OF that(2) [unfolded conjunct2 [OF assms]]])
    show ?thesis by (rule yields_tx) (use p commit_scan_kept [OF p match] in blast)+
  qed
  show ?thesis unfolding tick_page_def
  proof (rule yields_then [OF decide], goal_cases)
    case (1 x t')
    obtain rs "is" stop where x: "x = (rs, is, stop)" by (cases x)
    have at: "wd_index t' = ?s" "outcomes_of ms rs" using 1 x by simp_all
    show ?case unfolding x prod.case Let_def by (rule leaves_then [OF commit [OF at]]) (simp add: yields_def)
  qed
qed

lemma scan_pages_kept [steps]: "P (wd_index t) \<Longrightarrow> retains P (scan_pages env k t)"
proof (induction env k t rule: scan_pages.induct)
  case (1 env k t)
  let ?n = "min64 (bx_page_size env) (sy_decisions env - of_nat k)"
  show ?case
  proof (cases "int k < sint (sy_decisions env)")
    case True
    have read: "yields P (\<lambda>ms s. P s \<and> ms = pending_after (tp_after (ti_at t)) ?n (sy_mail s))
        (sync_tx env (tick_pending_tx (tp_after (ti_at t)) ?n) t)"
      by (rule yields_tx) (use 1(2) in \<open>auto simp: tick_pending_tx_def\<close>)
    have next_read: "retains P (if ms = [] then (Inr (), scan_from [] t') else then_do (tick_page env ms t')
        (\<lambda>stop t. if stop then (Inr (), t) else scan_pages env (k + length ms) t))"
      if ms: "P (wd_index t') \<and> ms = pending_after (tp_after (ti_at t)) ?n (sy_mail (wd_index t'))" for ms t'
    proof (cases "ms = []")
      case False
      have "retains P (if stop then (Inr (), t'') else scan_pages env (k + length ms) t'')" if "P (wd_index t'')" for stop t''
        using that 1(1) [OF _ False] True by (simp add: yields_pair)
      then show ?thesis unfolding if_not_P [OF False] by (rule leaves_then [OF tick_page_kept [OF ms]])
    qed (use ms in \<open>simp add: yields_def scan_from_def\<close>)
    show ?thesis using True yields_then [OF read next_read] by (subst scan_pages.simps) simp
  next
    case False
    then show ?thesis using 1(2) by (subst scan_pages.simps) (simp add: yields_def)
  qed
qed

lemma tick_scanning_kept [steps]: "P (wd_index t) \<Longrightarrow> retains P (tick_scanning env t)"
  unfolding tick_scanning_def by (rule leaves_then [OF leaves_tx [OF _ delist_kept]]) (auto intro!: steps simp: scan_from_def)

lemma tick_failed_kept [steps]:
  assumes "P (wd_index t)"
  shows "retains P (tick_failed env cause t)"
  using leaves_tx [where p = P and env = env and t = t and f = "fail_sync_tx (ti_run t) (bx_cause env cause)"] assms fail_sync_kept
  by (auto simp: tick_failed_def yields_def split: sum.splits prod.splits)

text \<open>What a tick does after its changes, and whatever it does once its run is recorded.\<close>

lemma after_changes_kept:
  assumes "P (wd_index t)" "c = [] \<or> (\<forall>s now. P s \<longrightarrow> P (advance_cursor c now s))"
  shows "retains P (then_do (if ts_second_ended state
         then then_do (tick_scanning env (t\<lparr>ti_result := (ti_result t)\<lparr>tr_scanning := True\<rparr>\<rparr>))
           (\<lambda>_ t. then_do (sync_tx env backlog_tx t) (\<lambda>b t. (Inr (), t\<lparr>ti_result := (ti_result t)\<lparr>tr_backlog := b\<rparr>\<rparr>)))
         else (Inr (), t))
      (\<lambda>_ t. sync_tx env (finish_sync_tx (ti_run t) (sy_written env (wd_moment t)) c (TickAt (ti_at t))) t))"
proof (rule leaves_then, goal_cases)
  case 1
  have "retains P (then_do (sync_tx env backlog_tx t') (\<lambda>b t. (Inr (), t\<lparr>ti_result := (ti_result t)\<lparr>tr_backlog := b\<rparr>\<rparr>)))"
    if "P (wd_index t')" for t'
    by (rule leaves_then [OF leaves_tx [where p = P, OF that]]) (auto simp: backlog_tx_def yields_def)
  note counted = this
  show ?case
  proof (cases "ts_second_ended state")
    case True
    show ?thesis unfolding if_P [OF True] by (rule leaves_then [OF tick_scanning_kept counted]) (simp add: assms(1))
  qed (simp add: assms(1) yields_def)
next
  case (2 x t)
  have "P (advance_cursor c now s)" if "P s" for s now using assms(2) that by (auto simp: advance_cursor_def)
  then show ?case by (rule finishing_kept [OF 2])
qed

end

text \<open>
  A whole tick: \<open>p\<close> holds of the rows its state is read from and goes on holding while its run is recorded, and
  its steps leave \<open>q\<close>.
\<close>

lemma run_tick_leaves:
  assumes "tick_keeps p" "tick_keeps q" "\<And>s. p s \<Longrightarrow> q s" "p (wd_index w)"
    and steps: "\<And>state t. tick_state_tx (wd_index w) = Inr (wd_index w, state) \<Longrightarrow> p (wd_index t) \<Longrightarrow> retains q (tick_steps env n state t)"
  shows "retains q (run_tick env n w)"
proof -
  have w: "wd_index (new_ticker env w) = wd_index w" by (simp add: new_ticker_def tx_world.extend_def)
  have state: "yields q (\<lambda>state s. p s \<and> tick_state_tx (wd_index w) = Inr (wd_index w, state)) (sync_tx env tick_state_tx (new_ticker env w))"
    by (rule yields_tx) (use assms(3,4) w in \<open>auto simp: tick_state_tx_def\<close>)
  show ?thesis unfolding run_tick_def
  proof (rule yields_then [OF state], goal_cases)
    case (1 state t)
    show ?case unfolding Let_def
    proof (rule yields_then [where q = "\<lambda>_. p"], goal_cases)
      case 1
      show ?case by (rule yields_tx) (use \<open>p (wd_index t) \<and> _\<close> assms(3) tick_keeps.start_sync_kept [OF assms(1)] in auto)
    next
      case (2 x t')
      obtain r t2 where r: "tick_steps env n state t' = (r, t2)" by (cases "tick_steps env n state t'")
      have "q (wd_index t2)" using steps [of state t'] 1 2 r by (auto simp: yields_def split: sum.splits)
      then have "retains q (tick_failed env es t2)" for es by (rule tick_keeps.tick_failed_kept [OF assms(2)])
      then show ?case unfolding r using \<open>q (wd_index t2)\<close> by (cases r) (simp_all add: yields_def Let_def)
    qed
  qed
qed

subsection \<open>Changes\<close>

text \<open>Beside it, what the changes themselves make.\<close>

locale tick_applies = tick_keeps +
  assumes cursors: "P s \<Longrightarrow> P (s\<lparr>sy_cursor := c, sy_cursor_at := a\<rparr>)"
    and changes: "P s \<Longrightarrow> P (s\<lparr>sy_mail := fst (apply_changes ap (sy_mail s))\<rparr>)"
begin

lemma advance_kept: "P s \<Longrightarrow> P (advance_cursor c now s)"
  by (simp add: advance_cursor_def cursors)

lemma apply_tx_kept: "P s \<Longrightarrow> apply_tx run now ap f s = Inr (s', a) \<Longrightarrow> P s'"
  using changes [of s ap] by (auto simp: apply_tx_def Let_def record_sync_kept advance_kept split: prod.splits if_splits)

lemma applied_kept [steps]: "P (wd_index t) \<Longrightarrow> retains P (sync_tx env (apply_tx run now ap f) t)"
  by (rule leaves_tx [where p = P]) (use apply_tx_kept in blast)+

lemma count_applied_rows [simp]: "wd_index (count_applied a t) = wd_index t"
  by (simp add: count_applied_def)

lemma reconcile_kept [steps]: "P (wd_index t) \<Longrightarrow> retains P (reconcile env n run start progress token k listed t)"
proof (induction n arbitrary: token k listed t)
  case (Suc n)
  show ?case unfolding reconcile.simps
  proof (rule leaves_then [OF needs_kept [OF Suc.prems]], goal_cases)
    case (1 x t')
    show ?case unfolding case_prod_beta Let_def
    proof (rule leaves_then [OF applied_kept [OF 1]], goal_cases)
      case (1 a t'')
      then show ?case using Suc.IH by (simp add: yields_pair)
    qed
  qed
qed (simp add: leaves_dies)

lemma since_kept: "P (wd_index t) \<Longrightarrow> retains P (sync_tx env (since_tx start) t)"
  by (rule leaves_tx [where p = P]) (simp_all add: since_tx_def)

lemma remove_gone_kept [steps]:
  assumes "P (wd_index t)"
  shows "retains P (remove_gone env run start listed progress t)"
  unfolding remove_gone_def
proof (rule leaves_then [OF since_kept [OF assms]], goal_cases)
  case (1 stored t)
  show ?case
  proof (cases "unlisted_messages stored listed = []")
    case False
    show ?thesis unfolding Let_def if_not_P [OF False]
    proof (rule leaves_then [OF metadata_kept [OF 1]], goal_cases)
      case (1 held t)
      have "retains P (then_do (sync_tx env (apply_tx run now ap f) t) (\<lambda>a t. (Inr (ad_removed a), t)))" for now ap f
        by (rule leaves_then [OF applied_kept [OF 1]]) (simp add: yields_def)
      then show ?case using 1 by (simp add: yields_pair)
    qed
  qed (simp add: 1 yields_def)
qed

lemma first_window_kept:
  assumes "P (wd_index t)"
  shows "retains P (first_window env n t)"
  unfolding first_window_def
proof (rule leaves_then [OF needs_kept [OF assms]], goal_cases)
  case (1 cursor t)
  show ?case unfolding Let_def
    by (rule leaves_then [OF reconcile_kept]) (use 1 in \<open>auto simp: yields_def split: prod.split\<close>)
qed

lemma recovery_steps_kept:
  assumes "P (wd_index t)"
  shows "retains P (recovery_steps env n run written t)"
  unfolding recovery_steps_def
proof (rule leaves_then [OF needs_kept [OF assms]], goal_cases)
  case (1 cursor t)
  show ?case unfolding Let_def
  proof (rule leaves_then [OF reconcile_kept [OF 1]], goal_cases)
    case (1 x t)
    show ?case unfolding case_prod_beta
      by (rule leaves_then [OF remove_gone_kept [OF 1]]) (rule finishing_kept [OF _ advance_kept])
  qed
qed

lemma recover_kept [steps]:
  assumes "P (wd_index t)"
  shows "retains P (recover env n state t)"
proof -
  have failed: "retains P (recovery_failed env run r)" if "retains P r" for run r
  proof -
    obtain a t where r: "r = (a, t)" by (cases r)
    have p: "P (wd_index t)" using that by (auto simp: r yields_def split: sum.splits)
    have "retains P (sync_tx env (fail_sync_tx run cause) t)" for cause
      by (rule leaves_tx [where p = P, OF p]) (rule fail_sync_kept)
    note ended = this
    show ?thesis
    proof (cases a)
      case (Inl cause)
      show ?thesis using p ended [of "bx_cause env cause"]
        by (auto simp: Inl recovery_failed_def r yields_def split: prod.splits sum.splits)
    qed (simp add: recovery_failed_def r yields_def p)
  qed
  show ?thesis unfolding recover_def Let_def
  proof (rule leaves_then, goal_cases)
    case 1
    show ?case by (rule leaves_tx [where p = P]) (simp add: assms, rule sync_event_tx_kept)
  next
    case (2 x t)
    show ?case
    proof (rule leaves_then, goal_cases)
      case 1
      show ?case by (rule leaves_tx [where p = P, OF 2]) (rule start_sync_kept)
    qed (rule failed, rule recovery_steps_kept)
  qed
qed

lemma apply_change_set_kept:
  assumes "P (wd_index t)"
  shows "retains P (apply_change_set env cs t)"
  unfolding apply_change_set_def
proof (rule leaves_then [OF metadata_kept [OF assms]], goal_cases)
  case (1 ms t)
  show ?case unfolding Let_def by (rule leaves_then [OF applied_kept [OF 1]]) (simp add: yields_def)
qed

lemma follow_changes_kept: "P (wd_index t) \<Longrightarrow> retains P (follow_changes env n state cursor t)"
proof (induction n arbitrary: cursor t)
  case (Suc n)
  show ?case unfolding follow_changes.simps
  proof (rule leaves_then, goal_cases)
    case 1
    show ?case by (rule leaves_asks) (rule Suc.prems)
  next
    case (2 r t)
    have "retains P (then_do (recover env n state (t\<lparr>ti_result := (ti_result t)\<lparr>tr_gap := True\<rparr>\<rparr>)) (\<lambda>_ t. (Inr ([] :: string), t)))"
      by (rule leaves_then [OF recover_kept]) (simp_all add: 2 yields_pair)
    moreover have "retains P (then_do (apply_change_set env cs t) (\<lambda>_ t. if b then (Inr [], t) else follow_changes env n state c t))" for b c cs
      by (rule leaves_then [OF apply_change_set_kept [OF 2]]) (simp add: yields_pair Suc.IH)
    ultimately show ?case using 2 by (simp add: yields_pair split: sum.split)
  qed
qed (simp add: leaves_dies)

lemma tick_steps_kept:
  assumes "P (wd_index t)"
  shows "retains P (tick_steps env n state t)"
proof -
  have "retains P (tick_changes env n state t)"
    using first_window_kept follow_changes_kept assms by (simp add: tick_changes_def)
  then show ?thesis unfolding tick_steps_def
    by (rule leaves_then) (use after_changes_kept advance_kept in blast)
qed

lemma run_ticks_kept: "P (wd_index w) \<Longrightarrow> P (wd_index (run_ticks life w))"
proof (induction life arbitrary: w)
  case (Cons x life)
  obtain env n where x: "x = (env, n)" by (cases x)
  let ?r = "run_tick env n (w\<lparr>wd_stopped := False\<rparr>)"
  have "retains P ?r" by (rule run_tick_leaves [OF tick_keeps_axioms tick_keeps_axioms]) (use Cons.prems tick_steps_kept in simp_all)
  then have "P (wd_index (snd ?r))" by (auto simp: yields_def split: prod.splits sum.splits)
  then have "P (wd_index (tx_world.truncate (snd ?r)))" by (simp add: tx_world.truncate_def)
  then show ?case using Cons.IH by (simp add: run_ticks_def x)
qed (simp add: run_ticks_def)

end

end
