(* ===== verification/SyncCounts.thy ===== *)
theory SyncCounts
  imports SyncKeeps
begin

text \<open>
  Delta sync keeps the message table's checks, and a sender's row for exactly the domains the index holds
  messages of, with their number in it. The count of hits is not among what it keeps: a removal leaves it.
\<close>

subsection \<open>One application\<close>

text \<open>Exact but for some domains.\<close>

definition exact_but :: "string set \<Rightarrow> mail_index \<Rightarrow> bool" where
  "exact_but D s \<longleftrightarrow> rows_hold s \<and> (\<forall>m \<in> set (mi_messages s). sm_domain m \<notin> D \<longrightarrow> mi_senders s (sm_domain m) \<noteq> None) \<and>
     (\<forall>d r. d \<notin> D \<longrightarrow> mi_senders s d = Some r \<longrightarrow> 0 < held_count d s \<and> se_count r = of_nat (held_count d s))"

lemma exact_but_none: "exact_but {} s \<longleftrightarrow> stats_hold False s"
  by (simp add: exact_but_def stats_hold_def)

lemma exact_but_removed:
  assumes "exact_but D s" "remove_messages ids s = (t, gone)"
  shows "exact_but (D \<union> set gone) t"
proof -
  have t: "mi_messages t = filter (\<lambda>m. sm_id m \<notin> set ids) (mi_messages s)" "mi_senders t = mi_senders s"
      "set gone = sm_domain ` {m \<in> set (mi_messages s). sm_id m \<in> set ids}"
    using assms(2) by (auto simp: remove_messages_def)
  have "rows_hold t" using assms(1) by (auto simp: exact_but_def rows_hold_def t(1) distinct_map_filter)
  moreover have "held_count d t = held_count d s" if "d \<notin> set gone" for d
    using that unfolding held_count_def t(1,3) filter_filter by (intro arg_cong [where f = length] filter_cong) auto
  ultimately show ?thesis using assms(1) by (auto simp: exact_but_def t(1,2))
qed

lemma exact_but_applied:
  assumes "exact_but D s"
  shows "exact_but (insert (im_domain m) D) (fst (apply_message m (s, a)))"
proof (cases "im_id m \<in> sm_id ` set (mi_messages s)")
  case True
  let ?p = "\<lambda>x. sm_id x = im_id m \<and> (sm_labels x \<noteq> im_labels m \<or> sm_mail_flags x \<noteq> im_flags m)"
  let ?f = "\<lambda>x. x\<lparr>sm_labels := im_labels m, sm_mail_flags := im_flags m\<rparr>"
  let ?t = "fst (update_where ?p ?f s)"
  have rows: "rows_hold ?t" by (rule update_where_holds) (use assms in \<open>auto simp: exact_but_def row_checks_def\<close>)
  have count: "held_count d ?t = held_count d s" for d by (rule update_where_count) simp
  have doms: "sm_domain ` set (mi_messages ?t) = sm_domain ` set (mi_messages s)" by (rule update_where_domains) simp
  have "mi_senders s d \<noteq> None" if "d \<in> sm_domain ` set (mi_messages s)" "d \<notin> D" for d using assms that by (auto simp: exact_but_def)
  then have "mi_senders s (sm_domain x) \<noteq> None" if "x \<in> set (mi_messages ?t)" "sm_domain x \<notin> D" for x
    using that doms by blast
  moreover have "fst (apply_message m (s, a)) = ?t" using True by (simp add: apply_message_def insert_message_def apply_labels_def update_where_def)
  ultimately show ?thesis using assms rows count by (simp add: exact_but_def)
next
  case False
  then show ?thesis using assms
    by (auto simp: apply_message_def insert_message_def record_maskings_def exact_but_def rows_hold_def held_count_def
      inserted_row_def row_checks_def)
qed

lemma exact_but_all_applied: "exact_but D s \<Longrightarrow> exact_but (D \<union> im_domain ` set ms) (fst (fold apply_message ms (s, a)))"
proof (induction ms arbitrary: D s a)
  case (Cons m ms)
  obtain s1 a1 where one: "apply_message m (s, a) = (s1, a1)" by (cases "apply_message m (s, a)")
  have "exact_but (insert (im_domain m) D) s1" using exact_but_applied [OF Cons.prems, of m a] by (simp add: one)
  from Cons.IH [OF this, of a1] show ?case by (simp add: one)
qed simp

text \<open>The sender of each domain a change touched, rebuilt or dropped.\<close>

lemma rebuilt_or_dropped:
  "mi_messages (fold rebuild_or_drop ds s) = mi_messages s \<and>
   mi_senders (fold rebuild_or_drop ds s) =
     (\<lambda>d. if d \<in> set ds then (if held_count d s = 0 then None else rebuilt_row s d (mi_senders s d)) else mi_senders s d)"
proof (induction ds arbitrary: s)
  case (Cons e ds)
  have none: "list_ex (\<lambda>m. sm_domain m = e) (mi_messages s) \<longleftrightarrow> held_count e s \<noteq> 0"
    by (auto simp: held_count_def list_ex_iff filter_empty_conv)
  have one: "mi_messages (rebuild_or_drop e s) = mi_messages s"
      "mi_senders (rebuild_or_drop e s) = (mi_senders s)(e := if held_count e s = 0 then None else rebuilt_row s e (mi_senders s e))"
    using rebuild_senders [of "[e]" s] none by (auto simp: rebuild_or_drop_def drop_empty_sender_def fun_eq_iff)
  have count: "held_count d (rebuild_or_drop e s) = held_count d s" for d by (simp add: held_count_def one(1))
  then have "rebuilt_row (rebuild_or_drop e s) = rebuilt_row s" by (simp add: rebuilt_row_def fun_eq_iff split: option.split)
  moreover have "rebuilt_row s e (rebuilt_row s e x) = rebuilt_row s e x" for x
    by (simp add: rebuilt_row_def split: option.split)
  ultimately show ?case using Cons.IH [of "rebuild_or_drop e s"] one count by auto
qed simp

lemma exact_after_rebuild:
  assumes "exact_but D s" "set ds = D"
  shows "stats_hold False (fold rebuild_or_drop ds s)"
proof -
  let ?t = "fold rebuild_or_drop ds s"
  note t = rebuilt_or_dropped [of ds s]
  have held: "held_count d ?t = held_count d s" for d using t by (simp add: held_count_def)
  have some: "held_count (sm_domain m) s \<noteq> 0" if "m \<in> set (mi_messages s)" for m
    using that by (auto simp: held_count_def filter_empty_conv)
  have "mi_senders ?t (sm_domain m) \<noteq> None" if "m \<in> set (mi_messages s)" for m
    using t some [OF that] assms that by (cases "sm_domain m \<in> D") (auto simp: rebuilt_row_def exact_but_def)
  moreover have "0 < held_count d s \<and> se_count r = of_nat (held_count d s)" if "mi_senders ?t d = Some r" for d r
  proof (cases "d \<in> D")
    case True
    then have "held_count d s \<noteq> 0" "rebuilt_row s d (mi_senders s d) = Some r" using t that assms(2) by (auto split: if_splits)
    then show ?thesis by (auto simp: rebuilt_row_def split: option.splits)
  next
    case False
    then have "mi_senders s d = Some r" using t that assms(2) by simp
    then show ?thesis using False assms(1) by (simp add: exact_but_def)
  qed
  ultimately show ?thesis using t assms(1) held by (simp add: stats_hold_def exact_but_def rows_hold_def)
qed

lemma apply_changes_exact:
  assumes "stats_hold False s"
  shows "stats_hold False (fst (apply_changes ap s))"
proof -
  obtain s1 gone where r: "(if ap_removed ap = [] then (s, []) else remove_messages (ap_removed ap) s) = (s1, gone)"
    by (cases "if ap_removed ap = [] then (s, []) else remove_messages (ap_removed ap) s")
  have s1: "exact_but (set gone) s1"
    using assms exact_but_removed [of "{}" s] r by (auto simp: exact_but_none [symmetric] split: if_splits)
  obtain s2 a where f: "fold apply_message (ap_messages ap)
      (s1, \<lparr>ad_inserted = 0, ad_changed = 0, ad_removed = of_nat (length gone), ad_unclassified = 0\<rparr>) = (s2, a)"
    by (cases "fold apply_message (ap_messages ap)
      (s1, \<lparr>ad_inserted = 0, ad_changed = 0, ad_removed = of_nat (length gone), ad_unclassified = 0\<rparr>)")
  have "exact_but (set gone \<union> im_domain ` set (ap_messages ap)) s2" using exact_but_all_applied [OF s1] f by (metis fst_conv)
  from exact_after_rebuild [OF this, of "sort_compact (gone @ map im_domain (ap_messages ap))"]
  show ?thesis by (simp add: apply_changes_def r f)
qed

subsection \<open>A life of ticks\<close>

interpretation sync_stats: tick_applies "\<lambda>s. stats_hold False (sy_mail s)"
proof
  show "stats_hold False (sy_mail (s\<lparr>sy_mail := m2\<rparr>))"
    if "stats_hold False (sy_mail s)" "distinct (map sm_id (mi_messages (sy_mail s))) \<Longrightarrow> rows_match rs (sy_mail s)"
      "each_ok commit_outcome rs (sy_mail s) = Inr m1" "each_ok (commit_hits (page_hits rs)) (hit_domains rs) m1 = Inr m2" for s rs m1 m2
    using that stats_hold_commit [of False "sy_mail s" rs m1 m2] by (simp add: stats_hold_def rows_hold_def)
qed (simp_all add: stats_hold_waits apply_changes_exact)

end
