(* ===== verification/SyncCursor.thy ===== *)
theory SyncCursor
  imports SyncCounts BackfillJob
begin

text \<open>
  The cursor never runs ahead of the index: an account's rows are always those of a number of the provider's
  change sets, whatever the ticks that applied them ran into.
\<close>

subsection \<open>The provider's changes\<close>

text \<open>
  The changes since a cursor are the provider's: \<open>feed\<close> has them. The identifiers of what the index must hold, and
  of what it may, after the first \<open>k\<close> change sets: a message of \<open>lost\<close> is one the provider may not return when
  asked for its metadata.
\<close>

type_synonym feed = "string \<Rightarrow> change_set"

fun cursor_at :: "feed \<Rightarrow> string \<Rightarrow> nat \<Rightarrow> string" where
  "cursor_at feed c 0 = c"
| "cursor_at feed c (Suc k) = cs_next (feed (cursor_at feed c k))"

definition changes_at :: "feed \<Rightarrow> string \<Rightarrow> nat \<Rightarrow> change_set" where
  "changes_at feed c k = feed (cursor_at feed c k)"

definition named_by :: "change_set \<Rightarrow> string set" where
  "named_by cs = set (cs_added cs) \<union> set (cs_modified cs)"

fun must_hold :: "feed \<Rightarrow> string set \<Rightarrow> string \<Rightarrow> string set \<Rightarrow> nat \<Rightarrow> string set" where
  "must_hold feed lost c is 0 = is"
| "must_hold feed lost c is (Suc k) =
     must_hold feed lost c is k - set (cs_removed (changes_at feed c k)) \<union> (named_by (changes_at feed c k) - lost)"

fun may_hold :: "feed \<Rightarrow> string \<Rightarrow> string set \<Rightarrow> nat \<Rightarrow> string set" where
  "may_hold feed c is 0 = is"
| "may_hold feed c is (Suc k) = may_hold feed c is k - set (cs_removed (changes_at feed c k)) \<union> named_by (changes_at feed c k)"

definition at_set :: "feed \<Rightarrow> string set \<Rightarrow> string \<Rightarrow> string set \<Rightarrow> nat \<Rightarrow> sync_rows \<Rightarrow> bool" where
  "at_set feed lost c is k s \<longleftrightarrow> sy_state_row s \<and> sy_cursor s = Some (cursor_at feed c k) \<and>
     must_hold feed lost c is k \<subseteq> indexed (sy_mail s) \<and> indexed (sy_mail s) \<subseteq> may_hold feed c is k"

text \<open>What the provider answers: the feed's change sets, no gap, and the messages asked for but of \<open>lost\<close>.\<close>

definition asks_feed :: "feed \<Rightarrow> string set \<Rightarrow> sync_env \<Rightarrow> bool" where
  "asks_feed feed lost env \<longleftrightarrow>
     (\<forall>k c cs. sy_changes env k c = CallIs cs \<longrightarrow> cs = feed c) \<and>
     (\<forall>k c e. sy_changes env k c = CallErr e \<longrightarrow> \<not> err_is e ErrCursorGap) \<and>
     (\<forall>k ids got. bx_metadata env k ids = CallIs got \<longrightarrow> mm_id ` set got \<subseteq> set ids \<and> set ids - lost \<subseteq> mm_id ` set got)"

subsection \<open>What only the changes make\<close>

text \<open>The messages held, by identifier and date.\<close>

definition dated :: "mail_index \<Rightarrow> (string \<times> unix_milli) set" where
  "dated s = (\<lambda>m. (sm_id m, sm_sent_at m)) ` set (mi_messages s)"

lemma indexed_dated: "indexed s = fst ` dated s"
  by (simp add: indexed_def dated_def image_image)

lemma commit_hits_dated: "each_ok (commit_hits hits) ds s = Inr t \<Longrightarrow> dated t = dated s"
  by (induction ds arbitrary: s)
     (auto simp: commit_hits_def add_scan_hits_def update_sender_def dated_def split: sum.splits option.splits if_splits)

lemma update_where_dated:
  assumes "\<And>m. p m \<Longrightarrow> sm_id (f m) = sm_id m \<and> sm_sent_at (f m) = sm_sent_at m"
  shows "dated (fst (update_where p f s)) = dated s"
proof -
  let ?k = "\<lambda>m. (sm_id m, sm_sent_at m)"
  have "map ?k (mi_messages (fst (update_where p f s))) = map ?k (mi_messages s)" using assms by (simp add: update_where_def)
  from arg_cong [OF this, of set] show ?thesis by (simp add: dated_def)
qed

lemma updated_dated:
  "update_where p f s = (t, n) \<Longrightarrow> (\<And>m. sm_id (f m) = sm_id m \<and> sm_sent_at (f m) = sm_sent_at m) \<Longrightarrow> dated t = dated s"
  using update_where_dated [of p f s] by simp

lemma outcome_update_dated: "outcome_update r s = Some (t, n) \<Longrightarrow> dated t = dated s"
  by (auto simp: outcome_update_def record_verdict_def record_refusal_def record_skip_def split: option.splits if_splits)
    (drule updated_dated, simp, simp)+

lemma record_decision_dated [simp]: "dated (record_decision i d x s) = dated s"
  by (simp add: record_decision_def dated_def)

lemma commit_outcome_dated:
  assumes "commit_outcome r s = Inr t"
  shows "dated t = dated s"
proof (cases "gate_decided (or_verdict r)")
  case True
  define s0 where "s0 = record_decision (or_id r) (if gate_scans (or_verdict r) then ''SCAN'' else ''SKIP'') (gate_reason_string (or_verdict r)) s"
  have "outcome_update r s0 = None \<and> t = s0 \<or> outcome_update r s0 = Some (t, 1)"
    using assms True by (auto simp: commit_outcome_def s0_def [symmetric] split: option.splits prod.splits if_splits)
  then have "dated t = dated s0" using outcome_update_dated [of r s0 t 1] by blast
  then show ?thesis by (simp add: s0_def)
qed (use assms in \<open>simp add: commit_outcome_def\<close>)

lemma commit_outcomes_dated: "each_ok commit_outcome rs s = Inr t \<Longrightarrow> dated t = dated s"
proof (induction rs arbitrary: s)
  case (Cons r rs)
  then show ?case using commit_outcome_dated [of r s] by (cases "commit_outcome r s") simp_all
qed simp

text \<open>What the transactions of a tick but those of its changes leave of the identifiers and the dates.\<close>

lemma dated_same:
  "dated (fst (update_where g waits_again s)) = dated s" "dated (s\<lparr>mi_events := es\<rparr>) = dated s" "dated (s\<lparr>mi_failures := fs\<rparr>) = dated s"
  by (rule update_where_dated) (simp_all add: waits_again_def dated_def)

interpretation at_set: tick_keeps "at_set feed lost c is k" for feed lost c "is" k
proof
  show "at_set feed lost c is k (s\<lparr>sy_mail := m2\<rparr>)"
    if "at_set feed lost c is k s" "each_ok commit_outcome rs (sy_mail s) = Inr m1"
      "each_ok (commit_hits (page_hits rs)) (hit_domains rs) m1 = Inr m2" for s rs m1 m2
    using that(1) commit_outcomes_dated [OF that(2)] commit_hits_dated [OF that(3)] by (simp add: at_set_def indexed_dated)
qed (simp_all add: at_set_def indexed_dated dated_same)


subsection \<open>One change set\<close>

lemma apply_message_dated:
  "dated (fst (apply_message m (s, a))) = (if im_id m \<in> indexed s then dated s else insert (im_id m, im_date m) (dated s))"
proof (cases "im_id m \<in> indexed s")
  case True
  have "apply_message m (s, a) = (let (s', n) = apply_labels m s in (s', if n = 1 then a\<lparr>ad_changed := ad_changed a + 1\<rparr> else a))"
    using True by (simp add: apply_message_def insert_message_def indexed_def)
  then show ?thesis using True update_where_dated [of _ _ s] by (simp add: apply_labels_def case_prod_beta)
qed (simp add: apply_message_def insert_message_def record_maskings_def inserted_row_def indexed_def dated_def)

lemma apply_messages_dated:
  "dated s \<subseteq> dated (fst (fold apply_message ms (s, a))) \<and>
   indexed (fst (fold apply_message ms (s, a))) = im_id ` set ms \<union> indexed s"
proof (induction ms arbitrary: s a)
  case (Cons m ms)
  obtain s1 a1 where one: "apply_message m (s, a) = (s1, a1)" by (cases "apply_message m (s, a)")
  have "dated s \<subseteq> dated s1" "indexed s1 = insert (im_id m) (indexed s)"
    using apply_message_dated [of m s a] by (auto simp: one indexed_dated image_iff)
  then show ?case using Cons.IH [of s1 a1] by (auto simp: one)
qed simp

lemma apply_changes_dated:
  "{x \<in> dated s. fst x \<notin> set (ap_removed ap)} \<subseteq> dated (fst (apply_changes ap s))"
  "indexed (fst (apply_changes ap s)) = indexed s - set (ap_removed ap) \<union> im_id ` set (ap_messages ap)"
  "ap_messages ap = [] \<Longrightarrow> mi_messages (fst (apply_changes ap s)) = filter (\<lambda>m. sm_id m \<notin> set (ap_removed ap)) (mi_messages s)"
proof -
  obtain s1 gone where r: "(if ap_removed ap = [] then (s, []) else remove_messages (ap_removed ap) s) = (s1, gone)"
    by (cases "if ap_removed ap = [] then (s, []) else remove_messages (ap_removed ap) s")
  have rows: "mi_messages s1 = filter (\<lambda>m. sm_id m \<notin> set (ap_removed ap)) (mi_messages s)"
    using r by (auto simp: remove_messages_def split: if_splits)
  have s1: "dated s1 = {x \<in> dated s. fst x \<notin> set (ap_removed ap)}" by (auto simp: dated_def rows)
  then have ids: "indexed s1 = indexed s - set (ap_removed ap)" by (auto simp: indexed_dated)
  let ?a0 = "\<lparr>ad_inserted = 0, ad_changed = 0, ad_removed = of_nat (length gone), ad_unclassified = 0\<rparr>"
  obtain s2 a where f: "fold apply_message (ap_messages ap) (s1, ?a0) = (s2, a)"
    by (cases "fold apply_message (ap_messages ap) (s1, ?a0)")
  have s2: "dated s1 \<subseteq> dated s2" "indexed s2 = im_id ` set (ap_messages ap) \<union> indexed s1"
    using apply_messages_dated [of s1 "ap_messages ap" ?a0] by (simp_all add: f)
  have all: "mi_messages (fst (apply_changes ap s)) = mi_messages s2"
    using rebuilt_or_dropped by (simp add: apply_changes_def r f)
  then have same: "dated (fst (apply_changes ap s)) = dated s2" "indexed (fst (apply_changes ap s)) = indexed s2"
    by (simp_all add: dated_def indexed_def)
  show "{x \<in> dated s. fst x \<notin> set (ap_removed ap)} \<subseteq> dated (fst (apply_changes ap s))" using s1 s2(1) same(1) by simp
  show "indexed (fst (apply_changes ap s)) = indexed s - set (ap_removed ap) \<union> im_id ` set (ap_messages ap)"
    using s2(2) ids same(2) by (simp add: Un_commute)
  show "mi_messages (fst (apply_changes ap s)) = filter (\<lambda>m. sm_id m \<notin> set (ap_removed ap)) (mi_messages s)"
    if "ap_messages ap = []" using all f rows that by simp
qed

lemma apply_tx_next:
  assumes "at_set feed lost c is k s" "ap_cursor ap = cursor_at feed c (Suc k)" "cursor_at feed c (Suc k) \<noteq> []"
    and "ap_removed ap = cs_removed (changes_at feed c k)"
    and "im_id ` set (ap_messages ap) \<subseteq> named_by (changes_at feed c k)" "named_by (changes_at feed c k) - lost \<subseteq> im_id ` set (ap_messages ap)"
    and "apply_tx run now ap f s = Inr (s', a)"
  shows "at_set feed lost c is (Suc k) s'"
proof -
  have "indexed (fst (apply_changes ap (sy_mail s))) = indexed (sy_mail s) - set (cs_removed (changes_at feed c k)) \<union> im_id ` set (ap_messages ap)"
    by (simp add: apply_changes_dated(2) assms(4))
  then have "at_set feed lost c is (Suc k) (advance_cursor (ap_cursor ap) now (s\<lparr>sy_mail := fst (apply_changes ap (sy_mail s))\<rparr>))"
    using assms(1,3,5,6) unfolding assms(2) by (auto simp: at_set_def advance_cursor_def)
  then show ?thesis using assms(7) at_set.record_sync_kept
    by (auto simp: apply_tx_def Let_def split: prod.splits if_splits)
qed

text \<open>The messages a change set names are asked for, and it is applied with the cursor past it.\<close>

lemma apply_change_set_next:
  assumes "at_set feed lost c is k (wd_index t)" "asks_feed feed lost env" "cursor_at feed c (Suc k) \<noteq> []"
  shows "yields (\<lambda>s. \<exists>k. at_set feed lost c is k s) (\<lambda>_. at_set feed lost c is (Suc k)) (apply_change_set env (changes_at feed c k) t)"
proof -
  let ?q = "\<lambda>s. \<exists>k. at_set feed lost c is k s" let ?cs = "changes_at feed c k"
  let ?a = "\<lambda>ids got. mm_id ` set got \<subseteq> set ids \<and> set ids - lost \<subseteq> mm_id ` set (got :: message_metadata list)"
  have "yields (at_set feed lost c is k) (\<lambda>got s. at_set feed lost c is k s \<and> ?a (fetched_messages ?cs) got)
      (metadata_of env metadata_words (fetched_messages ?cs) t)"
    unfolding metadata_of_def
  proof (rule yields_metadata [where e = "at_set feed lost c is k", OF assms(1)])
    show "?a ids got" if "bx_metadata env i ids = CallIs got" for i ids got using assms(2) that by (simp add: asks_feed_def)
    show "?a (xs @ ys) (got @ rest)" if "?a xs got" "?a ys rest" for xs ys got rest using that by auto
    show "0 < call_size (sy_cost env) (sy_budget env) (of_nat (length (fetched_messages ?cs)))"
      using call_size_from_spec(1) [of 1] by (simp add: call_size_def Suc_le_eq)
  qed simp
  then have fetched: "yields ?q (\<lambda>got s. at_set feed lost c is k s \<and> ?a (fetched_messages ?cs) got)
      (metadata_of env metadata_words (fetched_messages ?cs) t)"
    by (rule yields_errors) blast
  show ?thesis unfolding apply_change_set_def
  proof (rule yields_then [OF fetched], goal_cases)
    case (1 got t)
    have ids: "im_id ` set (decided_messages env got t) = mm_id ` set got" by (simp add: decided_messages_def)
    have named: "set (fetched_messages ?cs) = named_by ?cs" by (simp add: fetched_messages_def named_by_def)
    have next_set: "at_set feed lost c is (Suc k) s'"
      if "apply_tx run now \<lparr>ap_messages = decided_messages env got t, ap_removed = cs_removed ?cs, ap_cursor = cs_next ?cs\<rparr> f (wd_index t) = Inr (s', a)"
      for run now f s' a
      by (rule apply_tx_next [OF conjunct1 [OF 1] _ assms(3) _ _ _ that])
        (use 1 in \<open>simp_all add: ids named [unfolded changes_at_def] changes_at_def\<close>)
    show ?case unfolding Let_def
    proof (rule yields_then [where q = "\<lambda>_. at_set feed lost c is (Suc k)"], goal_cases)
      case 1
      have "?q (wd_index t)" using \<open>at_set feed lost c is k (wd_index t) \<and> _\<close> by blast
      then show ?case by (rule yields_tx) (intro conjI exI [of _ "Suc k"]; erule next_set)
    qed (simp add: yields_def count_applied_def)
  qed
qed


subsection \<open>A life of ticks\<close>



subsection \<open>A tick nothing disturbs\<close>

text \<open>A step that returns, with the context as it was.\<close>

definition goes_on :: "'a ticking \<Rightarrow> bool" where
  "goes_on r \<longleftrightarrow> (case r of (Inl _, _) \<Rightarrow> False | (Inr _, t) \<Rightarrow> \<not> wd_stopped t)"

lemma goes_on_then: "goes_on r \<Longrightarrow> (\<And>x t. r = (Inr x, t) \<Longrightarrow> \<not> wd_stopped t \<Longrightarrow> goes_on (f x t)) \<Longrightarrow> goes_on (then_do r f)"
  by (cases r) (auto simp: goes_on_def then_do_def split: sum.splits)

lemma goes_on_pair [simp]: "goes_on (Inr x, t) \<longleftrightarrow> \<not> wd_stopped t"
  by (simp add: goes_on_def)

lemma goes_on_tx:
  assumes "\<not> wd_stopped t" "\<And>k. bx_tx env k = TxTakes" "\<exists>y. f (wd_index t) = Inr y"
  shows "goes_on (sync_tx env f t)"
  using assms by (auto simp: goes_on_def sync_tx_def in_tx_def tick_def)

text \<open>The provider answers every question it is asked, and every transaction takes.\<close>

definition undisturbed :: "feed \<Rightarrow> sync_env \<Rightarrow> bool" where
  "undisturbed feed env \<longleftrightarrow> (\<forall>k. bx_tx env k = TxTakes) \<and> (\<forall>k c. sy_changes env k c = CallIs (feed c)) \<and>
     (\<forall>k ids. \<exists>got. bx_metadata env k ids = CallIs got)"

lemma leased_metadata_goes_on:
  assumes "\<And>k ids. \<exists>got. bx_metadata env k ids = CallIs got"
  shows "\<not> wd_stopped t \<Longrightarrow> goes_on (leased_metadata env words most ids t)"
  using assms
proof (induction env words most ids t rule: leased_metadata.induct)
  case (1 env words most ids t)
  show ?case
  proof (cases "ids = [] \<or> most = 0")
    case True
    then show ?thesis using 1(2) by (subst leased_metadata.simps) simp
  next
    case False
    obtain got where got: "bx_metadata env (wd_moment t) (take most ids) = CallIs got" using 1(3) by blast
    have first: "needs words (\<lambda>k. bx_metadata env k (take most ids)) t = (Inr got, tick t)"
      using 1(2) got by (simp add: needs_def asks_def then_do_def)
    have "goes_on (then_do (leased_metadata env words most (drop most ids) (tick t)) (\<lambda>rest t. (Inr (got @ rest), t)))"
      by (rule goes_on_then [OF 1(1) [OF False _ 1(3)]]) (use 1(2) in \<open>simp_all add: tick_def\<close>)
    then show ?thesis using False first by (subst leased_metadata.simps) (simp add: then_do_def [of "(Inr _, _)"])
  qed
qed

lemma apply_change_set_goes_on:
  assumes "undisturbed feed env" "\<not> wd_stopped t" "sy_state_row (wd_index t)"
  shows "goes_on (apply_change_set env cs t)"
  unfolding apply_change_set_def
proof (rule goes_on_then, goal_cases)
  case 1
  show ?case unfolding metadata_of_def by (rule leased_metadata_goes_on) (use assms in \<open>simp_all add: undisturbed_def\<close>)
next
  case (2 ms t)
  have "\<exists>y. apply_tx run now ap f s = Inr y" if "sy_state_row s" for run now ap f s
    using that by (simp add: apply_tx_def cursor_lost_def case_prod_beta)
  moreover have "sy_state_row (wd_index t)"
    using leaves_metadata [where p = sy_state_row, OF assms(3), of env metadata_words "fetched_messages cs"] 2(1) by (simp add: yields_def)
  ultimately show ?case unfolding Let_def
    by (intro goes_on_then goes_on_tx) (use 2 assms(1) in \<open>auto simp: undisturbed_def count_applied_def\<close>)
qed

lemma follow_changes_catches_up:
  assumes "asks_feed feed lost env" "\<And>k. cursor_at feed c k \<noteq> []" "undisturbed feed env"
    and "is_empty (changes_at feed c K)" "cursor_at feed c (Suc K) = cursor_at feed c K"
    and "\<And>j. j < K \<Longrightarrow> \<not> is_empty (changes_at feed c j) \<and> cursor_at feed c (Suc j) \<noteq> cursor_at feed c j"
  shows "k \<le> K \<Longrightarrow> K < k + n \<Longrightarrow> \<not> wd_stopped t \<Longrightarrow> at_set feed lost c is k (wd_index t) \<Longrightarrow>
    \<exists>t'. follow_changes env n state (cursor_at feed c k) t = (Inr [], t') \<and> \<not> wd_stopped t' \<and> at_set feed lost c is K (wd_index t')"
proof (induction n arbitrary: k t)
  case (Suc n)
  let ?cs = "changes_at feed c k"
  have asked: "asks (\<lambda>i. sy_changes env i (cursor_at feed c k)) t = (Inr (Inr ?cs), tick t)"
    using Suc.prems(3) assms(3) by (simp add: asks_def undisturbed_def changes_at_def)
  have here: "\<not> wd_stopped (tick t)" "at_set feed lost c is k (wd_index (tick t))" using Suc.prems(3,4) by (simp_all add: tick_def)
  have nxt: "cs_next ?cs = cursor_at feed c (Suc k)" by (simp add: changes_at_def)
  show ?case
  proof (cases "k = K")
    case True
    then show ?thesis using asked here assms(4,5) nxt by (simp add: then_do_def)
  next
    case False
    then have k: "k < K" using Suc.prems(1) by simp
    note more = assms(6) [OF k]
    obtain x t1 where t1: "apply_change_set env ?cs (tick t) = (Inr x, t1)" "\<not> wd_stopped t1"
      using apply_change_set_goes_on [OF assms(3) here(1), of ?cs] here(2) by (auto simp: at_set_def simp: goes_on_def split: prod.splits sum.splits)
    then have "at_set feed lost c is (Suc k) (wd_index t1)"
      using apply_change_set_next [OF here(2) assms(1,2)] by (simp add: yields_def)
    then obtain t' where "follow_changes env n state (cursor_at feed c (Suc k)) t1 = (Inr [], t')"
        "\<not> wd_stopped t'" "at_set feed lost c is K (wd_index t')"
      using Suc.IH [of "Suc k" t1] k Suc.prems(2) t1(2) by auto
    then show ?thesis using asked more nxt t1(1) by (simp add: then_do_def)
  qed
qed simp

lemma must_may_hold: "must_hold feed {} c is k = may_hold feed c is k"
  by (induction k) simp_all

subsection \<open>What delta sync promises\<close>


text \<open>
  C18. A tick nothing disturbs catches up: where the provider answers every question, every transaction takes and
  the process lives long enough, the changes of a tick end with the cursor at the first change set that is
  empty and gives its own cursor back, and the index holds what every change set before it makes of it.
\<close>

theorem undisturbed_tick_catches_up:
  assumes "sy_state_row (wd_index t)" "sy_cursor (wd_index t) = Some c" "ts_cursor state = c" "c \<noteq> []" "\<And>c. cs_next (feed c) \<noteq> []" "\<not> wd_stopped t"
    and "asks_feed feed {} env" "undisturbed feed env"
    and "is_empty (changes_at feed c K)" "cursor_at feed c (Suc K) = cursor_at feed c K"
    and "\<And>j. j < K \<Longrightarrow> \<not> is_empty (changes_at feed c j) \<and> cursor_at feed c (Suc j) \<noteq> cursor_at feed c j" "K < n"
  shows "\<exists>t'. tick_changes env n state t = (Inr [], t') \<and> sy_cursor (wd_index t') = Some (cursor_at feed c K) \<and>
    sm_id ` set (mi_messages (sy_mail (wd_index t'))) = may_hold feed c (sm_id ` set (mi_messages (sy_mail (wd_index t)))) K"
proof -
  have some: "cursor_at feed c k \<noteq> []" for k by (cases k) (simp_all add: assms(4,5))
  have "at_set feed {} c (indexed (sy_mail (wd_index t))) 0 (wd_index t)" using assms(1,2) by (simp add: at_set_def)
  then obtain t' where "follow_changes env n state c t = (Inr [], t')" "at_set feed {} c (indexed (sy_mail (wd_index t))) K (wd_index t')"
    using follow_changes_catches_up [OF assms(7) some assms(8-11), where k = 0 and n = n and t = t] assms(6,12) by auto
  then show ?thesis using assms(3,4) by (auto simp: tick_changes_def at_set_def indexed_def must_may_hold)
qed

text \<open>
  C20. However many ticks an account has, whatever its provider and its database answer and wherever each stops: no
  message is held twice, every row passes the table's checks, and a sender has a row exactly where the index
  holds a message of its domain, with the number of them in it.
\<close>

theorem delta_sync_keeps_sender_rows:
  assumes "stats_hold False (sy_mail (wd_index w))"
  shows "let s = sy_mail (wd_index (run_ticks life w)) in
    distinct (map sm_id (mi_messages s)) \<and> (\<forall>m \<in> set (mi_messages s). row_checks m) \<and>
    (\<forall>d. mi_senders s d \<noteq> None \<longleftrightarrow> d \<in> sm_domain ` set (mi_messages s)) \<and>
    (\<forall>d r. mi_senders s d = Some r \<longrightarrow> se_count r = of_nat (length (filter (\<lambda>m. sm_domain m = d) (mi_messages s))))"
proof -
  define s where "s = sy_mail (wd_index (run_ticks life w))"
  have held: "stats_hold False s" unfolding s_def by (rule sync_stats.run_ticks_kept [OF assms])
  then show ?thesis using stats_hold_rows [OF held] unfolding s_def [symmetric] by (simp add: Let_def stats_hold_def rows_hold_def held_count_def)
qed

text \<open>Two change sets and then none; in the second life a transaction errs, and one whose changes it keeps.\<close>

definition sample_feed :: feed where
  "sample_feed c =
     (if c = ''c0'' then \<lparr>cs_account = ''a'', cs_added = [''m1'', ''m2''], cs_modified = [], cs_removed = [], cs_next = ''c1''\<rparr>
      else if c = ''c1'' then \<lparr>cs_account = ''a'', cs_added = [''m3''], cs_modified = [''m1''], cs_removed = [''m2''], cs_next = ''c2''\<rparr>
      else \<lparr>cs_account = ''a'', cs_added = [], cs_modified = [], cs_removed = [], cs_next = ''c2''\<rparr>)"

definition sync_sample :: "(nat \<Rightarrow> tx_answer) \<Rightarrow> sync_env" where
  "sync_sample tx = pass_env.extend (job_env\<lparr>bx_metadata := (\<lambda>_ ids. CallIs (map sample_message ids)), bx_tx := tx\<rparr>)
     \<lparr>sy_current = (\<lambda>_. CallIs ''c0''), sy_changes = (\<lambda>_ c. CallIs (sample_feed c)), sy_threads = (\<lambda>_ _ _. CallIs ([], [])),
      sy_cost = (\<lambda>_. Fin 0), sy_budget = Fin 0, sy_first_window = 0, sy_decisions = 10, sy_written = (\<lambda>_. 7)\<rparr>"

definition sync_sample_rows :: sync_rows where
  "sync_sample_rows = \<lparr>sy_mail = wd_index job_world, sy_state_row = True, sy_cursor = Some ''c0'', sy_cursor_at = Some 5, sy_ticks = [], sy_recoveries = []\<rparr>"

definition sync_sample_world :: sync_world where
  "sync_sample_world = \<lparr>wd_index = sync_sample_rows, wd_asked = [], wd_moment = 0, wd_stopped = False\<rparr>"

definition sync_sample_life :: "(sync_env \<times> nat) list" where
  "sync_sample_life = [(sync_sample (\<lambda>k. if k = 4 then TxErrs True True else TxTakes), 5), (sync_sample (\<lambda>_. TxTakes), 5)]"

lemma sample_asks: "asks_feed sample_feed lost (sync_sample tx)"
  by (auto simp: asks_feed_def sync_sample_def pass_env.extend_def sample_message_def image_image)


theorem undisturbed_tick_catches_up_witness:
  "\<exists>t. tick_changes (sync_sample (\<lambda>_. TxTakes)) 3 \<lparr>ts_second_ended = False, ts_cursor = ''c0'', ts_cursor_at = Some 5, ts_after = []\<rparr>
       (new_ticker (sync_sample (\<lambda>_. TxTakes)) sync_sample_world) = (Inr [], t) \<and>
     sy_cursor (wd_index t) = Some ''c2'' \<and> sm_id ` set (mi_messages (sy_mail (wd_index t))) = {''m1'', ''m3''}"
proof -
  let ?env = "sync_sample (\<lambda>_. TxTakes)"
  let ?state = "\<lparr>ts_second_ended = False, ts_cursor = ''c0'', ts_cursor_at = Some 5, ts_after = []\<rparr>"
  have start: "sy_state_row (wd_index (new_ticker ?env sync_sample_world))" "sy_cursor (wd_index (new_ticker ?env sync_sample_world)) = Some ''c0''" "\<not> wd_stopped (new_ticker ?env sync_sample_world)"
      "sm_id ` set (mi_messages (sy_mail (wd_index (new_ticker ?env sync_sample_world)))) = {}"
    by (simp_all add: new_ticker_def tx_world.extend_def sync_sample_world_def sync_sample_rows_def job_world_def)
  have feeds: "cs_next (sample_feed c) \<noteq> []" for c by (simp add: sample_feed_def)
  have answers: "undisturbed sample_feed ?env" by (simp add: undisturbed_def sync_sample_def pass_env.extend_def)
  have ends: "is_empty (changes_at sample_feed ''c0'' 2)" "cursor_at sample_feed ''c0'' (Suc 2) = cursor_at sample_feed ''c0'' 2"
      "\<And>j. j < 2 \<Longrightarrow> \<not> is_empty (changes_at sample_feed ''c0'' j) \<and> cursor_at sample_feed ''c0'' (Suc j) \<noteq> cursor_at sample_feed ''c0'' j"
    by (auto simp: numeral_2_eq_2 less_Suc_eq changes_at_def is_empty_def sample_feed_def)
  have held: "may_hold sample_feed ''c0'' {} 2 = {''m1'', ''m3''}" "cursor_at sample_feed ''c0'' 2 = ''c2''"
    by (auto simp: numeral_2_eq_2 changes_at_def named_by_def sample_feed_def)
  have "ts_cursor ?state = ''c0''" "''c0'' \<noteq> []" "(2 :: nat) < 3" by simp_all
  from undisturbed_tick_catches_up [OF start(1,2) this(1,2) feeds start(3) sample_asks answers ends this(3)]
  show ?thesis unfolding start(4) held .
qed

theorem delta_sync_keeps_sender_rows_witness:
  "let s = sy_mail (wd_index (run_ticks sync_sample_life sync_sample_world)) in
    \<forall>d. mi_senders s d \<noteq> None \<longleftrightarrow> d \<in> sm_domain ` set (mi_messages s)"
proof -
  have "stats_hold False (sy_mail (wd_index sync_sample_world))"
    by (simp add: sync_sample_world_def sync_sample_rows_def job_world_def stats_hold_def rows_hold_def)
  from delta_sync_keeps_sender_rows [OF this, of sync_sample_life] show ?thesis by (simp add: Let_def)
qed

end
