(* ===== verification/SyncRecovery.thy ===== *)
theory SyncRecovery
  imports SyncCursor
begin

text \<open>
  A cursor gap's recovery: what it removes of the index and what it stores of its cursor, whatever it runs into.
\<close>

subsection \<open>What a recovery goes on holding\<close>








subsection \<open>Listing the window\<close>



subsection \<open>Removing what is gone\<close>




subsection \<open>A recovery\<close>












end
