(* ===== verification/Spec2Isabelle.thy ===== *)
theory Spec2Isabelle
  imports Authorize Classify MailModel MailAttachment Automaton ScanFacts Redact ScanGate IndexCore
    RateFacts Leases BackfillFacts DeltaSync Release Registry Surface BodyService
    PolicyScreens Attention UiConfig Connect LimiterFacts Scheduler BackfillJob SyncRecovery
begin

text \<open>
  A model of mediated-mailbox, a mail server for agents: it indexes mailboxes, masks one-time codes, and
  hands out a message's body only when the operator's policy and a scan of the content allow it. The
  theories translate the Go packages that decide; around them the shells read a database, call a mail
  provider and write answers.

  \<^bold>\<open>The parts and how they interact.\<close> Workers index messages (\<open>core/index\<close>, \<open>worker\<close>) through a mail provider
  (\<open>core/mail\<close>), at a rate \<open>ratelimit\<close> leases out of the database, and scan some of the bodies
  (\<open>core/scan\<close>, \<open>core/scangate\<close>). The policy (\<open>core/policy\<close>) and the classifier (\<open>core/classify\<close>) say whose
  mail is restricted. The API server (\<open>api\<close>) answers an agent's calls: the registry finds the operation
  and the account, the redaction gate (\<open>core/redact\<close>) decides whether a body may be seen, and the release
  step checks and delimits what is handed over. The UI (\<open>ui\<close>) shows an operator what was recorded, edits
  the policy and connects accounts.

  \<^bold>\<open>Which theory models what.\<close>
  \<^item> \<open>Prelude\<close>, \<open>GoText\<close>, \<open>Utf8\<close>, \<open>Float64\<close>: Go itself. 64-bit integers are words read with \<open>sint\<close>, and sums
    wrap; a string is a list of bytes, its runes decoded as \<open>unicode/utf8\<close> does; a float64 is not a number,
    an infinity or a rational rounded half to even after each operation. The Unicode tables a function of
    \<open>strings\<close> consults are a field of the record \<open>unicode\<close>.
  \<^item> \<open>Sensitivity\<close>, \<open>Authorize\<close>, \<open>Policy\<close>, \<open>Classify\<close>, \<open>Redact\<close>, \<open>ScanGate\<close>, \<open>IndexCore\<close>: the packages of the
    same names under \<open>core\<close>. \<open>Policy\<close> has the rows, their validation, the immutable snapshot and the swap
    that replaces it; \<open>Redact\<close> has the gate's decision and the masking of subjects.
  \<^item> \<open>Automaton\<close>, \<open>Scan\<close>, \<open>ScanFacts\<close>: \<open>core/scan\<close>, the automaton of the keywords, the detections of both
    tiers over byte offsets, and what they guarantee.
  \<^item> \<open>MailModel\<close>, \<open>MailAttachment\<close>: \<open>core/mail\<close>, with the body fetch of \<open>ratelimit/lease\<close>.
  \<^item> \<open>RateLimits\<close>, \<open>RateFacts\<close>, \<open>Leases\<close>: \<open>ratelimit/core\<close>, the controller, the latency baseline and the
    issue of a lease from a bucket and a window.
  \<^item> \<open>Limiter\<close>, \<open>LimiterFacts\<close>: \<open>ratelimit/lease\<close> over the rows and statements of \<open>db/ratestate/limiter\<close>: an ask, a
    report, the loop that asks until it is granted, and a call made under a lease.
  \<^item> \<open>Backfill\<close>, \<open>BackfillFacts\<close>, \<open>DeltaSync\<close>: the decisions under \<open>worker/internal/core\<close>.
  \<^item> \<open>MailIndex\<close>: an account's rows as \<open>db/migrations\<close> declares them, and the statements backfill runs on them.
  \<^item> \<open>PassWorld\<close>: what both of backfill's passes run in. What the database answers to a transaction, what the
    provider answers to a call, and when a process stops, is the environment's.
  \<^item> \<open>FirstPass\<close>, \<open>FirstPassFacts\<close>: \<open>worker/internal/backfill/pass1\<close> over an account's rows: a run opened, pages of
    the enumeration, subjects fetched again, retries, the end, and its store's transactions.
  \<^item> \<open>SecondPass\<close>, \<open>SecondPassFacts\<close>, \<open>SecondPassEnds\<close>: \<open>worker/internal/backfill/pass2\<close> over those rows: a run
    opened, its pages, its store's transactions, and the run-start step.
  \<^item> \<open>PassKeeps\<close>, \<open>SenderCounts\<close>: what the changes both passes make in a transaction keep, every run keeps.
  \<^item> \<open>BackfillJob\<close>: \<open>worker/internal/backfill/backfill.go\<close>: an account's run, the processes it has over time, and the
    accounts a reload serves.
  \<^item> \<open>SyncRows\<close>, \<open>SyncTick\<close>: \<open>worker/internal/deltasync/tick\<close>: the rows delta sync has beside backfill's, its store's
    transactions and the statements of \<open>db/messages/change\<close>, and a tick over them: change sets applied with
    their cursor, the first window, a gap's recovery, and a bounded number of waiting messages scanned.
  \<^item> \<open>SyncKeeps\<close>, \<open>SyncCounts\<close>, \<open>SyncCursor\<close>, \<open>SyncRecovery\<close>: what each transaction of a tick keeps, every tick keeps;
    the senders' rows, the cursor beside the messages held, and what a recovery removes.
  \<^item> \<open>Scheduler\<close>: \<open>worker/internal/schedule\<close>, one job's loop and the scheduler as a step relation.
  \<^item> \<open>Release\<close>, \<open>Json\<close>, \<open>Registry\<close>, \<open>Surface\<close>, \<open>BodyService\<close>: \<open>api/internal\<close>, the release step, the operation
    registry, the failures and presented messages, and one body request as the events it causes.
  \<^item> \<open>RuleEdits\<close>, \<open>Lens\<close>, \<open>Attention\<close>, \<open>UiConfig\<close>: the decisions under \<open>ui/internal/core\<close>: what an edit of
    the policy changes, which dataset requests are accepted, the cards of Home, and the configuration.
  \<^item> \<open>Datasets\<close>, \<open>PolicyScreens\<close>: \<open>ui/internal/registry\<close>, the catalogue of datasets and the rules screens.
  \<^item> \<open>Connect\<close>: \<open>ui/internal/api/connect.go\<close>, a consent attempt from its start to what its finish stores.
  \<^item> \<open>Transactions\<close>: \<open>db/tx\<close>, the units of work both kinds of transaction run.

  A definition has the source's name where Isabelle allows it, in snake case, and a method's receiver is
  its first argument. A Go struct is a record, an enumeration a datatype, an error a value on the left of a
  sum or in an option, an interface a record of functions or a function argument. Shells that call
  several services are modelled as the list of events they cause with their answer.

  \<^bold>\<open>What the lemmas show.\<close> Of the gate: which stored states release a body, that a body with a code on a
  line of its own is never released, that a served text is the released text, that nobody is asked for a
  denied body, and that each answer has its audit row. Of the policy: an update is all or nothing, an
  overlay only restricts, the classifier's loops agree with a declarative reading, and the screens and
  the import say what the classifier will do. Of the rate limits: the hard cap in any second over any
  history of requests, over the rows it stores too, whatever order statements of several processes take
  and whichever fail, the controller's range, with float64 rounding, and that a quiet account's ask is granted.
  Of the workers: a scheduler that never
  runs a job twice at once, keeps its phase and backs off without overflow. Of backfill, stopped
  anywhere and taken up again however often, under other scanners and policies each time: once the first pass
  is recorded as ended every message the provider enumerates is in the index, once the second is a message
  waits only if a failed item of it is on record, a sender's statistics are always the counts they stand for,
  and no body is asked for of a sender the policy restricts. Of delta sync, over any ticks and stopped
  anywhere: the cursor is never ahead of the index, which holds what the change sets before the cursor make of it, a
  tick nothing disturbs catches up, a gap's recovery removes no message the provider holds, and a sender has a row
  exactly where a message of its domain is held. Of the UI: every accepted request names only
  what is declared, and finds its statements and the reading of its filters (not that it is answered: a page
  number near the top of 64 bits wraps to a negative offset, which \<open>Datasets\<close> and \<open>PolicyScreens\<close> show); a consent stores what the session's
  attempt was for and nothing else, and a refused one nothing, but for a COMMIT that errs after it took effect.
  The theory at hand holds the properties that span components.

  \<^bold>\<open>Termination and bounds.\<close> Every definition but one is a total function, its loops recursing on lists or a
  measure; no fuel is used, and the number of steps a process lives to run is an input of \<open>first_steps\<close> and \<open>second_pages\<close>,
  as the number of change sets and of pages it lives to ask for is of \<open>follow_changes\<close> and \<open>reconcile\<close>, which have no bound
  of their own; \<open>undisturbed_tick_catches_up\<close> says how many are enough. The
  retries of a page, a call and a body end by the bound on their attempts (\<open>fetch_page\<close>, \<open>fetch_metadata\<close>, \<open>fetch_body\<close>). The one is \<open>acquire_from\<close> of \<open>Limiter\<close>, which asks until it is granted and whose
  result is None where it never is. Numbers keep their width: counters, instants and pages are 64-bit words, a
  statement's offset is 32-bit, and a conversion that truncates is written out. A loop of the source that
  can index out of range has an option, so that a panic is the value None.

  \<^bold>\<open>Interfaces.\<close> A machine driven by inputs with an invariant is a locale of \<open>Prelude\<close>, interpreted for the
  policy's updates, the rate controller and the leases; rounding to a float format is a locale of
  \<open>Float64\<close>, interpreted for both widths; a unit of work that stores all its writes or none, and tells of an error it met, is a locale of
  \<open>Transactions\<close>, interpreted for the transaction of an account and the one of the base policy. What the changes of a pass keep is
  a chain of locales of \<open>PassKeeps\<close>, a predicate of the rows with the laws each change has to respect, and the
  runs that keep it as its lemmas; they are interpreted for the senders' statistics, and the second pass's for the
  rows the first stands on. What the transactions of a tick keep is a pair of locales of \<open>SyncKeeps\<close> the same way,
  interpreted for the senders' rows, for the cursor, and for what a recovery has done so far.

  \<^bold>\<open>Parameters.\<close> Packages that are not in the repository are arguments: punycode and the public suffix
  list (\<open>lookups\<close>), \<open>math.Log2\<close>, the Markdown converter, the seal of a credential, a provider's answers and
  the rows a statement returns.

  \<^bold>\<open>Not modelled.\<close> The generated statements under \<open>db\<close> other than those of the limiter, of backfill and of delta sync, whose
  meaning is PostgreSQL's; the provider adapters under \<open>provider\<close>, the fake provider and its contract suite, whose work is calls of
  a mail service; process plumbing (\<open>process\<close>, \<open>api/app\<close>, \<open>cli\<close>, \<open>executioncontext\<close>), which starts servers and
  loads settings; how the jobs of backfill and delta sync are built, their
  sessions and their logs; the media of attachments; the recovery of a panic, which no modelled function raises; the Markdown conversion under \<open>content\<close>; the
  JSON schemas and the browser code of the UI; and the test support. In \<open>MailIndex\<close> identifiers compare by
  their bytes, where the database compares them under its collation, and runs are ordered as they were
  inserted, where the database orders them by their start. A request the client cancels
  midway and the logs and metrics a handler writes are left out of the models of the handlers.
\<close>

section \<open>The policy in force\<close>

text \<open>
  C25. An update of the policy is all or nothing. It is accepted exactly when every row is valid and no
  scope repeats an identifier; accepted, each account is decided by the base rows and then its own, in
  row order; refused, every account is decided as before, and at least one problem is reported.
\<close>

theorem policy_update_is_all_or_nothing:
  "let (next, res) = swap u active rows in
     (o_accepted res \<longleftrightarrow> valid_rows u rows) \<and>
     (o_accepted res \<longleftrightarrow> o_problems res = []) \<and>
     snapshot_for next account =
       (if \<not> o_accepted res then snapshot_for active account
        else if account = [] then zero_composed
        else \<lparr>c_loaded = True, c_rules = map rule_of (filter (\<lambda>r. row_account r = []) rows) @
                map rule_of (filter (\<lambda>r. row_account r = account) rows)\<rparr>)"
  using load_rows_problems [of u rows] load_rows_for [of account u rows]
  by (auto simp: swap_cases rules_of_def snapshot_for_def)

text \<open>
  C24. The classifier restricts exactly the senders the policy in force describes: everyone when no
  policy was ever loaded, every sender whose address gives no name the public suffix list knows, and
  every sender whose name lies under a suffix of a rule. It names a rule only for the last, and that
  rule is one of the policy's, with the scope it has there and a suffix the sender's name is under.
\<close>

theorem classifier_restricts_what_the_policy_says:
  "let v = classify u (prepare u c l) sender in
     (restricted (cv_class v) \<longleftrightarrow> restricts u l c sender) \<and>
     (restricted (cv_class v) \<longleftrightarrow> cv_reason v \<noteq> Unlisted) \<and>
     (cv_reason v = NoPolicy \<longleftrightarrow> \<not> c_loaded c) \<and>
     (if cv_reason v = Listed
      then list_ex (\<lambda>r. rule_id r = cv_rule v \<and> rule_scope r = cv_scope v \<and>
             list_ex (\<lambda>s. under (the (address_name u l sender)) (suffix_name u s l)) (rule_suffixes r)) (c_rules c)
      else cv_rule v = [] \<and> cv_scope v = NoScope)"
  using classify_restricts [of u c l sender] classify_unlisted_iff [of u "prepare u c l" sender]
    classify_listed [of u c l sender]
  by (auto simp: Let_def classify_no_policy classify_names)

text \<open>
  A name matches a suffix at the boundary of a label and nowhere else: the labels of the suffix are
  the last labels of the name.
\<close>

lemma suffix_matches_whole_labels:
  "under n suffix \<longleftrightarrow> form n \<noteq> [] \<and>
     (\<exists>ls. split_byte CHR ''.'' (form n) = ls @ split_byte CHR ''.'' (form suffix))"
  by (rule under_labels)

text \<open>
  C26. An account's overlay only adds: a sender is restricted for the account exactly when the base
  policy alone restricts it or the overlay alone does, so no overlay row releases what the base
  restricts, and no row of another account's overlay decides anything.
\<close>

theorem overlay_only_adds_restrictions:
  "let class_under = (\<lambda>s. restricted (cv_class (classify u (prepare u (snapshot_for s account) l) sender))) in
     class_under s \<longleftrightarrow>
       class_under (s\<lparr>sn_overlays := Map.empty\<rparr>) \<or>
       class_under (s\<lparr>sn_base := [], sn_overlays := (sn_overlays s) |` {account}\<rparr>)"
  unfolding Let_def classify_restricts
  by (auto simp: restricts_def snapshot_for_def restricts_all_def zero_composed_def overlay_of_def restrict_map_def
      split: option.splits)

section \<open>From a scan to the gate\<close>

text \<open>
  C2. A code alone on its line never reaches a client. A message scanned with it stores the flag, so the
  gate denies it under every policy, with the flag or the sender as its reason; and one the scan gate
  skipped is denied by the check run as it is served.
\<close>

theorem code_on_its_own_line_is_never_released:
  assumes "s_built s"
    and "a = [] \<or> last a = newline" "b = [] \<or> hd b = newline"
    and "set p \<subseteq> set decoration" "set q \<subseteq> set decoration"
    and "\<forall>c \<in> set ds. is_digit c" "4 \<le> length ds" "length ds \<le> 8"
  shows "let text = a @ (p @ ds @ q) @ b; stored = index_scan u lg s text;
       v = gate_decide u pol sender (sd_flags stored) Scanned;
       d = decide_release u lg \<lparr>c_body = text, c_snippet = snip, c_names = names\<rparr> SkippedGate s in
     \<not> gate_releases v \<and> rv_reason v \<in> {RestrictedSender, ContentFlagged} \<and>
     d_reason d = PatternMatched \<and> released d = (zero_content, False)"
proof -
  let ?text = "a @ (p @ ds @ q) @ b"
  note flagged = own_line_flagged [OF assms, of u lg]
  have stored: "any_flag (sd_flags (index_scan u lg s ?text))"
    using flagged(3) by (simp add: index_scan_def Let_def any_flag_def)
  have "matches u lg s ?text" using flagged(2) by (simp add: matches_def any_flag_def)
  then have "d_reason (decide_release u lg \<lparr>c_body = ?text, c_snippet = snip, c_names = names\<rparr> SkippedGate s) = PatternMatched"
    using assms(1) by (simp add: decide_release_cases to_check_def)
  then show ?thesis
    using stored by (auto simp: Let_def gate_releases_reason gate_decide_def decide_release_released)
qed

theorem code_on_its_own_line_is_never_released_witness:
  "let text = [newline] @ (''** '' @ ''419283'' @ '' **'') @ [newline];
       stored = index_scan ascii_tables (\<lambda>x. x) (zero_scanner\<lparr>s_built := True\<rparr>) text;
       v = gate_decide ascii_tables (prepare ascii_tables \<lparr>c_loaded = True, c_rules = []\<rparr>
             \<lparr>l_to_unicode = Some, l_to_ascii = Some, l_registrable = Some\<rparr>) ''a@b.c'' (sd_flags stored) Scanned;
       d = decide_release ascii_tables (\<lambda>x. x) \<lparr>c_body = text, c_snippet = [], c_names = []\<rparr> SkippedGate
             (zero_scanner\<lparr>s_built := True\<rparr>) in
     \<not> gate_releases v \<and> rv_reason v \<in> {RestrictedSender, ContentFlagged} \<and>
     d_reason d = PatternMatched \<and> released d = (zero_content, False)"
  by (rule code_on_its_own_line_is_never_released)
     (simp_all add: decoration_def is_digit_def ascii_digit_def)

section \<open>The mailbox port\<close>

text \<open>
  Whatever the port answers, a body fetch asks at most twice: once for the part first named and, only
  when that named none and the answer held a part apart, once for that part; the second call is
  decided by what the first one was told.
\<close>

lemma body_fetch_asks_at_most_twice:
  "let (parts, result) = body_calls fetch asked in
     parts \<noteq> [] \<and> hd parts = asked \<and> length parts \<le> 2 \<and> result = fetch (last parts) \<and>
     (length parts = 2 \<longleftrightarrow> asked = [] \<and>
        (case fetch asked of Inr _ \<Rightarrow> False
         | Inl e \<Rightarrow> (case as_held_apart e of None \<Rightarrow> False | Some part \<Rightarrow> part \<noteq> [] \<and> parts = [asked, part])))"
  using body_calls_shape [of fetch asked] by (simp add: case_prod_beta)

text \<open>
  Every operation a caller can hold is the zero one or carries a message and exactly the labels its
  verb takes: one to add, one to remove, two different ones, or none. Only the zero one is not built.
\<close>

lemma operations_carry_what_their_verb_takes:
  assumes "constructible x"
  shows "(op_built x \<longleftrightarrow> x \<noteq> zero_op) \<and> (op_message x = [] \<longleftrightarrow> x = zero_op) \<and>
     (case op_verb x of
        LabelVerb \<Rightarrow> op_add x \<noteq> [] \<and> op_remove x = []
      | Unlabel \<Rightarrow> op_add x = [] \<and> op_remove x \<noteq> []
      | Move \<Rightarrow> op_add x \<noteq> [] \<and> op_remove x \<noteq> [] \<and> op_add x \<noteq> op_remove x
      | OtherVerb \<Rightarrow> False
      | _ \<Rightarrow> op_add x = [] \<and> op_remove x = [])"
  using constructible_shape [OF assms] constructible_message [OF assms] by (simp add: op_shape_def)

text \<open>
  A query is valid exactly when nothing in it is the zero query and no label or address in it is
  empty, however deep the conjunctions nest.
\<close>

lemma query_is_valid_when_its_leaves_are:
  assumes "query_built q"
  shows "query_valid q \<longleftrightarrow>
     list_all (\<lambda>n. q_kind n \<noteq> NoQuery \<and> (if q_kind n \<in> {QueryInLabel, QueryFrom} then q_text n \<noteq> [] else True)) (leaves q)"
  unfolding built_valid_iff_leaves [OF assms] by (rule list.pred_cong [OF refl]) (simp split: if_split)

text \<open>
  A call is sized as large as the hard cap allows: it names at least one identifier and at most those
  there are, unless there are none; a call of more than one fits; and naming one more would not fit.
\<close>

lemma call_is_as_large_as_the_cap_allows:
  "let limit = fmul hard_cap_fraction per_second; n = call_size cost per_second most in
     1 \<le> n \<and> (n = 1 \<or> int n \<le> sint most \<and> fle (cost n) limit) \<and>
     (if int n < sint most then \<not> fle (cost (n + 1)) limit else True)"
proof -
  note spec = call_size_from_spec [where n = 1 and cost = cost and limit = "fmul hard_cap_fraction per_second"
      and most = most]
  show ?thesis using spec(1,2,4) unfolding Let_def call_size_def by (auto simp: le_less)
qed

end
